(* ===== verification/Prelude.thy ===== *)
theory Prelude
  imports Main "HOL-Library.Word"
begin

text \<open>
  What every component of the development shares: the names of the machine
  types, the byte codecs the C code gets from \<^verbatim>\<open>memcpy\<close> and \<^verbatim>\<open>endian.h\<close>
  (a little-endian host, as the x86-64 JIT and the bit-field layout of
  \<^verbatim>\<open>struct ebpf_inst\<close> suppose), byte buffers with a checked read and write,
  and two interfaces as locales: a fixed-width codec, and a deterministic
  machine that either takes one more step or stops.  The collections
  \<open>ebpf_ops\<close>, \<open>x86_consts\<close> and \<open>usb_consts\<close> hold the numeric values of the
  constants that the C headers define.
\<close>

unbundle bit_operations_syntax

named_theorems ebpf_ops \<open>values of the opcode constants of ebpf.h\<close>
named_theorems x86_consts \<open>values of the register numbers of the x86-64 emitter\<close>
named_theorems usb_consts \<open>values of the constants of libusb.h\<close>

type_synonym byte = "8 word"
type_synonym u16 = "16 word"
type_synonym u32 = "32 word"
type_synonym u64 = "64 word"

section \<open>Bytes of a word\<close>

primrec le_bytes :: "nat \<Rightarrow> 'a::len word \<Rightarrow> byte list" where
  "le_bytes 0 w = []"
| "le_bytes (Suc n) w = ucast w # le_bytes n (drop_bit 8 w)"

primrec le_word :: "byte list \<Rightarrow> 'a::len word" where
  "le_word [] = 0"
| "le_word (b # bs) = ucast b OR push_bit 8 (le_word bs)"

definition be_bytes :: "nat \<Rightarrow> 'a::len word \<Rightarrow> byte list" where
  "be_bytes n w = rev (le_bytes n w)"

definition be_word :: "byte list \<Rightarrow> 'a::len word" where
  "be_word bs = le_word (rev bs)"

lemma length_le_bytes [simp]: "length (le_bytes n w) = n"
  by (induction n arbitrary: w) auto

lemma length_be_bytes [simp]: "length (be_bytes n w) = n"
  by (simp add: be_bytes_def)

lemma bit_le_word:
  "bit (le_word bs :: 'a::len word) i \<longleftrightarrow>
     i < LENGTH('a) \<and> i < 8 * length bs \<and> bit (bs ! (i div 8)) (i mod 8)"
proof (induction bs arbitrary: i)
  case Nil
  then show ?case by simp
next
  case (Cons b bs)
  show ?case
  proof (cases "i < 8")
    case True
    then show ?thesis
      by (auto simp: bit_simps)
  next
    case False
    then obtain j where j: "i = 8 + j"
      using le_Suc_ex not_less by blast
    have "\<not> bit b (8 + j)"
      using bit_imp_le_length [of b "8 + j"] by auto
    moreover have "(b # bs) ! (i div 8) = bs ! (j div 8)" "i mod 8 = j mod 8"
      unfolding j by (simp_all add: div_add_self1)
    ultimately show ?thesis
      unfolding j by (auto simp: bit_simps Cons.IH)
  qed
qed

lemma nth_le_bytes:
  "k < n \<Longrightarrow> le_bytes n w ! k = ucast (drop_bit (8 * k) w)"
proof (induction n arbitrary: w k)
  case 0
  then show ?case by simp
next
  case (Suc n)
  then show ?case
    by (cases k) (simp_all add: drop_bit_drop_bit ac_simps)
qed

lemma le_word_le_bytes: "le_word (le_bytes n w) = (take_bit (8 * n) w :: 'a::len word)"
proof (rule bit_word_eqI)
  fix i assume "i < LENGTH('a)"
  then show "bit (le_word (le_bytes n w) :: 'a word) i \<longleftrightarrow> bit (take_bit (8 * n) w) i"
    by (auto simp: bit_le_word bit_simps nth_le_bytes mult.commute [of 8]
        less_mult_imp_div_less)
qed

lemma take_bit_word_full: "LENGTH('a) \<le> n \<Longrightarrow> take_bit n (w :: 'a::len word) = w"
  by (rule bit_word_eqI) (simp add: bit_simps)

lemma unat_ucast_up:
  assumes "LENGTH('a::len) \<le> LENGTH('b::len)"
  shows "unat (ucast (w :: 'a word) :: 'b word) = unat w"
proof -
  have "unat w < 2 ^ LENGTH('a)" by (rule unsigned_less)
  also have "\<dots> \<le> 2 ^ LENGTH('b)" using assms by (simp add: power_increasing)
  finally show ?thesis by (simp add: unsigned_ucast_eq take_bit_nat_eq_self)
qed

lemma le_bytes_le_word:
  assumes "8 * length bs \<le> LENGTH('a::len)"
  shows "le_bytes (length bs) (le_word bs :: 'a word) = bs"
proof (rule nth_equalityI)
  fix k assume "k < length (le_bytes (length bs) (le_word bs :: 'a word))"
  then have k: "k < length bs" by simp
  show "le_bytes (length bs) (le_word bs :: 'a word) ! k = bs ! k"
  proof (rule bit_word_eqI)
    fix i assume i: "i < LENGTH(8)"
    then have "8 * k + i < 8 * length bs" using k by simp
    moreover have "(8 * k + i) div 8 = k" "(8 * k + i) mod 8 = i" using i by auto
    ultimately show "bit (le_bytes (length bs) (le_word bs :: 'a word) ! k) i = bit (bs ! k) i"
      using assms i by (simp add: nth_le_bytes [OF k] bit_simps bit_le_word)
  qed
qed simp

lemma le_bytes_le_word_width:
  "length bs = n \<Longrightarrow> 8 * n \<le> LENGTH('a::len) \<Longrightarrow> le_bytes n (le_word bs :: 'a word) = bs"
  using le_bytes_le_word by auto

lemma be_word_be_bytes: "be_word (be_bytes n w) = take_bit (8 * n) w"
  by (simp add: be_word_def be_bytes_def le_word_le_bytes)

lemma be_bytes_be_word_width:
  "length bs = n \<Longrightarrow> 8 * n \<le> LENGTH('a::len) \<Longrightarrow> be_bytes n (be_word bs :: 'a word) = bs"
  by (simp add: be_word_def be_bytes_def le_bytes_le_word_width)

section \<open>The codec interface\<close>

locale word_codec =
  fixes enc :: "'a::len word \<Rightarrow> byte list"
    and dec :: "byte list \<Rightarrow> 'a word"
    and width :: nat
  assumes length_enc: "length (enc w) = width"
    and dec_enc: "dec (enc w) = w"
    and enc_dec: "length bs = width \<Longrightarrow> enc (dec bs) = bs"
begin

lemma enc_inj: "enc v = enc w \<longleftrightarrow> v = w"
  using dec_enc by metis

lemma dec_inj: "length bs = width \<Longrightarrow> length cs = width \<Longrightarrow> dec bs = dec cs \<longleftrightarrow> bs = cs"
  using enc_dec by metis

lemma dec_take_enc: "dec (take width (enc w @ rest)) = w"
  by (simp add: length_enc dec_enc)

end

interpretation le16: word_codec "le_bytes 2 :: u16 \<Rightarrow> _" le_word 2
  by unfold_locales (simp_all add: le_word_le_bytes take_bit_word_full le_bytes_le_word_width)

interpretation le32: word_codec "le_bytes 4 :: u32 \<Rightarrow> _" le_word 4
  by unfold_locales (simp_all add: le_word_le_bytes take_bit_word_full le_bytes_le_word_width)

interpretation le64: word_codec "le_bytes 8 :: u64 \<Rightarrow> _" le_word 8
  by unfold_locales (simp_all add: le_word_le_bytes take_bit_word_full le_bytes_le_word_width)

interpretation be32: word_codec "be_bytes 4 :: u32 \<Rightarrow> _" be_word 4
  by unfold_locales (simp_all add: be_word_be_bytes take_bit_word_full be_bytes_be_word_width)

section \<open>Byte buffers\<close>

lemma less_div_imp_mult_le: "Suc j * c \<le> n" if "j < n div c" for j c n :: nat
proof -
  have "0 < c" using that by (cases c) simp_all
  then show ?thesis using that by (simp add: Suc_le_eq [symmetric] less_eq_div_iff_mult_less_eq)
qed

definition buf_read :: "byte list \<Rightarrow> nat \<Rightarrow> nat \<Rightarrow> byte list option" where
  "buf_read buf off n = (if off + n \<le> length buf then Some (take n (drop off buf)) else None)"

definition buf_write :: "byte list \<Rightarrow> nat \<Rightarrow> byte list \<Rightarrow> byte list option" where
  "buf_write buf off data =
     (if off + length data \<le> length buf
      then Some (take off buf @ data @ drop (off + length data) buf) else None)"

lemma buf_write_length: "buf_write buf off data = Some buf' \<Longrightarrow> length buf' = length buf"
  by (auto simp: buf_write_def split: if_splits)

lemma buf_read_write_same:
  "buf_write buf off data = Some buf' \<Longrightarrow> buf_read buf' off (length data) = Some data"
  by (auto simp: buf_write_def buf_read_def split: if_splits)

lemma buf_write_nth:
  "buf_write buf off data = Some buf' \<Longrightarrow> i < length buf \<Longrightarrow>
     buf' ! i = (if off \<le> i \<and> i < off + length data then data ! (i - off) else buf ! i)"
  by (auto simp: buf_write_def nth_append split: if_splits)

lemma buf_read_write_disjoint:
  assumes w: "buf_write buf off data = Some buf'"
    and disj: "i + n \<le> off \<or> off + length data \<le> i"
  shows "buf_read buf' i n = buf_read buf i n"
proof (cases "i + n \<le> length buf")
  case True
  have "take n (drop i buf') = take n (drop i buf)"
    using True disj buf_write_length [OF w]
    by (intro nth_equalityI) (auto simp: buf_write_nth [OF w])
  with True buf_write_length [OF w] show ?thesis by (simp add: buf_read_def)
next
  case False
  with buf_write_length [OF w] show ?thesis by (simp add: buf_read_def)
qed

section \<open>Computations that may fail\<close>

fun bindE :: "'e + 'a \<Rightarrow> ('a \<Rightarrow> 'e + 'b) \<Rightarrow> 'e + 'b" where
  "bindE (Inl e) f = Inl e"
| "bindE (Inr x) f = f x"

lemma bindE_Inr_iff: "bindE m f = Inr y \<longleftrightarrow> (\<exists>x. m = Inr x \<and> f x = Inr y)"
  by (cases m) auto

lemma bindE_Inl_iff: "bindE m f = Inl e \<longleftrightarrow> m = Inl e \<or> (\<exists>x. m = Inr x \<and> f x = Inl e)"
  by (cases m) auto

lemma bindE_cong [fundef_cong]:
  "m = m' \<Longrightarrow> (\<And>x. m' = Inr x \<Longrightarrow> f x = f' x) \<Longrightarrow> bindE m f = bindE m' f'"
  by (cases m') auto

lemma bindE_assoc: "bindE (bindE m f) g = bindE m (\<lambda>x. bindE (f x) g)"
  by (cases m) auto

section \<open>Deterministic machines\<close>

text \<open>
  A machine is a step function that yields either the next state or a final
  answer.  \<open>run\<close> spends one unit of fuel per step and is \<open>None\<close> when the fuel
  is gone; \<open>reach\<close> is reachability in any number of steps.
\<close>

primrec run :: "('s \<Rightarrow> 's + 'r) \<Rightarrow> nat \<Rightarrow> 's \<Rightarrow> 'r option" where
  "run step 0 s = None"
| "run step (Suc n) s = (case step s of Inl s' \<Rightarrow> run step n s' | Inr r \<Rightarrow> Some r)"

inductive reach :: "('s \<Rightarrow> 's + 'r) \<Rightarrow> 's \<Rightarrow> 's \<Rightarrow> bool" for step where
  reach_refl: "reach step s s"
| reach_step: "reach step s t \<Longrightarrow> step t = Inl u \<Longrightarrow> reach step s u"

lemma reach_converse_step: "reach step t u \<Longrightarrow> step s = Inl t \<Longrightarrow> reach step s u"
  by (induction rule: reach.induct) (auto intro: reach.intros)

locale machine =
  fixes step :: "'s \<Rightarrow> 's + 'r"
    and inv :: "'s \<Rightarrow> bool"
  assumes inv_step: "inv s \<Longrightarrow> step s = Inl s' \<Longrightarrow> inv s'"
begin

lemma run_Suc_mono: "run step n s = Some r \<Longrightarrow> run step (Suc n) s = Some r"
proof (induction n arbitrary: s)
  case (Suc n)
  then show ?case by (cases "step s") (simp_all del: run.simps(2) add: run.simps(2) [of step n]
        run.simps(2) [of step "Suc n" s])
qed simp

lemma run_mono: "run step n s = Some r \<Longrightarrow> n \<le> m \<Longrightarrow> run step m s = Some r"
proof (induction m)
  case 0
  then show ?case by simp
next
  case (Suc m)
  then show ?case using run_Suc_mono by (cases "n = Suc m") (auto simp del: run.simps)
qed

lemma run_deterministic:
  "run step n s = Some r \<Longrightarrow> run step m s = Some r' \<Longrightarrow> r = r'"
  using run_mono [of n s r "max n m"] run_mono [of m s r' "max n m"] by simp

lemma reach_inv: "reach step s t \<Longrightarrow> inv s \<Longrightarrow> inv t"
  by (induction rule: reach.induct) (auto intro: inv_step)

text \<open>An answer is produced by a step from a reachable state that keeps the invariant.\<close>

lemma run_final:
  "run step n s = Some r \<Longrightarrow> \<exists>t. reach step s t \<and> step t = Inr r"
proof (induction n arbitrary: s)
  case 0
  then show ?case by simp
next
  case (Suc n)
  show ?case
  proof (cases "step s")
    case (Inl s')
    with Suc.prems have "run step n s' = Some r" by simp
    then obtain t where "reach step s' t" "step t = Inr r" using Suc.IH by blast
    with Inl show ?thesis by (blast intro: reach_converse_step)
  next
    case (Inr r')
    with Suc.prems show ?thesis by (auto intro: reach.intros)
  qed
qed

lemma run_final_inv:
  assumes "run step n s = Some r" "inv s"
  obtains t where "inv t" "reach step s t" "step t = Inr r"
  using run_final [OF assms(1)] reach_inv assms(2) by blast

text \<open>A measure that every step from an invariant state lowers bounds the fuel.\<close>

lemma run_terminates:
  assumes dec: "\<And>t t'. inv t \<Longrightarrow> step t = Inl t' \<Longrightarrow> m t' < (m t :: nat)"
    and "inv s" "m s < n"
  shows "\<exists>r. run step n s = Some r"
  using assms(2,3)
proof (induction n arbitrary: s)
  case 0
  then show ?case by simp
next
  case (Suc n)
  show ?case
  proof (cases "step s")
    case (Inl s')
    with Suc.prems dec have "m s' < n" by fastforce
    moreover have "inv s'" using Inl Suc.prems inv_step by blast
    ultimately show ?thesis using Suc.IH Inl by simp
  qed simp
qed

end

end
