(* ===== verification/Ebpf.thy ===== *)
theory Ebpf
  imports Prelude
begin

text \<open>
  The instruction format of \<^verbatim>\<open>tools/ubpf/vm/ebpf.h\<close>: the opcode constants, built
  from class, source, size and mode fields as the header builds them, and
  \<^verbatim>\<open>struct ebpf_inst\<close> with its eight-byte memory layout (bit-fields allocated
  from the low bit, little-endian \<^verbatim>\<open>offset\<close> and \<^verbatim>\<open>imm\<close>).  \<open>decode_inst\<close> is how a
  \<^verbatim>\<open>memcpy\<close> of code bytes is read back as instructions; \<open>encode_inst\<close> is its
  inverse, the specification of the layout.
\<close>

section \<open>Opcode constants\<close>

definition EBPF_CLS_MASK :: byte where "EBPF_CLS_MASK = 0x07"
definition EBPF_ALU_OP_MASK :: byte where "EBPF_ALU_OP_MASK = 0xf0"
definition EBPF_CLS_LD :: byte where "EBPF_CLS_LD = 0x00"
definition EBPF_CLS_LDX :: byte where "EBPF_CLS_LDX = 0x01"
definition EBPF_CLS_ST :: byte where "EBPF_CLS_ST = 0x02"
definition EBPF_CLS_STX :: byte where "EBPF_CLS_STX = 0x03"
definition EBPF_CLS_ALU :: byte where "EBPF_CLS_ALU = 0x04"
definition EBPF_CLS_JMP :: byte where "EBPF_CLS_JMP = 0x05"
definition EBPF_CLS_ALU64 :: byte where "EBPF_CLS_ALU64 = 0x07"
definition EBPF_SRC_IMM :: byte where "EBPF_SRC_IMM = 0x00"
definition EBPF_SRC_REG :: byte where "EBPF_SRC_REG = 0x08"
definition EBPF_SIZE_W :: byte where "EBPF_SIZE_W = 0x00"
definition EBPF_SIZE_H :: byte where "EBPF_SIZE_H = 0x08"
definition EBPF_SIZE_B :: byte where "EBPF_SIZE_B = 0x10"
definition EBPF_SIZE_DW :: byte where "EBPF_SIZE_DW = 0x18"
definition EBPF_MODE_IMM :: byte where "EBPF_MODE_IMM = 0x00"
definition EBPF_MODE_MEM :: byte where "EBPF_MODE_MEM = 0x60"
definition EBPF_OP_ADD_IMM :: byte where "EBPF_OP_ADD_IMM = EBPF_CLS_ALU OR EBPF_SRC_IMM OR 0x00"
definition EBPF_OP_ADD_REG :: byte where "EBPF_OP_ADD_REG = EBPF_CLS_ALU OR EBPF_SRC_REG OR 0x00"
definition EBPF_OP_SUB_IMM :: byte where "EBPF_OP_SUB_IMM = EBPF_CLS_ALU OR EBPF_SRC_IMM OR 0x10"
definition EBPF_OP_SUB_REG :: byte where "EBPF_OP_SUB_REG = EBPF_CLS_ALU OR EBPF_SRC_REG OR 0x10"
definition EBPF_OP_MUL_IMM :: byte where "EBPF_OP_MUL_IMM = EBPF_CLS_ALU OR EBPF_SRC_IMM OR 0x20"
definition EBPF_OP_MUL_REG :: byte where "EBPF_OP_MUL_REG = EBPF_CLS_ALU OR EBPF_SRC_REG OR 0x20"
definition EBPF_OP_DIV_IMM :: byte where "EBPF_OP_DIV_IMM = EBPF_CLS_ALU OR EBPF_SRC_IMM OR 0x30"
definition EBPF_OP_DIV_REG :: byte where "EBPF_OP_DIV_REG = EBPF_CLS_ALU OR EBPF_SRC_REG OR 0x30"
definition EBPF_OP_OR_IMM :: byte where "EBPF_OP_OR_IMM = EBPF_CLS_ALU OR EBPF_SRC_IMM OR 0x40"
definition EBPF_OP_OR_REG :: byte where "EBPF_OP_OR_REG = EBPF_CLS_ALU OR EBPF_SRC_REG OR 0x40"
definition EBPF_OP_AND_IMM :: byte where "EBPF_OP_AND_IMM = EBPF_CLS_ALU OR EBPF_SRC_IMM OR 0x50"
definition EBPF_OP_AND_REG :: byte where "EBPF_OP_AND_REG = EBPF_CLS_ALU OR EBPF_SRC_REG OR 0x50"
definition EBPF_OP_LSH_IMM :: byte where "EBPF_OP_LSH_IMM = EBPF_CLS_ALU OR EBPF_SRC_IMM OR 0x60"
definition EBPF_OP_LSH_REG :: byte where "EBPF_OP_LSH_REG = EBPF_CLS_ALU OR EBPF_SRC_REG OR 0x60"
definition EBPF_OP_RSH_IMM :: byte where "EBPF_OP_RSH_IMM = EBPF_CLS_ALU OR EBPF_SRC_IMM OR 0x70"
definition EBPF_OP_RSH_REG :: byte where "EBPF_OP_RSH_REG = EBPF_CLS_ALU OR EBPF_SRC_REG OR 0x70"
definition EBPF_OP_NEG :: byte where "EBPF_OP_NEG = EBPF_CLS_ALU OR 0x80"
definition EBPF_OP_MOD_IMM :: byte where "EBPF_OP_MOD_IMM = EBPF_CLS_ALU OR EBPF_SRC_IMM OR 0x90"
definition EBPF_OP_MOD_REG :: byte where "EBPF_OP_MOD_REG = EBPF_CLS_ALU OR EBPF_SRC_REG OR 0x90"
definition EBPF_OP_XOR_IMM :: byte where "EBPF_OP_XOR_IMM = EBPF_CLS_ALU OR EBPF_SRC_IMM OR 0xa0"
definition EBPF_OP_XOR_REG :: byte where "EBPF_OP_XOR_REG = EBPF_CLS_ALU OR EBPF_SRC_REG OR 0xa0"
definition EBPF_OP_MOV_IMM :: byte where "EBPF_OP_MOV_IMM = EBPF_CLS_ALU OR EBPF_SRC_IMM OR 0xb0"
definition EBPF_OP_MOV_REG :: byte where "EBPF_OP_MOV_REG = EBPF_CLS_ALU OR EBPF_SRC_REG OR 0xb0"
definition EBPF_OP_ARSH_IMM :: byte where "EBPF_OP_ARSH_IMM = EBPF_CLS_ALU OR EBPF_SRC_IMM OR 0xc0"
definition EBPF_OP_ARSH_REG :: byte where "EBPF_OP_ARSH_REG = EBPF_CLS_ALU OR EBPF_SRC_REG OR 0xc0"
definition EBPF_OP_LE :: byte where "EBPF_OP_LE = EBPF_CLS_ALU OR EBPF_SRC_IMM OR 0xd0"
definition EBPF_OP_BE :: byte where "EBPF_OP_BE = EBPF_CLS_ALU OR EBPF_SRC_REG OR 0xd0"
definition EBPF_OP_ADD64_IMM :: byte where "EBPF_OP_ADD64_IMM = EBPF_CLS_ALU64 OR EBPF_SRC_IMM OR 0x00"
definition EBPF_OP_ADD64_REG :: byte where "EBPF_OP_ADD64_REG = EBPF_CLS_ALU64 OR EBPF_SRC_REG OR 0x00"
definition EBPF_OP_SUB64_IMM :: byte where "EBPF_OP_SUB64_IMM = EBPF_CLS_ALU64 OR EBPF_SRC_IMM OR 0x10"
definition EBPF_OP_SUB64_REG :: byte where "EBPF_OP_SUB64_REG = EBPF_CLS_ALU64 OR EBPF_SRC_REG OR 0x10"
definition EBPF_OP_MUL64_IMM :: byte where "EBPF_OP_MUL64_IMM = EBPF_CLS_ALU64 OR EBPF_SRC_IMM OR 0x20"
definition EBPF_OP_MUL64_REG :: byte where "EBPF_OP_MUL64_REG = EBPF_CLS_ALU64 OR EBPF_SRC_REG OR 0x20"
definition EBPF_OP_DIV64_IMM :: byte where "EBPF_OP_DIV64_IMM = EBPF_CLS_ALU64 OR EBPF_SRC_IMM OR 0x30"
definition EBPF_OP_DIV64_REG :: byte where "EBPF_OP_DIV64_REG = EBPF_CLS_ALU64 OR EBPF_SRC_REG OR 0x30"
definition EBPF_OP_OR64_IMM :: byte where "EBPF_OP_OR64_IMM = EBPF_CLS_ALU64 OR EBPF_SRC_IMM OR 0x40"
definition EBPF_OP_OR64_REG :: byte where "EBPF_OP_OR64_REG = EBPF_CLS_ALU64 OR EBPF_SRC_REG OR 0x40"
definition EBPF_OP_AND64_IMM :: byte where "EBPF_OP_AND64_IMM = EBPF_CLS_ALU64 OR EBPF_SRC_IMM OR 0x50"
definition EBPF_OP_AND64_REG :: byte where "EBPF_OP_AND64_REG = EBPF_CLS_ALU64 OR EBPF_SRC_REG OR 0x50"
definition EBPF_OP_LSH64_IMM :: byte where "EBPF_OP_LSH64_IMM = EBPF_CLS_ALU64 OR EBPF_SRC_IMM OR 0x60"
definition EBPF_OP_LSH64_REG :: byte where "EBPF_OP_LSH64_REG = EBPF_CLS_ALU64 OR EBPF_SRC_REG OR 0x60"
definition EBPF_OP_RSH64_IMM :: byte where "EBPF_OP_RSH64_IMM = EBPF_CLS_ALU64 OR EBPF_SRC_IMM OR 0x70"
definition EBPF_OP_RSH64_REG :: byte where "EBPF_OP_RSH64_REG = EBPF_CLS_ALU64 OR EBPF_SRC_REG OR 0x70"
definition EBPF_OP_NEG64 :: byte where "EBPF_OP_NEG64 = EBPF_CLS_ALU64 OR 0x80"
definition EBPF_OP_MOD64_IMM :: byte where "EBPF_OP_MOD64_IMM = EBPF_CLS_ALU64 OR EBPF_SRC_IMM OR 0x90"
definition EBPF_OP_MOD64_REG :: byte where "EBPF_OP_MOD64_REG = EBPF_CLS_ALU64 OR EBPF_SRC_REG OR 0x90"
definition EBPF_OP_XOR64_IMM :: byte where "EBPF_OP_XOR64_IMM = EBPF_CLS_ALU64 OR EBPF_SRC_IMM OR 0xa0"
definition EBPF_OP_XOR64_REG :: byte where "EBPF_OP_XOR64_REG = EBPF_CLS_ALU64 OR EBPF_SRC_REG OR 0xa0"
definition EBPF_OP_MOV64_IMM :: byte where "EBPF_OP_MOV64_IMM = EBPF_CLS_ALU64 OR EBPF_SRC_IMM OR 0xb0"
definition EBPF_OP_MOV64_REG :: byte where "EBPF_OP_MOV64_REG = EBPF_CLS_ALU64 OR EBPF_SRC_REG OR 0xb0"
definition EBPF_OP_ARSH64_IMM :: byte where "EBPF_OP_ARSH64_IMM = EBPF_CLS_ALU64 OR EBPF_SRC_IMM OR 0xc0"
definition EBPF_OP_ARSH64_REG :: byte where "EBPF_OP_ARSH64_REG = EBPF_CLS_ALU64 OR EBPF_SRC_REG OR 0xc0"
definition EBPF_OP_LDXW :: byte where "EBPF_OP_LDXW = EBPF_CLS_LDX OR EBPF_MODE_MEM OR EBPF_SIZE_W"
definition EBPF_OP_LDXH :: byte where "EBPF_OP_LDXH = EBPF_CLS_LDX OR EBPF_MODE_MEM OR EBPF_SIZE_H"
definition EBPF_OP_LDXB :: byte where "EBPF_OP_LDXB = EBPF_CLS_LDX OR EBPF_MODE_MEM OR EBPF_SIZE_B"
definition EBPF_OP_LDXDW :: byte where "EBPF_OP_LDXDW = EBPF_CLS_LDX OR EBPF_MODE_MEM OR EBPF_SIZE_DW"
definition EBPF_OP_STW :: byte where "EBPF_OP_STW = EBPF_CLS_ST OR EBPF_MODE_MEM OR EBPF_SIZE_W"
definition EBPF_OP_STH :: byte where "EBPF_OP_STH = EBPF_CLS_ST OR EBPF_MODE_MEM OR EBPF_SIZE_H"
definition EBPF_OP_STB :: byte where "EBPF_OP_STB = EBPF_CLS_ST OR EBPF_MODE_MEM OR EBPF_SIZE_B"
definition EBPF_OP_STDW :: byte where "EBPF_OP_STDW = EBPF_CLS_ST OR EBPF_MODE_MEM OR EBPF_SIZE_DW"
definition EBPF_OP_STXW :: byte where "EBPF_OP_STXW = EBPF_CLS_STX OR EBPF_MODE_MEM OR EBPF_SIZE_W"
definition EBPF_OP_STXH :: byte where "EBPF_OP_STXH = EBPF_CLS_STX OR EBPF_MODE_MEM OR EBPF_SIZE_H"
definition EBPF_OP_STXB :: byte where "EBPF_OP_STXB = EBPF_CLS_STX OR EBPF_MODE_MEM OR EBPF_SIZE_B"
definition EBPF_OP_STXDW :: byte where "EBPF_OP_STXDW = EBPF_CLS_STX OR EBPF_MODE_MEM OR EBPF_SIZE_DW"
definition EBPF_OP_LDDW :: byte where "EBPF_OP_LDDW = EBPF_CLS_LD OR EBPF_MODE_IMM OR EBPF_SIZE_DW"
definition EBPF_OP_JA :: byte where "EBPF_OP_JA = EBPF_CLS_JMP OR 0x00"
definition EBPF_OP_JEQ_IMM :: byte where "EBPF_OP_JEQ_IMM = EBPF_CLS_JMP OR EBPF_SRC_IMM OR 0x10"
definition EBPF_OP_JEQ_REG :: byte where "EBPF_OP_JEQ_REG = EBPF_CLS_JMP OR EBPF_SRC_REG OR 0x10"
definition EBPF_OP_JGT_IMM :: byte where "EBPF_OP_JGT_IMM = EBPF_CLS_JMP OR EBPF_SRC_IMM OR 0x20"
definition EBPF_OP_JGT_REG :: byte where "EBPF_OP_JGT_REG = EBPF_CLS_JMP OR EBPF_SRC_REG OR 0x20"
definition EBPF_OP_JGE_IMM :: byte where "EBPF_OP_JGE_IMM = EBPF_CLS_JMP OR EBPF_SRC_IMM OR 0x30"
definition EBPF_OP_JGE_REG :: byte where "EBPF_OP_JGE_REG = EBPF_CLS_JMP OR EBPF_SRC_REG OR 0x30"
definition EBPF_OP_JSET_REG :: byte where "EBPF_OP_JSET_REG = EBPF_CLS_JMP OR EBPF_SRC_REG OR 0x40"
definition EBPF_OP_JSET_IMM :: byte where "EBPF_OP_JSET_IMM = EBPF_CLS_JMP OR EBPF_SRC_IMM OR 0x40"
definition EBPF_OP_JNE_IMM :: byte where "EBPF_OP_JNE_IMM = EBPF_CLS_JMP OR EBPF_SRC_IMM OR 0x50"
definition EBPF_OP_JNE_REG :: byte where "EBPF_OP_JNE_REG = EBPF_CLS_JMP OR EBPF_SRC_REG OR 0x50"
definition EBPF_OP_JSGT_IMM :: byte where "EBPF_OP_JSGT_IMM = EBPF_CLS_JMP OR EBPF_SRC_IMM OR 0x60"
definition EBPF_OP_JSGT_REG :: byte where "EBPF_OP_JSGT_REG = EBPF_CLS_JMP OR EBPF_SRC_REG OR 0x60"
definition EBPF_OP_JSGE_IMM :: byte where "EBPF_OP_JSGE_IMM = EBPF_CLS_JMP OR EBPF_SRC_IMM OR 0x70"
definition EBPF_OP_JSGE_REG :: byte where "EBPF_OP_JSGE_REG = EBPF_CLS_JMP OR EBPF_SRC_REG OR 0x70"
definition EBPF_OP_CALL :: byte where "EBPF_OP_CALL = EBPF_CLS_JMP OR 0x80"
definition EBPF_OP_EXIT :: byte where "EBPF_OP_EXIT = EBPF_CLS_JMP OR 0x90"
definition EBPF_OP_JLT_IMM :: byte where "EBPF_OP_JLT_IMM = EBPF_CLS_JMP OR EBPF_SRC_IMM OR 0xa0"
definition EBPF_OP_JLT_REG :: byte where "EBPF_OP_JLT_REG = EBPF_CLS_JMP OR EBPF_SRC_REG OR 0xa0"
definition EBPF_OP_JLE_IMM :: byte where "EBPF_OP_JLE_IMM = EBPF_CLS_JMP OR EBPF_SRC_IMM OR 0xb0"
definition EBPF_OP_JLE_REG :: byte where "EBPF_OP_JLE_REG = EBPF_CLS_JMP OR EBPF_SRC_REG OR 0xb0"
definition EBPF_OP_JSLT_IMM :: byte where "EBPF_OP_JSLT_IMM = EBPF_CLS_JMP OR EBPF_SRC_IMM OR 0xc0"
definition EBPF_OP_JSLT_REG :: byte where "EBPF_OP_JSLT_REG = EBPF_CLS_JMP OR EBPF_SRC_REG OR 0xc0"
definition EBPF_OP_JSLE_IMM :: byte where "EBPF_OP_JSLE_IMM = EBPF_CLS_JMP OR EBPF_SRC_IMM OR 0xd0"
definition EBPF_OP_JSLE_REG :: byte where "EBPF_OP_JSLE_REG = EBPF_CLS_JMP OR EBPF_SRC_REG OR 0xd0"

lemmas ebpf_field_defs [ebpf_ops] =
  EBPF_CLS_MASK_def EBPF_ALU_OP_MASK_def EBPF_CLS_LD_def EBPF_CLS_LDX_def
  EBPF_CLS_ST_def EBPF_CLS_STX_def EBPF_CLS_ALU_def EBPF_CLS_JMP_def
  EBPF_CLS_ALU64_def EBPF_SRC_IMM_def EBPF_SRC_REG_def EBPF_SIZE_W_def
  EBPF_SIZE_H_def EBPF_SIZE_B_def EBPF_SIZE_DW_def EBPF_MODE_IMM_def
  EBPF_MODE_MEM_def

lemma ebpf_op_values [ebpf_ops]:
  "EBPF_OP_ADD_IMM = 0x04"
  "EBPF_OP_ADD_REG = 0x0c"
  "EBPF_OP_SUB_IMM = 0x14"
  "EBPF_OP_SUB_REG = 0x1c"
  "EBPF_OP_MUL_IMM = 0x24"
  "EBPF_OP_MUL_REG = 0x2c"
  "EBPF_OP_DIV_IMM = 0x34"
  "EBPF_OP_DIV_REG = 0x3c"
  "EBPF_OP_OR_IMM = 0x44"
  "EBPF_OP_OR_REG = 0x4c"
  "EBPF_OP_AND_IMM = 0x54"
  "EBPF_OP_AND_REG = 0x5c"
  "EBPF_OP_LSH_IMM = 0x64"
  "EBPF_OP_LSH_REG = 0x6c"
  "EBPF_OP_RSH_IMM = 0x74"
  "EBPF_OP_RSH_REG = 0x7c"
  "EBPF_OP_NEG = 0x84"
  "EBPF_OP_MOD_IMM = 0x94"
  "EBPF_OP_MOD_REG = 0x9c"
  "EBPF_OP_XOR_IMM = 0xa4"
  "EBPF_OP_XOR_REG = 0xac"
  "EBPF_OP_MOV_IMM = 0xb4"
  "EBPF_OP_MOV_REG = 0xbc"
  "EBPF_OP_ARSH_IMM = 0xc4"
  "EBPF_OP_ARSH_REG = 0xcc"
  "EBPF_OP_LE = 0xd4"
  "EBPF_OP_BE = 0xdc"
  "EBPF_OP_ADD64_IMM = 0x07"
  "EBPF_OP_ADD64_REG = 0x0f"
  "EBPF_OP_SUB64_IMM = 0x17"
  "EBPF_OP_SUB64_REG = 0x1f"
  "EBPF_OP_MUL64_IMM = 0x27"
  "EBPF_OP_MUL64_REG = 0x2f"
  "EBPF_OP_DIV64_IMM = 0x37"
  "EBPF_OP_DIV64_REG = 0x3f"
  "EBPF_OP_OR64_IMM = 0x47"
  "EBPF_OP_OR64_REG = 0x4f"
  "EBPF_OP_AND64_IMM = 0x57"
  "EBPF_OP_AND64_REG = 0x5f"
  "EBPF_OP_LSH64_IMM = 0x67"
  "EBPF_OP_LSH64_REG = 0x6f"
  "EBPF_OP_RSH64_IMM = 0x77"
  "EBPF_OP_RSH64_REG = 0x7f"
  "EBPF_OP_NEG64 = 0x87"
  "EBPF_OP_MOD64_IMM = 0x97"
  "EBPF_OP_MOD64_REG = 0x9f"
  "EBPF_OP_XOR64_IMM = 0xa7"
  "EBPF_OP_XOR64_REG = 0xaf"
  "EBPF_OP_MOV64_IMM = 0xb7"
  "EBPF_OP_MOV64_REG = 0xbf"
  "EBPF_OP_ARSH64_IMM = 0xc7"
  "EBPF_OP_ARSH64_REG = 0xcf"
  "EBPF_OP_LDXW = 0x61"
  "EBPF_OP_LDXH = 0x69"
  "EBPF_OP_LDXB = 0x71"
  "EBPF_OP_LDXDW = 0x79"
  "EBPF_OP_STW = 0x62"
  "EBPF_OP_STH = 0x6a"
  "EBPF_OP_STB = 0x72"
  "EBPF_OP_STDW = 0x7a"
  "EBPF_OP_STXW = 0x63"
  "EBPF_OP_STXH = 0x6b"
  "EBPF_OP_STXB = 0x73"
  "EBPF_OP_STXDW = 0x7b"
  "EBPF_OP_LDDW = 0x18"
  "EBPF_OP_JA = 0x05"
  "EBPF_OP_JEQ_IMM = 0x15"
  "EBPF_OP_JEQ_REG = 0x1d"
  "EBPF_OP_JGT_IMM = 0x25"
  "EBPF_OP_JGT_REG = 0x2d"
  "EBPF_OP_JGE_IMM = 0x35"
  "EBPF_OP_JGE_REG = 0x3d"
  "EBPF_OP_JSET_REG = 0x4d"
  "EBPF_OP_JSET_IMM = 0x45"
  "EBPF_OP_JNE_IMM = 0x55"
  "EBPF_OP_JNE_REG = 0x5d"
  "EBPF_OP_JSGT_IMM = 0x65"
  "EBPF_OP_JSGT_REG = 0x6d"
  "EBPF_OP_JSGE_IMM = 0x75"
  "EBPF_OP_JSGE_REG = 0x7d"
  "EBPF_OP_CALL = 0x85"
  "EBPF_OP_EXIT = 0x95"
  "EBPF_OP_JLT_IMM = 0xa5"
  "EBPF_OP_JLT_REG = 0xad"
  "EBPF_OP_JLE_IMM = 0xb5"
  "EBPF_OP_JLE_REG = 0xbd"
  "EBPF_OP_JSLT_IMM = 0xc5"
  "EBPF_OP_JSLT_REG = 0xcd"
  "EBPF_OP_JSLE_IMM = 0xd5"
  "EBPF_OP_JSLE_REG = 0xdd"
  by (simp_all add: ebpf_field_defs
      EBPF_OP_ADD_IMM_def EBPF_OP_ADD_REG_def EBPF_OP_SUB_IMM_def EBPF_OP_SUB_REG_def
      EBPF_OP_MUL_IMM_def EBPF_OP_MUL_REG_def EBPF_OP_DIV_IMM_def EBPF_OP_DIV_REG_def
      EBPF_OP_OR_IMM_def EBPF_OP_OR_REG_def EBPF_OP_AND_IMM_def EBPF_OP_AND_REG_def
      EBPF_OP_LSH_IMM_def EBPF_OP_LSH_REG_def EBPF_OP_RSH_IMM_def EBPF_OP_RSH_REG_def
      EBPF_OP_NEG_def EBPF_OP_MOD_IMM_def EBPF_OP_MOD_REG_def EBPF_OP_XOR_IMM_def
      EBPF_OP_XOR_REG_def EBPF_OP_MOV_IMM_def EBPF_OP_MOV_REG_def EBPF_OP_ARSH_IMM_def
      EBPF_OP_ARSH_REG_def EBPF_OP_LE_def EBPF_OP_BE_def EBPF_OP_ADD64_IMM_def
      EBPF_OP_ADD64_REG_def EBPF_OP_SUB64_IMM_def EBPF_OP_SUB64_REG_def EBPF_OP_MUL64_IMM_def
      EBPF_OP_MUL64_REG_def EBPF_OP_DIV64_IMM_def EBPF_OP_DIV64_REG_def EBPF_OP_OR64_IMM_def
      EBPF_OP_OR64_REG_def EBPF_OP_AND64_IMM_def EBPF_OP_AND64_REG_def EBPF_OP_LSH64_IMM_def
      EBPF_OP_LSH64_REG_def EBPF_OP_RSH64_IMM_def EBPF_OP_RSH64_REG_def EBPF_OP_NEG64_def
      EBPF_OP_MOD64_IMM_def EBPF_OP_MOD64_REG_def EBPF_OP_XOR64_IMM_def EBPF_OP_XOR64_REG_def
      EBPF_OP_MOV64_IMM_def EBPF_OP_MOV64_REG_def EBPF_OP_ARSH64_IMM_def EBPF_OP_ARSH64_REG_def
      EBPF_OP_LDXW_def EBPF_OP_LDXH_def EBPF_OP_LDXB_def EBPF_OP_LDXDW_def
      EBPF_OP_STW_def EBPF_OP_STH_def EBPF_OP_STB_def EBPF_OP_STDW_def
      EBPF_OP_STXW_def EBPF_OP_STXH_def EBPF_OP_STXB_def EBPF_OP_STXDW_def
      EBPF_OP_LDDW_def EBPF_OP_JA_def EBPF_OP_JEQ_IMM_def EBPF_OP_JEQ_REG_def
      EBPF_OP_JGT_IMM_def EBPF_OP_JGT_REG_def EBPF_OP_JGE_IMM_def EBPF_OP_JGE_REG_def
      EBPF_OP_JSET_REG_def EBPF_OP_JSET_IMM_def EBPF_OP_JNE_IMM_def EBPF_OP_JNE_REG_def
      EBPF_OP_JSGT_IMM_def EBPF_OP_JSGT_REG_def EBPF_OP_JSGE_IMM_def EBPF_OP_JSGE_REG_def
      EBPF_OP_CALL_def EBPF_OP_EXIT_def EBPF_OP_JLT_IMM_def EBPF_OP_JLT_REG_def
      EBPF_OP_JLE_IMM_def EBPF_OP_JLE_REG_def EBPF_OP_JSLT_IMM_def EBPF_OP_JSLT_REG_def
      EBPF_OP_JSLE_IMM_def EBPF_OP_JSLE_REG_def)

text \<open>No two opcodes of the header coincide, so every \<^verbatim>\<open>switch\<close> over them is unambiguous.\<close>

definition ebpf_opcodes :: "byte list" where
  "ebpf_opcodes = [
    EBPF_OP_ADD_IMM, EBPF_OP_ADD_REG, EBPF_OP_SUB_IMM, EBPF_OP_SUB_REG,
    EBPF_OP_MUL_IMM, EBPF_OP_MUL_REG, EBPF_OP_DIV_IMM, EBPF_OP_DIV_REG,
    EBPF_OP_OR_IMM, EBPF_OP_OR_REG, EBPF_OP_AND_IMM, EBPF_OP_AND_REG,
    EBPF_OP_LSH_IMM, EBPF_OP_LSH_REG, EBPF_OP_RSH_IMM, EBPF_OP_RSH_REG,
    EBPF_OP_NEG, EBPF_OP_MOD_IMM, EBPF_OP_MOD_REG, EBPF_OP_XOR_IMM,
    EBPF_OP_XOR_REG, EBPF_OP_MOV_IMM, EBPF_OP_MOV_REG, EBPF_OP_ARSH_IMM,
    EBPF_OP_ARSH_REG, EBPF_OP_LE, EBPF_OP_BE, EBPF_OP_ADD64_IMM,
    EBPF_OP_ADD64_REG, EBPF_OP_SUB64_IMM, EBPF_OP_SUB64_REG, EBPF_OP_MUL64_IMM,
    EBPF_OP_MUL64_REG, EBPF_OP_DIV64_IMM, EBPF_OP_DIV64_REG, EBPF_OP_OR64_IMM,
    EBPF_OP_OR64_REG, EBPF_OP_AND64_IMM, EBPF_OP_AND64_REG, EBPF_OP_LSH64_IMM,
    EBPF_OP_LSH64_REG, EBPF_OP_RSH64_IMM, EBPF_OP_RSH64_REG, EBPF_OP_NEG64,
    EBPF_OP_MOD64_IMM, EBPF_OP_MOD64_REG, EBPF_OP_XOR64_IMM, EBPF_OP_XOR64_REG,
    EBPF_OP_MOV64_IMM, EBPF_OP_MOV64_REG, EBPF_OP_ARSH64_IMM, EBPF_OP_ARSH64_REG,
    EBPF_OP_LDXW, EBPF_OP_LDXH, EBPF_OP_LDXB, EBPF_OP_LDXDW,
    EBPF_OP_STW, EBPF_OP_STH, EBPF_OP_STB, EBPF_OP_STDW,
    EBPF_OP_STXW, EBPF_OP_STXH, EBPF_OP_STXB, EBPF_OP_STXDW,
    EBPF_OP_LDDW, EBPF_OP_JA, EBPF_OP_JEQ_IMM, EBPF_OP_JEQ_REG,
    EBPF_OP_JGT_IMM, EBPF_OP_JGT_REG, EBPF_OP_JGE_IMM, EBPF_OP_JGE_REG,
    EBPF_OP_JSET_REG, EBPF_OP_JSET_IMM, EBPF_OP_JNE_IMM, EBPF_OP_JNE_REG,
    EBPF_OP_JSGT_IMM, EBPF_OP_JSGT_REG, EBPF_OP_JSGE_IMM, EBPF_OP_JSGE_REG,
    EBPF_OP_CALL, EBPF_OP_EXIT, EBPF_OP_JLT_IMM, EBPF_OP_JLT_REG,
    EBPF_OP_JLE_IMM, EBPF_OP_JLE_REG, EBPF_OP_JSLT_IMM, EBPF_OP_JSLT_REG,
    EBPF_OP_JSLE_IMM, EBPF_OP_JSLE_REG]"

lemma distinct_ebpf_opcodes: "distinct ebpf_opcodes"
proof (rule distinct_map [THEN iffD1, THEN conjunct1])
  show "distinct (map uint ebpf_opcodes)"
    by (simp add: ebpf_opcodes_def ebpf_ops)
qed

section \<open>Instructions and their layout\<close>

record ebpf_inst =
  opcode :: byte
  dst :: "4 word"
  src :: "4 word"
  offset :: u16
  imm :: u32

definition decode_inst :: "byte list \<Rightarrow> ebpf_inst" where
  "decode_inst bs =
     \<lparr>opcode = bs ! 0, dst = ucast (bs ! 1), src = ucast (drop_bit 4 (bs ! 1)),
      offset = le_word (take 2 (drop 2 bs)), imm = le_word (take 4 (drop 4 bs))\<rparr>"

definition encode_inst :: "ebpf_inst \<Rightarrow> byte list" where
  "encode_inst i =
     [opcode i, ucast (dst i) OR push_bit 4 (ucast (src i))]
       @ le_bytes 2 (offset i) @ le_bytes 4 (imm i)"

lemma length_encode_inst [simp]: "length (encode_inst i) = 8"
  by (simp add: encode_inst_def)

lemma nibble_low: "(ucast (ucast d OR push_bit 4 (ucast s) :: byte) :: 4 word) = d"
  for d s :: "4 word"
  by (rule bit_word_eqI) (auto simp: bit_simps)

lemma nibble_high: "(ucast (drop_bit 4 (ucast d OR push_bit 4 (ucast s) :: byte)) :: 4 word) = s"
  for d s :: "4 word"
proof (rule bit_word_eqI)
  fix i assume i: "i < LENGTH(4)"
  have "\<not> bit d (4 + i)" using bit_imp_le_length [of d "4 + i"] by auto
  with i show "bit (ucast (drop_bit 4 (ucast d OR push_bit 4 (ucast s) :: byte)) :: 4 word) i = bit s i"
    by (auto simp: bit_simps)
qed

lemma nibble_join:
  "(ucast (ucast b :: 4 word) OR push_bit 4 (ucast (ucast (drop_bit 4 b) :: 4 word)) :: byte) = b"
proof (rule bit_word_eqI)
  fix i assume i: "i < LENGTH(8)"
  show "bit (ucast (ucast b :: 4 word) OR push_bit 4 (ucast (ucast (drop_bit 4 b) :: 4 word)) :: byte) i
      = bit b i"
    using i by (cases "i < 4") (auto simp: bit_simps)
qed

lemma decode_encode_inst: "decode_inst (encode_inst i) = i"
  by (cases i) (simp add: decode_inst_def encode_inst_def nibble_low nibble_high
      le16.dec_enc le32.dec_enc del: drop_bit_or)

lemma encode_decode_inst:
  assumes "length bs = 8"
  shows "encode_inst (decode_inst bs) = bs"
proof -
  have "bs = [bs ! 0, bs ! 1] @ take 2 (drop 2 bs) @ take 4 (drop 4 bs)"
    using assms by (auto simp: numeral_eq_Suc length_Suc_conv)
  moreover have "encode_inst (decode_inst bs) = [bs ! 0, bs ! 1] @ take 2 (drop 2 bs) @ take 4 (drop 4 bs)"
    using assms by (simp add: encode_inst_def decode_inst_def nibble_join le16.enc_dec le32.enc_dec)
  ultimately show ?thesis by simp
qed

fun decode_insts :: "byte list \<Rightarrow> ebpf_inst list" where
  "decode_insts bs = (if length bs < 8 then [] else decode_inst (take 8 bs) # decode_insts (drop 8 bs))"

declare decode_insts.simps [simp del]

lemma length_decode_insts: "length (decode_insts bs) = length bs div 8"
proof (induction bs rule: decode_insts.induct)
  case (1 bs)
  then show ?case
    by (cases "length bs < 8") (simp_all add: decode_insts.simps [of bs] le_div_geq)
qed

lemma nth_decode_insts:
  "k < length bs div 8 \<Longrightarrow> decode_insts bs ! k = decode_inst (take 8 (drop (8 * k) bs))"
proof (induction bs arbitrary: k rule: decode_insts.induct)
  case (1 bs)
  then have "\<not> length bs < 8" by auto
  with 1 show ?case
    by (cases k) (simp_all add: decode_insts.simps [of bs] le_div_geq add.commute)
qed

lemma decode_insts_encode: "decode_insts (concat (map encode_inst is)) = is"
proof (induction "is")
  case Nil
  then show ?case by (simp add: decode_insts.simps)
next
  case (Cons i "is")
  then show ?case
    by (simp add: decode_insts.simps [of "encode_inst i @ _"] decode_encode_inst)
qed

section \<open>Conversions of the immediate and the offset\<close>

text \<open>
  C converts the \<^verbatim>\<open>int32_t imm\<close> to \<^verbatim>\<open>uint64_t\<close> by sign extension wherever it meets a
  64-bit register; \<^verbatim>\<open>(uint32_t)inst.imm\<close> keeps the low 32 bits instead, and the
  \<^verbatim>\<open>int16_t offset\<close> is sign-extended before it is added to an address or to the
  16-bit program counter.
\<close>

definition imm64 :: "ebpf_inst \<Rightarrow> u64" where
  "imm64 i = scast (imm i)"

definition imm32u :: "ebpf_inst \<Rightarrow> u64" where
  "imm32u i = ucast (imm i)"

definition off64 :: "ebpf_inst \<Rightarrow> u64" where
  "off64 i = scast (offset i)"

definition off16 :: "ebpf_inst \<Rightarrow> u16" where
  "off16 i = offset i"

end
