(* ===== verification/C_Heap.thy ===== *)
theory C_Heap
  imports Prelude "HOL-Library.Multiset"
begin

text \<open>
  The C heap as far as ownership goes: which blocks are live, which allocation
  fails (an oracle, by the number of the allocation), and whether the heap is
  corrupt: a block was freed, or used, that was not live.  Leaks, double frees and
  uses after free can be stated over it.
\<close>

section \<open>The C heap\<close>

record heap =
  next_block :: nat
  live :: "nat set"
  oom :: "nat \<Rightarrow> bool"
  corrupt :: bool

definition malloc :: "heap \<Rightarrow> nat option \<times> heap" where
  "malloc h =
     (let b = next_block h; h' = h\<lparr>next_block := Suc b\<rparr>
      in if oom h b then (None, h') else (Some b, h'\<lparr>live := insert b (live h)\<rparr>))"

definition free :: "nat option \<Rightarrow> heap \<Rightarrow> heap" where
  "free p h = (case p of None \<Rightarrow> h
     | Some b \<Rightarrow> if b \<in> live h then h\<lparr>live := live h - {b}\<rparr> else h\<lparr>corrupt := True\<rparr>)"

text \<open>\<^verbatim>\<open>realloc\<close> moves the block when it succeeds and leaves it alone when it fails.\<close>

definition realloc :: "nat option \<Rightarrow> heap \<Rightarrow> nat option \<times> heap" where
  "realloc p h = (case malloc h of (None, h) \<Rightarrow> (None, h) | (Some b, h) \<Rightarrow> (Some b, free p h))"

text \<open>An access to a block; to one that is not live it is a use after free.\<close>

definition touch :: "nat \<Rightarrow> heap \<Rightarrow> heap" where
  "touch b h = (if b \<in> live h then h else h\<lparr>corrupt := True\<rparr>)"

definition heap_ok :: "heap \<Rightarrow> bool" where
  "heap_ok h \<longleftrightarrow> (\<forall>b \<in> live h. b < next_block h) \<and> \<not> corrupt h"

lemma malloc_cases:
  assumes "malloc h = (p, h')" "heap_ok h"
  shows "heap_ok h'"
    and "p = None \<Longrightarrow> live h' = live h"
    and "p = Some b \<Longrightarrow> b \<notin> live h \<and> live h' = insert b (live h)"
    and "next_block h' = Suc (next_block h)"
  using assms by (auto simp: malloc_def heap_ok_def Let_def less_SucI split: if_splits)

section \<open>Lists of blocks\<close>

lemma free_None [simp]: "free None h = h"
  by (simp add: free_def)

definition opt_list :: "'a option \<Rightarrow> 'a list" where
  "opt_list x = (case x of None \<Rightarrow> [] | Some y \<Rightarrow> [y])"

primrec free_list :: "nat list \<Rightarrow> heap \<Rightarrow> heap" where
  "free_list [] h = h"
| "free_list (b # bs) h = free_list bs (free (Some b) h)"

lemma free_opt_list: "free p h = free_list (opt_list p) h"
  by (cases p) (simp_all add: opt_list_def free_def)

lemma free_list_append: "free_list (xs @ ys) h = free_list ys (free_list xs h)"
  by (induction xs arbitrary: h) simp_all

lemma free_list_live:
  "heap_ok h \<Longrightarrow> distinct bs \<Longrightarrow> set bs \<subseteq> live h \<Longrightarrow>
     heap_ok (free_list bs h) \<and> live (free_list bs h) = live h - set bs"
proof (induction bs arbitrary: h)
  case (Cons b bs)
  then have "heap_ok (free (Some b) h)" "live (free (Some b) h) = live h - {b}"
    by (auto simp: free_def heap_ok_def)
  with Cons show ?case by auto
qed simp

section \<open>Ownership\<close>

text \<open>\<open>owned bs h L\<close>: beside the blocks \<open>L\<close> exactly the blocks \<open>bs\<close> are live, each once.\<close>

definition owned :: "nat list \<Rightarrow> heap \<Rightarrow> nat set \<Rightarrow> bool" where
  "owned bs h L \<longleftrightarrow> heap_ok h \<and> distinct bs \<and> set bs \<inter> L = {} \<and> live h = L \<union> set bs"

lemma ownedD:
  "owned bs h L \<Longrightarrow> heap_ok h" "owned bs h L \<Longrightarrow> live h = L \<union> set bs" "owned bs h L \<Longrightarrow> \<not> corrupt h"
  by (simp_all add: owned_def heap_ok_def)

lemma owned_Nil: "owned [] h L \<longleftrightarrow> heap_ok h \<and> live h = L"
  by (auto simp: owned_def)

lemma owned_perm: "owned bs h L \<Longrightarrow> mset bs' = mset bs \<Longrightarrow> owned bs' h L"
  unfolding owned_def using mset_eq_setD mset_eq_imp_distinct_iff by metis

lemma owned_malloc: "malloc h = (p, h') \<Longrightarrow> owned bs h L \<Longrightarrow> owned (opt_list p @ bs) h' L"
  using malloc_cases [of h p h'] by (cases p) (auto simp: owned_def opt_list_def)

lemma owned_free_list: "owned (xs @ bs) h L \<Longrightarrow> owned bs (free_list xs h) L"
  using free_list_live [of h xs] by (auto simp: owned_def)

lemma owned_free: "owned (opt_list p @ bs) h L \<Longrightarrow> owned bs (free p h) L"
  by (simp add: free_opt_list owned_free_list)

lemma owned_free_front: "owned (b # bs) h L \<Longrightarrow> owned bs (free (Some b) h) L"
  using owned_free [of "Some b" bs] by (simp add: opt_list_def)

lemma owned_touch: "owned bs h L \<Longrightarrow> b \<in> set bs \<Longrightarrow> touch b h = h"
  by (auto simp: owned_def touch_def)

lemma owned_realloc:
  assumes "realloc p h = (q, h')" and "owned (opt_list p @ bs) h L"
  shows "owned (opt_list (if q = None then p else q) @ bs) h' L"
proof -
  obtain r h1 where m: "malloc h = (r, h1)" by fastforce
  note o = owned_malloc [OF m assms(2)]
  show ?thesis
  proof (cases r)
    case None
    then show ?thesis using assms(1) m o by (auto simp: realloc_def opt_list_def)
  next
    case (Some b)
    have "owned (opt_list p @ (b # bs)) h1 L"
      using o Some by (elim owned_perm) (simp add: opt_list_def)
    then show ?thesis using owned_free assms(1) m Some by (auto simp: realloc_def opt_list_def)
  qed
qed

section \<open>Objects on the heap\<close>

text \<open>
  What the clearing function of an object that holds blocks promises; then clearing the elements of an array in the
  block \<open>b\<close>, one after the other, gives back the blocks of all of them.
\<close>

locale heap_object =
  fixes blocks :: "'a \<Rightarrow> nat list" and clear :: "'a \<Rightarrow> heap \<Rightarrow> heap"
  assumes owned_clear: "owned (blocks x @ rest) h L \<Longrightarrow> owned rest (clear x h) L"
begin

lemma owned_clear_array:
  assumes "b \<in> set rest" and "owned (concat (map blocks xs) @ rest) h L"
  shows "owned rest (fold (\<lambda>x h. clear x (touch b h)) xs h) L"
  using assms(2)
proof (induction xs arbitrary: h)
  case (Cons x xs)
  then have "owned (blocks x @ concat (map blocks xs) @ rest) h L" by simp
  moreover have "touch b h = h" using owned_touch [OF Cons.prems, of b] assms(1) by simp
  ultimately have "owned (concat (map blocks xs) @ rest) (clear x (touch b h)) L" using owned_clear by simp
  from Cons.IH [OF this] show ?case by simp
qed simp

end

end
