(* ===== verification/Ubpf_VM.thy ===== *)
theory Ubpf_VM
  imports Ebpf C_Heap
begin

text \<open>
  The life of a virtual machine, after \<^verbatim>\<open>tools/ubpf/vm/ubpf_vm.c\<close> and
  \<^verbatim>\<open>ubpf_int.h\<close>: creation and destruction with the heap blocks they take and
  give back, the table of external functions, the load-time verifier
  \<^verbatim>\<open>validate\<close> and \<^verbatim>\<open>ubpf_load\<close>.  The heap is the one of \<open>C_Heap\<close>.
  Error messages are values of \<open>ubpf_error\<close>, one constructor per format string.
\<close>

section \<open>struct ubpf\_vm\<close>

text \<open>
  A pointer field that owns a heap block is the block together with what it
  holds, \<open>None\<close> for \<^verbatim>\<open>NULL\<close>.  A function pointer is its address, 0 for \<^verbatim>\<open>NULL\<close>.
\<close>

definition MAX_INSTS :: nat where "MAX_INSTS = 65536"
definition STACK_SIZE :: nat where "STACK_SIZE = 128"
definition MAX_EXT_FUNCS :: nat where "MAX_EXT_FUNCS = 64"

record ubpf_vm =
  vm_block :: nat
  insts :: "(nat \<times> ebpf_inst list) option"
  num_insts :: u16
  jitted :: "(nat \<times> byte list) option"
  jitted_size :: u64
  ext_funcs :: "(nat \<times> u64 list) option"
  ext_func_names :: "(nat \<times> string option list) option"
  bounds_check_enabled :: bool

definition toggle_bounds_check :: "ubpf_vm \<Rightarrow> bool \<Rightarrow> bool \<times> ubpf_vm" where
  "toggle_bounds_check vm enable =
     (bounds_check_enabled vm, vm\<lparr>bounds_check_enabled := enable\<rparr>)"

text \<open>\<^verbatim>\<open>munmap\<close> gives back the mapping of the compiled code, \<^verbatim>\<open>free\<close> the four blocks.\<close>

definition ubpf_destroy :: "ubpf_vm \<Rightarrow> heap \<Rightarrow> heap" where
  "ubpf_destroy vm h =
     (let h = free (map_option fst (jitted vm)) h;
          h = free (map_option fst (insts vm)) h;
          h = free (map_option fst (ext_funcs vm)) h;
          h = free (map_option fst (ext_func_names vm)) h
      in free (Some (vm_block vm)) h)"

definition calloc_vm :: "nat \<Rightarrow> ubpf_vm" where
  "calloc_vm b = \<lparr>vm_block = b, insts = None, num_insts = 0, jitted = None, jitted_size = 0,
     ext_funcs = None, ext_func_names = None, bounds_check_enabled = False\<rparr>"

definition ubpf_create :: "heap \<Rightarrow> ubpf_vm option \<times> heap" where
  "ubpf_create h =
     (case malloc h of
        (None, h) \<Rightarrow> (None, h)
      | (Some b, h) \<Rightarrow>
          (let vm = calloc_vm b in
           case malloc h of
             (None, h) \<Rightarrow> (None, ubpf_destroy vm h)
           | (Some f, h) \<Rightarrow>
               (let vm = vm\<lparr>ext_funcs := Some (f, replicate MAX_EXT_FUNCS 0)\<rparr> in
                case malloc h of
                  (None, h) \<Rightarrow> (None, ubpf_destroy vm h)
                | (Some n, h) \<Rightarrow>
                    (Some (vm\<lparr>ext_func_names := Some (n, replicate MAX_EXT_FUNCS None),
                              bounds_check_enabled := True\<rparr>), h))))"

text \<open>The table contents; the dereference of a \<^verbatim>\<open>NULL\<close> table never happens after creation.\<close>

definition funcs_of :: "ubpf_vm \<Rightarrow> u64 list" where
  "funcs_of vm = (case ext_funcs vm of None \<Rightarrow> [] | Some (_, fs) \<Rightarrow> fs)"

definition names_of :: "ubpf_vm \<Rightarrow> string option list" where
  "names_of vm = (case ext_func_names vm of None \<Rightarrow> [] | Some (_, ns) \<Rightarrow> ns)"

definition ubpf_register :: "ubpf_vm \<Rightarrow> u32 \<Rightarrow> string \<Rightarrow> u64 \<Rightarrow> int \<times> ubpf_vm" where
  "ubpf_register vm idx name fn =
     (if unat idx \<ge> MAX_EXT_FUNCS then (-1, vm)
      else (0, vm\<lparr>ext_funcs := map_option (\<lambda>(b, fs). (b, fs[unat idx := fn])) (ext_funcs vm),
                  ext_func_names :=
                    map_option (\<lambda>(b, ns). (b, ns[unat idx := Some name])) (ext_func_names vm)\<rparr>))"

text \<open>The scan of \<^verbatim>\<open>ubpf_lookup_registered_function\<close>; \<^verbatim>\<open>return -1\<close> as an \<^verbatim>\<open>unsigned int\<close>.\<close>

primrec lookup_loop :: "string option list \<Rightarrow> string \<Rightarrow> nat \<Rightarrow> u32" where
  "lookup_loop [] name i = -1"
| "lookup_loop (other # ns) name i =
     (if other = Some name then of_nat i else lookup_loop ns name (Suc i))"

definition ubpf_lookup_registered_function :: "ubpf_vm \<Rightarrow> string \<Rightarrow> u32" where
  "ubpf_lookup_registered_function vm name = lookup_loop (take MAX_EXT_FUNCS (names_of vm)) name 0"

section \<open>The verifier\<close>

datatype ubpf_error =
    AlreadyLoaded
  | CodeLenNotMultipleOf8
  | OutOfMemory
  | TooManyInstructions
  | InvalidEndianImm nat
  | IncompleteLddw nat
  | InfiniteLoop nat
  | JumpOutOfBounds nat
  | JumpToMiddleOfLddw nat
  | InvalidCallImm nat
  | CallToNonexistent u32 nat
  | DivisionByZeroImm nat
  | UnknownOpcode byte nat
  | InvalidSourceRegister nat
  | InvalidDestinationRegister nat

definition validate_alu32_ops :: "byte list" where
  "validate_alu32_ops =
    [EBPF_OP_ADD_IMM, EBPF_OP_ADD_REG, EBPF_OP_SUB_IMM, EBPF_OP_SUB_REG, EBPF_OP_MUL_IMM,
     EBPF_OP_MUL_REG, EBPF_OP_DIV_REG, EBPF_OP_OR_IMM, EBPF_OP_OR_REG, EBPF_OP_AND_IMM,
     EBPF_OP_AND_REG, EBPF_OP_LSH_IMM, EBPF_OP_LSH_REG, EBPF_OP_RSH_IMM, EBPF_OP_RSH_REG,
     EBPF_OP_NEG, EBPF_OP_MOD_REG, EBPF_OP_XOR_IMM, EBPF_OP_XOR_REG, EBPF_OP_MOV_IMM,
     EBPF_OP_MOV_REG, EBPF_OP_ARSH_IMM, EBPF_OP_ARSH_REG]"

definition validate_alu64_ops :: "byte list" where
  "validate_alu64_ops =
    [EBPF_OP_ADD64_IMM, EBPF_OP_ADD64_REG, EBPF_OP_SUB64_IMM, EBPF_OP_SUB64_REG,
     EBPF_OP_MUL64_IMM, EBPF_OP_MUL64_REG, EBPF_OP_DIV64_REG, EBPF_OP_OR64_IMM,
     EBPF_OP_OR64_REG, EBPF_OP_AND64_IMM, EBPF_OP_AND64_REG, EBPF_OP_LSH64_IMM,
     EBPF_OP_LSH64_REG, EBPF_OP_RSH64_IMM, EBPF_OP_RSH64_REG, EBPF_OP_NEG64,
     EBPF_OP_MOD64_REG, EBPF_OP_XOR64_IMM, EBPF_OP_XOR64_REG, EBPF_OP_MOV64_IMM,
     EBPF_OP_MOV64_REG, EBPF_OP_ARSH64_IMM, EBPF_OP_ARSH64_REG]"

definition validate_load_ops :: "byte list" where
  "validate_load_ops = [EBPF_OP_LDXW, EBPF_OP_LDXH, EBPF_OP_LDXB, EBPF_OP_LDXDW]"

definition validate_store_ops :: "byte list" where
  "validate_store_ops =
    [EBPF_OP_STW, EBPF_OP_STH, EBPF_OP_STB, EBPF_OP_STDW,
     EBPF_OP_STXW, EBPF_OP_STXH, EBPF_OP_STXB, EBPF_OP_STXDW]"

definition validate_jump_ops :: "byte list" where
  "validate_jump_ops =
    [EBPF_OP_JA, EBPF_OP_JEQ_REG, EBPF_OP_JEQ_IMM, EBPF_OP_JGT_REG, EBPF_OP_JGT_IMM,
     EBPF_OP_JGE_REG, EBPF_OP_JGE_IMM, EBPF_OP_JLT_REG, EBPF_OP_JLT_IMM, EBPF_OP_JLE_REG,
     EBPF_OP_JLE_IMM, EBPF_OP_JSET_REG, EBPF_OP_JSET_IMM, EBPF_OP_JNE_REG, EBPF_OP_JNE_IMM,
     EBPF_OP_JSGT_IMM, EBPF_OP_JSGT_REG, EBPF_OP_JSGE_IMM, EBPF_OP_JSGE_REG, EBPF_OP_JSLT_IMM,
     EBPF_OP_JSLT_REG, EBPF_OP_JSLE_IMM, EBPF_OP_JSLE_REG]"

definition validate_divimm_ops :: "byte list" where
  "validate_divimm_ops =
    [EBPF_OP_DIV_IMM, EBPF_OP_MOD_IMM, EBPF_OP_DIV64_IMM, EBPF_OP_MOD64_IMM]"

text \<open>
  One pass through the \<^verbatim>\<open>switch\<close> of \<^verbatim>\<open>validate\<close>: an error, or the value \<^verbatim>\<open>i\<close> has
  after it (an \<^verbatim>\<open>lddw\<close> advances it) and the flag \<^verbatim>\<open>store\<close>.
\<close>

definition validate_switch ::
  "ubpf_vm \<Rightarrow> ebpf_inst list \<Rightarrow> nat \<Rightarrow> ebpf_inst \<Rightarrow> ubpf_error + (nat \<times> bool)" where
  "validate_switch vm code i inst =
    (let op = opcode inst in
     if op \<in> set validate_alu32_ops then Inr (i, False)
     else if op = EBPF_OP_LE \<or> op = EBPF_OP_BE then
       (if imm inst \<noteq> 16 \<and> imm inst \<noteq> 32 \<and> imm inst \<noteq> 64
        then Inl (InvalidEndianImm i) else Inr (i, False))
     else if op \<in> set validate_alu64_ops then Inr (i, False)
     else if op \<in> set validate_load_ops then Inr (i, False)
     else if op \<in> set validate_store_ops then Inr (i, True)
     else if op = EBPF_OP_LDDW then
       (if i + 1 \<ge> length code \<or> opcode (code ! (i + 1)) \<noteq> 0
        then Inl (IncompleteLddw i) else Inr (i + 1, False))
     else if op \<in> set validate_jump_ops then
       (if offset inst = -1 then Inl (InfiniteLoop i)
        else let new_pc = int i + 1 + sint (offset inst) in
          if new_pc < 0 \<or> new_pc \<ge> int (length code) then Inl (JumpOutOfBounds i)
          else if opcode (code ! nat new_pc) = 0 then Inl (JumpToMiddleOfLddw i)
          else Inr (i, False))
     else if op = EBPF_OP_CALL then
       (if sint (imm inst) < 0 \<or> sint (imm inst) \<ge> int MAX_EXT_FUNCS then Inl (InvalidCallImm i)
        else if funcs_of vm ! nat (sint (imm inst)) = 0 then Inl (CallToNonexistent (imm inst) i)
        else Inr (i, False))
     else if op = EBPF_OP_EXIT then Inr (i, False)
     else if op \<in> set validate_divimm_ops then
       (if imm inst = 0 then Inl (DivisionByZeroImm i) else Inr (i, False))
     else Inl (UnknownOpcode op i))"

definition validate_regs :: "nat \<Rightarrow> bool \<Rightarrow> ebpf_inst \<Rightarrow> ubpf_error + unit" where
  "validate_regs i store inst =
    (if src inst > 10 then Inl (InvalidSourceRegister i)
     else if dst inst > 9 \<and> \<not> (store \<and> dst inst = 10) then Inl (InvalidDestinationRegister i)
     else Inr ())"

text \<open>The body of the loop: what \<^verbatim>\<open>i\<close> is when the \<^verbatim>\<open>for\<close> statement increments it.\<close>

definition validate_inst :: "ubpf_vm \<Rightarrow> ebpf_inst list \<Rightarrow> nat \<Rightarrow> ubpf_error + nat" where
  "validate_inst vm code i =
    (case validate_switch vm code i (code ! i) of
       Inl e \<Rightarrow> Inl e
     | Inr (i', store) \<Rightarrow>
         (case validate_regs i' store (code ! i) of Inl e \<Rightarrow> Inl e | Inr _ \<Rightarrow> Inr i'))"

lemma validate_inst_ge: "validate_inst vm code i = Inr i' \<Longrightarrow> i \<le> i'"
  by (auto simp: validate_inst_def validate_switch_def Let_def split: if_splits sum.splits)

function validate_loop :: "ubpf_vm \<Rightarrow> ebpf_inst list \<Rightarrow> nat \<Rightarrow> ubpf_error + unit" where
  "validate_loop vm code i =
    (if i < length code then
       (case validate_inst vm code i of Inl e \<Rightarrow> Inl e | Inr i' \<Rightarrow> validate_loop vm code (Suc i'))
     else Inr ())"
  by pat_completeness auto
termination
  by (relation "measure (\<lambda>(vm, code, i). length code - i)") (auto dest: validate_inst_ge)

declare validate_loop.simps [simp del]

definition validate :: "ubpf_vm \<Rightarrow> ebpf_inst list \<Rightarrow> ubpf_error + unit" where
  "validate vm code =
    (if length code \<ge> MAX_INSTS then Inl TooManyInstructions else validate_loop vm code 0)"

text \<open>
  \<^verbatim>\<open>ubpf_load\<close>: the error or the machine with the program in it, and the heap.
  \<open>code\<close> is the buffer the caller passes and \<open>code_len\<close> the length it claims.
\<close>

definition ubpf_load ::
  "ubpf_vm \<Rightarrow> byte list \<Rightarrow> u32 \<Rightarrow> heap \<Rightarrow> (ubpf_error + ubpf_vm) \<times> heap" where
  "ubpf_load vm code code_len h =
    (if insts vm \<noteq> None then (Inl AlreadyLoaded, h)
     else if code_len mod 8 \<noteq> 0 then (Inl CodeLenNotMultipleOf8, h)
     else let prog = decode_insts (take (unat code_len) code) in
       (case validate vm prog of
          Inl e \<Rightarrow> (Inl e, h)
        | Inr _ \<Rightarrow>
            (case malloc h of
               (None, h) \<Rightarrow> (Inl OutOfMemory, h)
             | (Some b, h) \<Rightarrow>
                 (Inr (vm\<lparr>insts := Some (b, prog), num_insts := ucast (code_len div 8)\<rparr>), h))))"

end
