(* ===== verification/Ubpf_Exec.thy ===== *)
theory Ubpf_Exec
  imports Ubpf_VM
begin

text \<open>
  The interpreter \<^verbatim>\<open>ubpf_exec\<close> of \<^verbatim>\<open>tools/ubpf/vm/ubpf_vm.c\<close>.  One definition per
  group of \<^verbatim>\<open>case\<close> labels; each yields \<open>None\<close> when none of its labels matches, and
  \<open>exec_step\<close> tries the groups in the order of the \<^verbatim>\<open>switch\<close>, which has no default.
  A step either continues with the next state or ends the call: a normal
  return, one of the two run-time errors that print a message and return
  \<^verbatim>\<open>UINT64_MAX\<close>, or behaviour that C leaves undefined (a shift count out of range,
  an integer division by zero, a fetch past the program, an access to memory that
  is not mapped, a call through a null pointer).  Memory is a partial map from
  addresses to bytes; what is not mapped belongs to no object.  The register file
  and the stack array start with whatever they hold, as in the C code.
\<close>

section \<open>State\<close>

type_synonym memory = "u64 \<Rightarrow> byte option"

text \<open>External functions are the environment's: given an address, arguments and memory.\<close>

type_synonym ext_call = "u64 \<Rightarrow> u64 list \<Rightarrow> memory \<Rightarrow> u64 \<times> memory"

record exec_env =
  env_mem :: u64
  env_mem_len :: u64
  env_stack :: u64
  env_call :: ext_call

record exec_state =
  pc :: u16
  reg :: "4 word \<Rightarrow> u64"
  memory :: memory

datatype undef =
    ShiftRange
  | DivZero
  | PcOutOfRange u16
  | WildAccess u64 nat
  | BadCall

datatype access = Load | Store

datatype exec_error =
    DivisionByZero u16
  | OutOfBounds access u16 u64 nat

datatype exec_result = Returned u64 | Aborted exec_error | Undefined undef

type_synonym step_result = "exec_state + exec_result \<times> memory"

definition UINT32_MAX :: u64 where "UINT32_MAX = 0xFFFFFFFF"
definition UINT64_MAX :: u64 where "UINT64_MAX = -1"

text \<open>What the caller of \<^verbatim>\<open>ubpf_exec\<close> gets: both errors return \<^verbatim>\<open>UINT64_MAX\<close>.\<close>

fun exec_value :: "exec_result \<Rightarrow> u64 option" where
  "exec_value (Returned v) = Some v"
| "exec_value (Aborted e) = Some UINT64_MAX"
| "exec_value (Undefined u) = None"

definition u32 :: "u64 \<Rightarrow> u32" where
  "u32 x = ucast x"

section \<open>Memory and its bounds check\<close>

primrec mload :: "memory \<Rightarrow> u64 \<Rightarrow> nat \<Rightarrow> byte list option" where
  "mload m a 0 = Some []"
| "mload m a (Suc n) =
     (case m a of None \<Rightarrow> None
      | Some b \<Rightarrow> (case mload m (a + 1) n of None \<Rightarrow> None | Some bs \<Rightarrow> Some (b # bs)))"

primrec mstore :: "memory \<Rightarrow> u64 \<Rightarrow> byte list \<Rightarrow> memory option" where
  "mstore m a [] = Some m"
| "mstore m a (b # bs) = (if m a = None then None else mstore (m(a \<mapsto> b)) (a + 1) bs)"

definition bounds_check :: "ubpf_vm \<Rightarrow> exec_env \<Rightarrow> u64 \<Rightarrow> nat \<Rightarrow> bool" where
  "bounds_check vm env addr sz =
    (if \<not> bounds_check_enabled vm then True
     else if env_mem env \<noteq> 0 \<and> (addr \<ge> env_mem env \<and>
             addr + of_nat sz \<le> env_mem env + env_mem_len env) then True
     else if addr \<ge> env_stack env \<and> addr + of_nat sz \<le> env_stack env + of_nat STACK_SIZE then True
     else False)"

section \<open>Instruction groups\<close>

definition set_reg :: "exec_state \<Rightarrow> 4 word \<Rightarrow> u64 \<Rightarrow> exec_state" where
  "set_reg s r v = s\<lparr>reg := (reg s)(r := v)\<rparr>"

definition undef_result :: "exec_state \<Rightarrow> undef \<Rightarrow> step_result" where
  "undef_result s u = Inr (Undefined u, memory s)"

definition write_opt :: "exec_state \<Rightarrow> ebpf_inst \<Rightarrow> undef \<Rightarrow> u64 option \<Rightarrow> step_result" where
  "write_opt s i u v = (case v of None \<Rightarrow> undef_result s u | Some w \<Rightarrow> Inl (set_reg s (dst i) w))"

text \<open>Shifts and divisions with the cases C leaves undefined made explicit.\<close>

definition shl64 :: "u64 \<Rightarrow> int \<Rightarrow> u64 option" where
  "shl64 v k = (if 0 \<le> k \<and> k < 64 then Some (push_bit (nat k) v) else None)"

definition shr64 :: "u64 \<Rightarrow> int \<Rightarrow> u64 option" where
  "shr64 v k = (if 0 \<le> k \<and> k < 64 then Some (drop_bit (nat k) v) else None)"

definition sar64 :: "u64 \<Rightarrow> int \<Rightarrow> u64 option" where
  "sar64 v k = (if 0 \<le> k \<and> k < 64 then Some (signed_drop_bit (nat k) v) else None)"

definition shr32 :: "u32 \<Rightarrow> int \<Rightarrow> u64 option" where
  "shr32 v k = (if 0 \<le> k \<and> k < 32 then Some (ucast (drop_bit (nat k) v)) else None)"

definition sar32 :: "u32 \<Rightarrow> int \<Rightarrow> u64 option" where
  "sar32 v k = (if 0 \<le> k \<and> k < 32 then Some (scast (signed_drop_bit (nat k) v)) else None)"

definition div_opt :: "'a::len word \<Rightarrow> 'a word \<Rightarrow> 'a word option" where
  "div_opt a b = (if b = 0 then None else Some (a div b))"

definition mod_opt :: "'a::len word \<Rightarrow> 'a word \<Rightarrow> 'a word option" where
  "mod_opt a b = (if b = 0 then None else Some (a mod b))"

text \<open>The 32-bit arithmetic group.\<close>

definition exec_alu32 :: "ebpf_inst \<Rightarrow> u16 \<Rightarrow> exec_state \<Rightarrow> step_result option" where
  "exec_alu32 i cur_pc s =
    (let op = opcode i; d = reg s (dst i); r = reg s (src i);
         wr = (\<lambda>v. Some (Inl (set_reg s (dst i) (v AND UINT32_MAX))));
         wro = (\<lambda>u v. Some (write_opt s i u (map_option (\<lambda>w. w AND UINT32_MAX) v)))
     in
     if op = EBPF_OP_ADD_IMM then wr (d + imm64 i)
     else if op = EBPF_OP_ADD_REG then wr (d + r)
     else if op = EBPF_OP_SUB_IMM then wr (d - imm64 i)
     else if op = EBPF_OP_SUB_REG then wr (d - r)
     else if op = EBPF_OP_MUL_IMM then wr (d * imm64 i)
     else if op = EBPF_OP_MUL_REG then wr (d * r)
     else if op = EBPF_OP_DIV_IMM then
       wro DivZero (map_option ucast (div_opt (u32 d) (u32 (imm64 i))))
     else if op = EBPF_OP_DIV_REG then
       (if r = 0 then Some (Inr (Aborted (DivisionByZero cur_pc), memory s))
        else wro DivZero (map_option ucast (div_opt (u32 d) (u32 r))))
     else if op = EBPF_OP_OR_IMM then wr (d OR imm64 i)
     else if op = EBPF_OP_OR_REG then wr (d OR r)
     else if op = EBPF_OP_AND_IMM then wr (d AND imm64 i)
     else if op = EBPF_OP_AND_REG then wr (d AND r)
     else if op = EBPF_OP_LSH_IMM then wro ShiftRange (shl64 d (sint (imm i)))
     else if op = EBPF_OP_LSH_REG then wro ShiftRange (shl64 d (uint r))
     else if op = EBPF_OP_RSH_IMM then wro ShiftRange (shr32 (u32 d) (sint (imm i)))
     else if op = EBPF_OP_RSH_REG then wro ShiftRange (shr32 (u32 d) (uint r))
     else if op = EBPF_OP_NEG then wr (- d)
     else if op = EBPF_OP_MOD_IMM then
       wro DivZero (map_option ucast (mod_opt (u32 d) (u32 (imm64 i))))
     else if op = EBPF_OP_MOD_REG then
       (if r = 0 then Some (Inr (Aborted (DivisionByZero cur_pc), memory s))
        else Some (write_opt s i DivZero (map_option ucast (mod_opt (u32 d) (u32 r)))))
     else if op = EBPF_OP_XOR_IMM then wr (d XOR imm64 i)
     else if op = EBPF_OP_XOR_REG then wr (d XOR r)
     else if op = EBPF_OP_MOV_IMM then wr (imm64 i)
     else if op = EBPF_OP_MOV_REG then wr r
     else if op = EBPF_OP_ARSH_IMM then wro ShiftRange (sar32 (u32 d) (sint (imm i)))
     else if op = EBPF_OP_ARSH_REG then wro ShiftRange (sar32 (u32 d) (uint (u32 r)))
     else None)"

text \<open>Byte-order conversion on a little-endian host: \<^verbatim>\<open>htole*\<close> truncates, \<^verbatim>\<open>htobe*\<close> also swaps.\<close>

definition htobe :: "nat \<Rightarrow> u64 \<Rightarrow> u64" where
  "htobe n x = le_word (rev (le_bytes n x))"

definition exec_endian :: "ebpf_inst \<Rightarrow> exec_state \<Rightarrow> step_result option" where
  "exec_endian i s =
    (let op = opcode i; d = reg s (dst i); wr = (\<lambda>v. Some (Inl (set_reg s (dst i) v))) in
     if op = EBPF_OP_LE then
       (if imm i = 16 then wr (ucast (ucast d :: u16))
        else if imm i = 32 then wr (ucast (ucast d :: u32))
        else if imm i = 64 then wr d
        else Some (Inl s))
     else if op = EBPF_OP_BE then
       (if imm i = 16 then wr (htobe 2 d)
        else if imm i = 32 then wr (htobe 4 d)
        else if imm i = 64 then wr (htobe 8 d)
        else Some (Inl s))
     else None)"

text \<open>The 64-bit arithmetic group.\<close>

definition exec_alu64 :: "ebpf_inst \<Rightarrow> u16 \<Rightarrow> exec_state \<Rightarrow> step_result option" where
  "exec_alu64 i cur_pc s =
    (let op = opcode i; d = reg s (dst i); r = reg s (src i);
         wr = (\<lambda>v. Some (Inl (set_reg s (dst i) v)));
         wro = (\<lambda>u v. Some (write_opt s i u v))
     in
     if op = EBPF_OP_ADD64_IMM then wr (d + imm64 i)
     else if op = EBPF_OP_ADD64_REG then wr (d + r)
     else if op = EBPF_OP_SUB64_IMM then wr (d - imm64 i)
     else if op = EBPF_OP_SUB64_REG then wr (d - r)
     else if op = EBPF_OP_MUL64_IMM then wr (d * imm64 i)
     else if op = EBPF_OP_MUL64_REG then wr (d * r)
     else if op = EBPF_OP_DIV64_IMM then wro DivZero (div_opt d (imm64 i))
     else if op = EBPF_OP_DIV64_REG then
       (if r = 0 then Some (Inr (Aborted (DivisionByZero cur_pc), memory s))
        else wro DivZero (div_opt d r))
     else if op = EBPF_OP_OR64_IMM then wr (d OR imm64 i)
     else if op = EBPF_OP_OR64_REG then wr (d OR r)
     else if op = EBPF_OP_AND64_IMM then wr (d AND imm64 i)
     else if op = EBPF_OP_AND64_REG then wr (d AND r)
     else if op = EBPF_OP_LSH64_IMM then wro ShiftRange (shl64 d (sint (imm i)))
     else if op = EBPF_OP_LSH64_REG then wro ShiftRange (shl64 d (uint r))
     else if op = EBPF_OP_RSH64_IMM then wro ShiftRange (shr64 d (sint (imm i)))
     else if op = EBPF_OP_RSH64_REG then wro ShiftRange (shr64 d (uint r))
     else if op = EBPF_OP_NEG64 then wr (- d)
     else if op = EBPF_OP_MOD64_IMM then wro DivZero (mod_opt d (imm64 i))
     else if op = EBPF_OP_MOD64_REG then
       (if r = 0 then Some (Inr (Aborted (DivisionByZero cur_pc), memory s))
        else wro DivZero (mod_opt d r))
     else if op = EBPF_OP_XOR64_IMM then wr (d XOR imm64 i)
     else if op = EBPF_OP_XOR64_REG then wr (d XOR r)
     else if op = EBPF_OP_MOV64_IMM then wr (imm64 i)
     else if op = EBPF_OP_MOV64_REG then wr r
     else if op = EBPF_OP_ARSH64_IMM then wro ShiftRange (sar64 d (sint (imm i)))
     else if op = EBPF_OP_ARSH64_REG then wro ShiftRange (sar64 d (uint r))
     else None)"

text \<open>Loads: \<^verbatim>\<open>BOUNDS_CHECK_LOAD(size)\<close>, then the access.\<close>

definition do_load :: "ubpf_vm \<Rightarrow> exec_env \<Rightarrow> ebpf_inst \<Rightarrow> u16 \<Rightarrow> nat \<Rightarrow> exec_state \<Rightarrow> step_result" where
  "do_load vm env i cur_pc sz s =
    (let addr = reg s (src i) + off64 i in
     if \<not> bounds_check vm env addr sz
     then Inr (Aborted (OutOfBounds Load cur_pc addr sz), memory s)
     else case mload (memory s) addr sz of
            None \<Rightarrow> undef_result s (WildAccess addr sz)
          | Some bs \<Rightarrow> Inl (set_reg s (dst i) (le_word bs)))"

definition exec_ldx :: "ubpf_vm \<Rightarrow> exec_env \<Rightarrow> ebpf_inst \<Rightarrow> u16 \<Rightarrow> exec_state \<Rightarrow> step_result option" where
  "exec_ldx vm env i cur_pc s =
    (let op = opcode i in
     if op = EBPF_OP_LDXW then Some (do_load vm env i cur_pc 4 s)
     else if op = EBPF_OP_LDXH then Some (do_load vm env i cur_pc 2 s)
     else if op = EBPF_OP_LDXB then Some (do_load vm env i cur_pc 1 s)
     else if op = EBPF_OP_LDXDW then Some (do_load vm env i cur_pc 8 s)
     else None)"

text \<open>Stores of an immediate and of a register; the conversion keeps the low bytes.\<close>

definition do_store ::
  "ubpf_vm \<Rightarrow> exec_env \<Rightarrow> ebpf_inst \<Rightarrow> u16 \<Rightarrow> nat \<Rightarrow> u64 \<Rightarrow> exec_state \<Rightarrow> step_result" where
  "do_store vm env i cur_pc sz v s =
    (let addr = reg s (dst i) + off64 i in
     if \<not> bounds_check vm env addr sz
     then Inr (Aborted (OutOfBounds Store cur_pc addr sz), memory s)
     else case mstore (memory s) addr (le_bytes sz v) of
            None \<Rightarrow> undef_result s (WildAccess addr sz)
          | Some m \<Rightarrow> Inl (s\<lparr>memory := m\<rparr>))"

definition exec_st :: "ubpf_vm \<Rightarrow> exec_env \<Rightarrow> ebpf_inst \<Rightarrow> u16 \<Rightarrow> exec_state \<Rightarrow> step_result option" where
  "exec_st vm env i cur_pc s =
    (let op = opcode i in
     if op = EBPF_OP_STW then Some (do_store vm env i cur_pc 4 (imm64 i) s)
     else if op = EBPF_OP_STH then Some (do_store vm env i cur_pc 2 (imm64 i) s)
     else if op = EBPF_OP_STB then Some (do_store vm env i cur_pc 1 (imm64 i) s)
     else if op = EBPF_OP_STDW then Some (do_store vm env i cur_pc 8 (imm64 i) s)
     else None)"

definition exec_stx :: "ubpf_vm \<Rightarrow> exec_env \<Rightarrow> ebpf_inst \<Rightarrow> u16 \<Rightarrow> exec_state \<Rightarrow> step_result option" where
  "exec_stx vm env i cur_pc s =
    (let op = opcode i; r = reg s (src i) in
     if op = EBPF_OP_STXW then Some (do_store vm env i cur_pc 4 r s)
     else if op = EBPF_OP_STXH then Some (do_store vm env i cur_pc 2 r s)
     else if op = EBPF_OP_STXB then Some (do_store vm env i cur_pc 1 r s)
     else if op = EBPF_OP_STXDW then Some (do_store vm env i cur_pc 8 r s)
     else None)"

text \<open>\<^verbatim>\<open>lddw\<close> takes the high half from the next slot and steps over it.\<close>

definition exec_lddw :: "ebpf_inst list \<Rightarrow> ebpf_inst \<Rightarrow> exec_state \<Rightarrow> step_result option" where
  "exec_lddw code i s =
    (if opcode i = EBPF_OP_LDDW then
       (if unat (pc s) < length code
        then Some (Inl (set_reg (s\<lparr>pc := pc s + 1\<rparr>) (dst i)
                     (imm32u i OR push_bit 32 (imm64 (code ! unat (pc s))))))
        else Some (undef_result s (PcOutOfRange (pc s))))
     else None)"

text \<open>Jumps: the condition each label tests, then \<^verbatim>\<open>pc += inst.offset\<close> in 16 bits.\<close>

definition jump_taken :: "ebpf_inst \<Rightarrow> exec_state \<Rightarrow> bool option" where
  "jump_taken i s =
    (let op = opcode i; d = reg s (dst i); r = reg s (src i) in
     if op = EBPF_OP_JA then Some True
     else if op = EBPF_OP_JEQ_IMM then Some (d = imm64 i)
     else if op = EBPF_OP_JEQ_REG then Some (d = r)
     else if op = EBPF_OP_JGT_IMM then Some (d > imm32u i)
     else if op = EBPF_OP_JGT_REG then Some (d > r)
     else if op = EBPF_OP_JGE_IMM then Some (d \<ge> imm32u i)
     else if op = EBPF_OP_JGE_REG then Some (d \<ge> r)
     else if op = EBPF_OP_JLT_IMM then Some (d < imm32u i)
     else if op = EBPF_OP_JLT_REG then Some (d < r)
     else if op = EBPF_OP_JLE_IMM then Some (d \<le> imm32u i)
     else if op = EBPF_OP_JLE_REG then Some (d \<le> r)
     else if op = EBPF_OP_JSET_IMM then Some (d AND imm64 i \<noteq> 0)
     else if op = EBPF_OP_JSET_REG then Some (d AND r \<noteq> 0)
     else if op = EBPF_OP_JNE_IMM then Some (d \<noteq> imm64 i)
     else if op = EBPF_OP_JNE_REG then Some (d \<noteq> r)
     else if op = EBPF_OP_JSGT_IMM then Some (sint d > sint (imm i))
     else if op = EBPF_OP_JSGT_REG then Some (sint d > sint r)
     else if op = EBPF_OP_JSGE_IMM then Some (sint d \<ge> sint (imm i))
     else if op = EBPF_OP_JSGE_REG then Some (sint d \<ge> sint r)
     else if op = EBPF_OP_JSLT_IMM then Some (sint d < sint (imm i))
     else if op = EBPF_OP_JSLT_REG then Some (sint d < sint r)
     else if op = EBPF_OP_JSLE_IMM then Some (sint d \<le> sint (imm i))
     else if op = EBPF_OP_JSLE_REG then Some (sint d \<le> sint r)
     else None)"

definition exec_jmp :: "ebpf_inst \<Rightarrow> exec_state \<Rightarrow> step_result option" where
  "exec_jmp i s =
    map_option (\<lambda>t. Inl (if t then s\<lparr>pc := pc s + off16 i\<rparr> else s)) (jump_taken i s)"

definition exec_call_exit :: "ubpf_vm \<Rightarrow> exec_env \<Rightarrow> ebpf_inst \<Rightarrow> exec_state \<Rightarrow> step_result option" where
  "exec_call_exit vm env i s =
    (if opcode i = EBPF_OP_EXIT then Some (Inr (Returned (reg s 0), memory s))
     else if opcode i = EBPF_OP_CALL then
       (let k = sint (imm i) in
        if 0 \<le> k \<and> k < int (length (funcs_of vm)) \<and> funcs_of vm ! nat k \<noteq> 0
        then (case env_call env (funcs_of vm ! nat k) [reg s 1, reg s 2, reg s 3, reg s 4, reg s 5]
                     (memory s) of
                (v, m) \<Rightarrow> Some (Inl (set_reg (s\<lparr>memory := m\<rparr>) 0 v)))
        else Some (undef_result s BadCall))
     else None)"

section \<open>The loop\<close>

fun first_some :: "'a option list \<Rightarrow> 'a \<Rightarrow> 'a" where
  "first_some [] d = d"
| "first_some (Some x # xs) d = x"
| "first_some (None # xs) d = first_some xs d"

definition exec_switch ::
  "ubpf_vm \<Rightarrow> exec_env \<Rightarrow> ebpf_inst list \<Rightarrow> ebpf_inst \<Rightarrow> u16 \<Rightarrow> exec_state \<Rightarrow> step_result" where
  "exec_switch vm env code i cur_pc s =
    first_some
      [exec_alu32 i cur_pc s, exec_endian i s, exec_alu64 i cur_pc s,
       exec_ldx vm env i cur_pc s, exec_st vm env i cur_pc s, exec_stx vm env i cur_pc s,
       exec_lddw code i s, exec_jmp i s, exec_call_exit vm env i s]
      (Inl s)"

definition exec_step :: "ubpf_vm \<Rightarrow> exec_env \<Rightarrow> ebpf_inst list \<Rightarrow> exec_state \<Rightarrow> step_result" where
  "exec_step vm env code s =
    (if unat (pc s) < length code
     then exec_switch vm env code (code ! unat (pc s)) (pc s) (s\<lparr>pc := pc s + 1\<rparr>)
     else undef_result s (PcOutOfRange (pc s)))"

text \<open>The frame of a call: \<^verbatim>\<open>pc = 0\<close>, \<^verbatim>\<open>reg[1] = mem\<close>, \<^verbatim>\<open>reg[10]\<close> the end of the stack.\<close>

definition exec_init :: "exec_env \<Rightarrow> (4 word \<Rightarrow> u64) \<Rightarrow> memory \<Rightarrow> exec_state" where
  "exec_init env junk m =
    \<lparr>pc = 0,
     reg = junk(1 := env_mem env, 10 := env_stack env + of_nat STACK_SIZE),
     memory = m\<rparr>"

definition ubpf_exec ::
  "ubpf_vm \<Rightarrow> exec_env \<Rightarrow> (4 word \<Rightarrow> u64) \<Rightarrow> memory \<Rightarrow> nat \<Rightarrow> (exec_result \<times> memory) option" where
  "ubpf_exec vm env junk m fuel =
    (case insts vm of
       None \<Rightarrow> Some (Returned UINT64_MAX, m)
     | Some (_, code) \<Rightarrow> run (exec_step vm env code) fuel (exec_init env junk m))"

end
