(* ===== verification/Ubpf_Verifier.thy ===== *)
theory Ubpf_Verifier
  imports Ubpf_Exec
begin

text \<open>
  What the load-time verifier of \<^verbatim>\<open>ubpf_vm.c\<close> guarantees.  \<open>inst_start\<close> is the set
  of slots at which an instruction begins (the second half of an \<^verbatim>\<open>lddw\<close> is none),
  \<open>wf_inst\<close> says in one place what the \<^verbatim>\<open>switch\<close> and the register checks of
  \<^verbatim>\<open>validate\<close> test, and \<^verbatim>\<open>validate\<close> accepts exactly the programs all of whose
  instructions are well formed.
\<close>

section \<open>Instruction boundaries\<close>

definition inst_width :: "ebpf_inst \<Rightarrow> nat" where
  "inst_width i = (if opcode i = EBPF_OP_LDDW then 2 else 1)"

inductive inst_start :: "ebpf_inst list \<Rightarrow> nat \<Rightarrow> bool" for code where
  start_zero: "inst_start code 0"
| start_next: "inst_start code i \<Longrightarrow> i < length code \<Longrightarrow>
     inst_start code (i + inst_width (code ! i))"

definition jump_target :: "ebpf_inst \<Rightarrow> nat \<Rightarrow> int" where
  "jump_target inst i = int i + 1 + sint (offset inst)"

definition wf_inst :: "ubpf_vm \<Rightarrow> ebpf_inst list \<Rightarrow> nat \<Rightarrow> bool" where
  "wf_inst vm code i \<longleftrightarrow>
    (let inst = code ! i; op = opcode inst in
     op \<in> set ebpf_opcodes \<and>
     src inst \<le> 10 \<and> (dst inst \<le> 9 \<or> op \<in> set validate_store_ops \<and> dst inst = 10) \<and>
     (op = EBPF_OP_LE \<or> op = EBPF_OP_BE \<longrightarrow> imm inst \<in> {16, 32, 64}) \<and>
     (op = EBPF_OP_LDDW \<longrightarrow> i + 1 < length code \<and> opcode (code ! (i + 1)) = 0) \<and>
     (op \<in> set validate_jump_ops \<longrightarrow>
        0 \<le> jump_target inst i \<and> jump_target inst i < int (length code) \<and>
        jump_target inst i \<noteq> int i \<and> opcode (code ! nat (jump_target inst i)) \<noteq> 0) \<and>
     (op = EBPF_OP_CALL \<longrightarrow>
        0 \<le> sint (imm inst) \<and> sint (imm inst) < int MAX_EXT_FUNCS \<and>
        funcs_of vm ! nat (sint (imm inst)) \<noteq> 0) \<and>
     (op \<in> set validate_divimm_ops \<longrightarrow> imm inst \<noteq> 0))"

definition wf_prog :: "ubpf_vm \<Rightarrow> ebpf_inst list \<Rightarrow> bool" where
  "wf_prog vm code \<longleftrightarrow>
     length code < MAX_INSTS \<and> (\<forall>i < length code. inst_start code i \<longrightarrow> wf_inst vm code i)"

lemmas validate_op_defs =
  validate_alu32_ops_def validate_alu64_ops_def validate_load_ops_def validate_store_ops_def
  validate_jump_ops_def validate_divimm_ops_def

text \<open>
  The groups of the \<^verbatim>\<open>switch\<close> are pairwise disjoint and cover the opcodes of the
  header, so the kind of an opcode is a function of it.
\<close>

datatype op_kind = KAlu32 | KEndian | KAlu64 | KLoad | KStore | KLddw | KJump | KCall | KExit
  | KDivImm | KUnknown

definition op_kind :: "byte \<Rightarrow> op_kind" where
  "op_kind op =
    (if op \<in> set validate_alu32_ops then KAlu32
     else if op \<in> set [EBPF_OP_LE, EBPF_OP_BE] then KEndian
     else if op \<in> set validate_alu64_ops then KAlu64
     else if op \<in> set validate_load_ops then KLoad
     else if op \<in> set validate_store_ops then KStore
     else if op \<in> set [EBPF_OP_LDDW] then KLddw
     else if op \<in> set validate_jump_ops then KJump
     else if op \<in> set [EBPF_OP_CALL] then KCall
     else if op \<in> set [EBPF_OP_EXIT] then KExit
     else if op \<in> set validate_divimm_ops then KDivImm
     else KUnknown)"

definition switch_groups :: "byte list" where
  "switch_groups = validate_alu32_ops @ [EBPF_OP_LE, EBPF_OP_BE] @ validate_alu64_ops @
     validate_load_ops @ validate_store_ops @ [EBPF_OP_LDDW] @ validate_jump_ops @
     [EBPF_OP_CALL] @ [EBPF_OP_EXIT] @ validate_divimm_ops"

lemma set_switch_groups: "set switch_groups = set ebpf_opcodes"
  unfolding switch_groups_def validate_op_defs ebpf_opcodes_def by force

lemma distinct_switch_groups: "distinct switch_groups"
proof (rule distinct_map [THEN iffD1, THEN conjunct1])
  show "distinct (map uint switch_groups)"
    by (simp add: switch_groups_def validate_op_defs ebpf_ops)
qed

lemmas groups_disjoint =
  distinct_switch_groups [unfolded switch_groups_def distinct_append set_append]

lemma op_kind_member:
  "op \<in> set validate_alu32_ops \<longleftrightarrow> op_kind op = KAlu32"
  "op \<in> set [EBPF_OP_LE, EBPF_OP_BE] \<longleftrightarrow> op_kind op = KEndian"
  "op \<in> set validate_alu64_ops \<longleftrightarrow> op_kind op = KAlu64"
  "op \<in> set validate_load_ops \<longleftrightarrow> op_kind op = KLoad"
  "op \<in> set validate_store_ops \<longleftrightarrow> op_kind op = KStore"
  "op \<in> set [EBPF_OP_LDDW] \<longleftrightarrow> op_kind op = KLddw"
  "op \<in> set validate_jump_ops \<longleftrightarrow> op_kind op = KJump"
  "op \<in> set [EBPF_OP_CALL] \<longleftrightarrow> op_kind op = KCall"
  "op \<in> set [EBPF_OP_EXIT] \<longleftrightarrow> op_kind op = KExit"
  "op \<in> set validate_divimm_ops \<longleftrightarrow> op_kind op = KDivImm"
  using groups_disjoint unfolding op_kind_def disjoint_iff by (auto simp del: set_simps)

lemma op_kind_known: "op \<in> set ebpf_opcodes \<longleftrightarrow> op_kind op \<noteq> KUnknown"
  unfolding set_switch_groups [symmetric] switch_groups_def op_kind_def set_append Un_iff
  by (auto simp del: set_simps)

lemmas op_kind_rules [simp] = op_kind_member(1,3,4,5,7,10) op_kind_known
  op_kind_member(2,6,8,9) [simplified]

lemma offset_minus1: "offset inst = -1 \<longleftrightarrow> jump_target inst i = int i"
proof -
  have "sint (offset inst) = -1 \<longleftrightarrow> offset inst = -1"
    by (metis signed_minus_1 signed_word_eqI)
  then show ?thesis by (auto simp: jump_target_def)
qed

section \<open>Soundness and completeness of the verifier\<close>

lemma inst_width_pos [simp]: "0 < inst_width i"
  by (simp add: inst_width_def)

lemma inst_start_gap:
  "inst_start code i \<Longrightarrow> inst_start code j \<Longrightarrow> i < j \<Longrightarrow> i + inst_width (code ! i) \<le> j"
proof (induction "i + j" arbitrary: i j rule: less_induct)
  case less
  from less.prems(2,3) obtain k where k: "inst_start code k" "k < length code"
    and j: "j = k + inst_width (code ! k)"
    by (auto elim: inst_start.cases)
  consider "i < k" | "i = k" | "k < i" by linarith
  then show ?case
  proof cases
    case 1
    then have "i + inst_width (code ! i) \<le> k"
      using less.hyps [of i k] less.prems(1) k(1) j by simp
    then show ?thesis using j by simp
  next
    case 2
    then show ?thesis using j by simp
  next
    case 3
    then have "j \<le> i"
      using less.hyps [of k i] less.prems k(1) j by simp
    with less.prems(3) show ?thesis by simp
  qed
qed

lemma validate_inst_iff:
  "validate_inst vm code i = Inr i' \<longleftrightarrow> wf_inst vm code i \<and> Suc i' = i + inst_width (code ! i)"
  by (cases "op_kind (opcode (code ! i))")
    (auto simp: validate_inst_def validate_switch_def validate_regs_def wf_inst_def Let_def
      inst_width_def jump_target_def [symmetric] offset_minus1 [of _ i] not_less
      split: if_splits sum.splits)

lemma validate_inst_total:
  "wf_inst vm code i \<Longrightarrow> validate_inst vm code i = Inr (i + inst_width (code ! i) - 1)"
  by (simp add: validate_inst_iff)

lemma validate_loop_iff:
  "inst_start code i \<Longrightarrow> validate_loop vm code i = Inr () \<longleftrightarrow>
     (\<forall>j < length code. i \<le> j \<and> inst_start code j \<longrightarrow> wf_inst vm code j)"
proof (induction vm code i rule: validate_loop.induct)
  case (1 vm code i)
  let ?n = "i + inst_width (code ! i)"
  show ?case
  proof (cases "i < length code \<and> wf_inst vm code i")
    case True
    have after: "i \<le> j \<and> inst_start code j \<longleftrightarrow> j = i \<or> ?n \<le> j \<and> inst_start code j" for j
      using inst_start_gap [OF "1.prems", of j] "1.prems" by auto
    have "validate_loop vm code i = validate_loop vm code ?n"
      using True by (simp add: validate_loop.simps [of vm code i] validate_inst_total)
    moreover have "inst_start code ?n" using "1.prems" True by (blast intro: start_next)
    ultimately show ?thesis
      using "1.IH" [OF conjunct1 [OF True] validate_inst_total [OF conjunct2 [OF True]]] True
      by (auto simp: after)
  next
    case False
    then have "\<And>i'. i < length code \<Longrightarrow> validate_inst vm code i \<noteq> Inr i'"
      by (simp add: validate_inst_iff)
    then show ?thesis
      using False "1.prems" by (auto simp: validate_loop.simps [of vm code i] split: sum.splits)
  qed
qed

lemma validate_iff_wf: "validate vm code = Inr () \<longleftrightarrow> wf_prog vm code"
  using validate_loop_iff [OF start_zero, of vm code]
  by (auto simp: validate_def wf_prog_def not_le)

lemma wf_start_opcode: "wf_inst vm code i \<Longrightarrow> opcode (code ! i) \<noteq> 0"
proof 
  assume "wf_inst vm code i" "opcode (code ! i) = 0"
  then have "op_kind 0 \<noteq> KUnknown" by (simp add: wf_inst_def Let_def)
  then show False by (simp add: op_kind_def validate_op_defs ebpf_ops del: op_kind_rules)
qed

lemma inst_start_or_second:
  assumes wf: "wf_prog vm code"
  shows "i < length code \<Longrightarrow>
    inst_start code i \<or> opcode (code ! i) = 0 \<and> inst_start code (Suc i)"
proof (induction i)
  case 0
  then show ?case by (simp add: start_zero)
next
  case (Suc i)
  then have "i < length code" by simp
  show ?case
  proof (cases "inst_start code i")
    case True
    from True \<open>i < length code\<close> wf have "wf_inst vm code i" by (simp add: wf_prog_def)
    then show ?thesis
      using start_next [OF True \<open>i < length code\<close>]
      by (cases "op_kind (opcode (code ! i)) = KLddw") (simp_all add: wf_inst_def Let_def inst_width_def)
  next
    case False
    then show ?thesis using Suc by simp
  qed
qed

lemma jump_target_start:
  assumes wf: "wf_prog vm code" and i: "inst_start code i" "i < length code"
    and op: "op_kind (opcode (code ! i)) = KJump"
  shows "0 \<le> jump_target (code ! i) i" "nat (jump_target (code ! i) i) < length code"
    "inst_start code (nat (jump_target (code ! i) i))"
proof -
  have w: "wf_inst vm code i" using wf i by (simp add: wf_prog_def)
  then show *: "0 \<le> jump_target (code ! i) i" "nat (jump_target (code ! i) i) < length code"
    using op by (simp_all add: wf_inst_def Let_def nat_less_iff)
  have "opcode (code ! nat (jump_target (code ! i) i)) \<noteq> 0"
    using w op by (simp add: wf_inst_def Let_def)
  then show "inst_start code (nat (jump_target (code ! i) i))"
    using inst_start_or_second [OF wf *(2)] by simp
qed
end
