(* ===== verification/Ubpf_Steps.thy ===== *)
theory Ubpf_Steps
  imports Ubpf_Verifier
begin

text \<open>
  The shape of one interpreter step.  Each group of \<^verbatim>\<open>case\<close> labels of \<^verbatim>\<open>ubpf_exec\<close>
  runs only for its own kind of opcode, and what it can do to the state is one of
  a few forms, collected in the inductive predicate \<open>step_form\<close>.  The safety,
  frame and termination proofs are case analyses over these forms instead of
  over ninety opcodes.
\<close>

section \<open>Which group runs\<close>

lemma op_kind_consts [simp]:
  "op_kind EBPF_OP_LE = KEndian" "op_kind EBPF_OP_BE = KEndian" "op_kind EBPF_OP_LDDW = KLddw"
  "op_kind EBPF_OP_CALL = KCall" "op_kind EBPF_OP_EXIT = KExit"
  by (auto simp flip: op_kind_member)

lemma op_kind_alu32 [simp]:
  "op_kind EBPF_OP_ADD_IMM = KAlu32" "op_kind EBPF_OP_ADD_REG = KAlu32"
  "op_kind EBPF_OP_SUB_IMM = KAlu32" "op_kind EBPF_OP_SUB_REG = KAlu32"
  "op_kind EBPF_OP_MUL_IMM = KAlu32" "op_kind EBPF_OP_MUL_REG = KAlu32"
  "op_kind EBPF_OP_DIV_REG = KAlu32" "op_kind EBPF_OP_OR_IMM = KAlu32"
  "op_kind EBPF_OP_OR_REG = KAlu32" "op_kind EBPF_OP_AND_IMM = KAlu32"
  "op_kind EBPF_OP_AND_REG = KAlu32" "op_kind EBPF_OP_LSH_IMM = KAlu32"
  "op_kind EBPF_OP_LSH_REG = KAlu32" "op_kind EBPF_OP_RSH_IMM = KAlu32"
  "op_kind EBPF_OP_RSH_REG = KAlu32" "op_kind EBPF_OP_NEG = KAlu32"
  "op_kind EBPF_OP_MOD_REG = KAlu32" "op_kind EBPF_OP_XOR_IMM = KAlu32"
  "op_kind EBPF_OP_XOR_REG = KAlu32" "op_kind EBPF_OP_MOV_IMM = KAlu32"
  "op_kind EBPF_OP_MOV_REG = KAlu32" "op_kind EBPF_OP_ARSH_IMM = KAlu32"
  "op_kind EBPF_OP_ARSH_REG = KAlu32"
  unfolding op_kind_member(1) [symmetric] validate_alu32_ops_def by simp_all

lemma op_kind_alu64 [simp]:
  "op_kind EBPF_OP_ADD64_IMM = KAlu64" "op_kind EBPF_OP_ADD64_REG = KAlu64"
  "op_kind EBPF_OP_SUB64_IMM = KAlu64" "op_kind EBPF_OP_SUB64_REG = KAlu64"
  "op_kind EBPF_OP_MUL64_IMM = KAlu64" "op_kind EBPF_OP_MUL64_REG = KAlu64"
  "op_kind EBPF_OP_DIV64_REG = KAlu64" "op_kind EBPF_OP_OR64_IMM = KAlu64"
  "op_kind EBPF_OP_OR64_REG = KAlu64" "op_kind EBPF_OP_AND64_IMM = KAlu64"
  "op_kind EBPF_OP_AND64_REG = KAlu64" "op_kind EBPF_OP_LSH64_IMM = KAlu64"
  "op_kind EBPF_OP_LSH64_REG = KAlu64" "op_kind EBPF_OP_RSH64_IMM = KAlu64"
  "op_kind EBPF_OP_RSH64_REG = KAlu64" "op_kind EBPF_OP_NEG64 = KAlu64"
  "op_kind EBPF_OP_MOD64_REG = KAlu64" "op_kind EBPF_OP_XOR64_IMM = KAlu64"
  "op_kind EBPF_OP_XOR64_REG = KAlu64" "op_kind EBPF_OP_MOV64_IMM = KAlu64"
  "op_kind EBPF_OP_MOV64_REG = KAlu64" "op_kind EBPF_OP_ARSH64_IMM = KAlu64"
  "op_kind EBPF_OP_ARSH64_REG = KAlu64"
  unfolding op_kind_member(3) [symmetric] validate_alu64_ops_def by simp_all

lemma op_kind_mem [simp]:
  "op_kind EBPF_OP_LDXW = KLoad" "op_kind EBPF_OP_LDXH = KLoad"
  "op_kind EBPF_OP_LDXB = KLoad" "op_kind EBPF_OP_LDXDW = KLoad"
  "op_kind EBPF_OP_STW = KStore" "op_kind EBPF_OP_STH = KStore"
  "op_kind EBPF_OP_STB = KStore" "op_kind EBPF_OP_STDW = KStore"
  "op_kind EBPF_OP_STXW = KStore" "op_kind EBPF_OP_STXH = KStore"
  "op_kind EBPF_OP_STXB = KStore" "op_kind EBPF_OP_STXDW = KStore"
  unfolding op_kind_member(4,5) [symmetric] validate_load_ops_def validate_store_ops_def
  by simp_all

lemma op_kind_divimm [simp]:
  "op_kind EBPF_OP_DIV_IMM = KDivImm" "op_kind EBPF_OP_MOD_IMM = KDivImm"
  "op_kind EBPF_OP_DIV64_IMM = KDivImm" "op_kind EBPF_OP_MOD64_IMM = KDivImm"
  unfolding op_kind_member(10) [symmetric] validate_divimm_ops_def by simp_all

lemma op_kind_jump [simp]:
  "op_kind EBPF_OP_JA = KJump" "op_kind EBPF_OP_JEQ_REG = KJump" "op_kind EBPF_OP_JEQ_IMM = KJump"
  "op_kind EBPF_OP_JGT_REG = KJump" "op_kind EBPF_OP_JGT_IMM = KJump"
  "op_kind EBPF_OP_JGE_REG = KJump" "op_kind EBPF_OP_JGE_IMM = KJump"
  "op_kind EBPF_OP_JLT_REG = KJump" "op_kind EBPF_OP_JLT_IMM = KJump"
  "op_kind EBPF_OP_JLE_REG = KJump" "op_kind EBPF_OP_JLE_IMM = KJump"
  "op_kind EBPF_OP_JSET_REG = KJump" "op_kind EBPF_OP_JSET_IMM = KJump"
  "op_kind EBPF_OP_JNE_REG = KJump" "op_kind EBPF_OP_JNE_IMM = KJump"
  "op_kind EBPF_OP_JSGT_REG = KJump" "op_kind EBPF_OP_JSGT_IMM = KJump"
  "op_kind EBPF_OP_JSGE_REG = KJump" "op_kind EBPF_OP_JSGE_IMM = KJump"
  "op_kind EBPF_OP_JSLT_REG = KJump" "op_kind EBPF_OP_JSLT_IMM = KJump"
  "op_kind EBPF_OP_JSLE_REG = KJump" "op_kind EBPF_OP_JSLE_IMM = KJump"
  unfolding op_kind_member(7) [symmetric] validate_jump_ops_def by simp_all

lemma op_kind_neq: "op_kind op \<noteq> op_kind c \<Longrightarrow> (op = c) = False"
  by auto

lemma if_Some_None: "((if c then Some x else y) = None) = (\<not> c \<and> y = None)"
  by simp

lemma exec_alu32_None: "op_kind (opcode i) \<notin> {KAlu32, KDivImm} \<Longrightarrow> exec_alu32 i c s = None"
  by (simp add: exec_alu32_def Let_def op_kind_neq)

lemma exec_alu64_None: "op_kind (opcode i) \<notin> {KAlu64, KDivImm} \<Longrightarrow> exec_alu64 i c s = None"
  by (simp add: exec_alu64_def Let_def op_kind_neq)

lemma exec_endian_None: "op_kind (opcode i) \<noteq> KEndian \<Longrightarrow> exec_endian i s = None"
  by (auto simp: exec_endian_def Let_def)

lemma exec_ldx_None: "op_kind (opcode i) \<noteq> KLoad \<Longrightarrow> exec_ldx vm env i c s = None"
  by (auto simp: exec_ldx_def Let_def)

lemma exec_st_None: "op_kind (opcode i) \<noteq> KStore \<Longrightarrow> exec_st vm env i c s = None"
  by (auto simp: exec_st_def Let_def)

lemma exec_stx_None: "op_kind (opcode i) \<noteq> KStore \<Longrightarrow> exec_stx vm env i c s = None"
  by (auto simp: exec_stx_def Let_def)

lemma exec_lddw_None: "op_kind (opcode i) \<noteq> KLddw \<Longrightarrow> exec_lddw code i s = None"
  by (auto simp: exec_lddw_def)

lemma exec_jmp_None: "op_kind (opcode i) \<noteq> KJump \<Longrightarrow> exec_jmp i s = None"
  by (simp add: exec_jmp_def jump_taken_def Let_def op_kind_neq)

lemma exec_call_exit_None: "op_kind (opcode i) \<notin> {KCall, KExit} \<Longrightarrow> exec_call_exit vm env i s = None"
  by (auto simp: exec_call_exit_def)

lemmas exec_group_None = exec_alu32_None exec_alu64_None exec_endian_None exec_ldx_None
  exec_st_None exec_stx_None exec_lddw_None exec_jmp_None exec_call_exit_None

lemma jump_taken_None: "jump_taken i s = None \<longleftrightarrow> op_kind (opcode i) \<noteq> KJump"
  unfolding op_kind_member(7) [symmetric] validate_jump_ops_def jump_taken_def Let_def if_Some_None
  by (simp only: set_simps insert_iff empty_iff) blast

section \<open>What a group can do\<close>

lemma pred_option_if: "pred_option P a \<Longrightarrow> pred_option P b \<Longrightarrow> pred_option P (if c then a else b)"
  by simp

lemma pred_option_Some: "pred_option P (Some x) \<longleftrightarrow> P x"
  by simp

definition alu_result :: "exec_state \<Rightarrow> ebpf_inst \<Rightarrow> u16 \<Rightarrow> step_result \<Rightarrow> bool" where
  "alu_result s i c res \<longleftrightarrow>
     (\<exists>v. res = Inl (set_reg s (dst i) v)) \<or> res = Inr (Aborted (DivisionByZero c), memory s) \<or>
     res = undef_result s ShiftRange \<or> res = undef_result s DivZero"

definition low32_result :: "exec_state \<Rightarrow> ebpf_inst \<Rightarrow> step_result \<Rightarrow> bool" where
  "low32_result s i res \<longleftrightarrow> (\<forall>s'. res = Inl s' \<longrightarrow> reg s' (dst i) \<le> UINT32_MAX)"

lemma alu_result_simps [simp]:
  "alu_result s i c (Inl (set_reg s (dst i) v))"
  "alu_result s i c (Inr (Aborted (DivisionByZero c), memory s))"
  "alu_result s i c (write_opt s i ShiftRange x)"
  "alu_result s i c (write_opt s i DivZero x)"
  by (auto simp: alu_result_def write_opt_def split: option.splits)

lemma exec_alu32_result: "pred_option (alu_result s i c) (exec_alu32 i c s)"
  unfolding exec_alu32_def Let_def by (intro pred_option_if) simp_all

lemma exec_alu64_result: "pred_option (alu_result s i c) (exec_alu64 i c s)"
  unfolding exec_alu64_def Let_def by (intro pred_option_if) simp_all

lemma mask32_le: "x AND UINT32_MAX \<le> UINT32_MAX"
  by (simp add: word_and_le1)

lemma ucast32_le: "(ucast (w :: u32) :: u64) \<le> UINT32_MAX"
proof -
  have "unat w < 2 ^ 32" using unsigned_less [of w, where 'a = nat] by simp
  then show ?thesis by (simp add: UINT32_MAX_def word_le_nat_alt unat_ucast_up)
qed

lemma low32_result_simps [simp]:
  "low32_result s i (Inl (set_reg s (dst i) (v AND UINT32_MAX)))"
  "low32_result s i (Inr x)"
  "low32_result s i (write_opt s i u (map_option (\<lambda>w. w AND UINT32_MAX) z))"
  "low32_result s i (write_opt s i u (map_option (ucast :: u32 \<Rightarrow> u64) y))"
  by (auto simp: low32_result_def set_reg_def mask32_le ucast32_le write_opt_def undef_result_def
      split: option.splits)

lemma exec_alu32_low32: "pred_option (low32_result s i) (exec_alu32 i c s)"
  unfolding exec_alu32_def Let_def by (intro pred_option_if) (simp_all only: pred_option_Some low32_result_simps option.pred_inject)

lemma exec_endian_result: "pred_option (\<lambda>res. alu_result s i c res \<or> res = Inl s) (exec_endian i s)"
  unfolding exec_endian_def Let_def by (intro pred_option_if) simp_all

lemma exec_ldx_result:
  "pred_option (\<lambda>res. \<exists>sz \<in> {1, 2, 4, 8}. res = do_load vm env i c sz s) (exec_ldx vm env i c s)"
  unfolding exec_ldx_def Let_def by (intro pred_option_if) auto

lemma exec_st_result:
  "pred_option (\<lambda>res. \<exists>sz \<in> {1, 2, 4, 8}. \<exists>v. res = do_store vm env i c sz v s) (exec_st vm env i c s)"
  unfolding exec_st_def Let_def by (intro pred_option_if) auto

lemma exec_stx_result:
  "pred_option (\<lambda>res. \<exists>sz \<in> {1, 2, 4, 8}. \<exists>v. res = do_store vm env i c sz v s) (exec_stx vm env i c s)"
  unfolding exec_stx_def Let_def by (intro pred_option_if) auto

lemma exec_ldx_Some: "op_kind (opcode i) = KLoad \<Longrightarrow> exec_ldx vm env i c s \<noteq> None"
  unfolding op_kind_member(4) [symmetric] validate_load_ops_def exec_ldx_def Let_def if_Some_None
  by (simp only: set_simps insert_iff empty_iff) blast

lemma exec_store_Some:
  "op_kind (opcode i) = KStore \<Longrightarrow> exec_st vm env i c s \<noteq> None \<or> exec_stx vm env i c s \<noteq> None"
  unfolding op_kind_member(5) [symmetric] validate_store_ops_def exec_st_def exec_stx_def Let_def
    if_Some_None
  by (simp only: set_simps insert_iff empty_iff) blast

lemma exec_call_exit_Some:
  "op_kind (opcode i) \<in> {KCall, KExit} \<Longrightarrow> exec_call_exit vm env i s \<noteq> None"
  by (auto simp: exec_call_exit_def Let_def split: prod.splits simp flip: op_kind_rules)

text \<open>Every step of the interpreter is of one of these forms.\<close>

inductive step_form ::
  "ubpf_vm \<Rightarrow> exec_env \<Rightarrow> ebpf_inst list \<Rightarrow> ebpf_inst \<Rightarrow> u16 \<Rightarrow> exec_state \<Rightarrow> step_result \<Rightarrow> bool"
  for vm env code i c s where
  form_alu: "op_kind (opcode i) \<in> {KAlu32, KAlu64, KDivImm, KEndian, KUnknown} \<Longrightarrow>
     alu_result s i c res \<or> res = Inl s \<Longrightarrow> step_form vm env code i c s res"
| form_load: "op_kind (opcode i) = KLoad \<Longrightarrow> sz \<in> {1, 2, 4, 8} \<Longrightarrow>
     step_form vm env code i c s (do_load vm env i c sz s)"
| form_store: "op_kind (opcode i) = KStore \<Longrightarrow> sz \<in> {1, 2, 4, 8} \<Longrightarrow>
     step_form vm env code i c s (do_store vm env i c sz v s)"
| form_lddw: "op_kind (opcode i) = KLddw \<Longrightarrow> exec_lddw code i s = Some res \<Longrightarrow>
     step_form vm env code i c s res"
| form_jmp: "op_kind (opcode i) = KJump \<Longrightarrow> exec_jmp i s = Some res \<Longrightarrow>
     step_form vm env code i c s res"
| form_call_exit: "op_kind (opcode i) \<in> {KCall, KExit} \<Longrightarrow> exec_call_exit vm env i s = Some res \<Longrightarrow>
     step_form vm env code i c s res"

lemma exec_switch_form: "step_form vm env code i c s (exec_switch vm env code i c s)"
proof -
  note results = exec_alu32_result [of s i c] exec_alu64_result [of s i c]
    exec_endian_result [of s i c] exec_ldx_result [of vm env i c s] exec_st_result [of vm env i c s]
    exec_stx_result [of vm env i c s]
  have alu: "step_form vm env code i c s (exec_switch vm env code i c s)"
    if "op_kind (opcode i) \<in> {KAlu32, KAlu64, KDivImm, KEndian, KUnknown}"
    using that results
    by (cases "exec_alu32 i c s"; cases "exec_alu64 i c s"; cases "exec_endian i s")
      (auto simp: exec_switch_def exec_group_None intro!: form_alu)
  show ?thesis
  proof (cases "op_kind (opcode i)")
    case KLoad
    then show ?thesis
      using exec_ldx_Some [OF KLoad, of vm env c s] results
      by (auto simp: exec_switch_def exec_group_None intro!: form_load)
  next
    case KStore
    then show ?thesis
      using exec_store_Some [OF KStore, of vm env c s] results
      by (cases "exec_st vm env i c s"; cases "exec_stx vm env i c s")
        (auto simp: exec_switch_def exec_group_None intro: step_form.intros)
  next
    case KLddw
    then show ?thesis
      by (auto simp: exec_switch_def exec_group_None exec_lddw_def intro: step_form.intros)
  next
    case KJump
    then obtain t where "jump_taken i s = Some t" using jump_taken_None [of i s] by auto
    with KJump show ?thesis
      by (auto simp: exec_switch_def exec_group_None exec_jmp_def intro!: form_jmp)
  next
    case KCall
    then show ?thesis
      using exec_call_exit_Some [of i vm env s]
      by (auto simp: exec_switch_def exec_group_None intro: step_form.intros)
  next
    case KExit
    then show ?thesis
      using exec_call_exit_Some [of i vm env s]
      by (auto simp: exec_switch_def exec_group_None intro: step_form.intros)
  qed (auto intro: alu)
qed

end
