(* ===== verification/Ubpf_Safety.thy ===== *)
theory Ubpf_Safety
  imports Ubpf_Steps
begin

text \<open>
  What holds of every run of a program that \<^verbatim>\<open>ubpf_load\<close> accepted: the program
  counter stays on instruction boundaries, undefined behaviour is confined to a
  few named cases, memory outside the context and the stack is untouched, and a
  program without backward jumps ends.
\<close>

section \<open>Memory accesses inside the regions\<close>

definition in_region :: "u64 \<Rightarrow> nat \<Rightarrow> u64 \<Rightarrow> bool" where
  "in_region base len x \<longleftrightarrow> unat base \<le> unat x \<and> unat x < unat base + len"

text \<open>The bytes a program may touch: the context, if there is one, and the stack array.\<close>

definition vm_byte :: "exec_env \<Rightarrow> u64 \<Rightarrow> bool" where
  "vm_byte env x \<longleftrightarrow>
     env_mem env \<noteq> 0 \<and> in_region (env_mem env) (unat (env_mem_len env)) x \<or>
     in_region (env_stack env) STACK_SIZE x"

definition env_ok :: "exec_env \<Rightarrow> bool" where
  "env_ok env \<longleftrightarrow>
     unat (env_mem env) + unat (env_mem_len env) < 2 ^ 64 \<and>
     unat (env_stack env) + STACK_SIZE < 2 ^ 64 \<and>
     (\<forall>f args m. dom (snd (env_call env f args m)) = dom m)"

definition mapped :: "exec_env \<Rightarrow> memory \<Rightarrow> bool" where
  "mapped env m \<longleftrightarrow> (\<forall>x. vm_byte env x \<longrightarrow> m x \<noteq> None)"

lemma unat_add_no_wrap: "unat (a :: u64) + k < 2 ^ 64 \<Longrightarrow> unat (a + of_nat k) = unat a + k"
  by (simp add: unat_word_ariths unat_of_nat take_bit_nat_eq_self)

lemma bounds_check_sound:
  assumes chk: "bounds_check vm env addr sz" and on: "bounds_check_enabled vm"
    and ok: "env_ok env" and nowrap: "unat addr + sz < 2 ^ 64" and k: "k < sz"
  shows "vm_byte env (addr + of_nat k)"
proof -
  have end1: "unat (env_mem env + env_mem_len env) = unat (env_mem env) + unat (env_mem_len env)"
    using ok unat_add_no_wrap [of "env_mem env" "unat (env_mem_len env)"] by (simp add: env_ok_def)
  have end2: "unat (env_stack env + of_nat STACK_SIZE) = unat (env_stack env) + STACK_SIZE"
    using ok by (intro unat_add_no_wrap) (simp add: env_ok_def)
  have "unat (addr + of_nat sz) = unat addr + sz" "unat (addr + of_nat k) = unat addr + k"
    using nowrap k by (auto intro!: unat_add_no_wrap)
  then show ?thesis
    using chk on k end1 end2
    by (auto simp: bounds_check_def vm_byte_def in_region_def word_le_nat_alt split: if_splits)
qed

lemma add_of_nat_Suc: "(a :: u64) + of_nat (Suc k) = a + 1 + of_nat k"
  by simp

lemma mload_Some:
  "(\<And>k. k < n \<Longrightarrow> m (a + of_nat k) \<noteq> None) \<Longrightarrow> \<exists>bs. mload m a n = Some bs"
proof (induction n arbitrary: a)
  case 0
  then show ?case by simp
next
  case (Suc n)
  have "\<And>k. k < n \<Longrightarrow> m (a + 1 + of_nat k) \<noteq> None"
    using Suc.prems [of "Suc _"] unfolding add_of_nat_Suc by simp
  then obtain bs where "mload m (a + 1) n = Some bs" using Suc.IH by blast
  moreover obtain b where "m a = Some b" using Suc.prems [of 0] by auto
  ultimately show ?case by simp
qed

lemma mload_length: "mload m a n = Some bs \<Longrightarrow> length bs = n"
  by (induction n arbitrary: a bs) (auto split: option.splits)

lemma mstore_Some:
  "(\<And>k. k < length bs \<Longrightarrow> m (a + of_nat k) \<noteq> None) \<Longrightarrow> \<exists>m'. mstore m a bs = Some m'"
proof (induction bs arbitrary: m a)
  case Nil
  then show ?case by simp
next
  case (Cons b bs)
  have "\<And>k. k < length bs \<Longrightarrow> (m(a \<mapsto> b)) (a + 1 + of_nat k) \<noteq> None"
    using Cons.prems [of "Suc _"] unfolding add_of_nat_Suc by simp
  then obtain m' where "mstore (m(a \<mapsto> b)) (a + 1) bs = Some m'" using Cons.IH by blast
  moreover have "m a \<noteq> None" using Cons.prems [of 0] by simp
  ultimately show ?case by simp
qed

lemma mstore_dom: "mstore m a bs = Some m' \<Longrightarrow> dom m' = dom m"
  by (induction bs arbitrary: m a) (auto split: if_splits)

lemma mstore_frame:
  "mstore m a bs = Some m' \<Longrightarrow> (\<And>k. k < length bs \<Longrightarrow> x \<noteq> a + of_nat k) \<Longrightarrow> m' x = m x"
proof (induction bs arbitrary: m a)
  case Nil
  then show ?case by simp
next
  case (Cons b bs)
  from Cons.prems(1) have "mstore (m(a \<mapsto> b)) (a + 1) bs = Some m'" by (simp split: if_splits)
  moreover have "\<And>k. k < length bs \<Longrightarrow> x \<noteq> a + 1 + of_nat k"
    using Cons.prems(2) [of "Suc _"] unfolding add_of_nat_Suc by simp
  ultimately have "m' x = (m(a \<mapsto> b)) x" by (rule Cons.IH)
  moreover have "x \<noteq> a" using Cons.prems(2) [of 0] by simp
  ultimately show ?case by simp
qed

lemma mstore_mload:
  "mstore m a bs = Some m' \<Longrightarrow> length bs < 2 ^ 64 \<Longrightarrow> mload m' a (length bs) = Some bs"
proof (induction bs arbitrary: m a)
  case Nil
  then show ?case by simp
next
  case (Cons b bs)
  from Cons.prems(1) have st: "mstore (m(a \<mapsto> b)) (a + 1) bs = Some m'" by (simp split: if_splits)
  have "a \<noteq> a + 1 + of_nat k" if "k < length bs" for k
  proof
    assume "a = a + 1 + of_nat k"
    then have "(of_nat (Suc k) :: u64) = 0" by simp
    then have "2 ^ 64 dvd Suc k" by (simp only: word_of_nat_eq_0_iff) simp
    with that Cons.prems(2) show False using nat_dvd_not_less [of "Suc k" "2 ^ 64"] by simp
  qed
  then have "m' a = (m(a \<mapsto> b)) a" using mstore_frame [OF st] by blast
  then show ?case using Cons.IH [OF st] Cons.prems(2) by simp
qed

section \<open>The machine of a loaded program\<close>

definition vm_ok :: "ubpf_vm \<Rightarrow> bool" where
  "vm_ok vm \<longleftrightarrow> length (funcs_of vm) = MAX_EXT_FUNCS \<and> length (names_of vm) = MAX_EXT_FUNCS"

definition exec_inv :: "exec_env \<Rightarrow> ebpf_inst list \<Rightarrow> exec_state \<Rightarrow> bool" where
  "exec_inv env code s \<longleftrightarrow> inst_start code (unat (pc s)) \<and> mapped env (memory s)"

lemma mapped_dom: "dom m' = dom m \<Longrightarrow> mapped env m' \<longleftrightarrow> mapped env m"
  by (auto simp: mapped_def dom_def set_eq_iff)

lemma unat_pc_Suc: "unat (p :: u16) < n \<Longrightarrow> n < MAX_INSTS \<Longrightarrow> unat (p + 1) = Suc (unat p)"
  by (simp add: MAX_INSTS_def unat_word_ariths)

text \<open>The 16-bit program counter after a jump is the target the verifier checked.\<close>

lemma unat_pc_jump:
  assumes "0 \<le> int (unat p) + 1 + sint o'" "int (unat p) + 1 + sint o' < 2 ^ 16"
  shows "unat ((p :: u16) + 1 + o') = nat (int (unat p) + 1 + sint (o' :: u16))"
proof -
  have "p + 1 + o' = word_of_int (int (unat p) + 1 + sint o')" by simp
  then have "uint (p + 1 + o') = int (unat p) + 1 + sint o'"
    using assms by (simp only: uint_word_of_int) simp
  then show ?thesis by (simp flip: nat_uint_eq)
qed

lemma do_load_undef:
  assumes "bounds_check_enabled vm" "env_ok env" "mapped env (memory s)"
    and "do_load vm env i c sz s = Inr (Undefined u, m)"
  shows "\<exists>a. u = WildAccess a sz \<and> 2 ^ 64 \<le> unat a + sz"
proof -
  let ?a = "reg s (src i) + off64 i"
  have chk: "bounds_check vm env ?a sz" and u: "u = WildAccess ?a sz" and none: "mload (memory s) ?a sz = None"
    using assms(4) by (auto simp: do_load_def undef_result_def Let_def split: if_splits option.splits)
  have "\<not> unat ?a + sz < 2 ^ 64"
  proof
    assume "unat ?a + sz < 2 ^ 64"
    then have "\<exists>bs. mload (memory s) ?a sz = Some bs"
      using bounds_check_sound [OF chk assms(1,2)] assms(3) by (intro mload_Some) (simp add: mapped_def)
    with none show False by simp
  qed
  with u show ?thesis by auto
qed

lemma do_store_undef:
  assumes "bounds_check_enabled vm" "env_ok env" "mapped env (memory s)"
    and "do_store vm env i c sz v s = Inr (Undefined u, m)"
  shows "\<exists>a. u = WildAccess a sz \<and> 2 ^ 64 \<le> unat a + sz"
proof -
  let ?a = "reg s (dst i) + off64 i"
  have chk: "bounds_check vm env ?a sz" and u: "u = WildAccess ?a sz"
    and none: "mstore (memory s) ?a (le_bytes sz v) = None"
    using assms(4) by (auto simp: do_store_def undef_result_def Let_def split: if_splits option.splits)
  have "\<not> unat ?a + sz < 2 ^ 64"
  proof
    assume "unat ?a + sz < 2 ^ 64"
    then have "\<exists>m'. mstore (memory s) ?a (le_bytes sz v) = Some m'"
      using bounds_check_sound [OF chk assms(1,2)] assms(3) by (intro mstore_Some) (simp add: mapped_def)
    with none show False by simp
  qed
  with u show ?thesis by auto
qed

lemma do_load_next: "do_load vm env i c sz s = Inl s' \<Longrightarrow> \<exists>v. s' = set_reg s (dst i) v"
  by (auto simp: do_load_def undef_result_def Let_def split: if_splits option.splits)

lemma do_store_next:
  "do_store vm env i c sz v s = Inl s' \<Longrightarrow>
     \<exists>m'. mstore (memory s) (reg s (dst i) + off64 i) (le_bytes sz v) = Some m' \<and> s' = s\<lparr>memory := m'\<rparr>"
  by (auto simp: do_store_def undef_result_def Let_def split: if_splits option.splits)

lemma set_reg_sel [simp]:
  "pc (set_reg s r v) = pc s" "memory (set_reg s r v) = memory s"
  "reg (set_reg s r v) = (reg s)(r := v)"
  by (simp_all add: set_reg_def)

text \<open>Where the program counter can be after one step.\<close>

lemma exec_step_pc:
  assumes wf: "wf_prog vm code" and st: "inst_start code (unat (pc s))"
    and step: "exec_step vm env code s = Inl s'"
  defines "i \<equiv> code ! unat (pc s)"
  shows "unat (pc s) < length code"
    and "unat (pc s') = unat (pc s) + inst_width i \<or>
      op_kind (opcode i) = KJump \<and> unat (pc s') = nat (jump_target i (unat (pc s)))"
proof -
  let ?s = "s\<lparr>pc := pc s + 1\<rparr>"
  show lt: "unat (pc s) < length code"
    using step by (auto simp: exec_step_def undef_result_def split: if_splits)
  have len: "length code < MAX_INSTS" and wi: "wf_inst vm code (unat (pc s))"
    using wf lt st by (auto simp: wf_prog_def)
  have pc1: "unat (pc s + 1) = Suc (unat (pc s))" using unat_pc_Suc lt len by blast
  have form: "step_form vm env code i (pc s) ?s (Inl s')"
    using exec_switch_form [of vm env code i "pc s" ?s] step lt by (simp add: exec_step_def i_def)
  then show "unat (pc s') = unat (pc s) + inst_width i \<or>
      op_kind (opcode i) = KJump \<and> unat (pc s') = nat (jump_target i (unat (pc s)))"
  proof cases
    case form_alu
    then show ?thesis using pc1 by (auto simp: alu_result_def undef_result_def inst_width_def)
  next
    case (form_load sz)
    then show ?thesis using pc1 do_load_next [OF form_load(1) [symmetric]] by (auto simp: inst_width_def)
  next
    case (form_store sz v)
    then show ?thesis using pc1 do_store_next [OF form_store(1) [symmetric]] by (auto simp: inst_width_def)
  next
    case form_lddw
    then have "pc s' = pc s + 1 + 1" "Suc (unat (pc s)) < length code"
      using wi by (auto simp: exec_lddw_def wf_inst_def Let_def undef_result_def i_def split: if_splits)
    then show ?thesis
      using form_lddw(1) unat_pc_Suc [of "pc s + 1" "length code"] pc1 len
      by (simp add: inst_width_def)
  next
    case form_jmp
    note tgt = jump_target_start [OF wf st lt form_jmp(1) [unfolded i_def], folded i_def]
    have "unat (pc s + 1 + offset i) = nat (jump_target i (unat (pc s)))"
      unfolding jump_target_def using tgt(1,2) len
      by (intro unat_pc_jump) (simp_all add: jump_target_def MAX_INSTS_def nat_less_iff)
    then show ?thesis
      using form_jmp pc1 by (auto simp: exec_jmp_def off16_def inst_width_def split: if_splits)
  next
    case form_call_exit
    then show ?thesis
      using pc1
      by (auto simp: exec_call_exit_def undef_result_def Let_def inst_width_def split: if_splits prod.splits)
  qed
qed

lemma exec_step_start:
  assumes wf: "wf_prog vm code" and st: "inst_start code (unat (pc s))"
    and step: "exec_step vm env code s = Inl s'"
  shows "inst_start code (unat (pc s'))"
  using exec_step_pc [OF assms] start_next [OF st] jump_target_start(3) [OF wf st] by auto

lemma exec_step_memory:
  assumes step: "exec_step vm env code s = Inl s'"
  shows "memory s' = memory s \<or>
    (\<exists>f args. memory s' = snd (env_call env f args (memory s))) \<or>
    (\<exists>a bs. length bs \<le> 8 \<and> bounds_check vm env a (length bs) \<and>
       mstore (memory s) a bs = Some (memory s'))"
proof -
  let ?i = "code ! unat (pc s)" and ?s = "s\<lparr>pc := pc s + 1\<rparr>"
  have "step_form vm env code ?i (pc s) ?s (Inl s')"
    using exec_switch_form [of vm env code ?i "pc s" ?s] step
    by (simp add: exec_step_def undef_result_def split: if_splits)
  then show ?thesis
  proof cases
    case form_alu
    then show ?thesis by (auto simp: alu_result_def undef_result_def)
  next
    case (form_load sz)
    then show ?thesis using do_load_next [OF form_load(1) [symmetric]] by auto
  next
    case (form_store sz v)
    then have chk: "bounds_check vm env (reg s (dst ?i) + off64 ?i) sz"
      by (auto simp: do_store_def Let_def split: if_splits)
    have "sz \<le> 8" using form_store(3) by auto
    moreover obtain m' where "mstore (memory s) (reg s (dst ?i) + off64 ?i) (le_bytes sz v) = Some m'"
      and "s' = ?s\<lparr>memory := m'\<rparr>"
      using do_store_next [OF form_store(1) [symmetric]] by auto
    ultimately show ?thesis
      using chk by (intro disjI2 exI [of _ "reg s (dst ?i) + off64 ?i"] exI [of _ "le_bytes sz v"]) simp
  next
    case form_lddw
    then show ?thesis by (auto simp: exec_lddw_def undef_result_def split: if_splits)
  next
    case form_jmp
    then show ?thesis by (auto simp: exec_jmp_def split: if_splits)
  next
    case form_call_exit
    then show ?thesis
      by (auto simp: exec_call_exit_def undef_result_def Let_def split: if_splits prod.splits)
        (metis snd_conv)
  qed
qed

lemma inst_start_le:
  assumes "wf_prog vm code" and "inst_start code i"
  shows "i \<le> length code"
  using assms(2)
proof cases
  case (start_next j)
  with assms(1) have "wf_inst vm code j" by (simp add: wf_prog_def)
  with start_next show ?thesis by (auto simp: wf_inst_def Let_def inst_width_def)
qed simp

lemma exec_inv_step:
  assumes "wf_prog vm code" "env_ok env" "exec_inv env code s" "exec_step vm env code s = Inl s'"
  shows "exec_inv env code s'"
proof -
  have "dom (memory s') = dom (memory s)"
    using exec_step_memory [OF assms(4)]
  proof (elim disjE exE conjE)
    fix f args assume "memory s' = snd (env_call env f args (memory s))"
    then show ?thesis using assms(2) by (simp add: env_ok_def)
  qed (simp_all add: mstore_dom)
  then have "mapped env (memory s')" using mapped_dom assms(3) exec_inv_def by blast
  then show ?thesis
    using exec_step_start [OF assms(1) _ assms(4)] assms(3) by (simp add: exec_inv_def)
qed

lemma exec_step_undef:
  assumes wf: "wf_prog vm code" and fs: "length (funcs_of vm) = MAX_EXT_FUNCS"
    and on: "bounds_check_enabled vm" and ok: "env_ok env" and inv: "exec_inv env code s"
    and step: "exec_step vm env code s = Inr (Undefined u, m)"
  shows "unat (pc s) < length code \<and> u \<in> {ShiftRange, DivZero} \<and>
      op_kind (opcode (code ! unat (pc s))) \<in> {KAlu32, KAlu64, KDivImm, KEndian, KUnknown} \<or>
    unat (pc s) = length code \<and> (\<exists>p. u = PcOutOfRange p \<and> unat p = length code) \<or>
    (\<exists>a n. u = WildAccess a n \<and> n \<le> 8 \<and> 2 ^ 64 \<le> unat a + n)"
proof (cases "unat (pc s) < length code")
  case False
  then have "unat (pc s) = length code"
    using inst_start_le [OF wf] inv by (simp add: exec_inv_def le_antisym)
  then show ?thesis using step by (auto simp: exec_step_def undef_result_def)
next
  case True
  let ?i = "code ! unat (pc s)" and ?s = "s\<lparr>pc := pc s + 1\<rparr>"
  have len: "length code < MAX_INSTS" and wi: "wf_inst vm code (unat (pc s))"
    using wf True inv by (auto simp: wf_prog_def exec_inv_def)
  have mp: "mapped env (memory ?s)" using inv by (simp add: exec_inv_def)
  have pc1: "unat (pc s + 1) = Suc (unat (pc s))" using unat_pc_Suc True len by blast
  have "step_form vm env code ?i (pc s) ?s (Inr (Undefined u, m))"
    using exec_switch_form [of vm env code ?i "pc s" ?s] step True by (simp add: exec_step_def)
  then show ?thesis
  proof cases
    case form_alu
    then show ?thesis using True by (auto simp: alu_result_def undef_result_def)
  next
    case (form_load sz)
    then show ?thesis using do_load_undef [OF on ok mp form_load(1) [symmetric]] by auto
  next
    case (form_store sz v)
    then show ?thesis using do_store_undef [OF on ok mp form_store(1) [symmetric]] by auto
  next
    case form_lddw
    then show ?thesis using wi pc1 by (auto simp: exec_lddw_def wf_inst_def Let_def split: if_splits)
  next
    case form_jmp
    then show ?thesis by (auto simp: exec_jmp_def)
  next
    case form_call_exit
    then show ?thesis
      using wi fs by (auto simp: exec_call_exit_def wf_inst_def undef_result_def Let_def split: if_splits prod.splits)
  qed
qed

interpretation exec: machine "exec_step vm env code"
  "\<lambda>s. wf_prog vm code \<and> env_ok env \<and> exec_inv env code s" for vm env code
  by unfold_locales (auto intro: exec_inv_step)

text \<open>What a successful \<^verbatim>\<open>ubpf_load\<close> establishes.\<close>

lemma ubpf_load_Inr:
  assumes "ubpf_load vm code len h = (Inr vm', h')"
  obtains b where "vm' = vm\<lparr>insts := Some (b, decode_insts (take (unat len) code)),
                            num_insts := ucast (len div 8)\<rparr>"
    and "wf_prog vm (decode_insts (take (unat len) code))"
    and "insts vm = None" and "unat len mod 8 = 0" and "malloc h = (Some b, h')"
proof -
  have "validate vm (decode_insts (take (unat len) code)) = Inr ()"
    using assms by (auto simp: ubpf_load_def Let_def split: if_splits sum.splits prod.splits option.splits)
  moreover have "unat len mod 8 = 0"
  proof -
    have "len mod 8 = 0" using assms by (auto simp: ubpf_load_def split: if_splits)
    then have "unat (len mod 8) = 0" by simp
    then show ?thesis by (simp add: unat_mod)
  qed
  moreover have "insts vm = None"
    using assms by (cases "insts vm") (simp_all add: ubpf_load_def)
  ultimately show ?thesis
    using assms that
    by (auto simp: ubpf_load_def Let_def validate_iff_wf
        split: if_splits sum.splits prod.splits option.splits)
qed

lemma wf_prog_cong: "funcs_of vm = funcs_of vm' \<Longrightarrow> wf_prog vm code = wf_prog vm' code"
  by (simp add: wf_prog_def wf_inst_def)

lemma ubpf_load_wf:
  assumes "ubpf_load vm code len h = (Inr vm', h')"
  shows "\<exists>b prog. insts vm' = Some (b, prog) \<and> wf_prog vm' prog \<and>
    prog = decode_insts (take (unat len) code) \<and>
    funcs_of vm' = funcs_of vm \<and> bounds_check_enabled vm' = bounds_check_enabled vm"
proof (rule ubpf_load_Inr [OF assms])
  fix b
  let ?p = "decode_insts (take (unat len) code)"
  assume vm': "vm' = vm\<lparr>insts := Some (b, ?p), num_insts := ucast (len div 8)\<rparr>"
    and wf: "wf_prog vm ?p"
  have "funcs_of vm' = funcs_of vm" by (simp add: vm' funcs_of_def)
  with wf have "wf_prog vm' ?p" using wf_prog_cong by metis
  then show ?thesis by (simp add: vm' funcs_of_def)
qed

lemma exec_init_inv:
  "mapped env m \<Longrightarrow> exec_inv env code (exec_init env junk m)"
  by (simp add: exec_inv_def exec_init_def start_zero)


section \<open>Frame\<close>

definition env_frame :: "exec_env \<Rightarrow> bool" where
  "env_frame env \<longleftrightarrow> (\<forall>f args m x. \<not> vm_byte env x \<longrightarrow> snd (env_call env f args m) x = m x)"

definition frame_inv :: "exec_env \<Rightarrow> memory \<Rightarrow> memory \<Rightarrow> bool" where
  "frame_inv env m0 m \<longleftrightarrow> dom m = dom m0 \<and> (\<forall>x. \<not> vm_byte env x \<longrightarrow> m x = m0 x)"

lemma mstore_mapped: "mstore m a bs = Some m' \<Longrightarrow> k < length bs \<Longrightarrow> m (a + of_nat k) \<noteq> None"
proof (induction bs arbitrary: m a k)
  case (Cons b bs)
  then have st: "mstore (m(a \<mapsto> b)) (a + 1) bs = Some m'" and "m a \<noteq> None"
    by (simp_all split: if_splits)
  show ?case
  proof (cases k)
    case 0
    with \<open>m a \<noteq> None\<close> show ?thesis by simp
  next
    case (Suc j)
    then have "(m(a \<mapsto> b)) (a + 1 + of_nat j) \<noteq> None" using Cons.IH [OF st] Cons.prems(2) by simp
    with Suc \<open>m a \<noteq> None\<close> show ?thesis by (auto simp: add.assoc split: if_splits)
  qed
qed simp

text \<open>A store that passed the check is inside the regions, unless it would reach the last address.\<close>

lemma checked_store_frame:
  assumes st: "mstore m a bs = Some m'" and chk: "bounds_check vm env a (length bs)"
    and on: "bounds_check_enabled vm" and ok: "env_ok env" and top: "m (-1) = None"
    and out: "\<not> vm_byte env x"
  shows "m' x = m x"
proof (rule mstore_frame [OF st])
  fix k assume k: "k < length bs"
  have "unat a + length bs < 2 ^ 64"
  proof (rule ccontr)
    assume wrap: "\<not> unat a + length bs < 2 ^ 64"
    define j where "j = 2 ^ 64 - 1 - unat a"
    have "unat a < 2 ^ 64" using unsigned_less [of a, where 'a = nat] by simp
    with wrap have j: "j < length bs" "unat a + j = 2 ^ 64 - 1" by (auto simp: j_def)
    then have "unat (a + of_nat j) = 2 ^ 64 - 1" by (simp add: unat_add_no_wrap)
    then have "a + of_nat j = -1" by (simp add: word_unat_eq_iff unsigned_minus_1_eq_mask mask_eq_exp_minus_1)
    then show False using mstore_mapped [OF st j(1)] top by simp
  qed
  then have "vm_byte env (a + of_nat k)" using bounds_check_sound [OF chk on ok _ k] by blast
  with out show "x \<noteq> a + of_nat k" by blast
qed

lemma frame_inv_step:
  assumes "bounds_check_enabled vm" "env_ok env" "env_frame env" "m0 (-1) = None"
    and "frame_inv env m0 (memory s)" "exec_step vm env code s = Inl s'"
  shows "frame_inv env m0 (memory s')"
  using exec_step_memory [OF assms(6)]
proof (elim disjE exE conjE)
  fix f args assume "memory s' = snd (env_call env f args (memory s))"
  then show ?thesis using assms(2,3,5) by (simp add: frame_inv_def env_ok_def env_frame_def)
next
  fix a bs
  assume "bounds_check vm env a (length bs)" and st: "mstore (memory s) a bs = Some (memory s')"
  moreover have "memory s (-1) = None"
    using assms(4,5) domIff [of "-1" "memory s"] domIff [of "-1" m0] by (simp add: frame_inv_def)
  ultimately show ?thesis
    using checked_store_frame [OF st] assms(1,2,5) mstore_dom [OF st] by (simp add: frame_inv_def)
qed (use assms(5) in simp)

interpretation frame: machine "exec_step vm env code"
  "\<lambda>s. bounds_check_enabled vm \<and> env_ok env \<and> env_frame env \<and> m0 (-1) = None \<and>
       frame_inv env m0 (memory s)" for vm env code m0
  by unfold_locales (auto intro: frame_inv_step)

lemma exec_step_final_memory:
  assumes "exec_step vm env code s = Inr (r, m)"
  shows "m = memory s"
proof (cases "unat (pc s) < length code")
  case True
  let ?i = "code ! unat (pc s)" and ?s = "s\<lparr>pc := pc s + 1\<rparr>"
  have "step_form vm env code ?i (pc s) ?s (Inr (r, m))"
    using exec_switch_form [of vm env code ?i "pc s" ?s] assms True by (simp add: exec_step_def)
  then show ?thesis
  proof cases
    case form_alu
    then show ?thesis by (auto simp: alu_result_def undef_result_def)
  next
    case (form_load sz)
    then show ?thesis by (auto simp: do_load_def undef_result_def Let_def split: if_splits option.splits)
  next
    case (form_store sz v)
    then show ?thesis by (auto simp: do_store_def undef_result_def Let_def split: if_splits option.splits)
  next
    case form_lddw
    then show ?thesis by (auto simp: exec_lddw_def undef_result_def split: if_splits)
  next
    case form_jmp
    then show ?thesis by (auto simp: exec_jmp_def)
  next
    case form_call_exit
    then show ?thesis
      by (auto simp: exec_call_exit_def undef_result_def Let_def split: if_splits prod.splits)
  qed
qed (use assms in \<open>simp add: exec_step_def undef_result_def\<close>)


section \<open>Termination\<close>

definition forward_only :: "ebpf_inst list \<Rightarrow> bool" where
  "forward_only code \<longleftrightarrow>
     (\<forall>i \<in> set code. op_kind (opcode i) = KJump \<longrightarrow> 0 \<le> sint (offset i))"

lemma exec_step_forward:
  assumes "wf_prog vm code" "forward_only code" "exec_inv env code s"
    and "exec_step vm env code s = Inl s'"
  shows "unat (pc s) < length code \<and> unat (pc s) < unat (pc s')"
proof -
  let ?i = "code ! unat (pc s)"
  note pcs = exec_step_pc [OF assms(1) _ assms(4)]
  have st: "inst_start code (unat (pc s))" using assms(3) by (simp add: exec_inv_def)
  have "?i \<in> set code" using pcs(1) [OF st] by simp
  then have "0 \<le> sint (offset ?i)" if "op_kind (opcode ?i) = KJump"
    using assms(2) that by (simp add: forward_only_def)
  then have "unat (pc s) < nat (jump_target ?i (unat (pc s)))" if "op_kind (opcode ?i) = KJump"
    using that unfolding jump_target_def by linarith
  then show ?thesis using pcs [OF st] by auto
qed


end
