(* ===== verification/Ubpf_Alu.thy ===== *)
theory Ubpf_Alu
  imports Ubpf_Steps
begin

text \<open>
  The arithmetic instructions by field.  The eBPF encoding splits an opcode into an
  operation (the high nibble), a source bit and a class; \<open>alu_fn\<close> is the operation on
  words of any width and \<open>alu_src\<close> the second operand.  The two long label lists of
  \<^verbatim>\<open>ubpf_exec\<close> compute exactly this function: on 64-bit words in the ALU64 class,
  on the low halves with a zero-extended result in the ALU class.
\<close>

section \<open>Arithmetic by field\<close>

definition alu_fn :: "byte \<Rightarrow> 'a::len word \<Rightarrow> 'a word \<Rightarrow> 'a word" where
  "alu_fn op d x =
    (let k = op AND EBPF_ALU_OP_MASK in
     if k = 0x00 then d + x
     else if k = 0x10 then d - x
     else if k = 0x20 then d * x
     else if k = 0x30 then d div x
     else if k = 0x40 then d OR x
     else if k = 0x50 then d AND x
     else if k = 0x60 then push_bit (unat x) d
     else if k = 0x70 then drop_bit (unat x) d
     else if k = 0x80 then - d
     else if k = 0x90 then d mod x
     else if k = 0xa0 then d XOR x
     else if k = 0xb0 then x
     else signed_drop_bit (unat x) d)"

definition alu_src :: "ebpf_inst \<Rightarrow> exec_state \<Rightarrow> u64" where
  "alu_src i s = (if opcode i AND EBPF_SRC_REG = 0 then imm64 i else reg s (src i))"

lemma mask32_ucast: "x AND UINT32_MAX = ucast (u32 x)"
proof -
  have "UINT32_MAX = mask 32" by (simp add: UINT32_MAX_def mask_eq_exp_minus_1)
  then have "x AND UINT32_MAX = take_bit 32 x" by (simp add: take_bit_eq_mask)
  then show ?thesis
    by (simp only: u32_def) (rule bit_word_eqI, auto simp: bit_simps)
qed

lemma take_bit_32_64: "take_bit 32 (take_bit 64 (a :: int)) = take_bit 32 a"
  by simp

lemma u32_add: "u32 (a + b) = u32 a + u32 b"
  unfolding u32_def by transfer (simp, metis take_bit_32_64 take_bit_add)

lemma u32_diff: "u32 (a - b) = u32 a - u32 b"
  unfolding u32_def by transfer (simp, metis take_bit_32_64 take_bit_diff)

lemma u32_mult: "u32 (a * b) = u32 a * u32 b"
  unfolding u32_def by transfer (simp, metis take_bit_32_64 take_bit_mult)

lemma u32_minus: "u32 (- b) = - u32 b"
  unfolding u32_def by transfer (simp, metis take_bit_32_64 take_bit_minus)

lemma u32_bits:
  "u32 (a OR b) = u32 a OR u32 b" "u32 (a AND b) = u32 a AND u32 b" "u32 (a XOR b) = u32 a XOR u32 b"
  "u32 (push_bit k a) = push_bit k (u32 a)"
  unfolding u32_def by (rule bit_word_eqI, auto simp: bit_simps)+

lemma u32_ucast [simp]: "u32 (ucast (w :: u32)) = w"
  unfolding u32_def by (rule bit_word_eqI) (auto simp: bit_simps)

lemma u32_scast [simp]: "u32 (scast (w :: u32)) = w"
  unfolding u32_def by (rule bit_word_eqI) (auto simp: bit_simps)

lemma u32_imm64 [simp]: "u32 (imm64 i) = imm i"
  by (simp add: imm64_def)

lemma nat_sint_imm: "0 \<le> sint (w :: u32) \<Longrightarrow> nat (sint w) = unat w"
  using sint_less [of w] by (simp add: uint_sint take_bit_int_eq_self flip: nat_uint_eq)

lemma unat_u32_small: "uint (r :: u64) < 64 \<Longrightarrow> unat (u32 r) = nat (uint r)"
proof -
  assume "uint r < 64"
  then have "unat r < 2 ^ 32" by (simp add: nat_less_iff flip: nat_uint_eq)
  then show ?thesis by (simp add: u32_def unsigned_ucast_eq take_bit_nat_eq_self)
qed

lemma unat_imm64_small:
  assumes "0 \<le> sint (imm i)" "sint (imm i) < 64"
  shows "unat (imm64 i) = nat (sint (imm i))"
proof -
  have "uint (imm64 i) = sint (imm i) mod 2 ^ 64"
    unfolding imm64_def scast_eq by (simp only: uint_word_of_int) simp
  also have "\<dots> = sint (imm i)" using assms by simp
  finally show ?thesis by (simp only: nat_uint_eq [symmetric])
qed

lemmas u32_simps = mask32_ucast u32_add u32_diff u32_mult u32_minus u32_bits nat_sint_imm
  unat_u32_small

definition writes :: "exec_state \<Rightarrow> ebpf_inst \<Rightarrow> u64 \<Rightarrow> step_result \<Rightarrow> bool" where
  "writes s i v res \<longleftrightarrow> (\<forall>s'. res = Inl s' \<longrightarrow> s' = set_reg s (dst i) v)"

lemma writes_simps [simp]:
  "writes s i v (Inl s') \<longleftrightarrow> s' = set_reg s (dst i) v"
  "writes s i v (Inr x)"
  "writes s i v (write_opt s i u w) \<longleftrightarrow> (\<forall>y. w = Some y \<longrightarrow> set_reg s (dst i) y = set_reg s (dst i) v)"
  by (auto simp: writes_def write_opt_def undef_result_def split: option.splits)

lemma pred_option_ifc:
  "(c \<Longrightarrow> pred_option P a) \<Longrightarrow> pred_option P b \<Longrightarrow> pred_option P (if c then a else b)"
  by simp

lemma exec_alu32_writes:
  "pred_option (writes s i (ucast (alu_fn (opcode i) (u32 (reg s (dst i))) (u32 (alu_src i s)))))
     (exec_alu32 i c s)"
  unfolding exec_alu32_def Let_def
  by (intro pred_option_ifc)
    (auto simp: alu_fn_def alu_src_def ebpf_ops u32_simps shl64_def shr32_def sar32_def
      div_opt_def mod_opt_def split: if_splits)

lemma exec_alu64_writes:
  "pred_option (writes s i (alu_fn (opcode i) (reg s (dst i)) (alu_src i s))) (exec_alu64 i c s)"
  unfolding exec_alu64_def Let_def
  by (intro pred_option_ifc)
    (auto simp: alu_fn_def alu_src_def ebpf_ops shl64_def shr64_def sar64_def
      div_opt_def mod_opt_def unat_imm64_small split: if_splits)

end
