(* ===== verification/Ubpf_Defined.thy ===== *)
theory Ubpf_Defined
  imports Ubpf_Safety Ubpf_Alu
begin

text \<open>
  A syntactic class of programs for which the interpreter has no undefined
  behaviour left but a memory access that wraps around the address space:
  immediate shifts in range, no shift by a register, no 32-bit division by a
  register (whose zero test looks at all 64 bits), and a last instruction that
  does not fall through.
\<close>

section \<open>Programs without undefined behaviour\<close>

definition defined_inst :: "ebpf_inst \<Rightarrow> bool" where
  "defined_inst i \<longleftrightarrow>
     (opcode i \<in> {EBPF_OP_LSH_IMM, EBPF_OP_LSH64_IMM, EBPF_OP_RSH64_IMM, EBPF_OP_ARSH64_IMM} \<longrightarrow>
        0 \<le> sint (imm i) \<and> sint (imm i) < 64) \<and>
     (opcode i \<in> {EBPF_OP_RSH_IMM, EBPF_OP_ARSH_IMM} \<longrightarrow> 0 \<le> sint (imm i) \<and> sint (imm i) < 32) \<and>
     opcode i \<notin> {EBPF_OP_LSH_REG, EBPF_OP_RSH_REG, EBPF_OP_ARSH_REG, EBPF_OP_LSH64_REG,
                   EBPF_OP_RSH64_REG, EBPF_OP_ARSH64_REG, EBPF_OP_DIV_REG, EBPF_OP_MOD_REG}"

definition exit_last :: "ebpf_inst list \<Rightarrow> bool" where
  "exit_last code \<longleftrightarrow> code \<noteq> [] \<and> opcode (last code) \<in> {EBPF_OP_EXIT, EBPF_OP_JA}"

definition is_undef :: "step_result \<Rightarrow> bool" where
  "is_undef res \<longleftrightarrow> (\<exists>u m. res = Inr (Undefined u, m))"

lemma is_undef_simps [simp]:
  "\<not> is_undef (Inl s)" "\<not> is_undef (Inr (Aborted e, m))" "is_undef (write_opt s i u w) \<longleftrightarrow> w = None"
  "is_undef (Inr (Undefined u, m))"
  by (auto simp: is_undef_def write_opt_def undef_result_def split: option.splits)

lemma imm64_eq_0: "imm64 i = 0 \<longleftrightarrow> imm i = 0"
  using u32_imm64 [of i] by (auto simp: imm64_def u32_def)

lemma exec_alu32_defined:
  "defined_inst i \<Longrightarrow> (op_kind (opcode i) = KDivImm \<longrightarrow> imm i \<noteq> 0) \<Longrightarrow>
     pred_option (\<lambda>res. \<not> is_undef res) (exec_alu32 i c s)"
  unfolding exec_alu32_def Let_def
  by (intro pred_option_ifc)
    (auto simp: defined_inst_def shl64_def shr32_def sar32_def div_opt_def mod_opt_def
      simp del: op_kind_rules)

lemma pred_option_if_full:
  "(c \<Longrightarrow> pred_option P a) \<Longrightarrow> (\<not> c \<Longrightarrow> pred_option P b) \<Longrightarrow> pred_option P (if c then a else b)"
  by simp

lemma exec_alu64_defined:
  "defined_inst i \<Longrightarrow> (op_kind (opcode i) = KDivImm \<longrightarrow> imm i \<noteq> 0) \<Longrightarrow>
     pred_option (\<lambda>res. \<not> is_undef res) (exec_alu64 i c s)"
  unfolding exec_alu64_def Let_def
  by (intro pred_option_if_full)
    (auto simp: defined_inst_def shl64_def shr64_def sar64_def div_opt_def mod_opt_def imm64_eq_0
      simp del: op_kind_rules)

lemma exec_endian_defined: "pred_option (\<lambda>res. \<not> is_undef res) (exec_endian i s)"
  unfolding exec_endian_def Let_def by (intro pred_option_if) simp_all

lemma exec_switch_alu_defined:
  assumes "op_kind (opcode i) \<in> {KAlu32, KAlu64, KDivImm, KEndian, KUnknown}" "defined_inst i"
    and "op_kind (opcode i) = KDivImm \<longrightarrow> imm i \<noteq> 0"
  shows "\<not> is_undef (exec_switch vm env code i c s)"
  using assms(1) exec_alu32_defined [OF assms(2,3), of c s] exec_alu64_defined [OF assms(2,3), of c s]
    exec_endian_defined [of i s]
  by (cases "exec_alu32 i c s"; cases "exec_alu64 i c s"; cases "exec_endian i s")
    (auto simp: exec_switch_def exec_group_None)

lemma exec_step_ja:
  assumes "unat (pc s) < length code" "opcode (code ! unat (pc s)) = EBPF_OP_JA"
  shows "exec_step vm env code s = Inl (s\<lparr>pc := pc s + 1 + offset (code ! unat (pc s))\<rparr>)"
  using assms by (simp add: exec_step_def exec_switch_def exec_group_None exec_jmp_def jump_taken_def off16_def)

lemma exec_step_exit:
  assumes "unat (pc s) < length code" "opcode (code ! unat (pc s)) = EBPF_OP_EXIT"
  shows "exec_step vm env code s = Inr (Returned (reg s 0), memory s)"
  using assms by (simp add: exec_step_def exec_switch_def exec_group_None exec_call_exit_def)

text \<open>A program that ends in an exit or a jump never runs off its end.\<close>

lemma exec_step_stays:
  assumes wf: "wf_prog vm code" and ex: "exit_last code" and inv: "exec_inv env code s"
    and step: "exec_step vm env code s = Inl s'"
  shows "unat (pc s') < length code"
proof -
  let ?i = "code ! unat (pc s)"
  have st: "inst_start code (unat (pc s))" using inv by (simp add: exec_inv_def)
  note lt = exec_step_pc(1) [OF wf st step] and start' = exec_step_start [OF wf st step]
  have "wf_inst vm code (unat (pc s))" using wf st lt by (simp add: wf_prog_def)
  have "unat (pc s') \<noteq> length code"
  proof
    assume eq: "unat (pc s') = length code"
    show False
    proof (cases "op_kind (opcode ?i) = KJump \<and> unat (pc s') = nat (jump_target ?i (unat (pc s)))")
      case True
      then show False using jump_target_start(2) [OF wf st lt] eq by simp
    next
      case False
      then have w: "length code = unat (pc s) + inst_width ?i"
        using exec_step_pc(2) [OF wf st step] eq by auto
      show False
      proof (cases "opcode ?i = EBPF_OP_LDDW")
        case True
        then have "opcode (last code) = 0"
          using w \<open>wf_inst vm code (unat (pc s))\<close> ex
          by (simp add: wf_inst_def Let_def inst_width_def last_conv_nth exit_last_def)
        then show False using ex by (simp add: exit_last_def ebpf_ops del: op_kind_rules)
      next
        case nolddw: False
        then have "last code = ?i" using w ex by (simp add: inst_width_def last_conv_nth exit_last_def)
        then consider "opcode ?i = EBPF_OP_EXIT" | "opcode ?i = EBPF_OP_JA"
          using ex by (auto simp: exit_last_def)
        then show False
        proof cases
          case 1
          then show False using exec_step_exit [OF lt 1] step by simp
        next
          case 2
          note tgt = jump_target_start [OF wf st lt, unfolded 2, simplified]
          have "length code < MAX_INSTS" using wf by (simp add: wf_prog_def)
          then have "unat (pc s + 1 + offset ?i) = nat (jump_target ?i (unat (pc s)))"
            unfolding jump_target_def using tgt(1,2)
            by (intro unat_pc_jump) (simp_all add: jump_target_def MAX_INSTS_def nat_less_iff)
          then show False using exec_step_ja [OF lt 2, of vm env] step tgt(2) eq by auto
        qed
      qed
    qed
  qed
  then show ?thesis using inst_start_le [OF wf start'] by simp
qed

interpretation clean: machine "exec_step vm env code"
  "\<lambda>s. wf_prog vm code \<and> env_ok env \<and> exit_last code \<and> exec_inv env code s \<and> unat (pc s) < length code"
  for vm env code
  by unfold_locales (auto intro: exec_inv_step exec_step_stays)

lemma clean_step_undef:
  assumes wf: "wf_prog vm code" and fs: "length (funcs_of vm) = MAX_EXT_FUNCS"
    and on: "bounds_check_enabled vm" and ok: "env_ok env" and inv: "exec_inv env code s"
    and lt: "unat (pc s) < length code" and df: "\<forall>i \<in> set code. defined_inst i"
    and step: "exec_step vm env code s = Inr (Undefined u, m)"
  shows "\<exists>a n. u = WildAccess a n \<and> n \<le> 8 \<and> 2 ^ 64 \<le> unat a + n"
proof -
  let ?i = "code ! unat (pc s)"
  have "wf_inst vm code (unat (pc s))" using wf inv lt by (simp add: wf_prog_def exec_inv_def)
  then have "op_kind (opcode ?i) = KDivImm \<longrightarrow> imm ?i \<noteq> 0" by (simp add: wf_inst_def Let_def)
  moreover have "defined_inst ?i" using df lt by simp
  moreover have "is_undef (exec_switch vm env code ?i (pc s) (s\<lparr>pc := pc s + 1\<rparr>))"
    using step lt by (simp add: exec_step_def)
  ultimately have "op_kind (opcode ?i) \<notin> {KAlu32, KAlu64, KDivImm, KEndian, KUnknown}"
    using exec_switch_alu_defined by blast
  then show ?thesis using exec_step_undef [OF wf fs on ok inv step] lt by auto
qed


end
