(* ===== verification/Ubpf_Lifecycle.thy ===== *)
theory Ubpf_Lifecycle
  imports Ubpf_Safety
begin

text \<open>
  The life of a \<^typ>\<open>ubpf_vm\<close> object: the table of registered functions as a name table
  (the contract is the locale \<open>name_table\<close>), and the ownership of heap blocks from
  \<open>ubpf_create\<close> to \<open>ubpf_destroy\<close>.  A virtual machine \<open>owns\<close> exactly the
  blocks its pointers name; every operation keeps this, and \<open>ubpf_destroy\<close> gives all
  of them back, each once.
\<close>

section \<open>The function table\<close>

lemma lookup_loop_found:
  "lookup_loop ns name i = r \<Longrightarrow> i + length ns < 2 ^ 32 - 1 \<Longrightarrow> r \<noteq> -1 \<Longrightarrow>
     i \<le> unat r \<and> unat r < i + length ns \<and> ns ! (unat r - i) = Some name \<and>
     (\<forall>j < unat r - i. ns ! j \<noteq> Some name)"
proof (induction ns arbitrary: i)
  case Nil
  then show ?case by simp
next
  case (Cons other ns)
  show ?case
  proof (cases "other = Some name")
    case True
    with Cons.prems have "unat r = i" by (auto simp: unat_of_nat take_bit_nat_eq_self)
    with True show ?thesis by simp
  next
    case False
    have "Suc i \<le> unat r \<and> unat r < Suc i + length ns \<and> ns ! (unat r - Suc i) = Some name \<and>
     (\<forall>j < unat r - Suc i. ns ! j \<noteq> Some name)"
      using False Cons.prems by (intro Cons.IH) simp_all
    moreover from this have "unat r - i = Suc (unat r - Suc i)" by linarith
    ultimately show ?thesis using False by (auto simp: less_Suc_eq_0_disj)
  qed
qed

lemma lookup_loop_missing:
  "lookup_loop ns name i = -1 \<longleftrightarrow> Some name \<notin> set ns" if "i + length ns < 2 ^ 32 - 1"
  using that
proof (induction ns arbitrary: i)
  case (Cons other ns)
  have "(of_nat i :: u32) \<noteq> -1"
  proof
    assume "(of_nat i :: u32) = -1"
    then have "unat (of_nat i :: u32) = unat (-1 :: u32)" by simp
    then show False using Cons.prems by (simp add: unat_of_nat take_bit_nat_eq_self unsigned_minus_1_eq_mask mask_eq_exp_minus_1)
  qed
  then show ?case using Cons by auto
qed simp

locale name_table =
  fixes lookup :: "'t \<Rightarrow> string \<Rightarrow> u32" and names :: "'t \<Rightarrow> string option list" and ok :: "'t \<Rightarrow> bool"
  assumes lookup_hit: "ok t \<Longrightarrow> lookup t n \<noteq> -1 \<Longrightarrow>
      unat (lookup t n) < length (names t) \<and> names t ! unat (lookup t n) = Some n \<and>
      (\<forall>j < unat (lookup t n). names t ! j \<noteq> Some n)"
    and lookup_miss: "ok t \<Longrightarrow> lookup t n = -1 \<longleftrightarrow> Some n \<notin> set (names t)"
begin

lemma lookup_unique:
  assumes "ok t" "i < length (names t)" "names t ! i = Some n" "\<And>j. j < i \<Longrightarrow> names t ! j \<noteq> Some n"
  shows "unat (lookup t n) = i"
proof -
  have "lookup t n \<noteq> -1" using lookup_miss assms(1-3) by (metis nth_mem)
  then show ?thesis using lookup_hit [OF assms(1)] assms(3,4) by (metis linorder_neqE_nat)
qed

end

interpretation ext_names: name_table ubpf_lookup_registered_function names_of vm_ok
proof
  fix vm n
  assume ok: "vm_ok vm"
  then have names: "take MAX_EXT_FUNCS (names_of vm) = names_of vm" and
    small: "0 + length (names_of vm) < 2 ^ 32 - 1"
    by (simp_all add: vm_ok_def MAX_EXT_FUNCS_def)
  then show "ubpf_lookup_registered_function vm n = -1 \<longleftrightarrow> Some n \<notin> set (names_of vm)"
    using lookup_loop_missing by (simp add: ubpf_lookup_registered_function_def)
  assume "ubpf_lookup_registered_function vm n \<noteq> -1"
  then show "unat (ubpf_lookup_registered_function vm n) < length (names_of vm) \<and>
      names_of vm ! unat (ubpf_lookup_registered_function vm n) = Some n \<and>
      (\<forall>j < unat (ubpf_lookup_registered_function vm n). names_of vm ! j \<noteq> Some n)"
    using lookup_loop_found [OF refl small] names
    by (simp add: ubpf_lookup_registered_function_def)
qed

lemma vm_ok_create: "ubpf_create h = (Some vm, h') \<Longrightarrow> vm_ok vm \<and> insts vm = None \<and> jitted vm = None"
  by (auto simp: ubpf_create_def Let_def calloc_vm_def vm_ok_def funcs_of_def names_of_def
      split: prod.splits option.splits)

lemma funcs_of_register:
  assumes "vm_ok vm" "unat idx < MAX_EXT_FUNCS"
  shows "funcs_of (snd (ubpf_register vm idx name fn)) = (funcs_of vm)[unat idx := fn]"
    and "names_of (snd (ubpf_register vm idx name fn)) = (names_of vm)[unat idx := Some name]"
  using assms by (auto simp: ubpf_register_def funcs_of_def names_of_def vm_ok_def MAX_EXT_FUNCS_def
      split: option.splits)

lemma vm_ok_register: "vm_ok vm \<Longrightarrow> vm_ok (snd (ubpf_register vm idx name fn))"
  using funcs_of_register [of vm idx name fn]
  by (cases "unat idx < MAX_EXT_FUNCS") (simp_all add: vm_ok_def, simp add: ubpf_register_def)

lemma vm_ok_load: "ubpf_load vm code len h = (Inr vm', h') \<Longrightarrow> vm_ok vm \<Longrightarrow> vm_ok vm'"
  by (erule ubpf_load_Inr) (simp add: vm_ok_def funcs_of_def names_of_def)

lemma register_lookup:
  assumes "vm_ok vm" and "ubpf_register vm idx name fn = (0, vm')"
    and "\<forall>j < unat idx. names_of vm ! j \<noteq> Some name"
  shows "ubpf_lookup_registered_function vm' name = idx \<and> funcs_of vm' ! unat idx = fn"
proof -
  have lt: "unat idx < MAX_EXT_FUNCS" and vm': "vm' = snd (ubpf_register vm idx name fn)"
    using assms(2) by (auto simp: ubpf_register_def split: if_splits)
  note upd = funcs_of_register [OF assms(1) lt, of name fn, folded vm']
  have ok': "vm_ok vm'" using vm_ok_register [OF assms(1)] vm' by simp
  have "unat (ubpf_lookup_registered_function vm' name) = unat idx"
    using assms(1,3) lt upd
    by (intro ext_names.lookup_unique [OF ok']) (simp_all add: vm_ok_def)
  then show ?thesis using upd lt assms(1) by (simp add: vm_ok_def word_unat_eq_iff)
qed

section \<open>Ownership of heap blocks\<close>

definition vm_blocks :: "ubpf_vm \<Rightarrow> nat list" where
  "vm_blocks vm = opt_list (map_option fst (jitted vm)) @ opt_list (map_option fst (insts vm)) @
     opt_list (map_option fst (ext_funcs vm)) @ opt_list (map_option fst (ext_func_names vm)) @ [vm_block vm]"

definition owns :: "ubpf_vm \<Rightarrow> heap \<Rightarrow> nat set \<Rightarrow> bool" where
  "owns vm h others \<longleftrightarrow> owned (vm_blocks vm) h others"

lemma ubpf_destroy_list: "ubpf_destroy vm h = free_list (vm_blocks vm) h"
  unfolding ubpf_destroy_def vm_blocks_def Let_def free_list_append
  by (simp only: free_opt_list) (simp add: opt_list_def)

lemma destroy_owned: "owns vm h others \<Longrightarrow> heap_ok (ubpf_destroy vm h) \<and> live (ubpf_destroy vm h) = others"
  using free_list_live [of h "vm_blocks vm"] by (auto simp: owns_def owned_def ubpf_destroy_list)


lemma owns_create:
  assumes "heap_ok h" "ubpf_create h = (Some vm, h')"
  shows "owns vm h' (live h)"
proof -
  obtain b h1 f h2 n where m: "malloc h = (Some b, h1)" "malloc h1 = (Some f, h2)" "malloc h2 = (Some n, h')"
    and vm: "vm = (calloc_vm b)\<lparr>ext_funcs := Some (f, replicate MAX_EXT_FUNCS 0),
      ext_func_names := Some (n, replicate MAX_EXT_FUNCS None), bounds_check_enabled := True\<rparr>"
    using assms(2) by (auto simp: ubpf_create_def Let_def split: prod.splits option.splits)
  note ok1 = malloc_cases(1) [OF m(1) assms(1)]
  note ok2 = malloc_cases(1) [OF m(2) ok1]
  have "heap_ok h'" using malloc_cases(1) [OF m(3) ok2] .
  then show ?thesis
    using malloc_cases(3) [OF m(1) assms(1) refl] malloc_cases(3) [OF m(2) ok1 refl]
      malloc_cases(3) [OF m(3) ok2 refl]
    by (auto simp: owns_def owned_def vm_blocks_def vm calloc_vm_def opt_list_def)
qed

lemma create_failure_heap:
  assumes "heap_ok h" "ubpf_create h = (None, h')"
  shows "heap_ok h' \<and> live h' = live h"
proof (cases "malloc h")
  case (Pair p h1)
  note ok1 = malloc_cases(1) [OF Pair assms(1)]
  show ?thesis
  proof (cases p)
    case None
    then show ?thesis using assms(2) Pair ok1 malloc_cases(2) [OF Pair assms(1)]
      by (simp add: ubpf_create_def)
  next
    case (Some b)
    obtain q h2 where m2: "malloc h1 = (q, h2)" by fastforce
    note ok2 = malloc_cases(1) [OF m2 ok1]
    have b: "b \<notin> live h" "live h1 = insert b (live h)"
      using malloc_cases(3) [OF Pair assms(1) Some] by auto
    show ?thesis
    proof (cases q)
      case None
      then have "owns (calloc_vm b) h2 (live h)"
        using ok2 malloc_cases(2) [OF m2 ok1] b
        by (auto simp: owns_def owned_def vm_blocks_def calloc_vm_def opt_list_def)
      then show ?thesis
        using assms(2) Pair Some m2 None destroy_owned by (fastforce simp: ubpf_create_def)
    next
      case q: (Some f)
      obtain r h3 where m3: "malloc h2 = (r, h3)" by fastforce
      have f: "f \<notin> live h1" "live h2 = insert f (live h1)" using malloc_cases(3) [OF m2 ok1 q] by auto
      have r: "r = None" "h' = ubpf_destroy ((calloc_vm b)\<lparr>ext_funcs := Some (f, replicate MAX_EXT_FUNCS 0)\<rparr>) h3"
        using assms(2) Pair Some m2 q m3
        by (auto simp: ubpf_create_def Let_def split: option.splits)
      then have "owns ((calloc_vm b)\<lparr>ext_funcs := Some (f, replicate MAX_EXT_FUNCS 0)\<rparr>) h3 (live h)"
        using malloc_cases(1,2) [OF m3 ok2] b f
        by (auto simp: owns_def owned_def vm_blocks_def calloc_vm_def opt_list_def)
      then show ?thesis using r destroy_owned by blast
    qed
  qed
qed

lemma owns_register: "owns vm h L \<Longrightarrow> owns (snd (ubpf_register vm idx name fn)) h L"
  by (auto simp: owns_def owned_def vm_blocks_def ubpf_register_def opt_list_def split: option.splits)

lemma owns_toggle: "owns vm h L \<Longrightarrow> owns (snd (toggle_bounds_check vm e)) h L"
  by (simp add: owns_def owned_def vm_blocks_def toggle_bounds_check_def)

lemma owns_load:
  assumes "owns vm h L" "ubpf_load vm code len h = (Inr vm', h')"
  shows "owns vm' h' L"
proof (rule ubpf_load_Inr [OF assms(2)])
  fix b
  assume vm': "vm' = vm\<lparr>insts := Some (b, decode_insts (take (unat len) code)), num_insts := ucast (len div 8)\<rparr>"
    and none: "insts vm = None" and m: "malloc h = (Some b, h')"
  have "heap_ok h" using assms(1) by (simp add: owns_def owned_def)
  note mc = malloc_cases(1) [OF m this] malloc_cases(3) [OF m this refl]
  have "set (vm_blocks vm') = insert b (set (vm_blocks vm))" "distinct (vm_blocks vm') \<longleftrightarrow> b \<notin> set (vm_blocks vm) \<and> distinct (vm_blocks vm)"
    using none by (auto simp: vm_blocks_def vm' opt_list_def)
  then show ?thesis using assms(1) mc by (auto simp: owns_def owned_def)
qed

lemma owns_load_fail:
  assumes "owns vm h L" "ubpf_load vm code len h = (Inl e, h')"
  shows "owns vm h' L"
proof -
  have "h' = h \<or> malloc h = (None, h')"
    using assms(2) by (auto simp: ubpf_load_def Let_def split: if_splits sum.splits prod.splits option.splits)
  then show ?thesis using assms(1) malloc_cases(1,2) [of h None h'] by (auto simp: owns_def owned_def)
qed
end
