(* ===== verification/Ubpf_Examples.thy ===== *)
theory Ubpf_Examples
  imports Ubpf_Defined Ubpf_Lifecycle
begin

text \<open>
  Concrete programs and a concrete machine, on which the theorems about the
  interpreter are applied: a program with no exit, one whose load wraps around
  the address space, one that divides by a register whose low half is zero, and one
  that loads, adds, stores and branches.
\<close>

section \<open>Concrete inputs\<close>

definition demo_heap :: heap where
  "demo_heap = \<lparr>next_block = 4, live = {1, 2, 3}, oom = (\<lambda>_. False), corrupt = False\<rparr>"

definition demo_vm :: ubpf_vm where
  "demo_vm = (calloc_vm 1)\<lparr>ext_funcs := Some (2, (replicate MAX_EXT_FUNCS 0)[3 := 0x5000]),
     ext_func_names := Some (3, (replicate MAX_EXT_FUNCS None)[3 := Some ''f'']),
     bounds_check_enabled := True\<rparr>"

definition demo_env :: exec_env where
  "demo_env = \<lparr>env_mem = 0x1000, env_mem_len = 16, env_stack = 0x8000, env_call = (\<lambda>f args m. (42, m))\<rparr>"

definition demo_mem :: memory where
  "demo_mem x = (if 0x1000 \<le> x \<and> x < 0x1010 \<or> 0x8000 \<le> x \<and> x < 0x8080 then Some 7 else None)"

definition demo_code :: "ebpf_inst list \<Rightarrow> byte list" where
  "demo_code p = concat (map encode_inst p)"

definition demo_len :: "ebpf_inst list \<Rightarrow> u32" where
  "demo_len p = of_nat (8 * length p)"

definition demo_loaded :: "ebpf_inst list \<Rightarrow> ubpf_vm" where
  "demo_loaded p = demo_vm\<lparr>insts := Some (4, p), num_insts := of_nat (length p)\<rparr>"

text \<open>The same program in a machine without a function table, which is quick to evaluate.\<close>

definition tiny_vm :: "ebpf_inst list \<Rightarrow> ubpf_vm" where
  "tiny_vm p = (calloc_vm 1)\<lparr>insts := Some (4, p), bounds_check_enabled := True\<rparr>"

definition tiny_run :: "ebpf_inst list \<Rightarrow> nat \<Rightarrow> exec_result option" where
  "tiny_run p fuel = map_option fst (ubpf_exec (tiny_vm p) demo_env (\<lambda>_. 0) demo_mem fuel)"

definition no_calls :: "ebpf_inst list \<Rightarrow> bool" where
  "no_calls p \<longleftrightarrow> (\<forall>i \<in> set p. opcode i \<noteq> EBPF_OP_CALL)"

definition inst :: "byte \<Rightarrow> 4 word \<Rightarrow> 4 word \<Rightarrow> u16 \<Rightarrow> u32 \<Rightarrow> ebpf_inst" where
  "inst op d s off im = \<lparr>opcode = op, dst = d, src = s, offset = off, imm = im\<rparr>"

definition prog_no_exit :: "ebpf_inst list" where
  "prog_no_exit = [inst EBPF_OP_MOV64_IMM 0 0 0 1]"

definition prog_wrap :: "ebpf_inst list" where
  "prog_wrap = [inst EBPF_OP_MOV64_IMM 2 0 0 (-1), inst EBPF_OP_LDXDW 0 2 0 0, inst EBPF_OP_EXIT 0 0 0 0]"

definition prog_div32 :: "ebpf_inst list" where
  "prog_div32 = [inst EBPF_OP_LDDW 2 0 0 0, inst 0 0 0 0 1, inst EBPF_OP_MOV64_IMM 0 0 0 9,
     inst EBPF_OP_DIV_REG 0 2 0 0, inst EBPF_OP_EXIT 0 0 0 0]"

definition prog_sum :: "ebpf_inst list" where
  "prog_sum = [inst EBPF_OP_LDXB 0 1 3 0, inst EBPF_OP_ADD64_IMM 0 0 0 5, inst EBPF_OP_STXDW 10 0 (-8) 0,
     inst EBPF_OP_JEQ_IMM 0 0 1 12, inst EBPF_OP_MOV64_IMM 0 0 0 0, inst EBPF_OP_EXIT 0 0 0 0]"

lemma demo_decode:
  assumes "length p < 65536"
  shows "decode_insts (take (unat (demo_len p)) (demo_code p)) = p" and "unat (demo_len p) = 8 * length p"
proof -
  show len: "unat (demo_len p) = 8 * length p"
    using assms by (simp only: demo_len_def unat_of_nat) (simp add: take_bit_nat_eq_self)
  have "length (demo_code p) = 8 * length p"
    by (induction p) (simp_all add: demo_code_def)
  then show "decode_insts (take (unat (demo_len p)) (demo_code p)) = p"
    by (simp add: len demo_code_def decode_insts_encode)
qed

lemma demo_load:
  assumes "length p < 65536" "validate demo_vm p = Inr ()"
  shows "ubpf_load demo_vm (demo_code p) (demo_len p) demo_heap =
    (Inr (demo_loaded p), demo_heap\<lparr>next_block := 5, live := {1, 2, 3, 4}\<rparr>)"
proof -
  have "demo_len p mod 8 = 0"
    using demo_decode(2) [OF assms(1)] by (simp add: word_unat_eq_iff unat_mod_distrib)
  moreover have "(ucast (demo_len p div 8) :: u16) = of_nat (length p)"
    using demo_decode(2) [OF assms(1)] assms(1)
    by (simp add: word_unat_eq_iff unat_div_distrib unsigned_ucast_eq unat_of_nat
        take_bit_nat_eq_self)
  moreover have "insts demo_vm = None" by (simp add: demo_vm_def calloc_vm_def)
  ultimately show ?thesis
    using assms(2)
    by (auto simp: ubpf_load_def demo_decode [OF assms(1)] demo_decode(1) [OF assms(1), unfolded demo_decode(2) [OF assms(1)]]
        malloc_def demo_heap_def demo_loaded_def)
qed


lemma exec_step_no_calls:
  assumes "no_calls code" "bounds_check_enabled vm = bounds_check_enabled vm2"
  shows "exec_step vm env code = exec_step vm2 env code"
proof
  fix s
  have bc: "bounds_check vm = bounds_check vm2"
    using assms(2) by (intro ext) (simp add: bounds_check_def)
  have ld: "do_load vm = do_load vm2" and st: "do_store vm = do_store vm2"
    by (intro ext, simp add: do_load_def do_store_def bc)+
  have groups: "exec_ldx vm = exec_ldx vm2" "exec_st vm = exec_st vm2" "exec_stx vm = exec_stx vm2"
    by (intro ext, simp only: exec_ldx_def exec_st_def exec_stx_def ld st)+
  show "exec_step vm env code s = exec_step vm2 env code s"
  proof (cases "unat (pc s) < length code")
    case True
    then have "opcode (code ! unat (pc s)) \<noteq> EBPF_OP_CALL" using assms(1) by (simp add: no_calls_def)
    then have "exec_call_exit vm env (code ! unat (pc s)) t = exec_call_exit vm2 env (code ! unat (pc s)) t" for t
      by (simp add: exec_call_exit_def)
    then show ?thesis
      by (simp add: exec_step_def exec_switch_def groups)
  qed (simp add: exec_step_def)
qed

lemma tiny_run_demo:
  assumes "no_calls p"
  shows "tiny_run p fuel = map_option fst (ubpf_exec (demo_loaded p) demo_env (\<lambda>_. 0) demo_mem fuel)"
  using exec_step_no_calls [OF assms, of "tiny_vm p" "demo_loaded p"]
  by (simp add: tiny_run_def ubpf_exec_def tiny_vm_def demo_loaded_def demo_vm_def)

lemma tiny_run_Some:
  assumes "no_calls p" "tiny_run p fuel = Some r"
  shows "\<exists>m. ubpf_exec (demo_loaded p) demo_env (\<lambda>_. 0) demo_mem fuel = Some (r, m)"
  using assms by (auto simp: tiny_run_demo)

lemma demo_setting: "vm_ok demo_vm" "bounds_check_enabled demo_vm" "env_ok demo_env" "mapped demo_env demo_mem"
proof -
  show "vm_ok demo_vm" "bounds_check_enabled demo_vm"
    by (simp_all add: demo_vm_def vm_ok_def funcs_of_def names_of_def)
  show "env_ok demo_env" by (simp add: env_ok_def demo_env_def STACK_SIZE_def)
  show "mapped demo_env demo_mem"
    by (auto simp: mapped_def vm_byte_def demo_env_def in_region_def STACK_SIZE_def demo_mem_def
        word_le_nat_alt word_less_nat_alt)
qed

lemma demo_programs:
  "no_calls prog_no_exit" "no_calls prog_wrap" "no_calls prog_div32" "no_calls prog_sum"
  by code_simp+

lemma demo_short: "length prog_no_exit < 65536" "length prog_wrap < 65536" "length prog_div32 < 65536"
  "length prog_sum < 65536"
  by (simp_all add: prog_no_exit_def prog_wrap_def prog_div32_def prog_sum_def)

lemma tiny_loop:
  "validate_loop (tiny_vm []) prog_no_exit 0 = Inr ()" "validate_loop (tiny_vm []) prog_wrap 0 = Inr ()"
  "validate_loop (tiny_vm []) prog_div32 0 = Inr ()" "validate_loop (tiny_vm []) prog_sum 0 = Inr ()"
  by code_simp+

lemma tiny_valid:
  "validate (tiny_vm []) prog_no_exit = Inr ()" "validate (tiny_vm []) prog_wrap = Inr ()"
  "validate (tiny_vm []) prog_div32 = Inr ()" "validate (tiny_vm []) prog_sum = Inr ()"
  using tiny_loop demo_short by (simp_all add: validate_def MAX_INSTS_def)

lemma validate_no_calls:
  assumes "no_calls p" "validate vm p = Inr ()"
  shows "validate vm2 p = Inr ()"
proof -
  have "wf_inst vm p i = wf_inst vm2 p i" if "i < length p" for i
  proof -
    have "opcode (p ! i) \<noteq> EBPF_OP_CALL" using assms(1) that by (simp add: no_calls_def)
    then show ?thesis by (simp add: wf_inst_def Let_def)
  qed
  then show ?thesis using assms(2) unfolding validate_iff_wf wf_prog_def by simp
qed

lemmas demo_valid = tiny_valid(1) [THEN validate_no_calls [OF demo_programs(1)], of demo_vm]
  tiny_valid(2) [THEN validate_no_calls [OF demo_programs(2)], of demo_vm]
  tiny_valid(3) [THEN validate_no_calls [OF demo_programs(3)], of demo_vm]
  tiny_valid(4) [THEN validate_no_calls [OF demo_programs(4)], of demo_vm]

lemma demo_results:
  "tiny_run prog_no_exit 2 = Some (Undefined (PcOutOfRange 1))"
  "tiny_run prog_wrap 2 = Some (Undefined (WildAccess (-1) 8))"
  "tiny_run prog_div32 3 = Some (Undefined DivZero)"
  "tiny_run prog_sum 7 = Some (Returned 12)"
  by code_simp+

lemmas demo_loads = demo_load [OF demo_short(1) demo_valid(1)] demo_load [OF demo_short(2) demo_valid(2)]
  demo_load [OF demo_short(3) demo_valid(3)] demo_load [OF demo_short(4) demo_valid(4)]
end
