(* ===== verification/Ubpf_Theorems.thy ===== *)
theory Ubpf_Theorems
  imports Ubpf_Examples
begin

text \<open>
  The properties of the virtual machine that rest on several of its theories, and the
  applications of the interpreter's theorems to concrete programs.
\<close>

section \<open>The verifier\<close>

text \<open>
  C1: \<^verbatim>\<open>validate\<close> accepts a program exactly when it is shorter than \<^verbatim>\<open>MAX_INSTS\<close> and every
  instruction that starts at an instruction boundary is well formed: a known opcode,
  registers in range, complete \<^verbatim>\<open>lddw\<close> pairs, jumps that stay inside the program and
  never into the middle of an \<^verbatim>\<open>lddw\<close>, calls to registered functions, no division by
  a zero immediate.
\<close>

theorem validate_accepts_well_formed: "validate vm code = Inr () \<longleftrightarrow> wf_prog vm code"
  by (rule validate_iff_wf)

text \<open>
  C2: a program that \<^verbatim>\<open>ubpf_load\<close> accepts never reaches, in any execution with any
  memory, a state whose program counter is not the start of an instruction.
\<close>

theorem exec_reaches_boundaries:
  assumes "ubpf_load vm code len h = (Inr vm', h')" and "insts vm' = Some (b, prog)"
    and "env_ok env" and "mapped env m"
    and "reach (exec_step vm' env prog) (exec_init env junk m) s"
  shows "inst_start prog (unat (pc s)) \<and> unat (pc s) \<le> length prog"
proof -
  have wf: "wf_prog vm' prog" using ubpf_load_wf [OF assms(1)] assms(2) by auto
  have "exec_inv env prog s"
    using exec.reach_inv [OF assms(5)] wf assms(3) exec_init_inv [OF assms(4)] by blast
  then have st: "inst_start prog (unat (pc s))" by (simp add: exec_inv_def)
  then show ?thesis using inst_start_le [OF wf st] by simp
qed

theorem exec_reaches_boundaries_witness:
  "reach (exec_step (demo_loaded prog_no_exit) demo_env prog_no_exit)
      (exec_init demo_env (\<lambda>_. 0) demo_mem) (exec_init demo_env (\<lambda>_. 0) demo_mem) \<and>
    inst_start prog_no_exit (unat (pc (exec_init demo_env (\<lambda>_. 0) demo_mem)))"
  using exec_reaches_boundaries [OF demo_loads(1) _ demo_setting(3,4) reach_refl, of 4 prog_no_exit "\<lambda>_. 0"]
  by (simp add: demo_loaded_def reach_refl)

section \<open>The interpreter\<close>





text \<open>
  C8: two guards miss what they guard against, in programs that the verifier accepts and with the check on.  The bounds check
  compares \<open>addr + size\<close> after it may have wrapped around, so 8 bytes are read from address \<open>2 ^ 64 - 1\<close>, which belongs
  to no object.  The guard of the 32-bit division by a register tests all 64 bits, and the division uses the low 32, so it
  divides by zero.
\<close>

theorem guards_miss_wrap_and_zero:
  "validate demo_vm prog_wrap = Inr () \<and> bounds_check_enabled (demo_loaded prog_wrap) \<and>
    bounds_check (demo_loaded prog_wrap) demo_env (-1) 8 \<and>
    (\<exists>m. ubpf_exec (demo_loaded prog_wrap) demo_env (\<lambda>_. 0) demo_mem 2 =
       Some (Undefined (WildAccess (-1) 8), m)) \<and>
   validate demo_vm prog_div32 = Inr () \<and>
    (\<exists>m. ubpf_exec (demo_loaded prog_div32) demo_env (\<lambda>_. 0) demo_mem 3 = Some (Undefined DivZero, m))"
proof -
  have "bounds_check (demo_loaded prog_wrap) demo_env (-1) 8"
    by (simp add: bounds_check_def demo_env_def demo_loaded_def demo_vm_def)
  then show ?thesis
    using demo_valid(2,3) tiny_run_Some [OF demo_programs(2) demo_results(2)] tiny_run_Some [OF demo_programs(3) demo_results(3)]
    by (simp add: demo_loaded_def demo_vm_def)
qed

text \<open>
  C7: the arithmetic instructions meet their specification: whenever one continues, it has changed the
  destination register only, to the result of the operation that the high four bits of the opcode name on the
  destination and the operand (register or sign-extended immediate): at 32 bits on the low halves, and
  zero-extended; at 64 bits on the whole registers.
\<close>

theorem alu_meets_spec:
  "(exec_alu32 i c s = Some (Inl s') \<longrightarrow>
      s' = set_reg s (dst i) (ucast (alu_fn (opcode i) (u32 (reg s (dst i))) (u32 (alu_src i s))))) \<and>
   (exec_alu64 i c s = Some (Inl s') \<longrightarrow>
      s' = set_reg s (dst i) (alu_fn (opcode i) (reg s (dst i)) (alu_src i s)))"
  using exec_alu32_writes [of s i c] exec_alu64_writes [of s i c] by (intro conjI impI; simp)

theorem alu_meets_spec_witness:
  "set_reg (exec_init demo_env (\<lambda>_. 0) demo_mem) 0 ((0 + imm64 (inst EBPF_OP_ADD_IMM 0 0 0 5)) AND UINT32_MAX) =
   set_reg (exec_init demo_env (\<lambda>_. 0) demo_mem) 0 (ucast (alu_fn EBPF_OP_ADD_IMM (u32 0)
     (u32 (alu_src (inst EBPF_OP_ADD_IMM 0 0 0 5) (exec_init demo_env (\<lambda>_. 0) demo_mem))))) \<and>
   set_reg (exec_init demo_env (\<lambda>_. 0) demo_mem) 0 (0 + imm64 (inst EBPF_OP_ADD64_IMM 0 0 0 5)) =
   set_reg (exec_init demo_env (\<lambda>_. 0) demo_mem) 0 (alu_fn EBPF_OP_ADD64_IMM 0
     (alu_src (inst EBPF_OP_ADD64_IMM 0 0 0 5) (exec_init demo_env (\<lambda>_. 0) demo_mem)))"
proof -
  have "exec_alu32 (inst EBPF_OP_ADD_IMM 0 0 0 5) 0 (exec_init demo_env (\<lambda>_. 0) demo_mem) =
    Some (Inl (set_reg (exec_init demo_env (\<lambda>_. 0) demo_mem) 0 ((0 + imm64 (inst EBPF_OP_ADD_IMM 0 0 0 5)) AND UINT32_MAX)))"
    by (simp add: exec_alu32_def Let_def inst_def exec_init_def)
  note low = conjunct1 [OF alu_meets_spec, rule_format, OF this]
  have "exec_alu64 (inst EBPF_OP_ADD64_IMM 0 0 0 5) 0 (exec_init demo_env (\<lambda>_. 0) demo_mem) =
    Some (Inl (set_reg (exec_init demo_env (\<lambda>_. 0) demo_mem) 0 (0 + imm64 (inst EBPF_OP_ADD64_IMM 0 0 0 5))))"
    by (simp add: exec_alu64_def Let_def inst_def exec_init_def)
  note conjunct2 [OF alu_meets_spec, rule_format, OF this]
  with low show ?thesis by (simp add: inst_def exec_init_def)
qed

text \<open>
  A store instruction that continues is read back by a load of the same size from the
  same address: the loaded register holds the stored value, cut to the size.
\<close>

theorem store_then_load:
  assumes "do_store vm env i c sz v s = Inl s'" and "sz \<in> {1, 2, 4, 8}"
    and "reg s' (src j) + off64 j = reg s (dst i) + off64 i"
  shows "do_load vm env j c sz s' = Inl (set_reg s' (dst j) (take_bit (8 * sz) v))"
proof -
  let ?a = "reg s (dst i) + off64 i"
  have b: "bounds_check vm env ?a sz" and m: "mstore (memory s) ?a (le_bytes sz v) = Some (memory s')"
    using assms(1) by (auto simp: do_store_def Let_def undef_result_def split: if_splits option.splits)
  have "mload (memory s') ?a sz = Some (le_bytes sz v)"
    using mstore_mload [OF m] assms(2) by auto
  then show ?thesis using b assms(3) by (simp add: do_load_def le_word_le_bytes)
qed

theorem store_then_load_witness:
  "\<exists>s'. do_store (demo_loaded []) demo_env (inst EBPF_OP_STXB 10 0 (-8) 0) 0 1 5 (exec_init demo_env (\<lambda>_. 0) demo_mem) = Inl s' \<and>
    do_load (demo_loaded []) demo_env (inst EBPF_OP_LDXB 3 10 (-8) 0) 0 1 s' = Inl (set_reg s' 3 (take_bit 8 5))"
proof -
  let ?s = "exec_init demo_env (\<lambda>_. 0) demo_mem"
  have off: "off64 (inst EBPF_OP_STXB 10 0 (-8) 0) = -8" "off64 (inst EBPF_OP_LDXB 3 10 (-8) 0) = -8"
    by (simp_all add: off64_def inst_def)
  have "do_store (demo_loaded []) demo_env (inst EBPF_OP_STXB 10 0 (-8) 0) 0 1 5 ?s =
      Inl (?s\<lparr>memory := demo_mem(0x8078 \<mapsto> 5)\<rparr>)"
    by (simp add: do_store_def off, simp add: exec_init_def inst_def demo_env_def STACK_SIZE_def bounds_check_def
        demo_mem_def demo_loaded_def demo_vm_def)
  moreover from this have "do_load (demo_loaded []) demo_env (inst EBPF_OP_LDXB 3 10 (-8) 0) 0 1
      (?s\<lparr>memory := demo_mem(0x8078 \<mapsto> 5)\<rparr>) = Inl (set_reg (?s\<lparr>memory := demo_mem(0x8078 \<mapsto> 5)\<rparr>) 3 (take_bit 8 5))"
    using store_then_load [where j = "inst EBPF_OP_LDXB 3 10 (-8) 0" and sz = 1] off
    by (simp add: inst_def exec_init_def)
  ultimately show ?thesis by blast
qed

section \<open>Encoding\<close>

text \<open>
  The layout of \<^verbatim>\<open>struct ebpf_inst\<close> loses nothing: an instruction encoded to 8 bytes and
  decoded is itself, 8 bytes decoded and encoded are themselves, and a program is decoded
  from the concatenation of its encoded instructions.
\<close>

theorem instruction_encoding_roundtrip:
  "decode_inst (encode_inst i) = i \<and> (length bs = 8 \<longrightarrow> encode_inst (decode_inst bs) = bs) \<and>
   decode_insts (concat (map encode_inst prog)) = prog"
  using decode_encode_inst encode_decode_inst decode_insts_encode by blast

theorem instruction_encoding_roundtrip_witness:
  "encode_inst (decode_inst (replicate 8 0x61)) = replicate 8 0x61"
  using instruction_encoding_roundtrip [of _ "replicate 8 0x61"] by simp

section \<open>The life of a machine\<close>

text \<open>
  A function registered at an index is found by its name and stored at that index, when no
  smaller index has the same name.
\<close>

theorem registered_function_found:
  assumes "vm_ok vm" and "ubpf_register vm idx name fn = (0, vm')"
    and "\<forall>j < unat idx. names_of vm ! j \<noteq> Some name"
  shows "ubpf_lookup_registered_function vm' name = idx \<and> funcs_of vm' ! unat idx = fn"
  by (rule register_lookup [OF assms])

theorem registered_function_found_witness:
  "ubpf_lookup_registered_function (snd (ubpf_register demo_vm 1 ''g'' 0x6000)) ''g'' = 1"
proof -
  have "ubpf_register demo_vm 1 ''g'' 0x6000 = (0, snd (ubpf_register demo_vm 1 ''g'' 0x6000))"
    by (simp add: ubpf_register_def MAX_EXT_FUNCS_def)
  moreover have "\<forall>j < unat (1 :: u32). names_of demo_vm ! j \<noteq> Some ''g''"
    by (simp add: names_of_def demo_vm_def MAX_EXT_FUNCS_def)
  ultimately show ?thesis using registered_function_found [OF demo_setting(1)] by blast
qed

end
