(* ===== verification/Ubpf_Loader.thy ===== *)
theory Ubpf_Loader
  imports Ubpf_Lifecycle
begin

text \<open>
  The ELF loader \<^verbatim>\<open>ubpf_load_elf\<close> of \<^verbatim>\<open>tools/ubpf/vm/ubpf_loader.c\<close>.  The file image
  is a byte list; a pointer into it is an offset, and every read goes through
  \<open>buf_read\<close>, so that a read outside the image is an outcome of the model
  (\<open>OobRead\<close>) and its absence a theorem.  The two other ways the function can leave
  defined behaviour are outcomes too: a relocation written outside the copy of the
  text section (\<open>OobWrite\<close>) and a symbol name with no terminating zero before the
  end of the image (\<open>UnterminatedName\<close>).  The layout of the ELF structures is the
  one of the ELF-64 object file format.
\<close>

section \<open>Constants and structures\<close>

definition MAX_SECTIONS :: nat where "MAX_SECTIONS = 32"
definition EM_NONE :: u16 where "EM_NONE = 0"
definition EM_BPF :: u16 where "EM_BPF = 247"
definition ET_REL :: u16 where "ET_REL = 1"
definition SHT_PROGBITS :: u32 where "SHT_PROGBITS = 1"
definition SHT_REL :: u32 where "SHT_REL = 9"
definition SHF_ALLOC :: u64 where "SHF_ALLOC = 2"
definition SHF_EXECINSTR :: u64 where "SHF_EXECINSTR = 4"

definition ehdr_size :: nat where "ehdr_size = 64"
definition shdr_size :: nat where "shdr_size = 64"
definition rel_size :: nat where "rel_size = 16"
definition sym_size :: nat where "sym_size = 24"

record elf_ehdr =
  e_ident :: "byte list"
  e_type :: u16
  e_machine :: u16
  e_shoff :: u64
  e_shentsize :: u16
  e_shnum :: u16

record elf_shdr =
  sh_type :: u32
  sh_flags :: u64
  sh_offset :: u64
  sh_size :: u64
  sh_link :: u32
  sh_info :: u32

record elf_rel =
  r_offset :: u64
  r_info :: u64

record elf_bounds =
  bounds_base :: nat
  bounds_size :: u64

record elf_section =
  shdr :: elf_shdr
  data :: nat
  sect_size :: u64

datatype elf_undef = OobRead nat nat | OobWrite u64 | UnterminatedName nat

datatype elf_error =
    NotEnoughData
  | WrongMagic
  | WrongClass
  | WrongByteOrder
  | WrongVersion
  | WrongOsAbi
  | WrongType
  | WrongMachine u16
  | TooManySections
  | BadSectionHeader
  | BadSection
  | TextNotFound
  | ElfOutOfMemory
  | BadSymtabIndex
  | BadStrtabIndex
  | BadRelocationType u64
  | BadSymbolIndex
  | BadSymbolName
  | BadRelocationOffset
  | FunctionNotFound string
  | LoadFailed ubpf_error
  | ElfUndefined elf_undef

section \<open>Reading the image\<close>

definition elf_read :: "byte list \<Rightarrow> nat \<Rightarrow> nat \<Rightarrow> elf_error + byte list" where
  "elf_read elf off n =
     (case buf_read elf off n of None \<Rightarrow> Inl (ElfUndefined (OobRead off n)) | Some bs \<Rightarrow> Inr bs)"

definition field :: "byte list \<Rightarrow> nat \<Rightarrow> nat \<Rightarrow> 'a::len word" where
  "field bs off n = le_word (take n (drop off bs))"

definition ehdr_of :: "byte list \<Rightarrow> elf_ehdr" where
  "ehdr_of bs = \<lparr>e_ident = take 16 bs, e_type = field bs 16 2, e_machine = field bs 18 2,
     e_shoff = field bs 40 8, e_shentsize = field bs 58 2, e_shnum = field bs 60 2\<rparr>"

definition shdr_of :: "byte list \<Rightarrow> elf_shdr" where
  "shdr_of bs = \<lparr>sh_type = field bs 4 4, sh_flags = field bs 8 8, sh_offset = field bs 24 8,
     sh_size = field bs 32 8, sh_link = field bs 40 4, sh_info = field bs 44 4\<rparr>"

definition rel_of :: "byte list \<Rightarrow> elf_rel" where
  "rel_of bs = \<lparr>r_offset = field bs 0 8, r_info = field bs 8 8\<rparr>"

definition st_name_of :: "byte list \<Rightarrow> u32" where
  "st_name_of bs = field bs 0 4"

text \<open>\<^verbatim>\<open>ELF64_R_TYPE\<close> and \<^verbatim>\<open>ELF64_R_SYM\<close>.\<close>

definition ELF64_R_TYPE :: "u64 \<Rightarrow> u64" where "ELF64_R_TYPE i = i AND 0xFFFFFFFF"
definition ELF64_R_SYM :: "u64 \<Rightarrow> u64" where "ELF64_R_SYM i = drop_bit 32 i"

text \<open>A C string: the bytes before the first zero, \<open>None\<close> when there is no zero.\<close>

definition c_string :: "byte list \<Rightarrow> string option" where
  "c_string bs =
     (if 0 \<in> set bs then Some (map (\<lambda>b. char_of (unat b)) (takeWhile (\<lambda>b. b \<noteq> 0) bs)) else None)"

definition elf_string :: "byte list \<Rightarrow> nat \<Rightarrow> elf_error + string" where
  "elf_string elf off =
     (case c_string (drop off elf) of
        None \<Rightarrow> Inl (ElfUndefined (UnterminatedName off)) | Some s \<Rightarrow> Inr s)"

definition elf_bounds_check :: "elf_bounds \<Rightarrow> u64 \<Rightarrow> u64 \<Rightarrow> nat option" where
  "elf_bounds_check b off sz =
     (if off + sz > bounds_size b \<or> off + sz < off then None
      else Some (bounds_base b + unat off))"

section \<open>The loader\<close>

text \<open>The checks of the ELF header, in the order of the code.\<close>

definition check_ehdr :: "elf_ehdr \<Rightarrow> elf_error + unit" where
  "check_ehdr e =
    (if take 4 (e_ident e) \<noteq> [0x7F, 0x45, 0x4C, 0x46] then Inl WrongMagic
     else if e_ident e ! 4 \<noteq> 2 then Inl WrongClass
     else if e_ident e ! 5 \<noteq> 1 then Inl WrongByteOrder
     else if e_ident e ! 6 \<noteq> 1 then Inl WrongVersion
     else if e_ident e ! 7 \<noteq> 0 then Inl WrongOsAbi
     else if e_type e \<noteq> ET_REL then Inl WrongType
     else if e_machine e \<noteq> EM_NONE \<and> e_machine e \<noteq> EM_BPF then Inl (WrongMachine (e_machine e))
     else if unat (e_shnum e) > MAX_SECTIONS then Inl TooManySections
     else Inr ())"

definition parse_section :: "byte list \<Rightarrow> elf_bounds \<Rightarrow> elf_ehdr \<Rightarrow> nat \<Rightarrow> elf_error + elf_section" where
  "parse_section elf b e i =
    (case elf_bounds_check b (e_shoff e + of_nat (i * unat (e_shentsize e))) (of_nat shdr_size) of
       None \<Rightarrow> Inl BadSectionHeader
     | Some off \<Rightarrow> bindE (elf_read elf off shdr_size) (\<lambda>bs.
         let sh = shdr_of bs in
         case elf_bounds_check b (sh_offset sh) (sh_size sh) of
           None \<Rightarrow> Inl BadSection
         | Some d \<Rightarrow> Inr \<lparr>shdr = sh, data = d, sect_size = sh_size sh\<rparr>))"

text \<open>The loop over the section headers: \<open>n\<close> more to go, the next one is \<open>i\<close>.\<close>

primrec parse_sections ::
  "byte list \<Rightarrow> elf_bounds \<Rightarrow> elf_ehdr \<Rightarrow> nat \<Rightarrow> nat \<Rightarrow> elf_error + elf_section list" where
  "parse_sections elf b e i 0 = Inr []"
| "parse_sections elf b e i (Suc n) =
     bindE (parse_section elf b e i) (\<lambda>s.
       bindE (parse_sections elf b e (Suc i) n) (\<lambda>ss. Inr (s # ss)))"

text \<open>The index of the first text section, 0 when none is found.\<close>

definition is_text :: "elf_section \<Rightarrow> bool" where
  "is_text s \<longleftrightarrow> sh_type (shdr s) = SHT_PROGBITS \<and> sh_flags (shdr s) = (SHF_ALLOC OR SHF_EXECINSTR)"

primrec find_text :: "elf_section list \<Rightarrow> nat \<Rightarrow> nat" where
  "find_text [] i = 0"
| "find_text (s # ss) i = (if is_text s then i else find_text ss (Suc i))"

text \<open>One relocation: the guards of the inner loop and the patch of the text copy.\<close>

definition apply_reloc ::
  "ubpf_vm \<Rightarrow> byte list \<Rightarrow> elf_section \<Rightarrow> elf_section \<Rightarrow> elf_rel \<Rightarrow> byte list \<Rightarrow> elf_error + byte list" where
  "apply_reloc vm elf symtab strtab r text =
    (let num_syms = (ucast (sect_size symtab div of_nat sym_size) :: u32);
         sym_idx = (ucast (ELF64_R_SYM (r_info r)) :: u32) in
     if ELF64_R_TYPE (r_info r) \<noteq> 2 then Inl (BadRelocationType (ELF64_R_TYPE (r_info r)))
     else if sym_idx \<ge> num_syms then Inl BadSymbolIndex
     else bindE (elf_read elf (data symtab + unat sym_idx * sym_size) sym_size) (\<lambda>sym.
       if (ucast (st_name_of sym) :: u64) \<ge> sect_size strtab then Inl BadSymbolName
       else if r_offset r + 8 > of_nat (length text) then Inl BadRelocationOffset
       else bindE (elf_string elf (data strtab + unat (st_name_of sym))) (\<lambda>sym_name.
         let im = ubpf_lookup_registered_function vm sym_name in
         if im = -1 then Inl (FunctionNotFound sym_name)
         else case buf_write text (unat (r_offset r) + 4) (le_bytes 4 im) of
           None \<Rightarrow> Inl (ElfUndefined (OobWrite (r_offset r)))
         | Some text' \<Rightarrow> Inr text')))"

text \<open>The inner loop, from relocation \<open>j\<close> of the section with \<open>n\<close> more to go.\<close>

primrec reloc_loop ::
  "ubpf_vm \<Rightarrow> byte list \<Rightarrow> elf_section \<Rightarrow> elf_section \<Rightarrow> elf_section \<Rightarrow> nat \<Rightarrow> nat \<Rightarrow> byte list \<Rightarrow>
     elf_error + byte list" where
  "reloc_loop vm elf rel symtab strtab j 0 text = Inr text"
| "reloc_loop vm elf rel symtab strtab j (Suc n) text =
     bindE (elf_read elf (data rel + j * rel_size) rel_size) (\<lambda>bs.
       bindE (apply_reloc vm elf symtab strtab (rel_of bs) text) (\<lambda>text'.
         reloc_loop vm elf rel symtab strtab (Suc j) n text'))"

definition reloc_section ::
  "ubpf_vm \<Rightarrow> byte list \<Rightarrow> elf_section list \<Rightarrow> nat \<Rightarrow> elf_section \<Rightarrow> byte list \<Rightarrow> elf_error + byte list" where
  "reloc_section vm elf sections text_shndx rel text =
    (if sh_type (shdr rel) \<noteq> SHT_REL then Inr text
     else if unat (sh_info (shdr rel)) \<noteq> text_shndx then Inr text
     else if unat (sh_link (shdr rel)) \<ge> length sections then Inl BadSymtabIndex
     else let symtab = sections ! unat (sh_link (shdr rel)) in
       if unat (sh_link (shdr symtab)) \<ge> length sections then Inl BadStrtabIndex
       else reloc_loop vm elf rel symtab (sections ! unat (sh_link (shdr symtab)))
              0 (unat (sect_size rel) div rel_size) text)"

primrec reloc_sections ::
  "ubpf_vm \<Rightarrow> byte list \<Rightarrow> elf_section list \<Rightarrow> nat \<Rightarrow> elf_section list \<Rightarrow> byte list \<Rightarrow>
     elf_error + byte list" where
  "reloc_sections vm elf sections text_shndx [] text = Inr text"
| "reloc_sections vm elf sections text_shndx (rel # rels) text =
     bindE (reloc_section vm elf sections text_shndx rel text) (\<lambda>text'.
       reloc_sections vm elf sections text_shndx rels text')"

text \<open>Everything before \<^verbatim>\<open>malloc\<close>: the sections and the index of the text section.\<close>

definition elf_sections :: "byte list \<Rightarrow> elf_error + elf_section list \<times> nat" where
  "elf_sections elf =
    (let b = \<lparr>bounds_base = 0, bounds_size = of_nat (length elf)\<rparr> in
     case elf_bounds_check b 0 (of_nat ehdr_size) of
       None \<Rightarrow> Inl NotEnoughData
     | Some off \<Rightarrow> bindE (elf_read elf off ehdr_size) (\<lambda>bs.
         let e = ehdr_of bs in
         bindE (check_ehdr e) (\<lambda>_.
           bindE (parse_sections elf b e 0 (unat (e_shnum e))) (\<lambda>sections.
             let text_shndx = find_text sections 0 in
             if text_shndx = 0 then Inl TextNotFound else Inr (sections, text_shndx)))))"

text \<open>
  \<^verbatim>\<open>ubpf_load_elf\<close>.  The copy of the text section is a heap block, freed on the
  \<^verbatim>\<open>error\<close> path and after \<^verbatim>\<open>ubpf_load\<close>; the length passed on is a \<^verbatim>\<open>uint32_t\<close>.
\<close>

definition ubpf_load_elf ::
  "ubpf_vm \<Rightarrow> byte list \<Rightarrow> heap \<Rightarrow> (elf_error + ubpf_vm) \<times> heap" where
  "ubpf_load_elf vm elf h =
    (case elf_sections elf of
       Inl e \<Rightarrow> (Inl e, free None h)
     | Inr (sections, text_shndx) \<Rightarrow>
        (let text = sections ! text_shndx in
         case malloc h of
           (None, h) \<Rightarrow> (Inl ElfOutOfMemory, free None h)
         | (Some text_copy, h) \<Rightarrow>
            (case bindE (elf_read elf (data text) (unat (sect_size text)))
                   (reloc_sections vm elf sections text_shndx sections) of
               Inl e \<Rightarrow> (Inl e, free (Some text_copy) h)
             | Inr bytes \<Rightarrow>
                (case ubpf_load vm bytes (ucast (sect_size text)) h of
                   (Inl e, h) \<Rightarrow> (Inl (LoadFailed e), free (Some text_copy) h)
                 | (Inr vm', h) \<Rightarrow> (Inr vm', free (Some text_copy) h)))))"

section \<open>Reads stay inside the image\<close>

lemma word_add_no_overflow:
  "\<not> a + b < a \<Longrightarrow> unat (a + b) = unat a + unat (b :: 'a::len word)"
  by (metis not_le unat_plus_simple word_le_def linorder_not_less)

lemma elf_bounds_check_Some:
  assumes "elf_bounds_check b off sz = Some p"
  shows "p = bounds_base b + unat off \<and> unat off + unat sz \<le> unat (bounds_size b)"
  using assms word_add_no_overflow [of off sz]
  by (auto simp: elf_bounds_check_def word_less_nat_alt not_less word_le_nat_alt split: if_splits)

lemma elf_bounds_check_complete:
  assumes "unat off + unat sz \<le> unat (bounds_size b)"
  shows "elf_bounds_check b off sz = Some (bounds_base b + unat off)"
proof -
  have "unat off + unat sz < 2 ^ 64" using assms unsigned_less [of "bounds_size b", where 'a = nat] by simp
  then have "unat (off + sz) = unat off + unat sz" by (simp add: unat_word_ariths)
  then show ?thesis using assms by (simp add: elf_bounds_check_def word_less_nat_alt not_less)
qed

definition sect_ok :: "byte list \<Rightarrow> elf_section \<Rightarrow> bool" where
  "sect_ok elf s \<longleftrightarrow> data s + unat (sect_size s) \<le> length elf"

lemma elf_read_ok: "off + n \<le> length elf \<Longrightarrow> elf_read elf off n = Inr (take n (drop off elf))"
  by (simp add: elf_read_def buf_read_def)


definition image_ok :: "byte list \<Rightarrow> elf_bounds \<Rightarrow> bool" where
  "image_ok elf b \<longleftrightarrow> bounds_base b = 0 \<and> unat (bounds_size b) = length elf"

lemma checked_read:
  assumes "image_ok elf b" "elf_bounds_check b off sz = Some p"
  shows "elf_read elf p (unat sz) = Inr (take (unat sz) (drop p elf))" "p + unat sz \<le> length elf"
  using elf_bounds_check_Some [OF assms(2)] assms(1) by (simp_all add: elf_read_ok image_ok_def)

lemma parse_section_ok:
  assumes "image_ok elf b"
  shows "parse_section elf b e i \<noteq> Inl (ElfUndefined u)"
    and "parse_section elf b e i = Inr s \<Longrightarrow> sect_ok elf s"
  using checked_read(1) [OF assms, of _ "of_nat shdr_size"] checked_read(2) [OF assms]
  by (auto simp: parse_section_def Let_def shdr_size_def sect_ok_def split: option.splits)

lemma parse_sections_ok:
  assumes "image_ok elf b"
  shows "parse_sections elf b e i n \<noteq> Inl (ElfUndefined u)"
    and "parse_sections elf b e i n = Inr ss \<Longrightarrow> length ss = n \<and> (\<forall>s \<in> set ss. sect_ok elf s)"
  using assms
  by (induction n arbitrary: i ss)
    (auto simp: bindE_Inl_iff bindE_Inr_iff parse_section_ok)

lemma find_text_spec:
  "find_text ss i = k \<Longrightarrow> k \<noteq> 0 \<Longrightarrow>
     i \<le> k \<and> k < i + length ss \<and> is_text (ss ! (k - i)) \<and> (\<forall>j < k - i. \<not> is_text (ss ! j))"
proof (induction ss arbitrary: i)
  case (Cons s ss)
  show ?case
  proof (cases "is_text s")
    case True
    with Cons.prems show ?thesis by simp
  next
    case False
    with Cons.prems have *: "Suc i \<le> k \<and> k < Suc i + length ss \<and> is_text (ss ! (k - Suc i)) \<and>
      (\<forall>j < k - Suc i. \<not> is_text (ss ! j))" by (intro Cons.IH) simp_all
    then obtain d where "k = Suc i + d" using le_Suc_ex by blast
    with * False show ?thesis by (auto simp: nth_Cons split: nat.splits)
  qed
qed simp

definition sections_ok :: "byte list \<Rightarrow> elf_section list \<Rightarrow> nat \<Rightarrow> bool" where
  "sections_ok elf ss k \<longleftrightarrow> (\<forall>s \<in> set ss. sect_ok elf s) \<and> length ss \<le> MAX_SECTIONS \<and>
     0 < k \<and> k < length ss \<and> is_text (ss ! k) \<and> (\<forall>j < k. \<not> is_text (ss ! j))"

lemma elf_sections_ok:
  assumes "length elf < 2 ^ 64"
  shows "elf_sections elf \<noteq> Inl (ElfUndefined u)"
    and "elf_sections elf = Inr (ss, k) \<Longrightarrow> sections_ok elf ss k"
proof -
  let ?b = "\<lparr>bounds_base = 0, bounds_size = of_nat (length elf)\<rparr>"
  have ok: "image_ok elf ?b" using assms by (simp add: image_ok_def unat_of_nat take_bit_nat_eq_self)
  have rd: "elf_bounds_check ?b 0 (of_nat ehdr_size) = Some off \<Longrightarrow>
      elf_read elf off ehdr_size = Inr (take 64 (drop off elf))" for off
    using checked_read(1) [OF ok, of 0 "of_nat ehdr_size" off] by (simp add: ehdr_size_def)
  show "elf_sections elf \<noteq> Inl (ElfUndefined u)"
    using rd parse_sections_ok(1) [OF ok]
    by (auto simp: elf_sections_def Let_def check_ehdr_def bindE_Inl_iff split: option.splits if_splits)
  assume "elf_sections elf = Inr (ss, k)"
  then obtain e where "check_ehdr e = Inr ()" "parse_sections elf ?b e 0 (unat (e_shnum e)) = Inr ss"
    "find_text ss 0 = k" "k \<noteq> 0"
    by (auto simp: elf_sections_def Let_def bindE_Inr_iff split: option.splits if_splits)
  then show "sections_ok elf ss k"
    using parse_sections_ok(2) [OF ok] find_text_spec [of ss 0 k]
    by (auto simp: sections_ok_def check_ehdr_def split: if_splits)
qed

section \<open>Relocations\<close>

lemma sym_in_bounds:
  assumes "sect_ok elf s" "(idx :: u32) < ucast (sect_size s div of_nat sym_size)"
  shows "data s + unat idx * sym_size + sym_size \<le> length elf"
proof -
  have "unat idx < unat (sect_size s) div sym_size"
  proof -
    have "unat (ucast (sect_size s div of_nat sym_size) :: u32) \<le> unat (sect_size s div of_nat sym_size)"
      by (simp add: unsigned_ucast_eq take_bit_nat_less_eq_self)
    moreover have "unat (sect_size s div of_nat sym_size) = unat (sect_size s) div sym_size"
      by (simp add: unat_div_distrib sym_size_def)
    ultimately show ?thesis using assms(2) by (simp add: word_less_nat_alt)
  qed
  then have "Suc (unat idx) * sym_size \<le> unat (sect_size s)"
    by (intro less_div_imp_mult_le)
  then show ?thesis using assms(1) by (simp add: sect_ok_def)
qed

lemma rel_in_bounds:
  assumes "sect_ok elf s" "j < unat (sect_size s) div rel_size"
  shows "data s + j * rel_size + rel_size \<le> length elf"
proof -
  have "Suc j * rel_size \<le> unat (sect_size s)"
    using assms(2) by (intro less_div_imp_mult_le)
  then show ?thesis using assms(1) by (simp add: sect_ok_def)
qed

text \<open>What one successful relocation did.\<close>

lemma apply_reloc_Inr:
  assumes "apply_reloc vm elf symtab strtab r text = Inr text'"
  obtains name where "buf_write text (unat (r_offset r) + 4)
      (le_bytes 4 (ubpf_lookup_registered_function vm name)) = Some text'"
    and "ubpf_lookup_registered_function vm name \<noteq> -1"
    and "\<exists>sym. sym = take sym_size (drop (data symtab + unat (ELF64_R_SYM (r_info r)) * sym_size) elf) \<and>
      c_string (drop (data strtab + unat (st_name_of sym)) elf) = Some name"
proof -
  have [simp]: "unat (ucast (ELF64_R_SYM x) :: u32) = unat (ELF64_R_SYM x)" for x
  proof -
    have "unat (drop_bit 32 x) < 2 ^ 32"
      using unsigned_less [of x, where 'a = nat] by (simp add: unsigned_drop_bit_eq drop_bit_eq_div [where 'a = nat]
        take_bit_nat_eq_self less_mult_imp_div_less)
    then show ?thesis by (simp add: ELF64_R_SYM_def unsigned_ucast_eq take_bit_nat_eq_self)
  qed
  show ?thesis using assms that
    by (auto simp: apply_reloc_def Let_def bindE_Inr_iff elf_read_def elf_string_def buf_read_def
        split: if_splits option.splits)
qed

definition reloc_undef :: "elf_undef \<Rightarrow> bool" where
  "reloc_undef u \<longleftrightarrow> (case u of OobRead _ _ \<Rightarrow> False
     | OobWrite off \<Rightarrow> unat off + 8 \<ge> 2 ^ 64 | UnterminatedName _ \<Rightarrow> True)"

lemma apply_reloc_undef:
  assumes "apply_reloc vm elf symtab strtab r text = Inl (ElfUndefined u)" "sect_ok elf symtab"
    and "length text < 2 ^ 64"
  shows "reloc_undef u"
proof -
  have "2 ^ 64 \<le> unat (r_offset r) + 8"
    if "buf_write text (unat (r_offset r) + 4) (le_bytes 4 im) = None"
      "\<not> r_offset r + 8 > of_nat (length text)" for im
  proof (rule ccontr)
    assume "\<not> ?thesis"
    then have "unat (r_offset r + 8) = unat (r_offset r) + 8" by (simp add: unat_word_ariths)
    with that assms(3) show False
      by (simp add: buf_write_def word_less_nat_alt unat_of_nat take_bit_nat_eq_self split: if_splits)
  qed
  then show ?thesis
    using assms sym_in_bounds [OF assms(2)]
    by (auto simp: apply_reloc_def Let_def bindE_Inl_iff elf_read_ok elf_string_def reloc_undef_def
        not_le split: if_splits option.splits)
qed

lemma apply_reloc_length: "apply_reloc vm elf symtab strtab r text = Inr text' \<Longrightarrow> length text' = length text"
  by (erule apply_reloc_Inr) (rule buf_write_length)

lemma reloc_loop_length:
  "reloc_loop vm elf rel symtab strtab j n text = Inr text' \<Longrightarrow> length text' = length text"
  by (induction n arbitrary: j "text") (auto simp: bindE_Inr_iff apply_reloc_length)

lemma reloc_loop_undef:
  assumes "sect_ok elf rel" "sect_ok elf symtab"
  shows "reloc_loop vm elf rel symtab strtab j n text = Inl (ElfUndefined u) \<Longrightarrow>
    j + n \<le> unat (sect_size rel) div rel_size \<Longrightarrow> length text < 2 ^ 64 \<Longrightarrow> reloc_undef u"
proof (induction n arbitrary: j "text")
  case (Suc n)
  have "elf_read elf (data rel + j * rel_size) rel_size = Inr (take rel_size (drop (data rel + j * rel_size) elf))"
    using rel_in_bounds [OF assms(1), of j] Suc.prems(2) by (simp add: elf_read_ok)
  with Suc.prems(1) show ?case
    using Suc.IH [of "Suc j"] Suc.prems(2,3) apply_reloc_undef [OF _ assms(2)] apply_reloc_length
    by (auto simp: bindE_Inl_iff)
qed simp

lemma reloc_section_length:
  "reloc_section vm elf ss k rel text = Inr text' \<Longrightarrow> length text' = length text"
  by (auto simp: reloc_section_def Let_def reloc_loop_length split: if_splits)

lemma reloc_section_undef:
  assumes "\<forall>s \<in> set ss. sect_ok elf s" "sect_ok elf rel" "length text < 2 ^ 64"
    and "reloc_section vm elf ss k rel text = Inl (ElfUndefined u)"
  shows "reloc_undef u"
  using assms reloc_loop_undef [OF assms(2), of "ss ! unat (sh_link (shdr rel))" vm
      "ss ! unat (sh_link (shdr (ss ! unat (sh_link (shdr rel)))))" 0
      "unat (sect_size rel) div rel_size" "text" u]
  by (auto simp: reloc_section_def Let_def not_le split: if_splits)

lemma reloc_sections_length:
  "reloc_sections vm elf ss k rels text = Inr text' \<Longrightarrow> length text' = length text"
  by (induction rels arbitrary: "text") (auto simp: bindE_Inr_iff reloc_section_length)

lemma reloc_sections_undef:
  assumes "\<forall>s \<in> set ss. sect_ok elf s"
  shows "reloc_sections vm elf ss k rels text = Inl (ElfUndefined u) \<Longrightarrow>
    (\<forall>s \<in> set rels. sect_ok elf s) \<Longrightarrow> length text < 2 ^ 64 \<Longrightarrow> reloc_undef u"
  by (induction rels arbitrary: "text")
    (auto simp: bindE_Inl_iff reloc_section_length dest: reloc_section_undef [OF assms])

lemma load_elf_undef:
  assumes "length elf < 2 ^ 64" "ubpf_load_elf vm elf h = (Inl (ElfUndefined u), h')"
  shows "reloc_undef u"
proof (cases "elf_sections elf")
  case (Inl e)
  then show ?thesis using assms elf_sections_ok(1) by (auto simp: ubpf_load_elf_def)
next
  case (Inr p)
  obtain ss k where p: "p = (ss, k)" by fastforce
  have ok: "sections_ok elf ss k" using elf_sections_ok(2) [OF assms(1)] Inr p by simp
  then have t: "sect_ok elf (ss ! k)" by (simp add: sections_ok_def)
  have "reloc_sections vm elf ss k ss (take (unat (sect_size (ss ! k))) (drop (data (ss ! k)) elf))
     = Inl (ElfUndefined u)"
    using assms(2) Inr p t
    by (auto simp: ubpf_load_elf_def Let_def elf_read_ok sect_ok_def
        split: prod.splits option.splits sum.splits)
  then show ?thesis
    using reloc_sections_undef ok assms(1) by (auto simp: sections_ok_def)
qed

text \<open>
  An aligned relocation changes one instruction: its \<open>imm\<close> becomes the index of
  the function the symbol names.
\<close>

lemma decode_inst_patch:
  assumes "length bs = 8"
  shows "decode_inst (take 4 bs @ le_bytes 4 w) = (decode_inst bs)\<lparr>imm := w\<rparr>"
  using assms le32.dec_enc [of w]
  by (simp add: decode_inst_def nth_append min_def drop_take del: le_bytes.simps)

lemma decode_insts_patch:
  assumes "buf_write text (8 * k + 4) (le_bytes 4 w) = Some text'"
  shows "decode_insts text' = (decode_insts text)[k := (decode_insts text ! k)\<lparr>imm := w\<rparr>]"
proof (rule nth_equalityI)
  have len: "length text' = length text" using buf_write_length [OF assms] .
  then show "length (decode_insts text') = length ((decode_insts text)[k := (decode_insts text ! k)\<lparr>imm := w\<rparr>])"
    by (simp add: length_decode_insts)
  have k: "8 * k + 8 \<le> length text" using assms by (auto simp: buf_write_def split: if_splits)
  fix j assume "j < length (decode_insts text')"
  then have j: "j < length text div 8" by (simp add: length_decode_insts len)
  then have j8: "8 * j + 8 \<le> length text" by linarith
  show "decode_insts text' ! j = (decode_insts text)[k := (decode_insts text ! k)\<lparr>imm := w\<rparr>] ! j"
  proof (cases "j = k")
    case True
    have "take 8 (drop (8 * k) text') = take 4 (take 8 (drop (8 * k) text)) @ le_bytes 4 w"
      using k assms by (auto simp: buf_write_def min_def drop_take split: if_splits)
    then show ?thesis
      using True j k len decode_inst_patch [of "take 8 (drop (8 * k) text)" w]
      by (simp add: nth_decode_insts length_decode_insts)
  next
    case False
    then have "8 * j + 8 \<le> 8 * k + 4 \<or> 8 * k + 4 + length (le_bytes 4 w) \<le> 8 * j" by auto
    then have "take 8 (drop (8 * j) text') = take 8 (drop (8 * j) text)"
      using buf_read_write_disjoint [OF assms, of "8 * j" 8] j8 len by (auto simp: buf_read_def)
    then show ?thesis using False j len by (simp add: nth_decode_insts length_decode_insts)
  qed
qed

section \<open>Heap\<close>

lemma load_elf_owns:
  assumes "owns vm h L" "ubpf_load_elf vm elf h = (r, h')"
  shows "owns (case r of Inl e \<Rightarrow> vm | Inr vm' \<Rightarrow> vm') h' L"
proof (cases "malloc h")
  case (Pair c h1)
  have ok: "heap_ok h" using assms(1) by (simp add: owns_def owned_def)
  note ok1 = malloc_cases(1) [OF Pair ok]
  show ?thesis
  proof (cases c)
    case None
    have "owns vm h1 L" using assms(1) ok1 malloc_cases(2) [OF Pair ok None] by (simp add: owns_def owned_def)
    then show ?thesis using assms Pair None
      by (auto simp: ubpf_load_elf_def Let_def free_def split: sum.splits prod.splits)
  next
    case (Some t)
    have t: "t \<notin> live h" "live h1 = insert t (live h)" using malloc_cases(3) [OF Pair ok Some] by auto
    have own1: "owns vm h1 (insert t L)"
      using assms(1) ok1 t by (auto simp: owns_def owned_def)
    have returned: "owns v (free (Some t) h2) L" if "owns v h2 (insert t L)" for v h2
      using that t assms(1) by (auto simp: owns_def owned_def free_def heap_ok_def)
    show ?thesis
      using assms Pair Some returned own1 owns_load [OF own1] owns_load_fail [OF own1]
      by (auto simp: ubpf_load_elf_def Let_def free_def [of None] split: sum.splits prod.splits)
  qed
qed

section \<open>A successful load\<close>

lemma load_elf_parts:
  assumes "length elf < 2 ^ 64" and "ubpf_load_elf vm elf h = (Inr vm', h')"
  obtains sections k code h1 h2 where "elf_sections elf = Inr (sections, k)" and "sections_ok elf sections k"
    and "ubpf_load vm code (ucast (sect_size (sections ! k))) h1 = (Inr vm', h2)"
    and "length code = unat (sect_size (sections ! k))"
proof -
  obtain sections k where ss: "elf_sections elf = Inr (sections, k)"
    using assms(2) by (cases "elf_sections elf") (auto simp: ubpf_load_elf_def)
  have ok: "sections_ok elf sections k" using elf_sections_ok(2) [OF assms(1) ss] by simp
  let ?t = "sections ! k"
  have t: "sect_ok elf ?t" using ok by (simp add: sections_ok_def)
  obtain code h1 h2 where r: "reloc_sections vm elf sections k sections
        (take (unat (sect_size ?t)) (drop (data ?t) elf)) = Inr code"
    and l: "ubpf_load vm code (ucast (sect_size ?t)) h1 = (Inr vm', h2)"
    using assms(2) ss t
    by (auto simp: ubpf_load_elf_def Let_def elf_read_ok sect_ok_def
        split: prod.splits option.splits sum.splits)
  have "length code = unat (sect_size ?t)"
    using reloc_sections_length [OF r] t by (simp add: sect_ok_def)
  then show ?thesis using that ss ok l by blast
qed

end
