(* ===== verification/Loader_Theorems.thy ===== *)
theory Loader_Theorems
  imports Ubpf_Examples Ubpf_Loader
begin

text \<open>
  The properties of the ELF loader, with two concrete images: one that loads, and
  one whose relocation makes the loader write outside its copy of the text.
\<close>

section \<open>Concrete images\<close>

definition shdr_bytes :: "u32 \<Rightarrow> u64 \<Rightarrow> u64 \<Rightarrow> u64 \<Rightarrow> u32 \<Rightarrow> u32 \<Rightarrow> byte list" where
  "shdr_bytes ty fl off sz lnk info = replicate 4 0 @ le_bytes 4 ty @ le_bytes 8 fl @ replicate 8 0 @
     le_bytes 8 off @ le_bytes 8 sz @ le_bytes 4 lnk @ le_bytes 4 info @ replicate 16 0"

definition demo_ehdr :: "byte list" where
  "demo_ehdr = [0x7F, 0x45, 0x4C, 0x46, 2, 1, 1, 0] @ replicate 8 0 @ le_bytes 2 (1::u16) @ le_bytes 2 (247::u16) @
     replicate 20 0 @ le_bytes 8 (64::u64) @ replicate 10 0 @ le_bytes 2 (64::u16) @ le_bytes 2 (2::u16) @ replicate 2 0"

text \<open>A text section with one instruction, and nothing to relocate.\<close>

definition demo_elf_plain :: "byte list" where
  "demo_elf_plain = demo_ehdr @ replicate 64 0 @ shdr_bytes 1 6 192 8 0 0 @ demo_code prog_no_exit"

text \<open>
  One section that is relocation table, symbol table and string table at once: a
  relocation of symbol 1 at the offset \<open>2 ^ 64 - 8\<close>, the symbol, and its name.
\<close>

definition demo_elf_wild :: "byte list" where
  "demo_elf_wild = demo_ehdr @ shdr_bytes 9 0 192 50 0 1 @ shdr_bytes 1 6 192 16 0 0 @
     le_bytes 8 (-8 :: u64) @ le_bytes 8 (0x100000002 :: u64) @ replicate 8 0 @
     le_bytes 4 (48 :: u32) @ replicate 20 0 @ [0x66, 0]"

definition demo_sects :: "elf_section list" where
  "demo_sects = [\<lparr>shdr = \<lparr>sh_type = 0, sh_flags = 0, sh_offset = 0, sh_size = 0, sh_link = 0, sh_info = 0\<rparr>, data = 0, sect_size = 0\<rparr>,
    \<lparr>shdr = \<lparr>sh_type = 1, sh_flags = 6, sh_offset = 192, sh_size = 8, sh_link = 0, sh_info = 0\<rparr>, data = 192, sect_size = 8\<rparr>]"

definition demo_sects_wild :: "elf_section list" where
  "demo_sects_wild = [\<lparr>shdr = \<lparr>sh_type = 9, sh_flags = 0, sh_offset = 192, sh_size = 50, sh_link = 0, sh_info = 1\<rparr>, data = 192, sect_size = 50\<rparr>,
    \<lparr>shdr = \<lparr>sh_type = 1, sh_flags = 6, sh_offset = 192, sh_size = 16, sh_link = 0, sh_info = 0\<rparr>, data = 192, sect_size = 16\<rparr>]"

lemma demo_plain_sections: "elf_sections demo_elf_plain = Inr (demo_sects, 1)"
  by code_simp

lemma demo_wild_sections: "elf_sections demo_elf_wild = Inr (demo_sects_wild, 1)"
  by code_simp

lemma demo_lookup: "ubpf_lookup_registered_function demo_vm ''f'' = 3"
  by code_simp

lemma le_bytes_eqs: "length (shdr_bytes a b c d e f) = 64" "length demo_ehdr = 64"
  "length (demo_code prog_no_exit) = 8"
  by (simp_all add: shdr_bytes_def demo_ehdr_def demo_code_def prog_no_exit_def del: le_bytes.simps)

lemma demo_plain_text: "elf_read demo_elf_plain 192 8 = Inr (demo_code prog_no_exit)"
  by (simp add: elf_read_def buf_read_def demo_elf_plain_def le_bytes_eqs)

lemma demo_wild_reads:
  "elf_read demo_elf_wild 192 16 = Inr (le_bytes 8 (-8 :: u64) @ le_bytes 8 (0x100000002 :: u64))"
  "elf_read demo_elf_wild 216 24 = Inr (le_bytes 4 (48 :: u32) @ replicate 20 0)"
  "elf_string demo_elf_wild 240 = Inr ''f''"
proof -
  have "drop 240 demo_elf_wild = [0x66, 0]" by (simp add: demo_elf_wild_def le_bytes_eqs)
  moreover have "c_string [0x66, 0] = Some ''f''" by code_simp
  ultimately show "elf_string demo_elf_wild 240 = Inr ''f''" by (simp add: elf_string_def)
qed (simp_all add: elf_read_def buf_read_def demo_elf_wild_def le_bytes_eqs)

lemma demo_wild_reloc:
  "apply_reloc demo_vm demo_elf_wild (demo_sects_wild ! 0) (demo_sects_wild ! 0)
     (rel_of (le_bytes 8 (-8 :: u64) @ le_bytes 8 (0x100000002 :: u64)))
     (le_bytes 8 (-8 :: u64) @ le_bytes 8 (0x100000002 :: u64)) = Inl (ElfUndefined (OobWrite (-8)))"
proof -
  have r: "rel_of (le_bytes 8 (-8 :: u64) @ le_bytes 8 (0x100000002 :: u64)) = \<lparr>r_offset = -8, r_info = 0x100000002\<rparr>"
    by (simp add: rel_of_def field_def le64.dec_enc del: le_bytes.simps)
  have st: "st_name_of (le_bytes 4 (48 :: u32) @ replicate 20 0) = 48"
    by (simp add: st_name_of_def field_def le32.dec_enc del: le_bytes.simps)
  show ?thesis
    unfolding r
    by (simp add: apply_reloc_def Let_def demo_sects_wild_def ELF64_R_TYPE_def ELF64_R_SYM_def sym_size_def
        demo_wild_reads st demo_lookup buf_write_def drop_bit_eq_div del: le_bytes.simps)
      (simp add: word_le_nat_alt)
qed

lemma demo_wild_load:
  "fst (ubpf_load_elf demo_vm demo_elf_wild demo_heap) = Inl (ElfUndefined (OobWrite (-8)))"
  by (simp add: ubpf_load_elf_def demo_wild_sections demo_wild_reads malloc_def demo_heap_def Let_def
      demo_sects_wild_def reloc_section_def SHT_REL_def rel_size_def numeral_3_eq_3
      demo_wild_reloc [unfolded demo_sects_wild_def, simplified] del: le_bytes.simps)

lemma demo_plain_load:
  "ubpf_load_elf demo_vm demo_elf_plain demo_heap =
     (Inr ((demo_loaded prog_no_exit)\<lparr>insts := Some (5, prog_no_exit)\<rparr>),
      demo_heap\<lparr>next_block := 6, live := {1, 2, 3, 5}\<rparr>)"
proof -
  have len: "demo_len prog_no_exit = 8" by (simp add: demo_len_def prog_no_exit_def)
  note dec = demo_decode(1) [OF demo_short(1), unfolded len, simplified]
  have "insts demo_vm = None" by (simp add: demo_vm_def calloc_vm_def)
  moreover have "(1 :: u16) = of_nat (length prog_no_exit)" by (simp add: prog_no_exit_def)
  ultimately have "ubpf_load demo_vm (demo_code prog_no_exit) 8 (demo_heap\<lparr>next_block := 5, live := {1, 2, 3, 4}\<rparr>) =
      (Inr ((demo_loaded prog_no_exit)\<lparr>insts := Some (5, prog_no_exit)\<rparr>),
       demo_heap\<lparr>next_block := 6, live := {1, 2, 3, 4, 5}\<rparr>)"
    using demo_valid(1) dec
    by (auto simp: ubpf_load_def malloc_def demo_heap_def demo_loaded_def)
  then show ?thesis
    by (auto simp: ubpf_load_elf_def demo_plain_sections demo_plain_text malloc_def demo_heap_def Let_def
      demo_sects_def reloc_section_def SHT_REL_def free_def insert_commute)
qed

section \<open>The loader\<close>

text \<open>
  C9: whatever the image holds, \<^verbatim>\<open>ubpf_load_elf\<close> never reads outside it.  It leaves defined
  behaviour only in two ways: a symbol name with no terminating zero before the end
  of the image, or a relocation whose offset is so large that adding 8 to it wraps
  around, which passes the bounds check and writes outside the copy of the text.
\<close>

theorem load_elf_undefined_classified:
  assumes "length elf < 2 ^ 64" and "ubpf_load_elf vm elf h = (Inl (ElfUndefined u), h')"
  shows "(\<exists>off. u = UnterminatedName off) \<or> (\<exists>off. u = OobWrite off \<and> 2 ^ 64 \<le> unat off + 8)"
  using load_elf_undef [OF assms] by (cases u) (auto simp: reloc_undef_def)

theorem load_elf_undefined_classified_witness:
  "fst (ubpf_load_elf demo_vm demo_elf_wild demo_heap) = Inl (ElfUndefined (OobWrite (-8))) \<and>
   2 ^ 64 \<le> unat (-8 :: u64) + 8"
proof -
  have "length demo_elf_wild < 2 ^ 64" by (simp add: demo_elf_wild_def le_bytes_eqs)
  moreover have "ubpf_load_elf demo_vm demo_elf_wild demo_heap =
      (Inl (ElfUndefined (OobWrite (-8))), snd (ubpf_load_elf demo_vm demo_elf_wild demo_heap))"
    using demo_wild_load by (metis prod.collapse)
  ultimately show ?thesis using load_elf_undefined_classified demo_wild_load by blast
qed

text \<open>
  C10: a relocation that the loader applies at an instruction changes this instruction
  only, and of it only the immediate, which becomes the index of a registered
  function; the name at that index is the name of the symbol.
\<close>

theorem apply_reloc_patches_call:
  assumes "apply_reloc vm elf symtab strtab r code = Inr code'" and "unat (r_offset r) = 8 * k" and "vm_ok vm"
  shows "\<exists>name idx. decode_insts code' = (decode_insts code)[k := (decode_insts code ! k)\<lparr>imm := idx\<rparr>] \<and>
    unat idx < MAX_EXT_FUNCS \<and> names_of vm ! unat idx = Some name \<and>
    c_string (drop (data strtab + unat (st_name_of (take sym_size
      (drop (data symtab + unat (ELF64_R_SYM (r_info r)) * sym_size) elf)))) elf) = Some name"
proof (rule apply_reloc_Inr [OF assms(1)])
  fix name
  let ?idx = "ubpf_lookup_registered_function vm name"
  assume w: "buf_write code (unat (r_offset r) + 4) (le_bytes 4 ?idx) = Some code'" and found: "?idx \<noteq> -1"
    and nm: "\<exists>sym. sym = take sym_size (drop (data symtab + unat (ELF64_R_SYM (r_info r)) * sym_size) elf) \<and>
      c_string (drop (data strtab + unat (st_name_of sym)) elf) = Some name"
  have "decode_insts code' = (decode_insts code)[k := (decode_insts code ! k)\<lparr>imm := ?idx\<rparr>]"
    using decode_insts_patch w assms(2) by simp
  moreover have "unat ?idx < MAX_EXT_FUNCS" "names_of vm ! unat ?idx = Some name"
    using ext_names.lookup_hit [OF assms(3) found] assms(3) by (auto simp: vm_ok_def)
  ultimately show ?thesis using nm by blast
qed

definition demo_sym_sect :: elf_section where
  "demo_sym_sect = \<lparr>shdr = shdr_of [], data = 0, sect_size = 24\<rparr>"

definition demo_str_sect :: elf_section where
  "demo_str_sect = \<lparr>shdr = shdr_of [], data = 24, sect_size = 2\<rparr>"

lemma demo_reloc_image:
  "apply_reloc demo_vm (replicate 24 0 @ [0x66, 0]) demo_sym_sect demo_str_sect \<lparr>r_offset = 0, r_info = 2\<rparr>
     (encode_inst (inst EBPF_OP_CALL 0 0 0 0)) = Inr (encode_inst (inst EBPF_OP_CALL 0 0 0 3))"
proof -
  have s: "st_name_of (replicate 24 0) = 0" by code_simp
  have "c_string [0x66, 0] = Some ''f''" by code_simp
  then have n: "elf_string (replicate 24 0 @ [0x66, 0]) 24 = Inr ''f''" by (simp add: elf_string_def)
  have b: "buf_write (encode_inst (inst EBPF_OP_CALL 0 0 0 0)) 4 (le_bytes 4 (3 :: u32)) =
      Some (encode_inst (inst EBPF_OP_CALL 0 0 0 3))"
    by (simp add: buf_write_def encode_inst_def inst_def del: le_bytes.simps)
  show ?thesis
    by (simp add: apply_reloc_def Let_def demo_sym_sect_def demo_str_sect_def ELF64_R_TYPE_def
        ELF64_R_SYM_def sym_size_def elf_read_def buf_read_def s n b demo_lookup)
qed

theorem apply_reloc_patches_call_witness:
  "\<exists>name idx. decode_insts (encode_inst (inst EBPF_OP_CALL 0 0 0 3)) =
      (decode_insts (encode_inst (inst EBPF_OP_CALL 0 0 0 0)))
        [0 := (decode_insts (encode_inst (inst EBPF_OP_CALL 0 0 0 0)) ! 0)\<lparr>imm := idx\<rparr>] \<and>
    names_of demo_vm ! unat idx = Some name"
  using apply_reloc_patches_call [OF demo_reloc_image _ demo_setting(1), of 0] by auto



end
