(* ===== verification/Jit_Emit.thy ===== *)
theory Jit_Emit
  imports Prelude
begin

text \<open>
  The x86-64 code emitter of \<^verbatim>\<open>tools/ubpf/vm/ubpf_jit_x86_64.h\<close>.  A C \<^verbatim>\<open>int\<close> (a register
  number, an opcode, an immediate) is an \<^typ>\<open>int\<close>; what goes into the buffer is cut
  to its width where the code passes it as \<^verbatim>\<open>uint8_t\<close> or \<^verbatim>\<open>uint32_t\<close>.  The three
  \<^verbatim>\<open>calloc\<close>ed arrays are functions from indices, zero at first, with their sizes
  beside them; an \<^verbatim>\<open>assert\<close> that fails and a write past the jump table are values
  of \<open>jit_error\<close>.  \<open>emits\<close> runs a sequence of statements, each of them a function
  on the state.
\<close>

section \<open>State\<close>

definition RAX :: int where "RAX = 0"
definition RCX :: int where "RCX = 1"
definition RDX :: int where "RDX = 2"
definition RBX :: int where "RBX = 3"
definition RSP :: int where "RSP = 4"
definition RBP :: int where "RBP = 5"
definition RSI :: int where "RSI = 6"
definition RDI :: int where "RDI = 7"
definition R8 :: int where "R8 = 8"
definition R9 :: int where "R9 = 9"
definition R10 :: int where "R10 = 10"
definition R11 :: int where "R11 = 11"
definition R12 :: int where "R12 = 12"
definition R13 :: int where "R13 = 13"
definition R14 :: int where "R14 = 14"
definition R15 :: int where "R15 = 15"

lemmas x86_register_numbers [x86_consts] =
  RAX_def RCX_def RDX_def RBX_def RSP_def RBP_def RSI_def RDI_def
  R8_def R9_def R10_def R11_def R12_def R13_def R14_def R15_def

datatype operand_size = S8 | S16 | S32 | S64

record jump =
  offset_loc :: u32
  target_pc :: u32

record jit_state =
  buf :: "nat \<Rightarrow> byte"
  jit_offset :: u32
  jit_size :: u32
  pc_locs :: "nat \<Rightarrow> u32"
  exit_loc :: u32
  div_by_zero_loc :: u32
  jumps :: "nat \<Rightarrow> jump"
  num_jumps :: nat
  max_jumps :: nat

datatype jit_error =
    BufferAssert
  | OperandAssert
  | JumpTableOverflow
  | RegisterAssert
  | UnknownInstruction nat byte
  | NotLoaded
  | NullBuffer
  | MmapFailed
  | MprotectFailed

type_synonym emitter = "jit_state \<Rightarrow> jit_error + jit_state"

primrec emits :: "emitter list \<Rightarrow> emitter" where
  "emits [] st = Inr st"
| "emits (e # es) st = bindE (e st) (emits es)"

definition emit_when :: "bool \<Rightarrow> emitter \<Rightarrow> emitter" where
  "emit_when b e st = (if b then e st else Inr st)"

definition emit_assert :: "bool \<Rightarrow> emitter" where
  "emit_assert b st = (if b then Inr st else Inl OperandAssert)"

section \<open>Raw bytes\<close>

text \<open>\<^verbatim>\<open>memcpy\<close> into the buffer.\<close>

primrec store_bytes :: "(nat \<Rightarrow> byte) \<Rightarrow> nat \<Rightarrow> byte list \<Rightarrow> nat \<Rightarrow> byte" where
  "store_bytes f off [] = f"
| "store_bytes f off (b # bs) = store_bytes (f(off := b)) (Suc off) bs"

definition emit_bytes :: "byte list \<Rightarrow> emitter" where
  "emit_bytes bs st =
     (let len = of_nat (length bs) in
      if jit_offset st \<le> jit_size st - len
      then Inr (st\<lparr>buf := store_bytes (buf st) (unat (jit_offset st)) bs,
                   jit_offset := jit_offset st + len\<rparr>)
      else Inl BufferAssert)"

definition emit1 :: "int \<Rightarrow> emitter" where
  "emit1 x = emit_bytes (le_bytes 1 (word_of_int x :: byte))"

definition emit2 :: "int \<Rightarrow> emitter" where
  "emit2 x = emit_bytes (le_bytes 2 (word_of_int x :: u16))"

definition emit4 :: "int \<Rightarrow> emitter" where
  "emit4 x = emit_bytes (le_bytes 4 (word_of_int x :: u32))"

definition emit8 :: "int \<Rightarrow> emitter" where
  "emit8 x = emit_bytes (le_bytes 8 (word_of_int x :: u64))"

definition emit_jump_offset :: "u32 \<Rightarrow> emitter" where
  "emit_jump_offset target st =
     (if num_jumps st \<ge> max_jumps st then Inl JumpTableOverflow
      else emit4 0 (st\<lparr>jumps := (jumps st)(num_jumps st :=
                        \<lparr>offset_loc = jit_offset st, target_pc = target\<rparr>),
                      num_jumps := Suc (num_jumps st)\<rparr>))"

section \<open>Prefixes and operands\<close>

definition emit_modrm :: "int \<Rightarrow> int \<Rightarrow> int \<Rightarrow> emitter" where
  "emit_modrm md r m = emits
    [emit_assert (md AND NOT 0xc0 = 0),
     emit1 ((md AND 0xc0) OR push_bit 3 (r AND 7) OR (m AND 7))]"

definition emit_modrm_reg2reg :: "int \<Rightarrow> int \<Rightarrow> emitter" where
  "emit_modrm_reg2reg r m = emit_modrm 0xc0 r m"

definition emit_modrm_and_displacement :: "int \<Rightarrow> int \<Rightarrow> int \<Rightarrow> emitter" where
  "emit_modrm_and_displacement r m d =
    (if d = 0 \<and> m AND 7 \<noteq> RBP then emit_modrm 0x00 r m
     else if d \<ge> -128 \<and> d \<le> 127 then emits [emit_modrm 0x40 r m, emit1 d]
     else emits [emit_modrm 0x80 r m, emit4 d])"

definition emit_rex :: "int \<Rightarrow> int \<Rightarrow> int \<Rightarrow> int \<Rightarrow> emitter" where
  "emit_rex w r x b = emits
    [emit_assert (w AND NOT 1 = 0), emit_assert (r AND NOT 1 = 0),
     emit_assert (x AND NOT 1 = 0), emit_assert (b AND NOT 1 = 0),
     emit1 (0x40 OR push_bit 3 w OR push_bit 2 r OR push_bit 1 x OR b)]"

text \<open>\<^verbatim>\<open>!!(r & 8)\<close>.\<close>

definition high_bit :: "int \<Rightarrow> int" where
  "high_bit r = (if r AND 8 \<noteq> 0 then 1 else 0)"

definition emit_basic_rex :: "int \<Rightarrow> int \<Rightarrow> int \<Rightarrow> emitter" where
  "emit_basic_rex w s d =
    emit_when (w \<noteq> 0 \<or> s AND 8 \<noteq> 0 \<or> d AND 8 \<noteq> 0) (emit_rex w (high_bit s) 0 (high_bit d))"

section \<open>Instructions\<close>

definition emit_push :: "int \<Rightarrow> emitter" where
  "emit_push r = emits [emit_basic_rex 0 0 r, emit1 (0x50 OR (r AND 7))]"

definition emit_pop :: "int \<Rightarrow> emitter" where
  "emit_pop r = emits [emit_basic_rex 0 0 r, emit1 (0x58 OR (r AND 7))]"

definition emit_alu32 :: "int \<Rightarrow> int \<Rightarrow> int \<Rightarrow> emitter" where
  "emit_alu32 op s d = emits [emit_basic_rex 0 s d, emit1 op, emit_modrm_reg2reg s d]"

definition emit_alu32_imm32 :: "int \<Rightarrow> int \<Rightarrow> int \<Rightarrow> int \<Rightarrow> emitter" where
  "emit_alu32_imm32 op s d im = emits [emit_alu32 op s d, emit4 im]"

definition emit_alu32_imm8 :: "int \<Rightarrow> int \<Rightarrow> int \<Rightarrow> int \<Rightarrow> emitter" where
  "emit_alu32_imm8 op s d im = emits [emit_alu32 op s d, emit1 im]"

definition emit_alu64 :: "int \<Rightarrow> int \<Rightarrow> int \<Rightarrow> emitter" where
  "emit_alu64 op s d = emits [emit_basic_rex 1 s d, emit1 op, emit_modrm_reg2reg s d]"

definition emit_alu64_imm32 :: "int \<Rightarrow> int \<Rightarrow> int \<Rightarrow> int \<Rightarrow> emitter" where
  "emit_alu64_imm32 op s d im = emits [emit_alu64 op s d, emit4 im]"

definition emit_alu64_imm8 :: "int \<Rightarrow> int \<Rightarrow> int \<Rightarrow> int \<Rightarrow> emitter" where
  "emit_alu64_imm8 op s d im = emits [emit_alu64 op s d, emit1 im]"

definition emit_mov :: "int \<Rightarrow> int \<Rightarrow> emitter" where
  "emit_mov s d = emit_alu64 0x89 s d"

definition emit_cmp_imm32 :: "int \<Rightarrow> int \<Rightarrow> emitter" where
  "emit_cmp_imm32 d im = emit_alu64_imm32 0x81 7 d im"

definition emit_cmp :: "int \<Rightarrow> int \<Rightarrow> emitter" where
  "emit_cmp s d = emit_alu64 0x39 s d"

definition emit_jcc :: "int \<Rightarrow> u32 \<Rightarrow> emitter" where
  "emit_jcc code target = emits [emit1 0x0f, emit1 code, emit_jump_offset target]"

definition emit_load :: "operand_size \<Rightarrow> int \<Rightarrow> int \<Rightarrow> int \<Rightarrow> emitter" where
  "emit_load sz s d off = emits
    ([emit_basic_rex (if sz = S64 then 1 else 0) d s] @
     (if sz = S8 \<or> sz = S16 then [emit1 0x0f, emit1 (if sz = S8 then 0xb6 else 0xb7)]
      else [emit1 0x8b]) @
     [emit_modrm_and_displacement d s off])"

definition emit_load_imm :: "int \<Rightarrow> int \<Rightarrow> emitter" where
  "emit_load_imm d im =
    (if - (2 ^ 31) \<le> im \<and> im \<le> 2 ^ 31 - 1 then emit_alu64_imm32 0xc7 0 d im
     else emits [emit_basic_rex 1 0 d, emit1 (0xb8 OR (d AND 7)), emit8 im])"

definition emit_store :: "operand_size \<Rightarrow> int \<Rightarrow> int \<Rightarrow> int \<Rightarrow> emitter" where
  "emit_store sz s d off =
    (let rexw = (if sz = S64 then 1 else 0) in emits
     [emit_when (sz = S16) (emit1 0x66),
      emit_when (rexw \<noteq> 0 \<or> s AND 8 \<noteq> 0 \<or> d AND 8 \<noteq> 0 \<or> sz = S8)
        (emit_rex rexw (high_bit s) 0 (high_bit d)),
      emit1 (if sz = S8 then 0x88 else 0x89),
      emit_modrm_and_displacement s d off])"

definition emit_store_imm32 :: "operand_size \<Rightarrow> int \<Rightarrow> int \<Rightarrow> int \<Rightarrow> emitter" where
  "emit_store_imm32 sz d off im = emits
    [emit_when (sz = S16) (emit1 0x66),
     emit_basic_rex (if sz = S64 then 1 else 0) 0 d,
     emit1 (if sz = S8 then 0xc6 else 0xc7),
     emit_modrm_and_displacement 0 d off,
     (if sz = S32 \<or> sz = S64 then emit4 im else if sz = S16 then emit2 im else emit1 im)]"

definition emit_call :: "u64 \<Rightarrow> emitter" where
  "emit_call target = emits [emit_load_imm RAX (sint target), emit1 0xff, emit1 0xd0]"

definition emit_jmp :: "u32 \<Rightarrow> emitter" where
  "emit_jmp target = emits [emit1 0xe9, emit_jump_offset target]"

section \<open>What every emitter keeps\<close>

lemma store_bytes_apply:
  "store_bytes f off bs i = (if off \<le> i \<and> i < off + length bs then bs ! (i - off) else f i)"
  by (induction bs arbitrary: f off) (auto simp: nth_Cons' Suc_diff_le)

text \<open>
  The recorded jumps lie below the write position, each with its four bytes, one
  after the other.
\<close>

definition jump_end :: "jit_state \<Rightarrow> nat \<Rightarrow> nat" where
  "jump_end st k = unat (offset_loc (jumps st k)) + 4"

definition jit_ok :: "jit_state \<Rightarrow> bool" where
  "jit_ok st \<longleftrightarrow> 8 \<le> unat (jit_size st) \<and> unat (jit_offset st) \<le> unat (jit_size st) \<and> num_jumps st \<le> max_jumps st \<and>
     (\<forall>k < num_jumps st. jump_end st k \<le> unat (jit_offset st)) \<and>
     (\<forall>k l. k < l \<and> l < num_jumps st \<longrightarrow> jump_end st k \<le> unat (offset_loc (jumps st l)))"

text \<open>A later state extends an earlier one: nothing emitted or recorded is changed.\<close>

definition extends :: "jit_state \<Rightarrow> jit_state \<Rightarrow> bool" where
  "extends st st' \<longleftrightarrow> jit_size st' = jit_size st \<and> max_jumps st' = max_jumps st \<and>
     unat (jit_offset st) \<le> unat (jit_offset st') \<and> num_jumps st \<le> num_jumps st' \<and>
     (\<forall>i < unat (jit_offset st). buf st' i = buf st i) \<and>
     (\<forall>k < num_jumps st. jumps st' k = jumps st k)"

lemma extends_refl: "extends st st"
  by (simp add: extends_def)

lemma extends_trans: "extends a b \<Longrightarrow> extends b c \<Longrightarrow> extends a c"
  by (auto simp: extends_def)

text \<open>
  The contract: an emitter keeps \<open>jit_ok\<close>, only extends the state, leaves the recorded
  locations alone, adds at most \<open>n\<close> jumps with targets in \<open>T\<close>, and fails only when the
  buffer or the jump table has no room.
\<close>

definition locs :: "jit_state \<Rightarrow> (nat \<Rightarrow> u32) \<times> u32 \<times> u32" where
  "locs st = (pc_locs st, exit_loc st, div_by_zero_loc st)"

definition emitted_ok :: "nat \<Rightarrow> u32 set \<Rightarrow> jit_state \<Rightarrow> jit_state \<Rightarrow> bool" where
  "emitted_ok n T st st' \<longleftrightarrow> jit_ok st' \<and> extends st st' \<and> num_jumps st' \<le> num_jumps st + n \<and>
     (\<forall>k. num_jumps st \<le> k \<and> k < num_jumps st' \<longrightarrow> target_pc (jumps st' k) \<in> T)"

definition no_room :: "nat \<Rightarrow> jit_state \<Rightarrow> jit_error \<Rightarrow> bool" where
  "no_room n st er \<longleftrightarrow> er = BufferAssert \<or> er = JumpTableOverflow \<and> max_jumps st < num_jumps st + n"

definition emitter_ok :: "nat \<Rightarrow> u32 set \<Rightarrow> emitter \<Rightarrow> bool" where
  "emitter_ok n T e \<longleftrightarrow> (\<forall>st. jit_ok st \<longrightarrow>
     (case e st of Inr st' \<Rightarrow> emitted_ok n T st st' \<and> locs st' = locs st | Inl er \<Rightarrow> no_room n st er))"

named_theorems emitter_rules \<open>emitters that keep the contract\<close>

lemma emitter_okI:
  assumes "\<And>st st'. jit_ok st \<Longrightarrow> e st = Inr st' \<Longrightarrow> emitted_ok n T st st' \<and> locs st' = locs st"
    and "\<And>st er. jit_ok st \<Longrightarrow> e st = Inl er \<Longrightarrow> no_room n st er"
  shows "emitter_ok n T e"
  using assms by (auto simp: emitter_ok_def split: sum.splits)

lemma emitter_okD:
  assumes "emitter_ok n T e" "jit_ok st"
  shows "e st = Inr st' \<Longrightarrow> emitted_ok n T st st' \<and> locs st' = locs st"
    and "e st = Inl er \<Longrightarrow> no_room n st er"
  using assms by (auto simp: emitter_ok_def split: sum.splits)

lemma emitted_ok_refl: "jit_ok st \<Longrightarrow> emitted_ok n T st st"
  by (auto simp: emitted_ok_def extends_refl)

lemma emitted_ok_jit_ok: "emitted_ok n T st st' \<Longrightarrow> jit_ok st'"
  by (simp add: emitted_ok_def)

lemma emitted_ok_trans:
  assumes "emitted_ok n T a b" "emitted_ok m T b c"
  shows "emitted_ok (n + m) T a c"
proof -
  have "target_pc (jumps c k) \<in> T" if "num_jumps a \<le> k" "k < num_jumps c" for k
    using that assms by (cases "k < num_jumps b") (auto simp: emitted_ok_def extends_def)
  then show ?thesis using assms extends_trans by (auto simp: emitted_ok_def)
qed

lemma emitted_ok_mono: "emitted_ok n T a b \<Longrightarrow> n \<le> m \<Longrightarrow> T \<subseteq> U \<Longrightarrow> emitted_ok m U a b"
  by (auto simp: emitted_ok_def)

lemma no_room_step: "emitted_ok n T a b \<Longrightarrow> no_room m b er \<Longrightarrow> no_room (n + m) a er"
  by (auto simp: emitted_ok_def no_room_def extends_def)

lemma no_room_mono: "no_room n st er \<Longrightarrow> n \<le> m \<Longrightarrow> no_room m st er"
  by (auto simp: no_room_def)

lemma emitter_ok_skip: "emitter_ok n T Inr"
  by (rule emitter_okI) (simp_all add: emitted_ok_refl)

lemma emitter_ok_bind:
  assumes "emitter_ok n T e" "emitter_ok m T f"
  shows "emitter_ok (n + m) T (\<lambda>st. bindE (e st) f)"
proof (rule emitter_okI)
  fix st st'
  assume ok: "jit_ok st" and "bindE (e st) f = Inr st'"
  then obtain t where t: "e st = Inr t" "f t = Inr st'" by (auto simp: bindE_Inr_iff)
  note a = emitter_okD(1) [OF assms(1) ok t(1)]
  then show "emitted_ok (n + m) T st st' \<and> locs st' = locs st"
    using emitter_okD(1) [OF assms(2) _ t(2)] emitted_ok_trans emitted_ok_jit_ok by metis
next
  fix st er
  assume ok: "jit_ok st" and "bindE (e st) f = Inl er"
  then consider "e st = Inl er" | t where "e st = Inr t" "f t = Inl er" by (auto simp: bindE_Inl_iff)
  then show "no_room (n + m) st er"
  proof cases
    case 1
    then show ?thesis using emitter_okD(2) [OF assms(1) ok] no_room_mono le_add1 by blast
  next
    case 2
    then show ?thesis
      using emitter_okD(1) [OF assms(1) ok 2(1)] emitter_okD(2) [OF assms(2) _ 2(2)]
        no_room_step emitted_ok_jit_ok by blast
  qed
qed

lemma emitter_ok_Nil: "emitter_ok n T (emits [])"
  using emitter_ok_skip by (simp add: emitter_ok_def)

lemma emitter_ok_Cons: "emitter_ok n T e \<Longrightarrow> emitter_ok m T (emits es) \<Longrightarrow> emitter_ok (n + m) T (emits (e # es))"
  using emitter_ok_bind by (fastforce simp: emitter_ok_def)

lemma emitter_ok_Cons0: "emitter_ok 0 T e \<Longrightarrow> emitter_ok m T (emits es) \<Longrightarrow> emitter_ok m T (emits (e # es))"
  using emitter_ok_Cons by fastforce

lemma emitter_ok_Cons_last: "emitter_ok m T e \<Longrightarrow> emitter_ok 0 T (emits es) \<Longrightarrow> emitter_ok m T (emits (e # es))"
  using emitter_ok_Cons by fastforce

lemma emitter_ok_when: "emitter_ok n T e \<Longrightarrow> emitter_ok n T (emit_when b e)"
  using emitter_ok_skip by (auto simp: emitter_ok_def emit_when_def)

lemma emitter_ok_assert: "emitter_ok n T (emit_assert True)"
  using emitter_ok_skip by (auto simp: emitter_ok_def emit_assert_def)

lemma emitter_ok_if: "(b \<Longrightarrow> emitter_ok n T e) \<Longrightarrow> (\<not> b \<Longrightarrow> emitter_ok n T f) \<Longrightarrow> emitter_ok n T (if b then e else f)"
  by simp

lemma emit_bytes_Inr:
  assumes "emit_bytes bs st = Inr st'" "length bs \<le> unat (jit_size st)"
  shows "st' = st\<lparr>buf := store_bytes (buf st) (unat (jit_offset st)) bs,
                   jit_offset := jit_offset st + of_nat (length bs)\<rparr>"
    and "unat (jit_offset st + of_nat (length bs)) = unat (jit_offset st) + length bs"
    and "unat (jit_offset st) + length bs \<le> unat (jit_size st)"
proof -
  show "st' = st\<lparr>buf := store_bytes (buf st) (unat (jit_offset st)) bs,
                   jit_offset := jit_offset st + of_nat (length bs)\<rparr>"
    using assms by (auto simp: emit_bytes_def Let_def split: if_splits)
  have sz: "unat (jit_size st) < 2 ^ 32" using unsigned_less [of "jit_size st", where 'a = nat] by simp
  then have len: "unat (of_nat (length bs) :: u32) = length bs"
    using assms(2) by (simp add: unat_of_nat take_bit_nat_eq_self)
  have "jit_offset st \<le> jit_size st - of_nat (length bs)"
    using assms(1) by (auto simp: emit_bytes_def Let_def split: if_splits)
  moreover have "unat (jit_size st - of_nat (length bs)) = unat (jit_size st) - length bs"
    using assms(2) len by (simp add: unat_sub word_le_nat_alt)
  ultimately show *: "unat (jit_offset st) + length bs \<le> unat (jit_size st)"
    using assms(2) by (simp add: word_le_nat_alt)
  show "unat (jit_offset st + of_nat (length bs)) = unat (jit_offset st) + length bs"
    using * sz len by (simp add: unat_word_ariths)
qed

lemma emitter_ok_bytes:
  assumes "length bs \<le> 8"
  shows "emitter_ok n T (emit_bytes bs)"
proof (rule emitter_okI)
  fix st st'
  assume ok: "jit_ok st" and e: "emit_bytes bs st = Inr st'"
  then have "length bs \<le> unat (jit_size st)" using assms by (simp add: jit_ok_def)
  note b = emit_bytes_Inr [OF e this]
  show "emitted_ok n T st st' \<and> locs st' = locs st"
    using ok b(2,3)
    by (auto simp: b(1) emitted_ok_def locs_def jit_ok_def jump_end_def extends_def store_bytes_apply
        intro: order_trans [OF _ le_add1])
qed (auto simp: emit_bytes_def Let_def no_room_def split: if_splits)

lemma emitter_ok_small [emitter_rules]:
  "emitter_ok n T (emit1 x)" "emitter_ok n T (emit2 x)" "emitter_ok n T (emit4 x)" "emitter_ok n T (emit8 x)"
  by (simp_all add: emit1_def emit2_def emit4_def emit8_def emitter_ok_bytes del: le_bytes.simps)

lemma emitter_ok_jump_offset [emitter_rules]:
  assumes "t \<in> T"
  shows "emitter_ok 1 T (emit_jump_offset t)"
proof (rule emitter_okI)
  fix st st'
  assume ok: "jit_ok st" and e: "emit_jump_offset t st = Inr st'"
  let ?j = "\<lparr>offset_loc = jit_offset st, target_pc = t\<rparr>"
  let ?m = "st\<lparr>jumps := (jumps st)(num_jumps st := ?j), num_jumps := Suc (num_jumps st)\<rparr>"
  have room: "num_jumps st < max_jumps st" and e4: "emit_bytes (le_bytes 4 (0::u32)) ?m = Inr st'"
    using e by (auto simp: emit_jump_offset_def emit4_def not_le split: if_splits)
  have "length (le_bytes 4 (0::u32)) \<le> unat (jit_size ?m)" using ok by (simp add: jit_ok_def del: le_bytes.simps)
  note b = emit_bytes_Inr [OF e4 this, unfolded length_le_bytes]
  then show "emitted_ok 1 T st st' \<and> locs st' = locs st"
    using ok room assms
    by (auto simp: emitted_ok_def locs_def jit_ok_def jump_end_def extends_def store_bytes_apply less_Suc_eq
        intro: order_trans [OF _ le_add1] simp del: le_bytes.simps)
next
  fix st er
  assume "jit_ok st" "emit_jump_offset t st = Inl er"
  then show "no_room 1 st er"
    by (auto simp: no_room_def emit_jump_offset_def emit4_def emit_bytes_def Let_def split: if_splits)
qed

lemmas emitter_seq = emitter_ok_Nil emitter_ok_Cons0 emitter_ok_Cons_last emitter_ok_when emitter_ok_if
  emitter_ok_skip emitter_ok_assert

lemma emitter_ok_modrm [emitter_rules]:
  "emitter_ok n T (emit_modrm 0xc0 r m)" "emitter_ok n T (emit_modrm 0x80 r m)"
  "emitter_ok n T (emit_modrm 0x40 r m)" "emitter_ok n T (emit_modrm 0 r m)"
  by (simp_all add: emit_modrm_def, (intro emitter_seq emitter_rules)+)

lemma emitter_ok_modrm_disp [emitter_rules]: "emitter_ok n T (emit_modrm_and_displacement r m d)"
  unfolding emit_modrm_and_displacement_def by (intro emitter_seq emitter_rules)

lemma emitter_ok_rex [emitter_rules]:
  "emitter_ok n T (emit_rex 0 (high_bit s) 0 (high_bit d))" "emitter_ok n T (emit_rex 1 (high_bit s) 0 (high_bit d))"
  "emitter_ok n T (emit_rex 1 0 0 0)"
proof -
  have hb: "high_bit x AND NOT 1 = 0" for x by (simp add: high_bit_def)
  show "emitter_ok n T (emit_rex 0 (high_bit s) 0 (high_bit d))" "emitter_ok n T (emit_rex 1 (high_bit s) 0 (high_bit d))"
    "emitter_ok n T (emit_rex 1 0 0 0)"
    unfolding emit_rex_def by (simp_all only: hb, simp_all, (intro emitter_seq emitter_rules)+)
qed

lemma emitter_ok_basic_rex [emitter_rules]: "emitter_ok n T (emit_basic_rex 0 s d)" "emitter_ok n T (emit_basic_rex 1 s d)"
  unfolding emit_basic_rex_def by (intro emitter_seq emitter_rules)+

lemma emitter_ok_insts [emitter_rules]:
  "emitter_ok n T (emit_push r)" "emitter_ok n T (emit_pop r)"
  "emitter_ok n T (emit_alu32 op s d)" "emitter_ok n T (emit_alu64 op s d)"
  unfolding emit_push_def emit_pop_def emit_alu32_def emit_alu64_def emit_modrm_reg2reg_def
  by (intro emitter_seq emitter_rules)+

lemma emitter_ok_imms [emitter_rules]:
  "emitter_ok n T (emit_alu32_imm32 op s d i)" "emitter_ok n T (emit_alu32_imm8 op s d i)"
  "emitter_ok n T (emit_alu64_imm32 op s d i)" "emitter_ok n T (emit_alu64_imm8 op s d i)"
  "emitter_ok n T (emit_mov s d)" "emitter_ok n T (emit_cmp s d)"
  unfolding emit_alu32_imm32_def emit_alu32_imm8_def emit_alu64_imm32_def emit_alu64_imm8_def
    emit_mov_def emit_cmp_def
  by (intro emitter_seq emitter_rules)+

lemma emitter_ok_cmp [emitter_rules]: "emitter_ok n T (emit_cmp_imm32 d i)" "emitter_ok n T (emit_load_imm d i)"
  unfolding emit_cmp_imm32_def emit_load_imm_def by (intro emitter_seq emitter_rules)+

lemma emitter_ok_jumps [emitter_rules]:
  "t \<in> T \<Longrightarrow> emitter_ok 1 T (emit_jcc c t)" "t \<in> T \<Longrightarrow> emitter_ok 1 T (emit_jmp t)"
  unfolding emit_jcc_def emit_jmp_def by (intro emitter_seq emitter_rules, assumption)+

lemma emitter_ok_call [emitter_rules]: "emitter_ok n T (emit_call t)"
  unfolding emit_call_def by (intro emitter_seq emitter_rules)

lemma emitter_ok_mem [emitter_rules]:
  "emitter_ok n T (emit_load sz s d off)" "emitter_ok n T (emit_store sz s d off)"
  "emitter_ok n T (emit_store_imm32 sz d off i)"
  unfolding emit_load_def emit_store_def emit_store_imm32_def Let_def append.simps
  by (cases sz; simp; intro emitter_seq emitter_rules)+

end
