(* ===== verification/Jit.thy ===== *)
theory Jit
  imports Jit_Emit Ubpf_Lifecycle
begin

text \<open>
  The JIT compiler of \<^verbatim>\<open>tools/ubpf/vm/ubpf_jit_x86_64.c\<close>: the register map,
  \<^verbatim>\<open>translate\<close> with one definition per group of \<^verbatim>\<open>case\<close> labels, \<^verbatim>\<open>muldivmod\<close>,
  \<^verbatim>\<open>resolve_jumps\<close> and \<^verbatim>\<open>ubpf_compile\<close>.  The addresses the code takes from
  its own process (\<^verbatim>\<open>stderr\<close>, the format string, \<^verbatim>\<open>fprintf\<close>) and the answers of
  \<^verbatim>\<open>mmap\<close>, \<^verbatim>\<open>mprotect\<close> and \<^verbatim>\<open>rand_r\<close> are arguments.
\<close>

section \<open>The register map\<close>

definition REGISTER_MAP_SIZE :: nat where "REGISTER_MAP_SIZE = 11"

definition register_map :: "int list" where
  "register_map = [RAX, RDI, RSI, RDX, R9, R8, RBX, R13, R14, R15, RBP]"

text \<open>\<open>map_register\<close> under the current map; the assertion is \<open>RegisterAssert\<close>.\<close>

definition map_register :: "int list \<Rightarrow> 4 word \<Rightarrow> jit_error + int" where
  "map_register rmap r =
    (if unat r < REGISTER_MAP_SIZE then Inr (rmap ! (unat r mod REGISTER_MAP_SIZE))
     else Inl RegisterAssert)"

primrec shuffle :: "(nat \<Rightarrow> nat) \<Rightarrow> nat \<Rightarrow> nat \<Rightarrow> int list \<Rightarrow> int list" where
  "shuffle rnd i 0 rmap = rmap"
| "shuffle rnd i (Suc n) rmap =
    (let j = i + rnd i mod (REGISTER_MAP_SIZE - i); tmp = rmap ! j;
         rmap = rmap[j := rmap ! i]; rmap = rmap[i := tmp]
     in shuffle rnd (Suc i) n rmap)"

text \<open>
  \<open>rnd x i\<close> is the \<open>i\<close>th number \<^verbatim>\<open>rand_r\<close> yields from the seed \<open>x\<close>.  \<open>None\<close> is the read
  outside \<^verbatim>\<open>tmp\<close> that a negative \<open>x\<close> causes: the remainder in C keeps its sign.
\<close>

definition ubpf_set_register_offset ::
  "(int \<Rightarrow> nat \<Rightarrow> nat) \<Rightarrow> int \<Rightarrow> int list \<Rightarrow> int list option" where
  "ubpf_set_register_offset rnd x rmap =
    (if x < int REGISTER_MAP_SIZE then
       (if \<exists>i \<in> set [0..<REGISTER_MAP_SIZE]. int i + x < 0 \<and> \<not> int REGISTER_MAP_SIZE dvd int i + x
        then None
        else Some (map (\<lambda>i. rmap ! nat ((int i + x) mod int REGISTER_MAP_SIZE)) [0..<REGISTER_MAP_SIZE]))
     else Some (shuffle (rnd x) 0 (REGISTER_MAP_SIZE - 1) rmap))"

section \<open>muldivmod\<close>

definition TARGET_PC_EXIT :: u32 where "TARGET_PC_EXIT = -1"
definition TARGET_PC_DIV_BY_ZERO :: u32 where "TARGET_PC_DIV_BY_ZERO = -2"

definition muldivmod :: "nat \<Rightarrow> byte \<Rightarrow> int \<Rightarrow> int \<Rightarrow> int \<Rightarrow> emitter" where
  "muldivmod cur opc s d im =
    (let mul = (opc AND EBPF_ALU_OP_MASK = EBPF_OP_MUL_IMM AND EBPF_ALU_OP_MASK);
         dv = (opc AND EBPF_ALU_OP_MASK = EBPF_OP_DIV_IMM AND EBPF_ALU_OP_MASK);
         md = (opc AND EBPF_ALU_OP_MASK = EBPF_OP_MOD_IMM AND EBPF_ALU_OP_MASK);
         is64 = (opc AND EBPF_CLS_MASK = EBPF_CLS_ALU64)
     in emits
      [emit_when (dv \<or> md) (emits
         [emit_load_imm RCX (int cur),
          (if is64 then emit_alu64 0x85 s s else emit_alu32 0x85 s s),
          emit_jcc 0x84 TARGET_PC_DIV_BY_ZERO]),
       emit_when (d \<noteq> RAX) (emit_push RAX),
       emit_when (d \<noteq> RDX) (emit_push RDX),
       (if im \<noteq> 0 then emit_load_imm RCX im else emit_mov s RCX),
       emit_mov d RAX,
       emit_when (dv \<or> md) (emit_alu32 0x31 RDX RDX),
       emit_when is64 (emit_rex 1 0 0 0),
       emit_alu32 0xf7 (if mul then 4 else 6) RCX,
       emit_when (d \<noteq> RDX) (emits [emit_when md (emit_mov RDX d), emit_pop RDX]),
       emit_when (d \<noteq> RAX) (emits [emit_when (dv \<or> mul) (emit_mov RAX d), emit_pop RAX])])"

section \<open>translate\<close>

text \<open>The groups of \<^verbatim>\<open>case\<close> labels; \<open>None\<close> when no label of the group matches.\<close>

definition translate_alu32 :: "nat \<Rightarrow> ebpf_inst \<Rightarrow> int \<Rightarrow> int \<Rightarrow> emitter option" where
  "translate_alu32 i inst s d =
    (let op = opcode inst; im = sint (imm inst) in
     if op = EBPF_OP_ADD_IMM then Some (emit_alu32_imm32 0x81 0 d im)
     else if op = EBPF_OP_ADD_REG then Some (emit_alu32 0x01 s d)
     else if op = EBPF_OP_SUB_IMM then Some (emit_alu32_imm32 0x81 5 d im)
     else if op = EBPF_OP_SUB_REG then Some (emit_alu32 0x29 s d)
     else if op = EBPF_OP_MUL_IMM \<or> op = EBPF_OP_MUL_REG \<or> op = EBPF_OP_DIV_IMM \<or>
             op = EBPF_OP_DIV_REG \<or> op = EBPF_OP_MOD_IMM \<or> op = EBPF_OP_MOD_REG
       then Some (muldivmod i op s d im)
     else if op = EBPF_OP_OR_IMM then Some (emit_alu32_imm32 0x81 1 d im)
     else if op = EBPF_OP_OR_REG then Some (emit_alu32 0x09 s d)
     else if op = EBPF_OP_AND_IMM then Some (emit_alu32_imm32 0x81 4 d im)
     else if op = EBPF_OP_AND_REG then Some (emit_alu32 0x21 s d)
     else if op = EBPF_OP_LSH_IMM then Some (emit_alu32_imm8 0xc1 4 d im)
     else if op = EBPF_OP_LSH_REG then Some (emits [emit_mov s RCX, emit_alu32 0xd3 4 d])
     else if op = EBPF_OP_RSH_IMM then Some (emit_alu32_imm8 0xc1 5 d im)
     else if op = EBPF_OP_RSH_REG then Some (emits [emit_mov s RCX, emit_alu32 0xd3 5 d])
     else if op = EBPF_OP_NEG then Some (emit_alu32 0xf7 3 d)
     else if op = EBPF_OP_XOR_IMM then Some (emit_alu32_imm32 0x81 6 d im)
     else if op = EBPF_OP_XOR_REG then Some (emit_alu32 0x31 s d)
     else if op = EBPF_OP_MOV_IMM then Some (emit_alu32_imm32 0xc7 0 d im)
     else if op = EBPF_OP_MOV_REG then Some (emit_mov s d)
     else if op = EBPF_OP_ARSH_IMM then Some (emit_alu32_imm8 0xc1 7 d im)
     else if op = EBPF_OP_ARSH_REG then Some (emits [emit_mov s RCX, emit_alu32 0xd3 7 d])
     else None)"

definition translate_endian :: "ebpf_inst \<Rightarrow> int \<Rightarrow> emitter option" where
  "translate_endian inst d =
    (let op = opcode inst in
     if op = EBPF_OP_LE then Some Inr
     else if op = EBPF_OP_BE then
       (if imm inst = 16 then
          Some (emits [emit1 0x66, emit_alu32_imm8 0xc1 0 d 8, emit_alu32_imm32 0x81 4 d 0xffff])
        else if imm inst = 32 \<or> imm inst = 64 then
          Some (emits [emit_basic_rex (if imm inst = 64 then 1 else 0) 0 d, emit1 0x0f,
                       emit1 (0xc8 OR (d AND 7))])
        else Some Inr)
     else None)"

definition translate_alu64 :: "nat \<Rightarrow> ebpf_inst \<Rightarrow> int \<Rightarrow> int \<Rightarrow> emitter option" where
  "translate_alu64 i inst s d =
    (let op = opcode inst; im = sint (imm inst) in
     if op = EBPF_OP_ADD64_IMM then Some (emit_alu64_imm32 0x81 0 d im)
     else if op = EBPF_OP_ADD64_REG then Some (emit_alu64 0x01 s d)
     else if op = EBPF_OP_SUB64_IMM then Some (emit_alu64_imm32 0x81 5 d im)
     else if op = EBPF_OP_SUB64_REG then Some (emit_alu64 0x29 s d)
     else if op = EBPF_OP_MUL64_IMM \<or> op = EBPF_OP_MUL64_REG \<or> op = EBPF_OP_DIV64_IMM \<or>
             op = EBPF_OP_DIV64_REG \<or> op = EBPF_OP_MOD64_IMM \<or> op = EBPF_OP_MOD64_REG
       then Some (muldivmod i op s d im)
     else if op = EBPF_OP_OR64_IMM then Some (emit_alu64_imm32 0x81 1 d im)
     else if op = EBPF_OP_OR64_REG then Some (emit_alu64 0x09 s d)
     else if op = EBPF_OP_AND64_IMM then Some (emit_alu64_imm32 0x81 4 d im)
     else if op = EBPF_OP_AND64_REG then Some (emit_alu64 0x21 s d)
     else if op = EBPF_OP_LSH64_IMM then Some (emit_alu64_imm8 0xc1 4 d im)
     else if op = EBPF_OP_LSH64_REG then Some (emits [emit_mov s RCX, emit_alu64 0xd3 4 d])
     else if op = EBPF_OP_RSH64_IMM then Some (emit_alu64_imm8 0xc1 5 d im)
     else if op = EBPF_OP_RSH64_REG then Some (emits [emit_mov s RCX, emit_alu64 0xd3 5 d])
     else if op = EBPF_OP_NEG64 then Some (emit_alu64 0xf7 3 d)
     else if op = EBPF_OP_XOR64_IMM then Some (emit_alu64_imm32 0x81 6 d im)
     else if op = EBPF_OP_XOR64_REG then Some (emit_alu64 0x31 s d)
     else if op = EBPF_OP_MOV64_IMM then Some (emit_load_imm d im)
     else if op = EBPF_OP_MOV64_REG then Some (emit_mov s d)
     else if op = EBPF_OP_ARSH64_IMM then Some (emit_alu64_imm8 0xc1 7 d im)
     else if op = EBPF_OP_ARSH64_REG then Some (emits [emit_mov s RCX, emit_alu64 0xd3 7 d])
     else None)"

text \<open>The jump group: compare or test, then the condition code.\<close>

definition translate_jump :: "u32 \<Rightarrow> ebpf_inst \<Rightarrow> int \<Rightarrow> int \<Rightarrow> emitter option" where
  "translate_jump tgt inst s d =
    (let op = opcode inst; im = sint (imm inst);
         ci = (\<lambda>cc. Some (emits [emit_cmp_imm32 d im, emit_jcc cc tgt]));
         cr = (\<lambda>cc. Some (emits [emit_cmp s d, emit_jcc cc tgt])) in
     if op = EBPF_OP_JA then Some (emit_jmp tgt)
     else if op = EBPF_OP_JEQ_IMM then ci 0x84
     else if op = EBPF_OP_JEQ_REG then cr 0x84
     else if op = EBPF_OP_JGT_IMM then ci 0x87
     else if op = EBPF_OP_JGT_REG then cr 0x87
     else if op = EBPF_OP_JGE_IMM then ci 0x83
     else if op = EBPF_OP_JGE_REG then cr 0x83
     else if op = EBPF_OP_JLT_IMM then ci 0x82
     else if op = EBPF_OP_JLT_REG then cr 0x82
     else if op = EBPF_OP_JLE_IMM then ci 0x86
     else if op = EBPF_OP_JLE_REG then cr 0x86
     else if op = EBPF_OP_JSET_IMM then Some (emits [emit_alu64_imm32 0xf7 0 d im, emit_jcc 0x85 tgt])
     else if op = EBPF_OP_JSET_REG then Some (emits [emit_alu64 0x85 s d, emit_jcc 0x85 tgt])
     else if op = EBPF_OP_JNE_IMM then ci 0x85
     else if op = EBPF_OP_JNE_REG then cr 0x85
     else if op = EBPF_OP_JSGT_IMM then ci 0x8f
     else if op = EBPF_OP_JSGT_REG then cr 0x8f
     else if op = EBPF_OP_JSGE_IMM then ci 0x8d
     else if op = EBPF_OP_JSGE_REG then cr 0x8d
     else if op = EBPF_OP_JSLT_IMM then ci 0x8c
     else if op = EBPF_OP_JSLT_REG then cr 0x8c
     else if op = EBPF_OP_JSLE_IMM then ci 0x8e
     else if op = EBPF_OP_JSLE_REG then cr 0x8e
     else None)"

definition translate_call_exit :: "ubpf_vm \<Rightarrow> nat \<Rightarrow> ebpf_inst \<Rightarrow> emitter option" where
  "translate_call_exit vm i inst =
    (let op = opcode inst in
     if op = EBPF_OP_CALL then
       Some (emits [emit_mov R9 RCX, emit_call (funcs_of vm ! nat (sint (imm inst)))])
     else if op = EBPF_OP_EXIT then
       Some (emit_when (int i \<noteq> int (unat (num_insts vm)) - 1) (emit_jmp TARGET_PC_EXIT))
     else None)"

definition translate_mem :: "ebpf_inst \<Rightarrow> int \<Rightarrow> int \<Rightarrow> emitter option" where
  "translate_mem inst s d =
    (let op = opcode inst; im = sint (imm inst); off = sint (offset inst) in
     if op = EBPF_OP_LDXW then Some (emit_load S32 s d off)
     else if op = EBPF_OP_LDXH then Some (emit_load S16 s d off)
     else if op = EBPF_OP_LDXB then Some (emit_load S8 s d off)
     else if op = EBPF_OP_LDXDW then Some (emit_load S64 s d off)
     else if op = EBPF_OP_STW then Some (emit_store_imm32 S32 d off im)
     else if op = EBPF_OP_STH then Some (emit_store_imm32 S16 d off im)
     else if op = EBPF_OP_STB then Some (emit_store_imm32 S8 d off im)
     else if op = EBPF_OP_STDW then Some (emit_store_imm32 S64 d off im)
     else if op = EBPF_OP_STXW then Some (emit_store S32 s d off)
     else if op = EBPF_OP_STXH then Some (emit_store S16 s d off)
     else if op = EBPF_OP_STXB then Some (emit_store S8 s d off)
     else if op = EBPF_OP_STXDW then Some (emit_store S64 s d off)
     else None)"

text \<open>
  \<^verbatim>\<open>lddw\<close> reads the second half of its immediate from the next slot; the
  \<^verbatim>\<open>uint64_t\<close> becomes the \<^verbatim>\<open>int64_t\<close> parameter of \<^verbatim>\<open>emit_load_imm\<close>.
\<close>

definition translate_lddw :: "ebpf_inst list \<Rightarrow> nat \<Rightarrow> ebpf_inst \<Rightarrow> int \<Rightarrow> emitter option" where
  "translate_lddw code i inst d =
    (if opcode inst = EBPF_OP_LDDW then
       Some (emit_load_imm d (sint ((ucast (imm inst) :: u64) OR
                                    push_bit 32 (scast (imm (code ! Suc i))))))
     else None)"

text \<open>The body of the loop: the emitter of one instruction, by the order of the \<^verbatim>\<open>switch\<close>.\<close>

definition translate_switch ::
  "ubpf_vm \<Rightarrow> ebpf_inst list \<Rightarrow> nat \<Rightarrow> ebpf_inst \<Rightarrow> int \<Rightarrow> int \<Rightarrow> emitter" where
  "translate_switch vm code i inst s d =
    (let tgt = word_of_int (int i + sint (offset inst) + 1) in
     first_some
      [translate_alu32 i inst s d, translate_endian inst d, translate_alu64 i inst s d,
       translate_jump tgt inst s d, translate_call_exit vm i inst, translate_mem inst s d,
       translate_lddw code i inst d]
      (\<lambda>st. Inl (UnknownInstruction i (opcode inst))))"

definition translate_inst ::
  "ubpf_vm \<Rightarrow> int list \<Rightarrow> ebpf_inst list \<Rightarrow> nat \<Rightarrow> jit_state \<Rightarrow> jit_error + nat \<times> jit_state" where
  "translate_inst vm rmap code i st =
    (let inst = code ! i; st = st\<lparr>pc_locs := (pc_locs st)(i := jit_offset st)\<rparr> in
     bindE (map_register rmap (dst inst)) (\<lambda>d.
     bindE (map_register rmap (src inst)) (\<lambda>s.
     bindE (translate_switch vm code i inst s d st) (\<lambda>st'.
       Inr (if opcode inst = EBPF_OP_LDDW then Suc i else i, st')))))"

function translate_loop ::
  "ubpf_vm \<Rightarrow> int list \<Rightarrow> ebpf_inst list \<Rightarrow> nat \<Rightarrow> emitter" where
  "translate_loop vm rmap code i st =
    (if i < unat (num_insts vm) then
       (case translate_inst vm rmap code i st of
          Inl e \<Rightarrow> Inl e
        | Inr (i', st') \<Rightarrow> translate_loop vm rmap code (Suc i') st')
     else Inr st)"
  by pat_completeness auto
termination
  by (relation "measure (\<lambda>(vm, rmap, code, i, st). unat (num_insts vm) - i)")
    (auto simp: translate_inst_def Let_def bindE_Inr_iff split: option.splits if_splits)

declare translate_loop.simps [simp del]

record jit_addrs =
  addr_stderr :: u64
  addr_fmt :: u64
  addr_fprintf :: u64

text \<open>The register map is total here: \<^verbatim>\<open>map_register(0)\<close>, \<^verbatim>\<open>map_register(1)\<close>, \<^verbatim>\<open>map_register(10)\<close>.\<close>

definition translate_prologue :: "int list \<Rightarrow> emitter" where
  "translate_prologue rmap = emits
    [emit_push RBP, emit_push RBX, emit_push R13, emit_push R14, emit_push R15,
     emit_when (rmap ! 1 \<noteq> RDI) (emit_mov RDI (rmap ! 1)),
     emit_mov RSP (rmap ! 10),
     emit_alu64_imm32 0x81 5 RSP (int STACK_SIZE)]"

definition translate_exit :: "int list \<Rightarrow> emitter" where
  "translate_exit rmap = emits
    [emit_when (rmap ! 0 \<noteq> RAX) (emit_mov (rmap ! 0) RAX),
     emit_alu64_imm32 0x81 0 RSP (int STACK_SIZE),
     emit_pop R15, emit_pop R14, emit_pop R13, emit_pop RBX, emit_pop RBP,
     emit1 0xc3]"

definition translate_div_by_zero :: "int list \<Rightarrow> jit_addrs \<Rightarrow> emitter" where
  "translate_div_by_zero rmap addrs = emits
    [emit_load_imm RDI (sint (addr_stderr addrs)),
     emit_load_imm RSI (sint (addr_fmt addrs)),
     emit_mov RCX RDX,
     emit_call (addr_fprintf addrs),
     emit_load_imm (rmap ! 0) (-1),
     emit_jmp TARGET_PC_EXIT]"

definition translate_epilogue :: "int list \<Rightarrow> jit_addrs \<Rightarrow> emitter" where
  "translate_epilogue rmap addrs st =
    bindE (translate_exit rmap (st\<lparr>exit_loc := jit_offset st\<rparr>)) (\<lambda>st.
      translate_div_by_zero rmap addrs (st\<lparr>div_by_zero_loc := jit_offset st\<rparr>))"

definition translate :: "ubpf_vm \<Rightarrow> int list \<Rightarrow> jit_addrs \<Rightarrow> ebpf_inst list \<Rightarrow> emitter" where
  "translate vm rmap addrs code = emits
    [translate_prologue rmap, translate_loop vm rmap code 0, translate_epilogue rmap addrs]"

section \<open>resolve\_jumps\<close>

definition jump_loc :: "jit_state \<Rightarrow> u32 \<Rightarrow> u32" where
  "jump_loc st tgt =
    (if tgt = TARGET_PC_EXIT then exit_loc st
     else if tgt = TARGET_PC_DIV_BY_ZERO then div_by_zero_loc st
     else pc_locs st (unat tgt))"

definition resolve_jump :: "jit_state \<Rightarrow> jump \<Rightarrow> jit_state" where
  "resolve_jump st j =
    (let rel = jump_loc st (target_pc j) - (offset_loc j + 4)
     in st\<lparr>buf := store_bytes (buf st) (unat (offset_loc j)) (le_bytes 4 rel)\<rparr>)"

definition resolve_jumps :: "jit_state \<Rightarrow> jit_state" where
  "resolve_jumps st = fold (\<lambda>i st. resolve_jump st (jumps st i)) [0..<num_jumps st] st"

section \<open>ubpf\_compile\<close>

definition jit_buf_size :: u32 where "jit_buf_size = 65536"

definition jit_init :: jit_state where
  "jit_init = \<lparr>buf = (\<lambda>_. 0), jit_offset = 0, jit_size = jit_buf_size, pc_locs = (\<lambda>_. 0),
     exit_loc = 0, div_by_zero_loc = 0, jumps = (\<lambda>_. \<lparr>offset_loc = 0, target_pc = 0\<rparr>),
     num_jumps = 0, max_jumps = MAX_INSTS\<rparr>"

definition jit_code :: "jit_state \<Rightarrow> byte list" where
  "jit_code st = map (buf st) [0..<unat (jit_offset st)]"

text \<open>
  \<open>mmap\<close> takes a block of the same heap; it is \<^verbatim>\<open>MAP_FAILED\<close> when the heap has none, and
  then \<^verbatim>\<open>munmap(MAP_FAILED, ...)\<close> is called, which releases nothing.  The \<^verbatim>\<open>calloc\<close>s are
  not checked; \<open>NullBuffer\<close> is the null pointer write that follows a failed one.  After a
  failed assertion the process ends, so nothing is freed.
\<close>

definition ubpf_compile ::
  "ubpf_vm \<Rightarrow> int list \<Rightarrow> jit_addrs \<Rightarrow> bool \<Rightarrow> heap \<Rightarrow> (jit_error + ubpf_vm) \<times> heap" where
  "ubpf_compile vm rmap addrs mprotect_ok h =
    (if jitted vm \<noteq> None then (Inr vm, h)
     else case insts vm of
       None \<Rightarrow> (Inl NotLoaded, h)
     | Some (_, code) \<Rightarrow>
        (case malloc h of (b, h) \<Rightarrow>
         case malloc h of (p, h) \<Rightarrow>
         case malloc h of (j, h) \<Rightarrow>
         let out = (\<lambda>h. free j (free p (free b h))) in
         if b = None \<or> p = None \<or> j = None then (Inl NullBuffer, h)
         else case translate vm rmap addrs code jit_init of
           Inl (UnknownInstruction i op) \<Rightarrow> (Inl (UnknownInstruction i op), out h)
         | Inl e \<Rightarrow> (Inl e, h)
         | Inr st \<Rightarrow>
            (let st = resolve_jumps st in
             case malloc h of
               (None, h) \<Rightarrow> (Inl MmapFailed, out h)
             | (Some m, h) \<Rightarrow>
                if \<not> mprotect_ok then (Inl MprotectFailed, free (Some m) (out h))
                else (Inr (vm\<lparr>jitted := Some (m, jit_code st),
                             jitted_size := ucast (jit_offset st)\<rparr>), out h))))"

end
