(* ===== verification/Jit_Correct.thy ===== *)
theory Jit_Correct
  imports Jit "HOL-Library.Multiset"
begin

text \<open>
  What the JIT keeps: the translation of a validated program fails only when the
  64 KiB buffer is full, every jump it records leads to the start of an
  instruction, to the exit or to the division handler, \<open>resolve_jumps\<close> writes
  the displacements that reach those places and nothing else, the register map
  stays a permutation, and \<open>ubpf_compile\<close> gives back the blocks it does not keep.
\<close>

section \<open>translate\<close>

lemma emitter_ok_muldivmod [emitter_rules]: "TARGET_PC_DIV_BY_ZERO \<in> T \<Longrightarrow> emitter_ok 1 T (muldivmod cur op s d im)"
  unfolding muldivmod_def Let_def
  by (intro emitter_seq emitter_rules; assumption?)

lemma translate_alu32_ok: "TARGET_PC_DIV_BY_ZERO \<in> T \<Longrightarrow> pred_option (emitter_ok 1 T) (translate_alu32 i inst s d)"
  unfolding translate_alu32_def Let_def
  by (intro pred_option_if) (simp_all only: option.pred_inject, (intro emitter_seq emitter_rules; assumption?)+)

lemma translate_alu64_ok: "TARGET_PC_DIV_BY_ZERO \<in> T \<Longrightarrow> pred_option (emitter_ok 1 T) (translate_alu64 i inst s d)"
  unfolding translate_alu64_def Let_def
  by (intro pred_option_if) (simp_all only: option.pred_inject, (intro emitter_seq emitter_rules; assumption?)+)

lemma translate_endian_ok: "pred_option (emitter_ok 1 T) (translate_endian inst d)"
  unfolding translate_endian_def Let_def
  by (intro pred_option_if; simp only: option.pred_inject; cases "imm inst = 64"; simp;
      (intro emitter_seq emitter_rules)?)

lemma translate_jump_ok: "tgt \<in> T \<Longrightarrow> pred_option (emitter_ok 1 T) (translate_jump tgt inst s d)"
  unfolding translate_jump_def Let_def
  by (intro pred_option_if) (simp_all only: option.pred_inject, (intro emitter_seq emitter_rules; assumption?)+)

lemma translate_call_exit_ok: "TARGET_PC_EXIT \<in> T \<Longrightarrow> pred_option (emitter_ok 1 T) (translate_call_exit vm i inst)"
  unfolding translate_call_exit_def Let_def
  by (intro pred_option_if) (simp_all only: option.pred_inject, (intro emitter_seq emitter_rules; assumption?)+)

lemma translate_mem_ok: "pred_option (emitter_ok 1 T) (translate_mem inst s d)"
  unfolding translate_mem_def Let_def
  by (intro pred_option_if) (simp_all only: option.pred_inject, (intro emitter_seq emitter_rules; assumption?)+)

lemma translate_lddw_ok: "pred_option (emitter_ok 1 T) (translate_lddw code i inst d)"
  unfolding translate_lddw_def
  by (intro pred_option_if) (simp_all only: option.pred_inject, (intro emitter_seq emitter_rules; assumption?)+)

lemma first_some_pred:
  "(\<forall>x \<in> set xs. pred_option P x) \<Longrightarrow> ((\<forall>x \<in> set xs. x = None) \<Longrightarrow> P d) \<Longrightarrow> P (first_some xs d)"
  by (induction xs d rule: first_some.induct) auto

lemmas translate_group_ok = translate_alu32_ok translate_endian_ok translate_alu64_ok translate_jump_ok
  translate_call_exit_ok translate_mem_ok translate_lddw_ok

lemma translate_complete:
  assumes "translate_alu32 i inst s d = None" "translate_endian inst d = None"
    "translate_alu64 i inst s d = None" "translate_jump tgt inst s d = None"
    "translate_call_exit vm i inst = None" "translate_mem inst s d = None"
    "translate_lddw code i inst d = None"
  shows "opcode inst \<notin> set switch_groups"
  using assms
  unfolding translate_alu32_def translate_endian_def translate_alu64_def translate_jump_def
    translate_call_exit_def translate_mem_def translate_lddw_def Let_def if_Some_None
    switch_groups_def validate_op_defs
  by (simp only: set_append set_simps insert_iff empty_iff Un_iff de_Morgan_disj if_Some_None simp_thms
      option.distinct split: if_split_asm)

lemma translate_jump_None: "op_kind (opcode inst) \<noteq> KJump \<Longrightarrow> translate_jump tgt inst s d = None"
  by (simp add: translate_jump_def Let_def op_kind_neq)

lemma translate_switch_ok:
  assumes "opcode inst \<in> set ebpf_opcodes" "TARGET_PC_EXIT \<in> T" "TARGET_PC_DIV_BY_ZERO \<in> T"
    and "op_kind (opcode inst) = KJump \<Longrightarrow> word_of_int (int i + sint (offset inst) + 1) \<in> T"
  shows "emitter_ok 1 T (translate_switch vm code i inst s d)"
  unfolding translate_switch_def Let_def
proof (rule first_some_pred [where P = "emitter_ok 1 T"], goal_cases)
  case 1
  have "pred_option (emitter_ok 1 T) (translate_jump (word_of_int (int i + sint (offset inst) + 1)) inst s d)"
    using translate_jump_ok [OF assms(4)] translate_jump_None by (metis option.pred_inject(1))
  with assms(2,3) show ?case
    by (simp only: set_simps insert_iff empty_iff ball_simps translate_group_ok simp_thms)
next
  case 2
  then have "opcode inst \<notin> set switch_groups"
    by (intro translate_complete [of i inst s d "word_of_int (int i + sint (offset inst) + 1)" vm code])
      (simp_all only: set_simps insert_iff simp_thms ball_simps)
  then show ?case using assms(1) set_switch_groups by blast
qed

text \<open>The loop: a validated program and the whole register map.\<close>

definition prog_targets :: "ebpf_inst list \<Rightarrow> u32 set" where
  "prog_targets code = {TARGET_PC_EXIT, TARGET_PC_DIV_BY_ZERO} \<union>
     of_nat ` {t. inst_start code t \<and> t < length code}"

lemma translate_inst_ok:
  assumes "wf_prog vm0 code" "inst_start code i" "i < length code" "jit_ok st"
  shows "case translate_inst vm rmap code i st of
      Inr (i', st') \<Rightarrow> Suc i' = i + inst_width (code ! i) \<and> emitted_ok 1 (prog_targets code) st st' \<and>
        locs st' = ((pc_locs st)(i := jit_offset st), exit_loc st, div_by_zero_loc st)
    | Inl er \<Rightarrow> no_room 1 st er"
proof -
  let ?inst = "code ! i" and ?st = "st\<lparr>pc_locs := (pc_locs st)(i := jit_offset st)\<rparr>"
  have wf: "wf_inst vm0 code i" using assms(1-3) by (simp add: wf_prog_def)
  have regs: "unat (dst ?inst) < REGISTER_MAP_SIZE" "unat (src ?inst) < REGISTER_MAP_SIZE"
    using wf by (auto simp: wf_inst_def Let_def REGISTER_MAP_SIZE_def word_le_nat_alt)
  have "emitter_ok 1 (prog_targets code) (translate_switch vm code i ?inst s d)" for s d
  proof (rule translate_switch_ok)
    assume "op_kind (opcode ?inst) = KJump"
    then have "inst_start code (nat (jump_target ?inst i))" "0 \<le> jump_target ?inst i"
      "jump_target ?inst i < int (length code)"
      using jump_target_start [OF assms(1-3)] wf by (auto simp: wf_inst_def Let_def)
    then show "word_of_int (int i + sint (offset ?inst) + 1) \<in> prog_targets code"
      by (auto simp: prog_targets_def jump_target_def image_iff ac_simps
          intro!: exI [of _ "nat (jump_target ?inst i)"])
  qed (use wf in \<open>auto simp: wf_inst_def Let_def prog_targets_def\<close>)
  moreover have "jit_ok ?st" using assms(4) by (simp add: jit_ok_def jump_end_def)
  ultimately have "case translate_switch vm code i ?inst s d ?st of
      Inr st' \<Rightarrow> emitted_ok 1 (prog_targets code) ?st st' \<and> locs st' = locs ?st
    | Inl er \<Rightarrow> no_room 1 ?st er" for s d
    unfolding emitter_ok_def by blast
  note sw = this [of "rmap ! unat (src ?inst)" "rmap ! unat (dst ?inst)"]
  have tr: "translate_inst vm rmap code i st =
      bindE (translate_switch vm code i ?inst (rmap ! unat (src ?inst)) (rmap ! unat (dst ?inst)) ?st)
        (\<lambda>st'. Inr (if opcode ?inst = EBPF_OP_LDDW then Suc i else i, st'))"
    using regs by (simp add: translate_inst_def Let_def map_register_def)
  have same: "no_room 1 ?st er \<longleftrightarrow> no_room 1 st er"
    "emitted_ok 1 (prog_targets code) ?st st' \<longleftrightarrow> emitted_ok 1 (prog_targets code) st st'" for er st'
    by (simp_all add: no_room_def emitted_ok_def extends_def)
  show ?thesis
    using sw unfolding tr same by (auto simp: inst_width_def locs_def split: sum.splits)
qed

text \<open>
  Where the code of the instructions starts: the recorded locations of the
  instructions from \<open>i\<close> on lie between two positions of the buffer.
\<close>

definition locs_within :: "ebpf_inst list \<Rightarrow> nat \<Rightarrow> (nat \<Rightarrow> u32) \<Rightarrow> nat \<Rightarrow> nat \<Rightarrow> bool" where
  "locs_within code i pl lo hi \<longleftrightarrow> (\<forall>j. i \<le> j \<and> j < length code \<and> inst_start code j \<longrightarrow>
     lo \<le> unat (pl j) \<and> unat (pl j) \<le> hi)"

lemma translate_loop_ok:
  assumes wf: "wf_prog vm0 code" and n: "unat (num_insts vm) = length code"
  shows "inst_start code i \<Longrightarrow> jit_ok st \<Longrightarrow>
    (case translate_loop vm rmap code i st of
       Inr st' \<Rightarrow> emitted_ok (length code - i) (prog_targets code) st st' \<and>
         locs_within code i (pc_locs st') (unat (jit_offset st)) (unat (jit_offset st')) \<and>
         (\<forall>j < i. pc_locs st' j = pc_locs st j)
     | Inl er \<Rightarrow> no_room (length code - i) st er)"
proof (induction "length code - i" arbitrary: i st rule: less_induct)
  case less
  show ?case
  proof (cases "i < length code")
    case False
    then show ?thesis using less.prems n
      by (simp add: translate_loop.simps [of _ _ _ i] emitted_ok_refl locs_within_def)
  next
    case True
    note step = translate_inst_ok [OF wf less.prems(1) True less.prems(2), of vm rmap]
    show ?thesis
    proof (cases "translate_inst vm rmap code i st")
      case (Inl er)
      with step True show ?thesis
        by (auto simp: translate_loop.simps [of _ _ _ i] n intro: no_room_mono)
    next
      case (Inr p)
      obtain i' st1 where p: "p = (i', st1)" by fastforce
      with step Inr have i': "Suc i' = i + inst_width (code ! i)"
        and e1: "emitted_ok 1 (prog_targets code) st st1"
        and l1: "pc_locs st1 = (pc_locs st)(i := jit_offset st)"
        by (simp_all add: locs_def)
      then have gt: "i < Suc i'" and off: "unat (jit_offset st) \<le> unat (jit_offset st1)"
        by (simp_all add: emitted_ok_def extends_def)
      have start': "inst_start code (Suc i')" using start_next [OF less.prems(1) True] i' by simp
      have loop: "translate_loop vm rmap code i st = translate_loop vm rmap code (Suc i') st1"
        using True Inr p n by (simp add: translate_loop.simps [of _ _ _ i])
      have dec: "length code - Suc i' < length code - i" using True gt by simp
      note IH = less.hyps [OF dec start' emitted_ok_jit_ok [OF e1]]
      show ?thesis
      proof (cases "translate_loop vm rmap code (Suc i') st1")
        case (Inl er)
        with IH have "no_room (1 + (length code - Suc i')) st er"
          using no_room_step [OF e1] by auto
        then show ?thesis using Inl loop dec by (auto intro: no_room_mono)
      next
        case (Inr st2)
        with IH have e2: "emitted_ok (length code - Suc i') (prog_targets code) st1 st2"
          and w2: "locs_within code (Suc i') (pc_locs st2) (unat (jit_offset st1)) (unat (jit_offset st2))"
          and k2: "\<forall>j < Suc i'. pc_locs st2 j = pc_locs st1 j"
          by simp_all
        have "emitted_ok (length code - i) (prog_targets code) st st2"
          using emitted_ok_mono [OF emitted_ok_trans [OF e1 e2]] dec by simp
        moreover have off2: "unat (jit_offset st1) \<le> unat (jit_offset st2)"
          using e2 by (simp add: emitted_ok_def extends_def)
        have "unat (jit_offset st) \<le> unat (pc_locs st2 j) \<and> unat (pc_locs st2 j) \<le> unat (jit_offset st2)"
          if j: "i \<le> j" "j < length code" "inst_start code j" for j
        proof (cases "j = i")
          case True
          then show ?thesis using k2 l1 gt off off2 by simp
        next
          case False
          then have "Suc i' \<le> j" using inst_start_gap [OF less.prems(1) j(3)] j(1) i' by simp
          then show ?thesis using w2 j off by (auto simp: locs_within_def)
        qed
        then have "locs_within code i (pc_locs st2) (unat (jit_offset st)) (unat (jit_offset st2))"
          by (simp add: locs_within_def)
        ultimately show ?thesis using Inr loop k2 l1 gt by auto
      qed
    qed
  qed
qed

text \<open>The whole of \<open>translate\<close>.\<close>

lemma prologue_ok: "emitter_ok 0 T (translate_prologue rmap)"
  unfolding translate_prologue_def by (intro emitter_seq emitter_rules)

lemma translate_exit_ok: "emitter_ok 0 T (translate_exit rmap)"
  unfolding translate_exit_def by (intro emitter_seq emitter_rules)

lemma translate_div_by_zero_ok: "TARGET_PC_EXIT \<in> T \<Longrightarrow> emitter_ok 1 T (translate_div_by_zero rmap addrs)"
  unfolding translate_div_by_zero_def by (intro emitter_seq emitter_rules)

text \<open>
  What a finished translation looks like: every jump points to the start of an
  instruction, to the exit or to the division handler, and all those locations
  lie inside the emitted code.
\<close>

definition translated :: "ebpf_inst list \<Rightarrow> jit_state \<Rightarrow> bool" where
  "translated code st \<longleftrightarrow> jit_ok st \<and> jit_size st = jit_buf_size \<and>
     (\<forall>k < num_jumps st. target_pc (jumps st k) \<in> prog_targets code) \<and>
     locs_within code 0 (pc_locs st) 0 (unat (exit_loc st)) \<and>
     exit_loc st \<le> div_by_zero_loc st \<and> div_by_zero_loc st \<le> jit_offset st"

lemma jit_ok_set_loc:
  "jit_ok st \<Longrightarrow> jit_ok (st\<lparr>exit_loc := x\<rparr>)" "jit_ok st \<Longrightarrow> jit_ok (st\<lparr>div_by_zero_loc := x\<rparr>)"
  "emitted_ok n T (st\<lparr>exit_loc := x\<rparr>) st' \<longleftrightarrow> emitted_ok n T st st'"
  "emitted_ok n T (st\<lparr>div_by_zero_loc := x\<rparr>) st' \<longleftrightarrow> emitted_ok n T st st'"
  "no_room n (st\<lparr>exit_loc := x\<rparr>) er \<longleftrightarrow> no_room n st er"
  "no_room n (st\<lparr>div_by_zero_loc := x\<rparr>) er \<longleftrightarrow> no_room n st er"
  by (simp_all add: jit_ok_def jump_end_def emitted_ok_def extends_def no_room_def)

lemma translate_epilogue_ok:
  assumes "jit_ok st" "TARGET_PC_EXIT \<in> T"
  shows "case translate_epilogue rmap addrs st of
      Inr st' \<Rightarrow> emitted_ok 1 T st st' \<and> pc_locs st' = pc_locs st \<and> exit_loc st' = jit_offset st \<and>
        exit_loc st' \<le> div_by_zero_loc st' \<and> div_by_zero_loc st' \<le> jit_offset st'
    | Inl er \<Rightarrow> no_room 1 st er"
proof (cases "translate_exit rmap (st\<lparr>exit_loc := jit_offset st\<rparr>)")
  case (Inl er)
  then show ?thesis
    using emitter_okD(2) [OF translate_exit_ok jit_ok_set_loc(1) [OF assms(1)] Inl]
    by (auto simp: translate_epilogue_def jit_ok_set_loc intro: no_room_mono)
next
  case (Inr s1)
  note a = emitter_okD(1) [OF translate_exit_ok jit_ok_set_loc(1) [OF assms(1)] Inr, of T,
      unfolded jit_ok_set_loc]
  have a1: "emitted_ok 0 T st s1" "pc_locs s1 = pc_locs st" "exit_loc s1 = jit_offset st"
    using a by (simp_all add: locs_def)
  have a2: "jit_offset st \<le> jit_offset s1"
    using a1(1) by (simp add: emitted_ok_def extends_def word_le_nat_alt)
  let ?s1 = "s1\<lparr>div_by_zero_loc := jit_offset s1\<rparr>"
  note ok1 = jit_ok_set_loc(2) [OF emitted_ok_jit_ok [OF a1(1)], of "jit_offset s1"]
  show ?thesis
  proof (cases "translate_div_by_zero rmap addrs ?s1")
    case er: (Inl er)
    then show ?thesis
      using emitter_okD(2) [OF translate_div_by_zero_ok [OF assms(2)] ok1 er] Inr no_room_step [OF a1(1)]
      by (auto simp: translate_epilogue_def jit_ok_set_loc)
  next
    case s2: (Inr s2)
    note b = emitter_okD(1) [OF translate_div_by_zero_ok [OF assms(2)] ok1 s2, unfolded jit_ok_set_loc]
    have b1: "emitted_ok 1 T s1 s2" "pc_locs s2 = pc_locs s1" "exit_loc s2 = exit_loc s1"
      "div_by_zero_loc s2 = jit_offset s1"
      using b by (simp_all add: locs_def)
    have b2: "jit_offset s1 \<le> jit_offset s2"
      using b1(1) by (simp add: emitted_ok_def extends_def word_le_nat_alt)
    show ?thesis using s2 Inr a1 b1 a2 b2 emitted_ok_trans [OF a1(1) b1(1)]
      by (simp add: translate_epilogue_def)
  qed
qed

lemma jit_init_ok: "jit_ok jit_init"
  by (simp add: jit_init_def jit_ok_def jit_buf_size_def)

lemma translate_ok:
  assumes "wf_prog vm0 code" "unat (num_insts vm) = length code"
  shows "case translate vm rmap addrs code jit_init of
      Inr st \<Rightarrow> translated code st \<and> num_jumps st \<le> Suc (length code)
    | Inl er \<Rightarrow> er = BufferAssert"
proof -
  let ?T = "prog_targets code"
  have room: "er = BufferAssert" if "no_room n jit_init er" "n \<le> Suc (length code)" for n er
    using that assms(1) by (auto simp: no_room_def jit_init_def wf_prog_def)
  have exitT: "TARGET_PC_EXIT \<in> ?T" by (simp add: prog_targets_def)
  show ?thesis
  proof (cases "translate_prologue rmap jit_init")
    case (Inl er)
    then show ?thesis using emitter_okD(2) [OF prologue_ok jit_init_ok Inl] room [of 0]
      by (simp add: translate_def)
  next
    case (Inr s1)
    note e1 = emitter_okD(1) [OF prologue_ok jit_init_ok Inr, of ?T, THEN conjunct1]
    note l = translate_loop_ok [OF assms start_zero emitted_ok_jit_ok [OF e1], of rmap]
    show ?thesis
    proof (cases "translate_loop vm rmap code 0 s1")
      case er: (Inl er)
      then show ?thesis using l no_room_step [OF e1] room [of "length code"] Inr
        by (auto simp: translate_def)
    next
      case s2: (Inr s2)
      then have e2: "emitted_ok (length code) ?T s1 s2"
        and w2: "locs_within code 0 (pc_locs s2) (unat (jit_offset s1)) (unat (jit_offset s2))"
        using l by auto
      note e12 = emitted_ok_trans [OF e1 e2]
      note ep = translate_epilogue_ok [OF emitted_ok_jit_ok [OF e2] exitT, of rmap addrs]
      show ?thesis
      proof (cases "translate_epilogue rmap addrs s2")
        case er: (Inl er)
        then have "no_room (0 + length code + 1) jit_init er" using ep no_room_step [OF e12, of 1 er] by simp
        then show ?thesis using room [of "length code + 1"] er Inr s2 by (simp add: translate_def)
      next
        case s3: (Inr s3)
        then have e3: "emitted_ok 1 ?T s2 s3" and p: "pc_locs s3 = pc_locs s2" "exit_loc s3 = jit_offset s2"
          "exit_loc s3 \<le> div_by_zero_loc s3" "div_by_zero_loc s3 \<le> jit_offset s3"
          using ep by auto
        have w3: "locs_within code 0 (pc_locs s3) 0 (unat (exit_loc s3))"
          using w2 p by (auto simp: locs_within_def)
        have "num_jumps jit_init = 0" "jit_size jit_init = jit_buf_size" by (simp_all add: jit_init_def)
        then have "translated code s3 \<and> num_jumps s3 \<le> Suc (length code)"
          using emitted_ok_trans [OF e12 e3] p w3
          by (auto simp: translated_def emitted_ok_def extends_def)
        then show ?thesis using Inr s2 s3 by (simp add: translate_def)
      qed
    qed
  qed
qed

section \<open>resolve\_jumps\<close>

lemma resolve_jump_fields [simp]:
  "jumps (resolve_jump st j) = jumps st" "num_jumps (resolve_jump st j) = num_jumps st"
  "jump_loc (resolve_jump st j) t = jump_loc st t" "jit_offset (resolve_jump st j) = jit_offset st"
  by (simp_all add: resolve_jump_def jump_loc_def Let_def)

lemma resolve_fold:
  assumes "\<And>k l. k < l \<Longrightarrow> l < n \<Longrightarrow> jump_end st k \<le> unat (offset_loc (jumps st l))"
  defines "r \<equiv> \<lambda>m. fold (\<lambda>i st. resolve_jump st (jumps st i)) [0..<m] st"
  shows "m \<le> n \<Longrightarrow> jumps (r m) = jumps st \<and> num_jumps (r m) = num_jumps st \<and>
     jit_offset (r m) = jit_offset st \<and> (\<forall>t. jump_loc (r m) t = jump_loc st t) \<and>
     (\<forall>k < m. map (buf (r m)) [unat (offset_loc (jumps st k))..<jump_end st k] =
        le_bytes 4 (jump_loc st (target_pc (jumps st k)) - (offset_loc (jumps st k) + 4))) \<and>
     (\<forall>i. (\<forall>k < m. i < unat (offset_loc (jumps st k)) \<or> jump_end st k \<le> i) \<longrightarrow> buf (r m) i = buf st i)"
proof (induction m)
  case 0
  then show ?case by (simp add: r_def)
next
  case (Suc m)
  let ?j = "jumps st m"
  let ?o = "unat (offset_loc ?j)"
  let ?rel = "le_bytes 4 (jump_loc st (target_pc ?j) - (offset_loc ?j + 4))"
  have IH: "jumps (r m) = jumps st" "num_jumps (r m) = num_jumps st" "jit_offset (r m) = jit_offset st"
    "\<And>t. jump_loc (r m) t = jump_loc st t"
    "\<And>k. k < m \<Longrightarrow> map (buf (r m)) [unat (offset_loc (jumps st k))..<jump_end st k] =
        le_bytes 4 (jump_loc st (target_pc (jumps st k)) - (offset_loc (jumps st k) + 4))"
    "\<And>i. \<forall>k < m. i < unat (offset_loc (jumps st k)) \<or> jump_end st k \<le> i \<Longrightarrow> buf (r m) i = buf st i"
    using Suc by auto
  have r: "r (Suc m) = resolve_jump (r m) ?j" by (simp add: r_def IH(1) [unfolded r_def])
  have b: "buf (r (Suc m)) i = (if ?o \<le> i \<and> i < ?o + 4 then ?rel ! (i - ?o) else buf (r m) i)" for i
    by (simp add: r resolve_jump_def IH(4) store_bytes_apply del: le_bytes.simps)
  have old: "map (buf (r (Suc m))) [unat (offset_loc (jumps st k))..<jump_end st k] =
       map (buf (r m)) [unat (offset_loc (jumps st k))..<jump_end st k]" if "k < m" for k
    using assms(1) [of k m] that Suc.prems by (auto simp: b)
  have new: "map (buf (r (Suc m))) [?o..<jump_end st m] = ?rel"
    by (rule nth_equalityI) (simp_all add: b jump_end_def del: le_bytes.simps upt_Suc)
  show ?case
  proof (intro conjI allI impI)
    fix k assume "k < Suc m"
    then show "map (buf (r (Suc m))) [unat (offset_loc (jumps st k))..<jump_end st k] =
        le_bytes 4 (jump_loc st (target_pc (jumps st k)) - (offset_loc (jumps st k) + 4))"
      using old new IH(5) by (cases "k = m") (simp_all only: less_Suc_eq simp_thms)
  next
    fix i assume "\<forall>k < Suc m. i < unat (offset_loc (jumps st k)) \<or> jump_end st k \<le> i"
    then show "buf (r (Suc m)) i = buf st i" using IH(6) [of i] by (auto simp: b jump_end_def)
  qed (simp_all add: r IH)
qed

lemma prog_targets_loc:
  assumes "translated code st" "t \<in> prog_targets code" "length code < MAX_INSTS"
  shows "jump_loc st t \<le> div_by_zero_loc st"
proof -
  consider "t = TARGET_PC_EXIT" | "t = TARGET_PC_DIV_BY_ZERO"
    | i where "t = of_nat i" "inst_start code i" "i < length code"
    using assms(2) by (auto simp: prog_targets_def)
  then show ?thesis
  proof cases
    case 3
    then have "unat t = i" using assms(3) by (simp add: MAX_INSTS_def unat_of_nat take_bit_nat_eq_self)
    with 3 have "unat (pc_locs st (unat t)) \<le> unat (exit_loc st)"
      using assms(1) by (auto simp: translated_def locs_within_def)
    then show ?thesis using assms(1)
      by (auto simp: jump_loc_def translated_def word_le_nat_alt intro: order_trans)
  qed (use assms(1) in \<open>auto simp: jump_loc_def translated_def TARGET_PC_EXIT_def TARGET_PC_DIV_BY_ZERO_def\<close>)
qed

lemma resolve_jumps_spec:
  assumes "jit_ok st" "k < num_jumps st"
  shows "(le_word (map (buf (resolve_jumps st)) [unat (offset_loc (jumps st k))..<jump_end st k]) :: u32) +
      (offset_loc (jumps st k) + 4) = jump_loc st (target_pc (jumps st k))"
proof -
  have "\<And>k l. k < l \<Longrightarrow> l < num_jumps st \<Longrightarrow> jump_end st k \<le> unat (offset_loc (jumps st l))"
    using assms(1) by (simp add: jit_ok_def)
  from resolve_fold [OF this, of "num_jumps st" "num_jumps st"] assms(2)
  have "map (buf (resolve_jumps st)) [unat (offset_loc (jumps st k))..<jump_end st k] =
      le_bytes 4 (jump_loc st (target_pc (jumps st k)) - (offset_loc (jumps st k) + 4))"
    by (simp add: resolve_jumps_def)
  then show ?thesis by (simp add: le32.dec_enc del: le_bytes.simps)
qed

lemma resolve_jumps_frame:
  assumes "jit_ok st" "\<forall>k < num_jumps st. i < unat (offset_loc (jumps st k)) \<or> jump_end st k \<le> i"
  shows "buf (resolve_jumps st) i = buf st i"
proof -
  have "\<And>k l. k < l \<Longrightarrow> l < num_jumps st \<Longrightarrow> jump_end st k \<le> unat (offset_loc (jumps st l))"
    using assms(1) by (simp add: jit_ok_def)
  from resolve_fold [OF this, of "num_jumps st" "num_jumps st"] assms(2)
  show ?thesis by (simp add: resolve_jumps_def)
qed

section \<open>The register map\<close>

lemma shuffle_perm:
  "length rmap = REGISTER_MAP_SIZE \<Longrightarrow> i + n < REGISTER_MAP_SIZE \<Longrightarrow> mset (shuffle rnd i n rmap) = mset rmap"
proof (induction n arbitrary: i rmap)
  case (Suc n)
  let ?j = "i + rnd i mod (REGISTER_MAP_SIZE - i)"
  have "rnd i mod (REGISTER_MAP_SIZE - i) < REGISTER_MAP_SIZE - i" using Suc.prems by simp
  then have "?j < length rmap" "i < length rmap" using Suc.prems by linarith+
  then show ?case using Suc by (simp add: Let_def mset_swap)
qed simp

lemma rotate_map:
  assumes "length rmap = REGISTER_MAP_SIZE" "0 \<le> x"
  shows "map (\<lambda>i. rmap ! nat ((int i + x) mod int REGISTER_MAP_SIZE)) [0..<REGISTER_MAP_SIZE] =
    rotate (nat x) rmap"
proof (rule nth_equalityI)
  fix i assume "i < length (map (\<lambda>i. rmap ! nat ((int i + x) mod int REGISTER_MAP_SIZE)) [0..<REGISTER_MAP_SIZE])"
  then have "i < REGISTER_MAP_SIZE" by simp
  moreover have "nat ((int i + x) mod int REGISTER_MAP_SIZE) = (nat x + i) mod REGISTER_MAP_SIZE"
    using assms(2) by (simp add: nat_mod_distrib nat_add_distrib add.commute)
  ultimately show "map (\<lambda>i. rmap ! nat ((int i + x) mod int REGISTER_MAP_SIZE)) [0..<REGISTER_MAP_SIZE] ! i =
     rotate (nat x) rmap ! i"
    using assms(1) by (simp add: nth_rotate)
qed (simp add: assms)

lemma set_register_offset_Some:
  assumes "length rmap = REGISTER_MAP_SIZE" "0 \<le> x"
  shows "\<exists>r. ubpf_set_register_offset rnd x rmap = Some r \<and> mset r = mset rmap"
proof (cases "x < int REGISTER_MAP_SIZE")
  case True
  have "\<not> (\<exists>i \<in> set [0..<REGISTER_MAP_SIZE]. int i + x < 0 \<and> \<not> int REGISTER_MAP_SIZE dvd int i + x)"
    using assms(2) by auto
  then have "ubpf_set_register_offset rnd x rmap = Some (rotate (nat x) rmap)"
    using True by (simp only: ubpf_set_register_offset_def rotate_map [OF assms] if_True if_False)
  moreover have "mset (rotate (nat x) rmap) = mset rmap"
    by (metis append_take_drop_id mset_append rotate_drop_take union_commute)
  ultimately show ?thesis by simp
next
  case False
  then show ?thesis using shuffle_perm [OF assms(1), of 0 "REGISTER_MAP_SIZE - 1" "rnd x"]
    by (simp add: ubpf_set_register_offset_def REGISTER_MAP_SIZE_def)
qed

lemma set_register_offset_None:
  assumes "x < 0"
  shows "ubpf_set_register_offset rnd x rmap = None"
proof -
  have "\<exists>i \<in> set [0..<REGISTER_MAP_SIZE]. int i + x < 0 \<and> \<not> int REGISTER_MAP_SIZE dvd int i + x"
  proof (cases "11 dvd x")
    case True
    then have "x \<le> -11" "\<not> 11 dvd 1 + x" using assms by presburger+
    then show ?thesis by (intro bexI [of _ 1]) (simp_all add: REGISTER_MAP_SIZE_def)
  next
    case False
    then show ?thesis using assms by (intro bexI [of _ 0]) (simp_all add: REGISTER_MAP_SIZE_def)
  qed
  then show ?thesis using assms by (simp add: ubpf_set_register_offset_def)
qed

section \<open>Heap\<close>

lemma owns_malloc:
  assumes "owns vm h L" "malloc h = (p, h')"
  shows "owns vm h' (L \<union> set (opt_list p))"
    and "set (opt_list p) \<inter> (L \<union> set (vm_blocks vm)) = {}"
proof -
  have ok: "heap_ok h" using assms(1) by (simp add: owns_def owned_def)
  note mc = malloc_cases [OF assms(2) ok]
  show "owns vm h' (L \<union> set (opt_list p))" "set (opt_list p) \<inter> (L \<union> set (vm_blocks vm)) = {}"
    using assms(1) mc by (cases p; auto simp: owns_def owned_def opt_list_def)+
qed

lemma owns_free:
  assumes "owns vm h (L \<union> set (opt_list p))" "set (opt_list p) \<inter> L = {}"
  shows "owns vm (free p h) L"
  using assms by (cases p) (auto simp: owns_def owned_def free_def opt_list_def heap_ok_def)

lemma owns_give:
  assumes "owns vm h (L \<union> {m})" "m \<notin> L" "jitted vm = None"
  shows "owns (vm\<lparr>jitted := Some (m, c), jitted_size := z\<rparr>) h L"
  using assms by (auto simp: owns_def owned_def vm_blocks_def opt_list_def)

lemma compile_owns:
  assumes "owns vm h L" "ubpf_compile vm rmap addrs mp h = (r, h')"
    and "r \<noteq> Inl NullBuffer" "r \<noteq> Inl BufferAssert"
    and loaded: "\<And>b code. insts vm = Some (b, code) \<Longrightarrow> (\<exists>vm0. wf_prog vm0 code) \<and> unat (num_insts vm) = length code"
  shows "owns (case r of Inl e \<Rightarrow> vm | Inr vm' \<Rightarrow> vm') h' L"
proof (cases "jitted vm = None \<and> insts vm \<noteq> None")
  case False
  then show ?thesis using assms(1,2) by (auto simp: ubpf_compile_def split: option.splits if_splits)
next
  case True
  then obtain ib code where i: "insts vm = Some (ib, code)" and j0: "jitted vm = None" by auto
  obtain b h1 where b: "malloc h = (b, h1)" by fastforce
  obtain p h2 where p: "malloc h1 = (p, h2)" by fastforce
  obtain j h3 where j: "malloc h2 = (j, h3)" by fastforce
  note o1 = owns_malloc [OF assms(1) b]
  note o2 = owns_malloc [OF o1(1) p]
  note o3 = owns_malloc [OF o2(1) j]
  let ?B = "set (opt_list b) \<union> set (opt_list p) \<union> set (opt_list j)"
  have released: "owns v (free j (free p (free b hh))) K"
    if "owns v hh (K \<union> ?B)" "K \<inter> ?B = {}" for v hh K
  proof -
    have "owns v hh ((K \<union> set (opt_list p) \<union> set (opt_list j)) \<union> set (opt_list b))"
      using that(1) by (simp add: Un_ac)
    then have "owns v (free b hh) ((K \<union> set (opt_list p) \<union> set (opt_list j)))"
      by (rule owns_free) (use o2(2) o3(2) that(2) in auto)
    then have "owns v (free b hh) ((K \<union> set (opt_list j)) \<union> set (opt_list p))" by (simp add: Un_ac)
    then have "owns v (free p (free b hh)) (K \<union> set (opt_list j))"
      by (rule owns_free) (use o3(2) that(2) in auto)
    then show ?thesis by (rule owns_free) (use that(2) in auto)
  qed
  have L: "L \<inter> ?B = {}" using o1(2) o2(2) o3(2) by auto
  have some: "\<not> (b = None \<or> p = None \<or> j = None)"
  proof
    assume "b = None \<or> p = None \<or> j = None"
    then have "ubpf_compile vm rmap addrs mp h = (Inl NullBuffer, h3)"
      using i j0 b p j by (simp add: ubpf_compile_def Let_def)
    then show False using assms(2,3) by simp
  qed
  obtain st where st: "translate vm rmap addrs code jit_init = Inr st"
    using assms(2,4) i j0 b p j some translate_ok [of _ code vm rmap addrs] loaded
    by (cases "translate vm rmap addrs code jit_init") (auto simp: ubpf_compile_def)
  obtain m h4 where m: "malloc h3 = (m, h4)" by fastforce
  note o4 = owns_malloc [OF o3(1) m]
  have c: "ubpf_compile vm rmap addrs mp h = (case m of None \<Rightarrow> (Inl MmapFailed, free j (free p (free b h4)))
     | Some m \<Rightarrow> if \<not> mp then (Inl MprotectFailed, free (Some m) (free j (free p (free b h4))))
       else (Inr (vm\<lparr>jitted := Some (m, jit_code (resolve_jumps st)), 
               jitted_size := ucast (jit_offset (resolve_jumps st))\<rparr>), free j (free p (free b h4))))"
    using i j0 b p j some st m by (auto simp: ubpf_compile_def Let_def split: option.splits)
  show ?thesis
  proof (cases m)
    case None
    then have "owns vm (free j (free p (free b h4))) L"
      using o4(1) L by (intro released) (simp_all add: opt_list_def Un_ac)
    then show ?thesis using assms(2) c None by auto
  next
    case (Some mb)
    have mb: "mb \<notin> L" "mb \<notin> ?B" using o4(2) Some by (auto simp: opt_list_def)
    have fin: "owns vm (free j (free p (free b h4))) (L \<union> {mb})"
      using o4(1) L mb Some by (intro released) (simp_all add: opt_list_def Un_ac)
    then have "owns vm (free (Some mb) (free j (free p (free b h4)))) L"
      using owns_free [of vm "free j (free p (free b h4))" L "Some mb"] mb by (simp add: opt_list_def)
    then show ?thesis
      using assms(2) c Some fin owns_give [OF fin mb(1) j0] by (cases mp) auto
  qed
qed
end
