(* ===== verification/Jit_Encoding.thy ===== *)
theory Jit_Encoding
  imports Jit_Correct
begin

text \<open>
  The bytes the emitters write.  \<open>outputs\<close> relates an emitter to its byte list; the bound on
  its length shows that a program of at most 1189 instructions always fits the 64 KiB
  buffer.  \<open>x86_decode\<close> reads the prefix, opcode and ModRM format of the instruction set
  (operand-size prefix, REX, one- and two-byte opcodes, register and base plus
  displacement operands; SIB and RIP-relative forms are not decoded), and the
  emitted instructions decode to the operation, registers and displacement they
  were emitted for.
\<close>

section \<open>The bytes an emitter writes\<close>

definition emitted :: "jit_state \<Rightarrow> jit_state \<Rightarrow> byte list" where
  "emitted st st' = map (buf st') [unat (jit_offset st)..<unat (jit_offset st')]"

text \<open>
  \<open>outputs e bs\<close>: when \<open>e\<close> succeeds it has written exactly \<open>bs\<close>, and it finds the
  buffer full only if \<open>bs\<close> does not fit.
\<close>

definition outputs :: "emitter \<Rightarrow> byte list \<Rightarrow> bool" where
  "outputs e bs \<longleftrightarrow> (\<forall>st. jit_ok st \<longrightarrow>
     (case e st of
        Inr st' \<Rightarrow> jit_ok st' \<and> extends st st' \<and> emitted st st' = bs
      | Inl er \<Rightarrow> er = BufferAssert \<longrightarrow> unat (jit_size st) < unat (jit_offset st) + length bs))"

lemma outputsI:
  assumes "\<And>st st'. jit_ok st \<Longrightarrow> e st = Inr st' \<Longrightarrow> jit_ok st' \<and> extends st st' \<and> emitted st st' = bs"
    and "\<And>st. jit_ok st \<Longrightarrow> e st = Inl BufferAssert \<Longrightarrow> unat (jit_size st) < unat (jit_offset st) + length bs"
  shows "outputs e bs"
  using assms by (auto simp: outputs_def split: sum.splits)

lemma outputsD:
  assumes "outputs e bs" "jit_ok st"
  shows "e st = Inr st' \<Longrightarrow> jit_ok st' \<and> extends st st' \<and> emitted st st' = bs"
    and "e st = Inl BufferAssert \<Longrightarrow> unat (jit_size st) < unat (jit_offset st) + length bs"
  using assms by (auto simp: outputs_def split: sum.splits)

lemma emitted_length: "length (emitted st st') = unat (jit_offset st') - unat (jit_offset st)"
  by (simp add: emitted_def)

lemma emitted_append:
  assumes "extends a b" "extends b c"
  shows "emitted a c = emitted a b @ emitted b c"
proof -
  have le: "unat (jit_offset a) \<le> unat (jit_offset b)" "unat (jit_offset b) \<le> unat (jit_offset c)"
    using assms by (simp_all add: extends_def)
  have "map (buf c) [unat (jit_offset a)..<unat (jit_offset b)] = emitted a b"
    using assms(2) by (simp add: emitted_def extends_def)
  then show ?thesis
    using le by (metis emitted_def le_Suc_ex map_append upt_add_eq_append)
qed

lemma outputs_Nil: "outputs (emits []) []"
  by (rule outputsI) (auto simp: extends_refl emitted_def)

lemma outputs_skip: "outputs Inr []"
  by (rule outputsI) (auto simp: extends_refl emitted_def)

lemma outputs_Cons:
  assumes "outputs e xs" "outputs (emits es) ys"
  shows "outputs (emits (e # es)) (xs @ ys)"
proof (rule outputsI)
  fix st st'
  assume ok: "jit_ok st" and "emits (e # es) st = Inr st'"
  then obtain t where t: "e st = Inr t" "emits es t = Inr st'" by (auto simp: bindE_Inr_iff)
  note a = outputsD(1) [OF assms(1) ok t(1)]
  note b = outputsD(1) [OF assms(2) _ t(2)]
  show "jit_ok st' \<and> extends st st' \<and> emitted st st' = xs @ ys"
    using a b emitted_append extends_trans by metis
next
  fix st
  assume ok: "jit_ok st" and "emits (e # es) st = Inl BufferAssert"
  then consider "e st = Inl BufferAssert" | t where "e st = Inr t" "emits es t = Inl BufferAssert"
    by (auto simp: bindE_Inl_iff)
  then show "unat (jit_size st) < unat (jit_offset st) + length (xs @ ys)"
  proof cases
    case 1
    then show ?thesis using outputsD(2) [OF assms(1) ok] by simp
  next
    case 2
    note a = outputsD(1) [OF assms(1) ok 2(1)]
    then have "length xs = unat (jit_offset t) - unat (jit_offset st)" "jit_size t = jit_size st"
      "unat (jit_offset st) \<le> unat (jit_offset t)"
      using emitted_length [of st t] by (auto simp: extends_def)
    then show ?thesis using outputsD(2) [OF assms(2) _ 2(2)] a by simp
  qed
qed

lemma outputs_when: "outputs e bs \<Longrightarrow> outputs (emit_when b e) (if b then bs else [])"
  using outputs_skip by (auto simp: outputs_def emit_when_def)

lemma outputs_if: "(b \<Longrightarrow> outputs e xs) \<Longrightarrow> (\<not> b \<Longrightarrow> outputs f ys) \<Longrightarrow>
  outputs (if b then e else f) (if b then xs else ys)"
  by simp

lemma outputs_bytes:
  assumes "length bs \<le> 8"
  shows "outputs (emit_bytes bs) bs"
proof (rule outputsI)
  fix st st'
  assume ok: "jit_ok st" and e: "emit_bytes bs st = Inr st'"
  then have "length bs \<le> unat (jit_size st)" using assms by (simp add: jit_ok_def)
  note b = emit_bytes_Inr [OF e this]
  have "emitted st st' = bs"
    unfolding emitted_def b(1) by (rule nth_equalityI) (auto simp: b(2) store_bytes_apply)
  then show "jit_ok st' \<and> extends st st' \<and> emitted st st' = bs"
    using emitter_okD(1) [OF emitter_ok_bytes [OF assms] ok e, of 0 UNIV] by (simp add: emitted_ok_def)
next
  fix st
  assume ok: "jit_ok st" and e: "emit_bytes bs st = Inl BufferAssert"
  have sz: "length bs \<le> unat (jit_size st)" using ok assms by (simp add: jit_ok_def)
  have "unat (of_nat (length bs) :: u32) = length bs" using assms by (simp add: unat_of_nat take_bit_nat_eq_self)
  then have "unat (jit_size st - of_nat (length bs)) = unat (jit_size st) - length bs"
    using sz by (simp add: unat_sub word_le_nat_alt)
  moreover have "\<not> jit_offset st \<le> jit_size st - of_nat (length bs)"
    using e by (auto simp: emit_bytes_def Let_def split: if_splits)
  ultimately show "unat (jit_size st) < unat (jit_offset st) + length bs"
    using sz by (simp add: word_le_nat_alt)
qed

lemma outputs_small:
  "outputs (emit1 x) (le_bytes 1 (word_of_int x :: byte))" "outputs (emit2 x) (le_bytes 2 (word_of_int x :: u16))"
  "outputs (emit4 x) (le_bytes 4 (word_of_int x :: u32))" "outputs (emit8 x) (le_bytes 8 (word_of_int x :: u64))"
  by (simp_all add: emit1_def emit2_def emit4_def emit8_def outputs_bytes del: le_bytes.simps)

lemma outputs_jump_offset: "outputs (emit_jump_offset t) (le_bytes 4 (0 :: u32))"
proof (rule outputsI)
  fix st st' :: jit_state
  let ?m = "st\<lparr>jumps := (jumps st)(num_jumps st := \<lparr>offset_loc = jit_offset st, target_pc = t\<rparr>),
     num_jumps := Suc (num_jumps st)\<rparr>"
  assume ok: "jit_ok st" and e: "emit_jump_offset t st = Inr st'"
  have k: "jit_ok st' \<and> extends st st'"
    using emitter_okD(1) [OF emitter_ok_jump_offset [of t UNIV] ok e] by (simp add: emitted_ok_def)
  have e4: "emit_bytes (le_bytes 4 (0::u32)) ?m = Inr st'"
    using e by (auto simp: emit_jump_offset_def emit4_def split: if_splits)
  have "length (le_bytes 4 (0::u32)) \<le> unat (jit_size ?m)" using ok by (simp add: jit_ok_def del: le_bytes.simps)
  note b = emit_bytes_Inr [OF e4 this, unfolded length_le_bytes]
  have "emitted st st' = le_bytes 4 (0 :: u32)"
    unfolding emitted_def b(1)
    by (rule nth_equalityI) (use b(2) in \<open>auto simp: store_bytes_apply simp del: le_bytes.simps\<close>)
  then show "jit_ok st' \<and> extends st st' \<and> emitted st st' = le_bytes 4 (0 :: u32)" using k by simp
next
  fix st
  assume ok: "jit_ok st" and e: "emit_jump_offset t st = Inl BufferAssert"
  have "unat (jit_size st - 4) = unat (jit_size st) - 4"
    using ok by (simp add: unat_sub word_le_nat_alt jit_ok_def)
  moreover have "\<not> jit_offset st \<le> jit_size st - 4"
    using e by (auto simp: emit_jump_offset_def emit4_def emit_bytes_def Let_def split: if_splits)
  ultimately show "unat (jit_size st) < unat (jit_offset st) + length (le_bytes 4 (0 :: u32))"
    using ok by (simp add: word_le_nat_alt jit_ok_def del: le_bytes.simps)
qed

section \<open>Room in the buffer\<close>

definition grew :: "nat \<Rightarrow> jit_state \<Rightarrow> jit_state \<Rightarrow> bool" where
  "grew n st st' \<longleftrightarrow> jit_ok st' \<and> jit_size st' = jit_size st \<and>
     unat (jit_offset st') \<le> unat (jit_offset st) + n"

definition lacks_room :: "nat \<Rightarrow> jit_state \<Rightarrow> bool" where
  "lacks_room n st \<longleftrightarrow> unat (jit_size st) < unat (jit_offset st) + n"

definition fits :: "nat \<Rightarrow> emitter \<Rightarrow> bool" where
  "fits n e \<longleftrightarrow> (\<forall>st. jit_ok st \<longrightarrow>
     (\<forall>st'. e st = Inr st' \<longrightarrow> grew n st st') \<and> (e st = Inl BufferAssert \<longrightarrow> lacks_room n st))"

lemma grew_mono: "grew a st st' \<Longrightarrow> a \<le> n \<Longrightarrow> grew n st st'" "lacks_room a st \<Longrightarrow> a \<le> n \<Longrightarrow> lacks_room n st"
  by (auto simp: grew_def lacks_room_def)

lemma grew_trans:
  "grew a st t \<Longrightarrow> grew b t st' \<Longrightarrow> grew (a + b) st st'"
  "grew a st t \<Longrightarrow> lacks_room b t \<Longrightarrow> lacks_room (a + b) st"
  by (auto simp: grew_def lacks_room_def)

named_theorems fits_rules \<open>upper bounds on the bytes of an emitter\<close>

lemma fitsD:
  "fits n e \<Longrightarrow> jit_ok st \<Longrightarrow> e st = Inr st' \<Longrightarrow> grew n st st'"
  "fits n e \<Longrightarrow> jit_ok st \<Longrightarrow> e st = Inl BufferAssert \<Longrightarrow> lacks_room n st"
  by (simp_all add: fits_def)

lemma fits_mono: "fits a e \<Longrightarrow> a \<le> n \<Longrightarrow> fits n e"
  unfolding fits_def using grew_mono by blast

lemma outputs_fits: "outputs e bs \<Longrightarrow> fits (length bs) e"
  unfolding fits_def
proof (intro allI impI conjI)
  fix st st'
  assume "outputs e bs" "jit_ok st" "e st = Inr st'"
  from outputsD(1) [OF this] show "grew (length bs) st st'"
    using emitted_length [of st st'] by (auto simp: extends_def grew_def)
qed (simp add: lacks_room_def outputsD(2))

lemma fits_Nil [fits_rules]: "fits 0 (emits [])" "fits 0 Inr" "fits 0 (emit_assert b)"
  by (auto simp: fits_def emit_assert_def grew_def)

lemma fits_Cons [fits_rules]:
  assumes "fits a e" "fits b (emits es)"
  shows "fits (a + b) (emits (e # es))"
  unfolding fits_def
proof (intro allI impI conjI)
  fix st st'
  assume ok: "jit_ok st" and "emits (e # es) st = Inr st'"
  then obtain t where t: "e st = Inr t" "emits es t = Inr st'" by (auto simp: bindE_Inr_iff)
  have "grew a st t" using assms(1) ok t(1) by (simp add: fits_def)
  moreover from this have "jit_ok t" by (simp add: grew_def)
  then have "grew b t st'" using assms(2) t(2) by (simp add: fits_def)
  ultimately show "grew (a + b) st st'" by (rule grew_trans)
next
  fix st
  assume ok: "jit_ok st" and "emits (e # es) st = Inl BufferAssert"
  then consider "e st = Inl BufferAssert" | t where "e st = Inr t" "emits es t = Inl BufferAssert"
    by (auto simp: bindE_Inl_iff)
  then show "lacks_room (a + b) st"
  proof cases
    case 1
    then have "lacks_room a st" using assms(1) ok by (simp add: fits_def)
    then show ?thesis by (rule grew_mono) simp
  next
    case 2
    then have g: "grew a st t" using assms(1) ok by (simp add: fits_def)
    moreover from this have "jit_ok t" by (simp add: grew_def)
    then have "lacks_room b t" using assms(2) 2(2) by (simp add: fits_def)
    ultimately show ?thesis by (rule grew_trans)
  qed
qed

lemma fits_when [fits_rules]: "fits n e \<Longrightarrow> fits n (emit_when b e)"
  using fits_mono [OF fits_Nil(2), of n] by (cases b) (simp_all add: fits_def emit_when_def)

lemma fits_if [fits_rules]: "fits a e \<Longrightarrow> fits b f \<Longrightarrow> fits (max a b) (if c then e else f)"
  using fits_mono by (cases c) (auto simp: max_def)

lemma fits_small [fits_rules]: "fits 1 (emit1 x)" "fits 2 (emit2 x)" "fits 4 (emit4 x)" "fits 8 (emit8 x)"
  "fits 4 (emit_jump_offset t)"
  using outputs_small [THEN outputs_fits, unfolded length_le_bytes]
    outputs_jump_offset [THEN outputs_fits, unfolded length_le_bytes]
  by simp_all

lemma fits_modrm [fits_rules]: "fits 1 (emit_modrm md r m)"
  unfolding emit_modrm_def by (rule fits_mono, (rule fits_rules)+) simp

lemma fits_modrm_disp [fits_rules]: "fits 5 (emit_modrm_and_displacement r m d)"
  unfolding emit_modrm_and_displacement_def by (rule fits_mono, (rule fits_rules)+) simp

lemma fits_rex [fits_rules]: "fits 1 (emit_rex w r x b)"
  unfolding emit_rex_def by (rule fits_mono, (rule fits_rules)+) simp

lemma fits_basic_rex [fits_rules]: "fits 1 (emit_basic_rex w s d)"
  unfolding emit_basic_rex_def by (rule fits_mono, (rule fits_rules)+) simp

lemma fits_push [fits_rules]: "fits 2 (emit_push r)" "fits 2 (emit_pop r)"
  unfolding emit_push_def emit_pop_def by (rule fits_mono, (rule fits_rules)+, simp)+

lemma fits_alu [fits_rules]: "fits 3 (emit_alu32 op s d)" "fits 3 (emit_alu64 op s d)"
  unfolding emit_alu32_def emit_alu64_def emit_modrm_reg2reg_def
  by (rule fits_mono, (rule fits_rules)+, simp)+

lemma fits_alu_imm [fits_rules]: "fits 7 (emit_alu32_imm32 op s d i)" "fits 4 (emit_alu32_imm8 op s d i)"
  "fits 7 (emit_alu64_imm32 op s d i)" "fits 4 (emit_alu64_imm8 op s d i)"
  "fits 3 (emit_mov s d)" "fits 3 (emit_cmp s d)"
  unfolding emit_alu32_imm32_def emit_alu32_imm8_def emit_alu64_imm32_def emit_alu64_imm8_def
    emit_mov_def emit_cmp_def
  by (rule fits_mono, (rule fits_rules)+, simp)+

lemma fits_imm [fits_rules]: "fits 7 (emit_cmp_imm32 d i)" "fits 10 (emit_load_imm d i)"
  unfolding emit_cmp_imm32_def emit_load_imm_def by (rule fits_mono, (rule fits_rules)+, simp)+

lemma fits_jump [fits_rules]: "fits 6 (emit_jcc c t)" "fits 5 (emit_jmp t)" "fits 12 (emit_call a)"
  unfolding emit_jcc_def emit_jmp_def emit_call_def by (rule fits_mono, (rule fits_rules)+, simp)+

lemma fits_mem [fits_rules]: "fits 8 (emit_load sz s d off)" "fits 8 (emit_store sz s d off)"
  "fits 12 (emit_store_imm32 sz d off i)"
  unfolding emit_load_def emit_store_def emit_store_imm32_def Let_def append.simps
  by (cases sz; simp; rule fits_mono, (rule fits_rules)+, simp)+

lemma fits_muldivmod [fits_rules]: "fits 55 (muldivmod cur op s d im)"
  unfolding muldivmod_def Let_def by (rule fits_mono, (rule fits_rules)+, simp)

lemma translate_group_fits:
  "pred_option (fits 55) (translate_alu32 i inst s d)" "pred_option (fits 55) (translate_endian inst d)"
  "pred_option (fits 55) (translate_alu64 i inst s d)" "pred_option (fits 55) (translate_jump tgt inst s d)"
  "pred_option (fits 55) (translate_call_exit vm i inst)" "pred_option (fits 55) (translate_mem inst s d)"
  "pred_option (fits 55) (translate_lddw code i inst d)"
  unfolding translate_alu32_def translate_endian_def translate_alu64_def translate_jump_def
    translate_call_exit_def translate_mem_def translate_lddw_def Let_def
  by (intro pred_option_if; simp only: option.pred_inject; (rule fits_mono, (rule fits_rules)+, simp))+

lemma translate_switch_fits: "fits 55 (translate_switch vm code i inst s d)"
  unfolding translate_switch_def Let_def
proof (rule first_some_pred [where P = "fits 55"], goal_cases)
  case 1
  show ?case by (simp only: set_simps insert_iff empty_iff ball_simps translate_group_fits simp_thms)
next
  case 2
  show ?case by (simp add: fits_def)
qed

lemma jit_ok_pc_locs:
  "jit_ok st \<Longrightarrow> jit_ok (st\<lparr>pc_locs := f\<rparr>)" "grew n (st\<lparr>pc_locs := f\<rparr>) st' \<longleftrightarrow> grew n st st'"
  "lacks_room n (st\<lparr>pc_locs := f\<rparr>) \<longleftrightarrow> lacks_room n st"
  "grew n (st\<lparr>exit_loc := x\<rparr>) st' \<longleftrightarrow> grew n st st'" "lacks_room n (st\<lparr>exit_loc := x\<rparr>) \<longleftrightarrow> lacks_room n st"
  "grew n (st\<lparr>div_by_zero_loc := x\<rparr>) st' \<longleftrightarrow> grew n st st'"
  "lacks_room n (st\<lparr>div_by_zero_loc := x\<rparr>) \<longleftrightarrow> lacks_room n st"
  by (simp_all add: jit_ok_def jump_end_def grew_def lacks_room_def)

lemma translate_inst_fits:
  assumes "jit_ok st"
  shows "translate_inst vm rmap code i st = Inr (i', st') \<Longrightarrow> grew 55 st st' \<and> i \<le> i'"
    and "translate_inst vm rmap code i st = Inl BufferAssert \<Longrightarrow> lacks_room 55 st"
  using fitsD [OF translate_switch_fits jit_ok_pc_locs(1) [OF assms], unfolded jit_ok_pc_locs, of vm code i "code ! i" "rmap ! unat (src (code ! i))"
      "rmap ! unat (dst (code ! i))" "(pc_locs st)(i := jit_offset st)"]
  by (auto simp: translate_inst_def Let_def bindE_Inr_iff bindE_Inl_iff map_register_def
      split: if_splits)

lemma translate_loop_fits:
  "jit_ok st \<Longrightarrow>
    (\<forall>st'. translate_loop vm rmap code i st = Inr st' \<longrightarrow> grew (55 * (unat (num_insts vm) - i)) st st') \<and>
    (translate_loop vm rmap code i st = Inl BufferAssert \<longrightarrow> lacks_room (55 * (unat (num_insts vm) - i)) st)"
proof (induction "unat (num_insts vm) - i" arbitrary: i st rule: less_induct)
  case less
  show ?case
  proof (cases "i < unat (num_insts vm)")
    case False
    then show ?thesis using less.prems by (simp add: translate_loop.simps [of _ _ _ i] grew_def)
  next
    case True
    note inst = translate_inst_fits [OF less.prems, of vm rmap code i]
    show ?thesis
    proof (cases "translate_inst vm rmap code i st")
      case (Inl er)
      moreover have "lacks_room 55 st \<Longrightarrow> lacks_room (55 * (unat (num_insts vm) - i)) st"
        using True grew_mono(2) [of 55 st] by simp
      ultimately show ?thesis using inst(2) True by (simp add: translate_loop.simps [of _ _ _ i])
    next
      case (Inr p)
      obtain i' t where p: "p = (i', t)" by fastforce
      have g: "grew 55 st t" and i': "i \<le> i'" using inst(1) Inr p by auto
      have ok: "jit_ok t" using g by (simp add: grew_def)
      have dec: "unat (num_insts vm) - Suc i' < unat (num_insts vm) - i" using True i' by simp
      then have le: "55 + 55 * (unat (num_insts vm) - Suc i') \<le> 55 * (unat (num_insts vm) - i)" by simp
      have loop: "translate_loop vm rmap code i st = translate_loop vm rmap code (Suc i') t"
        using True Inr p by (simp add: translate_loop.simps [of _ _ _ i])
      show ?thesis
        using less.hyps [OF dec ok] grew_trans [OF g] grew_mono [OF _ le] unfolding loop by blast
    qed
  qed
qed

lemma prologue_fits: "fits 23 (translate_prologue rmap)"
  unfolding translate_prologue_def by (rule fits_mono, (rule fits_rules)+) simp

lemma translate_exit_fits: "fits 21 (translate_exit rmap)"
  unfolding translate_exit_def by (rule fits_mono, (rule fits_rules)+) simp

lemma translate_div_by_zero_fits: "fits 50 (translate_div_by_zero rmap addrs)"
  unfolding translate_div_by_zero_def by (rule fits_mono, (rule fits_rules)+) simp

lemma epilogue_fits: "fits 71 (translate_epilogue rmap addrs)"
  unfolding fits_def
proof (intro allI impI conjI)
  fix st st'
  assume ok: "jit_ok st" and "translate_epilogue rmap addrs st = Inr st'"
  then obtain t where t: "translate_exit rmap (st\<lparr>exit_loc := jit_offset st\<rparr>) = Inr t"
    "translate_div_by_zero rmap addrs (t\<lparr>div_by_zero_loc := jit_offset t\<rparr>) = Inr st'"
    by (auto simp: translate_epilogue_def bindE_Inr_iff)
  note g = fitsD(1) [OF translate_exit_fits jit_ok_set_loc(1) [OF ok] t(1), unfolded jit_ok_pc_locs]
  then have "jit_ok t" by (simp add: grew_def)
  note fitsD(1) [OF translate_div_by_zero_fits jit_ok_set_loc(2) [OF this] t(2), unfolded jit_ok_pc_locs]
  from grew_trans(1) [OF g this] show "grew 71 st st'" by simp
next
  fix st
  assume ok: "jit_ok st" and "translate_epilogue rmap addrs st = Inl BufferAssert"
  then consider "translate_exit rmap (st\<lparr>exit_loc := jit_offset st\<rparr>) = Inl BufferAssert"
    | t where "translate_exit rmap (st\<lparr>exit_loc := jit_offset st\<rparr>) = Inr t"
      "translate_div_by_zero rmap addrs (t\<lparr>div_by_zero_loc := jit_offset t\<rparr>) = Inl BufferAssert"
    by (auto simp: translate_epilogue_def bindE_Inl_iff)
  then show "lacks_room 71 st"
  proof cases
    case 1
    from fitsD(2) [OF translate_exit_fits jit_ok_set_loc(1) [OF ok] this, unfolded jit_ok_pc_locs]
    show ?thesis by (rule grew_mono) simp
  next
    case 2
    note g = fitsD(1) [OF translate_exit_fits jit_ok_set_loc(1) [OF ok] 2(1), unfolded jit_ok_pc_locs]
    then have "jit_ok t" by (simp add: grew_def)
    note fitsD(2) [OF translate_div_by_zero_fits jit_ok_set_loc(2) [OF this] 2(2), unfolded jit_ok_pc_locs]
    from grew_trans(2) [OF g this] show ?thesis by simp
  qed
qed

lemma translate_fits: "fits (94 + 55 * unat (num_insts vm)) (translate vm rmap addrs code)"
proof -
  have l: "fits (55 * unat (num_insts vm)) (translate_loop vm rmap code 0)"
    using translate_loop_fits [of _ vm rmap code 0] by (simp add: fits_def)
  show ?thesis
    unfolding translate_def by (rule fits_mono, (rule fits_rules prologue_fits l epilogue_fits)+) simp
qed

text \<open>A validated program of at most 1189 instructions always fits.\<close>

lemma translate_succeeds:
  assumes "wf_prog vm0 code" "unat (num_insts vm) = length code" "length code \<le> 1189"
  shows "\<exists>st. translate vm rmap addrs code jit_init = Inr st \<and> translated code st \<and> num_jumps st \<le> Suc (length code)"
proof (cases "translate vm rmap addrs code jit_init")
  case (Inl er)
  then have "er = BufferAssert" using translate_ok [OF assms(1,2), of rmap addrs] by simp
  then have "lacks_room (94 + 55 * unat (num_insts vm)) jit_init"
    using translate_fits Inl jit_init_ok by (auto simp: fits_def)
  then show ?thesis using assms(2,3) by (simp add: lacks_room_def jit_init_def jit_buf_size_def)
next
  case (Inr st)
  then show ?thesis using translate_ok [OF assms(1,2), of rmap addrs] by simp
qed
section \<open>The instruction format\<close>

datatype x86_rm = XReg int | XMem int int

record x86_form =
  x_op16 :: bool
  x_w :: bool
  x_opcode :: "byte list"
  x_reg :: int
  x_rm :: x86_rm

definition x86_modrm :: "int \<Rightarrow> int \<Rightarrow> byte list \<Rightarrow> (int \<times> x86_rm \<times> byte list) option" where
  "x86_modrm rex_r rex_b bs = (case bs of [] \<Rightarrow> None
   | m # rest \<Rightarrow>
      (let md = uint (drop_bit 6 m); rg = uint (drop_bit 3 m AND 7) + 8 * rex_r; b = uint (m AND 7);
           base = b + 8 * rex_b in
       if md = 3 then Some (rg, XReg base, rest)
       else if b = 4 then None
       else if md = 0 then (if b = 5 then None else Some (rg, XMem base 0, rest))
       else if md = 1 then (case rest of [] \<Rightarrow> None | d # rest \<Rightarrow> Some (rg, XMem base (sint d), rest))
       else if length rest < 4 then None
       else Some (rg, XMem base (sint (le_word (take 4 rest) :: u32)), drop 4 rest)))"

definition x86_opcode :: "byte list \<Rightarrow> (byte list \<times> byte list) option" where
  "x86_opcode bs = (case bs of [] \<Rightarrow> None
     | o1 # rest \<Rightarrow> if o1 = 0x0f then (case rest of [] \<Rightarrow> None | o2 # rest \<Rightarrow> Some ([o1, o2], rest))
                  else Some ([o1], rest))"

definition x86_rex :: "byte list \<Rightarrow> (bool \<times> int \<times> int) \<times> byte list" where
  "x86_rex bs = (case bs of [] \<Rightarrow> ((False, 0, 0), [])
     | p # rest \<Rightarrow> if p AND 0xf0 = 0x40
         then ((bit p 3, uint (drop_bit 2 p AND 1), uint (p AND 1)), rest) else ((False, 0, 0), bs))"

definition x86_decode :: "byte list \<Rightarrow> (x86_form \<times> byte list) option" where
  "x86_decode bs =
    (let (op16, bs) = (case bs of p # rest \<Rightarrow> if p = 0x66 then (True, rest) else (False, bs) | [] \<Rightarrow> (False, bs));
         ((w, r, b), bs) = x86_rex bs in
     case x86_opcode bs of None \<Rightarrow> None
     | Some (opc, bs) \<Rightarrow>
        (case x86_modrm r b bs of None \<Rightarrow> None
         | Some (rg, rm, bs) \<Rightarrow> Some (\<lparr>x_op16 = op16, x_w = w, x_opcode = opc, x_reg = rg, x_rm = rm\<rparr>, bs)))"

definition modrm_byte :: "int \<Rightarrow> int \<Rightarrow> int \<Rightarrow> byte" where
  "modrm_byte md r m = word_of_int ((md AND 0xc0) OR push_bit 3 (r AND 7) OR (m AND 7))"

lemma modrm_fields_all:
  "list_all (\<lambda>md. list_all (\<lambda>r. list_all (\<lambda>m.
      uint (drop_bit 6 (modrm_byte md r m)) = md div 64 \<and>
      uint (drop_bit 3 (modrm_byte md r m) AND 7) + 8 * high_bit r = r \<and>
      uint (modrm_byte md r m AND 7) = m mod 8) [0..15]) [0..15]) [0, 64, 128, 192]"
  by code_simp

lemma in_upto: "(x :: int) \<in> set [a..b] \<longleftrightarrow> a \<le> x \<and> x \<le> b"
  by auto

lemma modrm_fields:
  assumes "md \<in> {0, 64, 128, 192}" "0 \<le> r" "r < 16" "0 \<le> m" "m < 16"
  shows "uint (drop_bit 6 (modrm_byte md r m)) = md div 64"
    "uint (drop_bit 3 (modrm_byte md r m) AND 7) + 8 * high_bit r = r"
    "uint (modrm_byte md r m AND 7) = m mod 8"
proof -
  have "md \<in> set [0, 64, 128, 192]" "r \<in> set [0..15]" "m \<in> set [0..15]"
    using assms by (auto simp only: in_upto list.set)
  then show "uint (drop_bit 6 (modrm_byte md r m)) = md div 64"
    "uint (drop_bit 3 (modrm_byte md r m) AND 7) + 8 * high_bit r = r"
    "uint (modrm_byte md r m AND 7) = m mod 8"
    using modrm_fields_all by (simp_all only: list_all_iff)
qed

lemma register_bits_all:
  "list_all (\<lambda>m. m mod 8 + 8 * high_bit m = m \<and> m AND 7 = m mod 8 \<and> (m AND 8 = 0 \<longrightarrow> high_bit m = 0)) [0..15 :: int]"
  by code_simp

lemma register_bits:
  assumes "0 \<le> m" "m < 16"
  shows "m mod 8 + 8 * high_bit m = m" "m AND 7 = m mod 8" "m AND 8 = 0 \<Longrightarrow> high_bit m = 0"
  using register_bits_all assms by (simp_all only: list_all_iff in_upto) auto

definition rex_byte :: "int \<Rightarrow> int \<Rightarrow> int \<Rightarrow> byte" where
  "rex_byte w r b = word_of_int (0x40 OR push_bit 3 w OR push_bit 2 r OR push_bit 1 0 OR b)"

definition rex_bytes :: "int \<Rightarrow> int \<Rightarrow> int \<Rightarrow> byte list" where
  "rex_bytes w s d = (if w \<noteq> 0 \<or> s AND 8 \<noteq> 0 \<or> d AND 8 \<noteq> 0 then [rex_byte w (high_bit s) (high_bit d)] else [])"

lemma high_bit_cases: "high_bit x = 0 \<or> high_bit x = 1"
  by (simp add: high_bit_def)

lemma rex_byte_fields:
  assumes "w \<in> {0, 1}" "r \<in> {0, 1}" "b \<in> {0, 1}"
  shows "rex_byte w r b AND 0xf0 = 0x40" "bit (rex_byte w r b) 3 \<longleftrightarrow> w = 1"
    "uint (drop_bit 2 (rex_byte w r b) AND 1) = r" "uint (rex_byte w r b AND 1) = b" "rex_byte w r b \<noteq> 0x66"
proof -
  have "list_all (\<lambda>w. list_all (\<lambda>r. list_all (\<lambda>b. rex_byte w r b AND 0xf0 = 0x40 \<and> (bit (rex_byte w r b) 3 \<longleftrightarrow> w = 1) \<and>
    uint (drop_bit 2 (rex_byte w r b) AND 1) = r \<and> uint (rex_byte w r b AND 1) = b \<and> rex_byte w r b \<noteq> 0x66)
    [0, 1]) [0, 1]) [0, 1]"
    by code_simp
  then show "rex_byte w r b AND 0xf0 = 0x40" "bit (rex_byte w r b) 3 \<longleftrightarrow> w = 1"
    "uint (drop_bit 2 (rex_byte w r b) AND 1) = r" "uint (rex_byte w r b AND 1) = b" "rex_byte w r b \<noteq> 0x66"
    using assms by auto
qed

text \<open>An opcode byte that is neither a prefix nor the escape to the two-byte opcodes.\<close>

definition plain_opcode :: "int \<Rightarrow> bool" where
  "plain_opcode op \<longleftrightarrow> 0 \<le> op \<and> op < 256 \<and> op \<noteq> 0x66 \<and> op \<noteq> 0x0f \<and> op div 16 \<noteq> 4"

lemma rex_decode:
  assumes "w \<in> {0, 1}" "0 \<le> s" "s < 16" "0 \<le> d" "d < 16" "c AND 0xf0 \<noteq> 0x40"
  shows "x86_rex (rex_bytes w s d @ c # rest) = ((w = 1, high_bit s, high_bit d), c # rest)"
  using rex_byte_fields [of w "high_bit s" "high_bit d"] assms high_bit_cases [of s] high_bit_cases [of d]
    register_bits(3) [of s] register_bits(3) [of d]
  by (auto simp: rex_bytes_def x86_rex_def)

lemma reg_decode:
  assumes "0 \<le> r" "r < 16" "0 \<le> m" "m < 16"
  shows "x86_modrm (high_bit r) (high_bit m) (modrm_byte 0xc0 r m # rest) = Some (r, XReg m, rest)"
  using modrm_fields [of 192 r m] assms register_bits(1) [of m] by (simp add: x86_modrm_def Let_def)

definition disp_bytes :: "int \<Rightarrow> int \<Rightarrow> int \<Rightarrow> byte list" where
  "disp_bytes r m d =
    (if d = 0 \<and> m AND 7 \<noteq> RBP then [modrm_byte 0 r m]
     else if d \<ge> -128 \<and> d \<le> 127 then [modrm_byte 0x40 r m, word_of_int d]
     else modrm_byte 0x80 r m # le_bytes 4 (word_of_int d :: u32))"

lemma mem_decode:
  assumes "0 \<le> r" "r < 16" "0 \<le> m" "m < 16" "m mod 8 \<noteq> 4" "- (2 ^ 31) \<le> d" "d < 2 ^ 31"
  shows "x86_modrm (high_bit r) (high_bit m) (disp_bytes r m d @ rest) = Some (r, XMem m d, rest)"
proof -
  have rm: "m AND 7 = m mod 8" "m mod 8 + 8 * high_bit m = m" using register_bits assms by auto
  have s8: "sint (word_of_int d :: byte) = d" if "-128 \<le> d" "d \<le> 127"
    using that by (simp add: sint_sbintrunc' signed_take_bit_int_eq_self)
  have s32: "sint (word_of_int d :: u32) = d"
    using assms by (simp add: sint_sbintrunc' signed_take_bit_int_eq_self)
  consider "d = 0" "m mod 8 \<noteq> 5" | "\<not> (d = 0 \<and> m mod 8 \<noteq> 5)" "-128 \<le> d" "d \<le> 127" | "d \<noteq> 0" "\<not> (-128 \<le> d \<and> d \<le> 127)"
    by fastforce
  then show ?thesis
  proof cases
    case 1
    then show ?thesis
      using modrm_fields [of 0 r m] assms rm by (simp add: disp_bytes_def RBP_def x86_modrm_def Let_def)
  next
    case 2
    then have "disp_bytes r m d = [modrm_byte 0x40 r m, word_of_int d]"
      using rm by (auto simp: disp_bytes_def RBP_def)
    then show ?thesis
      using 2 modrm_fields [of 64 r m] assms rm s8 by (simp add: x86_modrm_def Let_def)
  next
    case 3
    then have "disp_bytes r m d = modrm_byte 0x80 r m # le_bytes 4 (word_of_int d :: u32)"
      by (auto simp: disp_bytes_def)
    then show ?thesis
      using modrm_fields [of 128 r m] assms rm s32
      by (simp add: x86_modrm_def Let_def le32.dec_enc del: le_bytes.simps)
  qed
qed

section \<open>What the emitters write\<close>

lemma emit_assert_holds: "c \<Longrightarrow> emit_assert c = Inr"
  by (rule ext) (simp add: emit_assert_def)

lemma outputs_eq: "outputs e xs \<Longrightarrow> xs = ys \<Longrightarrow> outputs e ys"
  by simp

lemma outputs_emit1: "outputs (emit1 x) [word_of_int x]"
  using outputs_small(1) [of x] by simp

lemmas outputs_seq = outputs_Cons outputs_Nil outputs_emit1 outputs_small(2-4) outputs_jump_offset outputs_skip

lemma outputs_modrm:
  assumes "md \<in> {0, 64, 128, 192}"
  shows "outputs (emit_modrm md r m) [modrm_byte md r m]"
proof -
  have a: "md AND NOT 0xc0 = 0" using assms by auto
  show ?thesis
    unfolding emit_modrm_def modrm_byte_def emit_assert_holds [OF a]
    by (rule outputs_eq, (rule outputs_seq)+) simp
qed

lemma outputs_disp: "outputs (emit_modrm_and_displacement r m d) (disp_bytes r m d)"
proof -
  have "outputs (emits [emit_modrm 0x40 r m, emit1 d]) [modrm_byte 0x40 r m, word_of_int d]"
    by (rule outputs_eq, rule outputs_Cons, rule outputs_modrm, simp, (rule outputs_seq)+) simp
  moreover have "outputs (emits [emit_modrm 0x80 r m, emit4 d]) (modrm_byte 0x80 r m # le_bytes 4 (word_of_int d :: u32))"
    by (rule outputs_eq, rule outputs_Cons, rule outputs_modrm, simp, rule outputs_Cons, rule outputs_small(3), rule outputs_Nil)
      (simp del: le_bytes.simps)
  ultimately show ?thesis
    unfolding emit_modrm_and_displacement_def disp_bytes_def
    using outputs_modrm [of 0 r m] by simp
qed

lemma outputs_rex:
  assumes "w \<in> {0, 1}"
  shows "outputs (emit_rex w (high_bit s) 0 (high_bit d)) [rex_byte w (high_bit s) (high_bit d)]"
proof -
  have a: "w AND NOT 1 = 0" "high_bit s AND NOT 1 = 0" "high_bit d AND NOT 1 = 0" "(0 :: int) AND NOT 1 = 0"
    using assms by (auto simp: high_bit_def)
  show ?thesis
    unfolding emit_rex_def rex_byte_def emit_assert_holds [OF a(1)] emit_assert_holds [OF a(2)]
      emit_assert_holds [OF a(3)] emit_assert_holds [OF a(4)]
    by (rule outputs_eq, (rule outputs_seq)+) simp
qed

lemma outputs_basic_rex: "w \<in> {0, 1} \<Longrightarrow> outputs (emit_basic_rex w s d) (rex_bytes w s d)"
  unfolding emit_basic_rex_def rex_bytes_def by (rule outputs_when) (rule outputs_rex)

lemma outputs_alu:
  "outputs (emit_alu32 op s d) (rex_bytes 0 s d @ [word_of_int op, modrm_byte 0xc0 s d])"
  "outputs (emit_alu64 op s d) (rex_bytes 1 s d @ [word_of_int op, modrm_byte 0xc0 s d])"
  unfolding emit_alu32_def emit_alu64_def emit_modrm_reg2reg_def
  by (rule outputs_eq, rule outputs_Cons, rule outputs_basic_rex, simp, rule outputs_Cons, rule outputs_emit1,
      rule outputs_Cons, rule outputs_modrm, simp, rule outputs_Nil, simp)+

lemma outputs_one:
  "outputs (emits [emit1 a, emit_modrm_and_displacement r m d]) (word_of_int a # disp_bytes r m d)"
  by (rule outputs_eq, (rule outputs_seq outputs_disp)+) simp

lemma outputs_load:
  "outputs (emit_load sz s d off) (rex_bytes (if sz = S64 then 1 else 0) d s @
     (case sz of S8 \<Rightarrow> [0x0f, 0xb6] | S16 \<Rightarrow> [0x0f, 0xb7] | _ \<Rightarrow> [0x8b]) @ disp_bytes d s off)"
proof -
  have rex: "outputs (emits (emit_basic_rex w d s # es)) (rex_bytes w d s @ bs)"
    if "outputs (emits es) bs" "w \<in> {0, 1}" for es bs w
    using outputs_Cons [OF outputs_basic_rex [OF that(2)] that(1)] .
  note two = outputs_Cons [OF outputs_emit1 [of "0x0f"] outputs_one]
  show ?thesis
    unfolding emit_load_def
    using rex [OF two [of "0xb6" d s off], of 0] rex [OF two [of "0xb7" d s off], of 0]
      rex [OF outputs_one [of "0x8b" d s off], of 0] rex [OF outputs_one [of "0x8b" d s off], of 1]
    by (cases sz) simp_all
qed

definition store_prefix :: "operand_size \<Rightarrow> int \<Rightarrow> int \<Rightarrow> byte list" where
  "store_prefix sz s d = (if sz = S16 then [0x66] else []) @
     (if sz = S8 then [rex_byte 0 (high_bit s) (high_bit d)] else rex_bytes (if sz = S64 then 1 else 0) s d)"

lemma outputs_store:
  "outputs (emit_store sz s d off)
     (store_prefix sz s d @ [if sz = S8 then 0x88 else 0x89] @ disp_bytes s d off)"
proof -
  let ?w = "if sz = S64 then 1 else (0::int)"
  let ?c = "?w \<noteq> 0 \<or> s AND 8 \<noteq> 0 \<or> d AND 8 \<noteq> 0 \<or> sz = S8"
  have "outputs (emit_when ?c (emit_rex ?w (high_bit s) 0 (high_bit d)))
      (if ?c then [rex_byte ?w (high_bit s) (high_bit d)] else [])"
    by (rule outputs_when, rule outputs_rex) simp
  then have r: "outputs (emit_when ?c (emit_rex ?w (high_bit s) 0 (high_bit d)))
      (if sz = S8 then [rex_byte 0 (high_bit s) (high_bit d)] else rex_bytes ?w s d)"
    by (rule outputs_eq) (auto simp: rex_bytes_def)
  show ?thesis
    unfolding emit_store_def Let_def store_prefix_def
    by (rule outputs_eq, rule outputs_Cons, rule outputs_when, rule outputs_emit1, rule outputs_Cons, rule r,
        rule outputs_Cons, rule outputs_emit1, rule outputs_Cons, rule outputs_disp, rule outputs_Nil) simp
qed

section \<open>Decoding them\<close>

lemma plain_opcode_word:
  assumes "plain_opcode op"
  shows "(word_of_int op :: byte) AND 0xf0 \<noteq> 0x40" "(word_of_int op :: byte) \<noteq> 0x66" "(word_of_int op :: byte) \<noteq> 0x0f"
proof -
  have "list_all (\<lambda>op. (op \<noteq> 0x66 \<and> op \<noteq> 0x0f \<and> op div 16 \<noteq> 4) \<longrightarrow> (word_of_int op :: byte) AND 0xf0 \<noteq> 0x40 \<and>
     (word_of_int op :: byte) \<noteq> 0x66 \<and> (word_of_int op :: byte) \<noteq> 0x0f) [0..255 :: int]"
    by code_simp
  moreover have "op \<in> set [0..255]" using assms by (simp only: in_upto plain_opcode_def) simp
  ultimately have "op \<noteq> 0x66 \<and> op \<noteq> 0x0f \<and> op div 16 \<noteq> 4 \<longrightarrow> (word_of_int op :: byte) AND 0xf0 \<noteq> 0x40 \<and>
     (word_of_int op :: byte) \<noteq> 0x66 \<and> (word_of_int op :: byte) \<noteq> 0x0f"
    unfolding list_all_iff by (rule bspec)
  then show "(word_of_int op :: byte) AND 0xf0 \<noteq> 0x40" "(word_of_int op :: byte) \<noteq> 0x66" "(word_of_int op :: byte) \<noteq> 0x0f"
    using assms by (simp_all only: plain_opcode_def simp_thms not_False_eq_True)
qed

lemma no_op16:
  assumes "bs \<noteq> []" "hd bs \<noteq> 0x66"
  shows "x86_decode bs = (let ((w, r, b), bs) = x86_rex bs in
     case x86_opcode bs of None \<Rightarrow> None
     | Some (opc, bs) \<Rightarrow>
        (case x86_modrm r b bs of None \<Rightarrow> None
         | Some (rg, rm, bs) \<Rightarrow> Some (\<lparr>x_op16 = False, x_w = w, x_opcode = opc, x_reg = rg, x_rm = rm\<rparr>, bs)))"
  using assms by (cases bs) (auto simp: x86_decode_def)

lemma rex_bytes_hd:
  assumes "w \<in> {0, 1}" "c \<noteq> 0x66"
  shows "rex_bytes w s d @ c # rest \<noteq> []" "hd (rex_bytes w s d @ c # rest) \<noteq> 0x66"
  using rex_byte_fields(5) [of w "high_bit s" "high_bit d"] assms high_bit_cases [of s] high_bit_cases [of d]
  by (auto simp: rex_bytes_def)

lemma alu_decode:
  assumes "w \<in> {0, 1}" "0 \<le> s" "s < 16" "0 \<le> d" "d < 16" "plain_opcode op"
  shows "x86_decode (rex_bytes w s d @ word_of_int op # modrm_byte 0xc0 s d # rest) =
    Some (\<lparr>x_op16 = False, x_w = (w = 1), x_opcode = [word_of_int op], x_reg = s, x_rm = XReg d\<rparr>, rest)"
  using no_op16 [OF rex_bytes_hd [OF assms(1) plain_opcode_word(2) [OF assms(6)]]]
    rex_decode [OF assms(1-5) plain_opcode_word(1) [OF assms(6)]] plain_opcode_word(3) [OF assms(6)]
    reg_decode [OF assms(2-5)]
  by (simp add: x86_opcode_def)

definition load_opcode :: "operand_size \<Rightarrow> byte list" where
  "load_opcode sz = (case sz of S8 \<Rightarrow> [0x0f, 0xb6] | S16 \<Rightarrow> [0x0f, 0xb7] | _ \<Rightarrow> [0x8b])"

lemma load_decode:
  assumes "0 \<le> d" "d < 16" "0 \<le> s" "s < 16" "s mod 8 \<noteq> 4" "- (2 ^ 31) \<le> off" "off < 2 ^ 31"
  shows "x86_decode (rex_bytes (if sz = S64 then 1 else 0) d s @ load_opcode sz @ disp_bytes d s off) =
    Some (\<lparr>x_op16 = False, x_w = (sz = S64), x_opcode = load_opcode sz, x_reg = d, x_rm = XMem s off\<rparr>, [])"
proof -
  let ?w = "if sz = S64 then 1 else (0 :: int)"
  have w: "?w \<in> {0, 1}" by simp
  obtain c rest where c: "load_opcode sz = c # rest" and ok: "c \<noteq> 0x66" "c AND 0xf0 \<noteq> 0x40"
    and o: "x86_opcode (c # rest @ disp_bytes d s off) = Some (load_opcode sz, disp_bytes d s off)"
    by (cases sz) (auto simp: load_opcode_def x86_opcode_def)
  show ?thesis
    using no_op16 [OF rex_bytes_hd [OF w ok(1)], of d s "rest @ disp_bytes d s off"] o
      rex_decode [OF w assms(1-4) ok(2), of "rest @ disp_bytes d s off"] mem_decode [OF assms, of "[]"]
    by (simp add: c)
qed

lemma op16_prefix:
  "x86_decode (0x66 # bs) = (let ((w, r, b), bs) = x86_rex bs in
     case x86_opcode bs of None \<Rightarrow> None
     | Some (opc, bs) \<Rightarrow>
        (case x86_modrm r b bs of None \<Rightarrow> None
         | Some (rg, rm, bs) \<Rightarrow> Some (\<lparr>x_op16 = True, x_w = w, x_opcode = opc, x_reg = rg, x_rm = rm\<rparr>, bs)))"
  by (simp add: x86_decode_def)

lemma store_decode:
  assumes "0 \<le> s" "s < 16" "0 \<le> d" "d < 16" "d mod 8 \<noteq> 4" "- (2 ^ 31) \<le> off" "off < 2 ^ 31"
  shows "x86_decode (store_prefix sz s d @ [if sz = S8 then 0x88 else 0x89] @ disp_bytes s d off) =
    Some (\<lparr>x_op16 = (sz = S16), x_w = (sz = S64), x_opcode = [if sz = S8 then 0x88 else 0x89],
           x_reg = s, x_rm = XMem d off\<rparr>, [])"
proof -
  let ?w = "if sz = S64 then 1 else (0 :: int)" and ?c = "if sz = S8 then 0x88 else 0x89 :: byte"
  have w: "?w \<in> {0, 1}" by simp
  have ok: "?c \<noteq> 0x66" "?c AND 0xf0 \<noteq> 0x40" "?c \<noteq> 0x0f" by simp_all
  note rest = rex_decode [OF w assms(1-4) ok(2), of "disp_bytes s d off"] mem_decode [OF assms, of "[]"]
    no_op16 [OF rex_bytes_hd [OF w ok(1)], of s d "disp_bytes s d off"]
  show ?thesis
  proof (cases "sz = S8")
    case True
    have hb: "high_bit s \<in> {0, 1}" "high_bit d \<in> {0, 1}" using high_bit_cases by auto
    show ?thesis
      using True rex_byte_fields [of 0 "high_bit s" "high_bit d"] hb mem_decode [OF assms, of "[]"]
      by (simp add: store_prefix_def x86_decode_def x86_rex_def x86_opcode_def)
  next
    case False
    then show ?thesis
      using rest ok by (cases "sz = S16") (simp_all add: store_prefix_def op16_prefix x86_opcode_def)
  qed
qed
end
