(* ===== verification/Jit_Theorems.thy ===== *)
theory Jit_Theorems
  imports Jit_Encoding Ubpf_Examples
begin

text \<open>
  The properties of the x86-64 compiler, over the lemmas of Jit_Correct and Jit_Encoding:
  which programs it translates, where the jumps of the translated code arrive, what
  \<^verbatim>\<open>ubpf_set_register_offset\<close> does to the register map, and how the emitted
  instructions decode.
\<close>

section \<open>Concrete compilations\<close>

definition demo_addrs :: jit_addrs where
  "demo_addrs = \<lparr>addr_stderr = 0x7000, addr_fmt = 0x7100, addr_fprintf = 0x7200\<rparr>"

definition jit_vm :: "ebpf_inst list \<Rightarrow> ubpf_vm" where
  "jit_vm p = (tiny_vm p)\<lparr>num_insts := of_nat (length p)\<rparr>"

definition demo_translate :: "ebpf_inst list \<Rightarrow> jit_error + jit_state" where
  "demo_translate p = translate (jit_vm p) register_map demo_addrs p jit_init"

lemma demo_wf: "wf_prog (tiny_vm []) prog_sum"
  using tiny_valid(4) validate_iff_wf by blast

lemma demo_length: "length prog_sum = 6"
  by (simp add: prog_sum_def)

lemma demo_num_insts: "unat (num_insts (jit_vm prog_sum)) = length prog_sum"
  by (simp add: jit_vm_def demo_length)

lemma emits_last: "emits (es @ [e]) st = Inr st' \<Longrightarrow> \<exists>s. e s = Inr st'"
  by (induction es arbitrary: st) (auto simp: bindE_Inr_iff)

lemma translate_has_jump:
  assumes "translate vm rmap addrs code st0 = Inr st"
  shows "0 < num_jumps st"
proof -
  obtain s1 where "translate_epilogue rmap addrs s1 = Inr st"
    using emits_last [of "[translate_prologue rmap, translate_loop vm rmap code 0]" "translate_epilogue rmap addrs"]
      assms unfolding translate_def append.simps by blast
  then obtain s2 where "translate_div_by_zero rmap addrs s2 = Inr st"
    by (auto simp: translate_epilogue_def bindE_Inr_iff)
  then obtain s3 where "emit_jmp TARGET_PC_EXIT s3 = Inr st"
    using emits_last [of "[emit_load_imm RDI (sint (addr_stderr addrs)), emit_load_imm RSI (sint (addr_fmt addrs)),
      emit_mov RCX RDX, emit_call (addr_fprintf addrs), emit_load_imm (rmap ! 0) (-1)]" "emit_jmp TARGET_PC_EXIT"]
    unfolding translate_div_by_zero_def append.simps by blast
  then obtain s4 where "emit_jump_offset TARGET_PC_EXIT s4 = Inr st"
    using emits_last [of "[emit1 0xe9]" "emit_jump_offset TARGET_PC_EXIT"]
    unfolding emit_jmp_def append.simps by blast
  then show ?thesis
    by (auto simp: emit_jump_offset_def emit4_def emit_bytes_def Let_def bindE_Inr_iff split: if_splits)
qed

lemma demo_translated:
  obtains st where "translate (jit_vm prog_sum) register_map demo_addrs prog_sum jit_init = Inr st"
    "translated prog_sum st" "0 < num_jumps st"
  using translate_succeeds [OF demo_wf demo_num_insts, of register_map demo_addrs] translate_has_jump
  by (auto simp: demo_length)

lemma emits_from_init:
  assumes "emitter_ok 0 UNIV e" and "fits n e" and "n \<le> 65536"
  obtains st where "e jit_init = Inr st"
proof (cases "e jit_init")
  case (Inl er)
  then have "no_room 0 jit_init er" by (rule emitter_okD(2) [OF assms(1) jit_init_ok])
  then have "er = BufferAssert" by (simp add: no_room_def jit_init_def MAX_INSTS_def)
  then have "lacks_room n jit_init" using fitsD(2) [OF assms(2) jit_init_ok] Inl by simp
  then show ?thesis using assms(3) by (simp add: lacks_room_def jit_init_def jit_buf_size_def)
qed

section \<open>The translation\<close>

text \<open>
  C12: the translation of a program that the verifier accepts, of at most 1189 instructions,
  always succeeds: no assertion fails, no instruction is unknown, the jump table does not
  overflow, and the code fits the 64 KiB buffer.
\<close>

theorem translate_accepted_program:
  assumes "wf_prog vm0 code" and "unat (num_insts vm) = length code" and "length code \<le> 1189"
  shows "\<exists>st. translate vm rmap addrs code jit_init = Inr st \<and> unat (jit_offset st) \<le> 65536 \<and>
    num_jumps st \<le> Suc (length code)"
proof -
  obtain st where st: "translate vm rmap addrs code jit_init = Inr st" "translated code st"
    "num_jumps st \<le> Suc (length code)"
    using translate_succeeds [OF assms] by blast
  have "unat jit_buf_size = 65536" by (simp add: jit_buf_size_def)
  moreover have "unat (jit_offset st) \<le> unat jit_buf_size"
    using st(2) unfolding translated_def jit_ok_def by metis
  ultimately have "unat (jit_offset st) \<le> 65536" by simp
  with st show ?thesis by blast
qed

theorem translate_accepted_program_witness:
  "\<exists>st. demo_translate prog_sum = Inr st \<and> unat (jit_offset st) \<le> 65536 \<and> num_jumps st \<le> 7"
  using translate_accepted_program [OF demo_wf demo_num_insts, of register_map demo_addrs]
  by (simp add: demo_translate_def demo_length)

text \<open>
  Whatever the length of an accepted program, the only way its translation can fail is
  the assertion that the buffer has room.
\<close>

lemma translate_fails_only_when_full:
  assumes "wf_prog vm0 code" and "unat (num_insts vm) = length code"
  shows "(\<exists>st. translate vm rmap addrs code jit_init = Inr st) \<or>
    translate vm rmap addrs code jit_init = Inl BufferAssert"
  using translate_ok [OF assms, of rmap addrs] by (cases "translate vm rmap addrs code jit_init") auto



text \<open>
  \<^verbatim>\<open>resolve_jumps\<close> changes nothing of the code but the displacements of the recorded jumps.
\<close>

lemma resolve_jumps_changes_displacements_only:
  assumes "wf_prog vm0 code" and "unat (num_insts vm) = length code"
    and "translate vm rmap addrs code jit_init = Inr st"
    and "\<forall>k < num_jumps st. i < unat (offset_loc (jumps st k)) \<or> unat (offset_loc (jumps st k)) + 4 \<le> i"
  shows "buf (resolve_jumps st) i = buf st i"
proof -
  have "jit_ok st" using translate_ok [OF assms(1,2), of rmap addrs] assms(3) by (simp add: translated_def)
  then show ?thesis using resolve_jumps_frame assms(4) by (simp add: jump_end_def)
qed

section \<open>The register map\<close>

text \<open>
  \<^verbatim>\<open>ubpf_set_register_offset\<close> with a number that is not negative permutes the register map,
  whatever numbers \<^verbatim>\<open>rand_r\<close> yields, so no x86 register is used for two eBPF registers, and
  the stack pointer and the scratch register are never used.
\<close>

theorem register_map_permuted:
  assumes "mset rmap = mset register_map" and "0 \<le> x"
  shows "\<exists>r. ubpf_set_register_offset rnd x rmap = Some r \<and> mset r = mset register_map \<and> distinct r \<and>
    RSP \<notin> set r \<and> RCX \<notin> set r \<and> R12 \<notin> set r"
proof -
  have "length rmap = REGISTER_MAP_SIZE"
    using mset_eq_length [OF assms(1)] by (simp add: register_map_def REGISTER_MAP_SIZE_def)
  then obtain r where r: "ubpf_set_register_offset rnd x rmap = Some r" "mset r = mset register_map"
    using set_register_offset_Some assms by metis
  then have "set r = set register_map" "distinct r \<longleftrightarrow> distinct register_map"
    using mset_eq_setD mset_eq_imp_distinct_iff by blast+
  then show ?thesis using r by (simp add: register_map_def x86_register_numbers)
qed

theorem register_map_permuted_witness:
  "\<exists>r. ubpf_set_register_offset (\<lambda>_ i. i) 3 register_map = Some r \<and> distinct r"
  using register_map_permuted [OF refl, of 3 "\<lambda>_ i. i"] by auto

text \<open>
  With a negative number it reads outside its copy of the map: \<^verbatim>\<open>%\<close> keeps the sign.
\<close>

lemma register_offset_negative: "x < 0 \<Longrightarrow> ubpf_set_register_offset rnd x rmap = None"
  by (rule set_register_offset_None)

lemma alu_encoding_decodes:
  assumes "jit_ok st" and "(if w then emit_alu64 op s d else emit_alu32 op s d) st = Inr st'"
    and "0 \<le> s" "s < 16" "0 \<le> d" "d < 16" and "plain_opcode op"
  shows "x86_decode (emitted st st') = Some (\<lparr>x_op16 = False, x_w = w, x_opcode = [word_of_int op],
    x_reg = s, x_rm = XReg d\<rparr>, [])"
proof (cases w)
  case True
  then have "emitted st st' = rex_bytes 1 s d @ word_of_int op # modrm_byte 0xc0 s d # []"
    using outputsD(1) [OF outputs_alu(2) assms(1)] assms(2) by simp
  then show ?thesis using alu_decode [OF _ assms(3-7), of 1 "[]"] True by simp
next
  case False
  then have "emitted st st' = rex_bytes 0 s d @ word_of_int op # modrm_byte 0xc0 s d # []"
    using outputsD(1) [OF outputs_alu(1) assms(1)] assms(2) by simp
  then show ?thesis using alu_decode [OF _ assms(3-7), of 0 "[]"] False by simp
qed

lemma memory_encoding_decodes:
  assumes "jit_ok st" and "0 \<le> r" "r < 16" "0 \<le> b" "b < 16" and "b mod 8 \<noteq> RSP"
    and "- (2 ^ 31) \<le> off" "off < 2 ^ 31"
  shows "(emit_load sz b r off st = Inr st' \<longrightarrow>
      x86_decode (emitted st st') = Some (\<lparr>x_op16 = False, x_w = (sz = S64), x_opcode = load_opcode sz,
        x_reg = r, x_rm = XMem b off\<rparr>, [])) \<and>
    (emit_store sz r b off st = Inr st' \<longrightarrow>
      x86_decode (emitted st st') = Some (\<lparr>x_op16 = (sz = S16), x_w = (sz = S64),
        x_opcode = [if sz = S8 then 0x88 else 0x89], x_reg = r, x_rm = XMem b off\<rparr>, []))"
  using outputsD(1) [OF outputs_load assms(1), of sz b r off st'] load_decode [of r b off sz]
    outputsD(1) [OF outputs_store assms(1), of sz r b off st'] store_decode [of r b off sz] assms
  by (auto simp: RSP_def load_opcode_def)

text \<open>
  C14: a register-to-register instruction decodes, by the rules of the x86 encoding, to its opcode, operands and operand
  size, for all sixteen registers; a load or a store decodes to a memory operand with the base register and the
  displacement it was emitted for, whether that takes no byte, one byte or four; the base registers whose encoding means
  something else are \<^verbatim>\<open>RSP\<close> and \<^verbatim>\<open>R12\<close>, which the register map does not contain.
\<close>

theorem encodings_decode:
  assumes "jit_ok st" and "0 \<le> r" "r < 16" "0 \<le> b" "b < 16"
  shows "(plain_opcode op \<and> (if w then emit_alu64 op r b else emit_alu32 op r b) st = Inr st' \<longrightarrow>
      x86_decode (emitted st st') = Some (\<lparr>x_op16 = False, x_w = w, x_opcode = [word_of_int op], x_reg = r, x_rm = XReg b\<rparr>, [])) \<and>
    (b mod 8 \<noteq> RSP \<and> - (2 ^ 31) \<le> off \<and> off < 2 ^ 31 \<longrightarrow>
      (emit_load sz b r off st = Inr st' \<longrightarrow>
        x86_decode (emitted st st') = Some (\<lparr>x_op16 = False, x_w = (sz = S64), x_opcode = load_opcode sz,
          x_reg = r, x_rm = XMem b off\<rparr>, [])) \<and>
      (emit_store sz r b off st = Inr st' \<longrightarrow>
        x86_decode (emitted st st') = Some (\<lparr>x_op16 = (sz = S16), x_w = (sz = S64),
          x_opcode = [if sz = S8 then 0x88 else 0x89], x_reg = r, x_rm = XMem b off\<rparr>, [])))"
  using alu_encoding_decodes [OF assms(1) _ assms(2-5), of w op st'] memory_encoding_decodes [OF assms, of off sz st'] by blast

theorem encodings_decode_witness:
  "(\<exists>st'. emit_alu64 0x89 R9 RBX jit_init = Inr st' \<and>
    x86_decode (emitted jit_init st') = Some (\<lparr>x_op16 = False, x_w = True, x_opcode = [0x89], x_reg = 9, x_rm = XReg 3\<rparr>, [])) \<and>
   (\<exists>st'. emit_load S16 R13 RAX 0 jit_init = Inr st' \<and>
    x86_decode (emitted jit_init st') = Some (\<lparr>x_op16 = False, x_w = False, x_opcode = [0x0f, 0xb7],
      x_reg = 0, x_rm = XMem 13 0\<rparr>, []))"
proof
  obtain st' where e: "emit_alu64 0x89 R9 RBX jit_init = Inr st'"
    by (rule emits_from_init [OF _ fits_alu(2)]) (rule emitter_rules, simp)
  with encodings_decode [OF jit_init_ok, where r = R9 and b = RBX and op = "0x89" and w = True and st' = st']
  show "\<exists>st'. emit_alu64 0x89 R9 RBX jit_init = Inr st' \<and>
      x86_decode (emitted jit_init st') = Some (\<lparr>x_op16 = False, x_w = True, x_opcode = [0x89], x_reg = 9, x_rm = XReg 3\<rparr>, [])"
    by (simp add: x86_register_numbers plain_opcode_def)
  obtain st' where e: "emit_load S16 R13 RAX 0 jit_init = Inr st'"
    by (rule emits_from_init [OF _ fits_mem(1)]) (rule emitter_rules, simp)
  with encodings_decode [OF jit_init_ok, where r = RAX and b = R13 and sz = S16 and off = "0" and st' = st']
  show "\<exists>st'. emit_load S16 R13 RAX 0 jit_init = Inr st' \<and>
      x86_decode (emitted jit_init st') = Some (\<lparr>x_op16 = False, x_w = False, x_opcode = [0x0f, 0xb7],
        x_reg = 0, x_rm = XMem 13 0\<rparr>, [])"
    by (simp add: x86_register_numbers load_opcode_def)
qed

end
