(* ===== verification/Etherbone.thy ===== *)
theory Etherbone
  imports C_Heap
begin

text \<open>
  The Etherbone client library, \<^verbatim>\<open>tools/wishbone-utils/libeb-c/etherbone.c\<close>: packets,
  reads and writes over a connection, and the opening and closing of connections.
  The network is an argument: the four socket calls that carry data are the fields
  of \<open>net\<close>, over any network state.  The calls that create and close descriptors
  and blocks work on the state \<open>os\<close>, in which an oracle decides which of them fail;
  \<open>open_fds\<close> are the descriptors of the whole process.
\<close>

section \<open>Packets\<close>

definition eb_unfill_read32 :: "byte list \<Rightarrow> u32" where
  "eb_unfill_read32 buffer = be_word (take 4 (drop 16 buffer))"

definition memcpy_at :: "byte list \<Rightarrow> nat \<Rightarrow> byte list \<Rightarrow> byte list" where
  "memcpy_at buffer off bs = take off buffer @ bs @ drop (off + length bs) buffer"

definition eb_fill_readwrite32 :: "u32 \<Rightarrow> u32 \<Rightarrow> bool \<Rightarrow> byte list" where
  "eb_fill_readwrite32 data address is_read =
    (let b = replicate 20 0;
         b = b[0 := 0x4e, 1 := 0x6f, 2 := 0x10, 3 := 0x44, 4 := 0, 5 := 0, 6 := 0, 7 := 0];
         b = b[8 := 0, 9 := 0x0f]
     in if is_read then
          (let b = b[10 := 0, 11 := 1] in memcpy_at b 16 (be_bytes 4 address))
        else
          (let b = b[10 := 1, 11 := 0]; b = memcpy_at b 12 (be_bytes 4 address)
           in memcpy_at b 16 (be_bytes 4 data)))"

definition eb_fill_write32 :: "u32 \<Rightarrow> u32 \<Rightarrow> byte list" where
  "eb_fill_write32 data address = eb_fill_readwrite32 data address False"

definition eb_fill_read32 :: "u32 \<Rightarrow> byte list" where
  "eb_fill_read32 address = eb_fill_readwrite32 0 address True"

section \<open>Transfers\<close>

record eb_connection =
  conn_block :: nat
  fd :: int
  read_fd :: int
  is_direct :: bool
  conn_addr :: nat

text \<open>
  Each call gets the descriptor and the data, or the most bytes it may deliver;
  a receiving call returns its count and the bytes it stored.
\<close>

record 'n net =
  sendto :: "int \<Rightarrow> nat \<Rightarrow> byte list \<Rightarrow> 'n \<Rightarrow> int \<times> 'n"
  write_fd :: "int \<Rightarrow> byte list \<Rightarrow> 'n \<Rightarrow> int \<times> 'n"
  recvfrom :: "int \<Rightarrow> nat \<Rightarrow> 'n \<Rightarrow> (int \<times> byte list) \<times> 'n"
  read_from :: "int \<Rightarrow> nat \<Rightarrow> 'n \<Rightarrow> (int \<times> byte list) \<times> 'n"

definition eb_send :: "'n net \<Rightarrow> eb_connection \<Rightarrow> byte list \<Rightarrow> 'n \<Rightarrow> int \<times> 'n" where
  "eb_send ops conn bytes n =
    (if is_direct conn then sendto ops (fd conn) (conn_addr conn) bytes n
     else write_fd ops (fd conn) bytes n)"

text \<open>The buffer afterwards: the bytes received over the ones it held.\<close>

definition eb_recv ::
  "'n net \<Rightarrow> eb_connection \<Rightarrow> byte list \<Rightarrow> 'n \<Rightarrow> (int \<times> byte list) \<times> 'n" where
  "eb_recv ops conn bytes n =
    (case (if is_direct conn then recvfrom ops (read_fd conn) (length bytes) n
           else read_from ops (fd conn) (length bytes) n) of
       ((cnt, bs), n) \<Rightarrow> ((cnt, memcpy_at bytes 0 (take (length bytes) bs)), n))"

definition eb_write32 :: "'n net \<Rightarrow> eb_connection \<Rightarrow> u32 \<Rightarrow> u32 \<Rightarrow> 'n \<Rightarrow> 'n" where
  "eb_write32 ops conn val addr n = snd (eb_send ops conn (eb_fill_write32 val addr) n)"

definition eb_read32 :: "'n net \<Rightarrow> eb_connection \<Rightarrow> u32 \<Rightarrow> 'n \<Rightarrow> u32 \<times> 'n" where
  "eb_read32 ops conn addr n =
    (let raw_pkt = eb_fill_read32 addr; (_, n) = eb_send ops conn raw_pkt n;
         ((cnt, raw_pkt), n) = eb_recv ops conn raw_pkt n
     in if cnt \<noteq> 20 then (-1, n) else (eb_unfill_read32 raw_pkt, n))"

section \<open>Connections\<close>

record os =
  os_heap :: heap
  open_fds :: "int set"
  next_fd :: int
  syscalls :: nat
  fails :: "nat \<Rightarrow> bool"

definition os_ok :: "os \<Rightarrow> bool" where
  "os_ok os \<longleftrightarrow> heap_ok (os_heap os) \<and> 0 < next_fd os \<and> (\<forall>d \<in> open_fds os. 0 \<le> d \<and> d < next_fd os)"

definition os_malloc :: "os \<Rightarrow> nat option \<times> os" where
  "os_malloc os = (case malloc (os_heap os) of (p, h) \<Rightarrow> (p, os\<lparr>os_heap := h\<rparr>))"

definition os_free :: "nat \<Rightarrow> os \<Rightarrow> os" where
  "os_free b os = os\<lparr>os_heap := free (Some b) (os_heap os)\<rparr>"

text \<open>A call that the oracle may let fail: \<^verbatim>\<open>bind\<close>, \<^verbatim>\<open>connect\<close>.\<close>

definition os_call :: "os \<Rightarrow> bool \<times> os" where
  "os_call os = (\<not> fails os (syscalls os), os\<lparr>syscalls := Suc (syscalls os)\<rparr>)"

definition os_socket :: "os \<Rightarrow> int \<times> os" where
  "os_socket os = (case os_call os of (ok, os) \<Rightarrow>
     if ok then (next_fd os, os\<lparr>open_fds := insert (next_fd os) (open_fds os), next_fd := next_fd os + 1\<rparr>)
     else (-1, os))"

definition os_close :: "int \<Rightarrow> os \<Rightarrow> os" where
  "os_close d os = os\<lparr>open_fds := open_fds os - {d}\<rparr>"

text \<open>\<^verbatim>\<open>getaddrinfo\<close>: an error code, or 0 and a list that \<^verbatim>\<open>freeaddrinfo\<close> gives back.\<close>

definition os_getaddrinfo :: "os \<Rightarrow> nat option \<times> os" where
  "os_getaddrinfo os = (case os_call os of (ok, os) \<Rightarrow> if ok then os_malloc os else (None, os))"

text \<open>
  \<open>junk\<close> is what the block from \<^verbatim>\<open>malloc\<close> holds where \<^verbatim>\<open>read_fd\<close> is; the address and
  the port only reach \<^verbatim>\<open>getaddrinfo\<close>, whose answer the oracle gives.
\<close>

definition eb_connect_direct :: "nat \<Rightarrow> nat \<Rightarrow> os \<Rightarrow> eb_connection option \<times> os" where
  "eb_connect_direct conn res os =
    (case os_socket os of (rx_socket, os) \<Rightarrow>
     if rx_socket = -1 then (None, os_free conn (os_free res os))
     else case os_call os of (bound, os) \<Rightarrow>
     if \<not> bound then (None, os_free conn (os_free res (os_close rx_socket os)))
     else case os_socket os of (tx_socket, os) \<Rightarrow>
     if tx_socket = -1 then
       (None, os_free conn (os_free res (os_close tx_socket (os_close rx_socket os))))
     else (Some \<lparr>conn_block = conn, fd = tx_socket, read_fd = rx_socket, is_direct = True,
                 conn_addr = res\<rparr>, os))"

definition eb_connect_tcp :: "nat \<Rightarrow> nat \<Rightarrow> int \<Rightarrow> os \<Rightarrow> eb_connection option \<times> os" where
  "eb_connect_tcp conn res junk os =
    (case os_socket os of (sock, os) \<Rightarrow>
     if sock = -1 then (None, os_free conn (os_free res os))
     else case os_call os of (connected, os) \<Rightarrow>
     if \<not> connected then (None, os_free conn (os_free res (os_close sock os)))
     else (Some \<lparr>conn_block = conn, fd = sock, read_fd = junk, is_direct = False,
                 conn_addr = res\<rparr>, os))"

definition eb_connect :: "bool \<Rightarrow> int \<Rightarrow> os \<Rightarrow> eb_connection option \<times> os" where
  "eb_connect direct junk os =
    (case os_malloc os of
       (None, os) \<Rightarrow> (None, os)
     | (Some conn, os) \<Rightarrow>
        (case os_getaddrinfo os of
           (None, os) \<Rightarrow> (None, os_free conn os)
         | (Some res, os) \<Rightarrow>
             if direct then eb_connect_direct conn res os else eb_connect_tcp conn res junk os))"

definition eb_disconnect :: "eb_connection option \<Rightarrow> os \<Rightarrow> eb_connection option \<times> os" where
  "eb_disconnect conn os =
    (case conn of
       None \<Rightarrow> (None, os)
     | Some c \<Rightarrow>
        (let os = os_free (conn_addr c) os; os = os_close (fd c) os;
             os = (if read_fd c \<noteq> 0 then os_close (read_fd c) os else os)
         in (None, os_free (conn_block c) os)))"

section \<open>The packet format\<close>

text \<open>
  The format that \<^verbatim>\<open>etherbone.h\<close> documents, read back: magic, version 1, 32-bit
  addresses and ports, one record that is a write or a read of one word.
\<close>

datatype eb_request = EbWrite u32 u32 | EbRead u32

definition eb_parse :: "byte list \<Rightarrow> eb_request option" where
  "eb_parse pkt =
    (if length pkt = 20 \<and> take 10 pkt = [0x4e, 0x6f, 0x10, 0x44, 0, 0, 0, 0, 0, 0x0f] then
       (if pkt ! 10 = 1 \<and> pkt ! 11 = 0 then
          Some (EbWrite (be_word (take 4 (drop 12 pkt))) (be_word (take 4 (drop 16 pkt))))
        else if pkt ! 10 = 0 \<and> pkt ! 11 = 1 then Some (EbRead (be_word (take 4 (drop 16 pkt))))
        else None)
     else None)"

lemma length_memcpy_at [simp]:
  "off + length bs \<le> length b \<Longrightarrow> length (memcpy_at b off bs) = length b"
  by (simp add: memcpy_at_def)

lemma fill_write_bytes:
  "eb_fill_write32 data address =
     [0x4e, 0x6f, 0x10, 0x44, 0, 0, 0, 0, 0, 0x0f, 1, 0] @ be_bytes 4 address @ be_bytes 4 data"
  by (simp add: eb_fill_write32_def eb_fill_readwrite32_def memcpy_at_def numeral_eq_Suc Let_def
      del: le_bytes.simps)

lemma fill_read_bytes:
  "eb_fill_read32 address =
     [0x4e, 0x6f, 0x10, 0x44, 0, 0, 0, 0, 0, 0x0f, 0, 1, 0, 0, 0, 0] @ be_bytes 4 address"
  by (simp add: eb_fill_read32_def eb_fill_readwrite32_def memcpy_at_def numeral_eq_Suc Let_def
      del: le_bytes.simps)

lemma parse_fill_write: "eb_parse (eb_fill_write32 data address) = Some (EbWrite address data)"
  by (simp add: eb_parse_def fill_write_bytes be32.dec_enc del: le_bytes.simps)

lemma parse_fill_read: "eb_parse (eb_fill_read32 address) = Some (EbRead address)"
  by (simp add: eb_parse_def fill_read_bytes be32.dec_enc del: le_bytes.simps)

section \<open>What a slave promises\<close>

text \<open>
  A Wishbone slave behind a connection: an accepted write record changes one word
  of its memory; a read record is answered by one packet of 20 bytes with the word
  at offset 16.  \<open>idle\<close> says that no answer is waiting.
\<close>

locale eb_slave =
  fixes ops :: "'n net" and conn :: eb_connection and mem :: "'n \<Rightarrow> u32 \<Rightarrow> u32" and idle :: "'n \<Rightarrow> bool"
  assumes accept_write: "idle n \<Longrightarrow> eb_parse pkt = Some (EbWrite a v) \<Longrightarrow>
      idle (snd (eb_send ops conn pkt n)) \<and> mem (snd (eb_send ops conn pkt n)) = (mem n)(a := v)"
    and answer_read: "idle n \<Longrightarrow> eb_parse pkt = Some (EbRead a) \<Longrightarrow> length buf = 20 \<Longrightarrow>
      \<exists>bs n'. eb_recv ops conn buf (snd (eb_send ops conn pkt n)) = ((20, bs), n') \<and>
        take 4 (drop 16 bs) = be_bytes 4 (mem n a) \<and> idle n' \<and> mem n' = mem n"
begin

lemma write32_mem: "idle n \<Longrightarrow> idle (eb_write32 ops conn v a n) \<and> mem (eb_write32 ops conn v a n) = (mem n)(a := v)"
  unfolding eb_write32_def by (rule accept_write [OF _ parse_fill_write])

lemma read32_mem:
  assumes "idle n"
  shows "\<exists>n'. eb_read32 ops conn a n = (mem n a, n') \<and> idle n' \<and> mem n' = mem n"
proof -
  have len: "length (eb_fill_read32 a) = 20" by (simp add: fill_read_bytes)
  show ?thesis
    using answer_read [OF assms parse_fill_read [of a] len]
    by (auto simp: eb_read32_def Let_def eb_unfill_read32_def be32.dec_enc split: prod.splits)
qed

text \<open>Any sequence of writes, then a read: the last value written to the address.\<close>

lemma writes_then_read:
  assumes "idle n"
  shows "fst (eb_read32 ops conn a (fold (\<lambda>(v, x). eb_write32 ops conn v x) ws n)) =
    fold (\<lambda>(v, x) m. m(x := v)) ws (mem n) a"
proof -
  have "idle (fold (\<lambda>(v, x). eb_write32 ops conn v x) ws n) \<and>
      mem (fold (\<lambda>(v, x). eb_write32 ops conn v x) ws n) = fold (\<lambda>(v, x) m. m(x := v)) ws (mem n)"
    using assms
  proof (induction ws arbitrary: n)
    case (Cons w ws)
    then show ?case using write32_mem [OF Cons.prems] by (cases w) simp
  qed simp
  then show ?thesis using read32_mem [of "fold (\<lambda>(v, x). eb_write32 ops conn v x) ws n" a] by fastforce
qed

end

text \<open>
  The slave the documentation describes: one record per packet, answered by a
  record of the same type with the value in the place of the data.
\<close>

record slave =
  slave_mem :: "u32 \<Rightarrow> u32"
  slave_out :: "byte list list"

definition slave_accept :: "byte list \<Rightarrow> slave \<Rightarrow> slave" where
  "slave_accept pkt n = (case eb_parse pkt of
     None \<Rightarrow> n
   | Some (EbWrite a v) \<Rightarrow> n\<lparr>slave_mem := (slave_mem n)(a := v)\<rparr>
   | Some (EbRead a) \<Rightarrow> n\<lparr>slave_out := slave_out n @ [eb_fill_write32 (slave_mem n a) a]\<rparr>)"

definition slave_deliver :: "nat \<Rightarrow> slave \<Rightarrow> (int \<times> byte list) \<times> slave" where
  "slave_deliver k n = (case slave_out n of
     [] \<Rightarrow> ((-1, []), n)
   | p # ps \<Rightarrow> ((int (min k (length p)), take k p), n\<lparr>slave_out := ps\<rparr>))"

definition slave_net :: "slave net" where
  "slave_net = \<lparr>sendto = (\<lambda>_ _ bs n. (int (length bs), slave_accept bs n)),
     write_fd = (\<lambda>_ bs n. (int (length bs), slave_accept bs n)),
     recvfrom = (\<lambda>_. slave_deliver), read_from = (\<lambda>_. slave_deliver)\<rparr>"

interpretation slave: eb_slave slave_net conn slave_mem "\<lambda>n. slave_out n = []" for conn
proof
  fix n :: slave and pkt a v
  assume "slave_out n = []" "eb_parse pkt = Some (EbWrite a v)"
  then show "slave_out (snd (eb_send slave_net conn pkt n)) = [] \<and>
      slave_mem (snd (eb_send slave_net conn pkt n)) = (slave_mem n)(a := v)"
    by (simp add: eb_send_def slave_net_def slave_accept_def)
next
  fix n :: slave and pkt a and buf :: "byte list"
  assume n: "slave_out n = []" "eb_parse pkt = Some (EbRead a)" "length buf = 20"
  have len: "length (eb_fill_write32 (slave_mem n a) a) = 20" by (simp add: fill_write_bytes)
  have "take 4 (drop 16 (eb_fill_write32 (slave_mem n a) a)) = be_bytes 4 (slave_mem n a)"
    by (simp add: fill_write_bytes del: le_bytes.simps)
  then show "\<exists>bs n'. eb_recv slave_net conn buf (snd (eb_send slave_net conn pkt n)) = ((20, bs), n') \<and>
        take 4 (drop 16 bs) = be_bytes 4 (slave_mem n a) \<and> slave_out n' = [] \<and> slave_mem n' = slave_mem n"
    using n len
    by (simp add: eb_send_def eb_recv_def slave_net_def slave_accept_def slave_deliver_def memcpy_at_def)
qed

section \<open>Descriptors and blocks\<close>

lemma os_malloc_ok:
  assumes "os_malloc os = (p, os')" "os_ok os"
  shows "os_ok os' \<and> open_fds os' = open_fds os \<and> next_fd os' = next_fd os \<and>
    (case p of None \<Rightarrow> live (os_heap os') = live (os_heap os)
     | Some b \<Rightarrow> b \<notin> live (os_heap os) \<and> live (os_heap os') = insert b (live (os_heap os)))"
proof -
  obtain h where m: "malloc (os_heap os) = (p, h)" "os' = os\<lparr>os_heap := h\<rparr>"
    using assms(1) by (auto simp: os_malloc_def split: prod.splits)
  have "heap_ok (os_heap os)" using assms(2) by (simp add: os_ok_def)
  from malloc_cases [OF m(1) this] show ?thesis
    using assms(2) m(2) by (auto simp: os_ok_def split: option.splits)
qed

lemma os_call_ok:
  "os_call os = (ok, os') \<Longrightarrow> os_ok os \<Longrightarrow>
     os_ok os' \<and> open_fds os' = open_fds os \<and> next_fd os' = next_fd os \<and> os_heap os' = os_heap os"
  by (auto simp: os_call_def os_ok_def)

lemma os_getaddrinfo_ok:
  assumes "os_getaddrinfo os = (p, os')" "os_ok os"
  shows "os_ok os' \<and> open_fds os' = open_fds os \<and> next_fd os' = next_fd os \<and>
    (case p of None \<Rightarrow> live (os_heap os') = live (os_heap os)
     | Some b \<Rightarrow> b \<notin> live (os_heap os) \<and> live (os_heap os') = insert b (live (os_heap os)))"
proof -
  obtain ok os1 where c: "os_call os = (ok, os1)" by fastforce
  note o1 = os_call_ok [OF c assms(2)]
  show ?thesis
  proof (cases ok)
    case True
    then have "os_malloc os1 = (p, os')" using assms(1) c by (simp add: os_getaddrinfo_def)
    from os_malloc_ok [OF this] o1 show ?thesis by (cases p) simp_all
  next
    case False
    then have "p = None" "os' = os1" using assms(1) c by (simp_all add: os_getaddrinfo_def)
    then show ?thesis using o1 by simp
  qed
qed

lemma os_socket_ok:
  assumes "os_socket os = (d, os')" "os_ok os"
  shows "os_ok os' \<and> os_heap os' = os_heap os \<and>
    (if d = -1 then open_fds os' = open_fds os
     else 0 < d \<and> d \<notin> open_fds os \<and> open_fds os' = insert d (open_fds os))"
proof -
  have "0 \<le> d \<and> d < next_fd os + 1" if "d \<in> open_fds os" for d
    using assms(2) that by (auto simp: os_ok_def)
  then show ?thesis using assms by (auto simp: os_socket_def os_call_def os_ok_def split: if_splits)
qed

lemma os_free_ok:
  "os_ok os \<Longrightarrow> b \<in> live (os_heap os) \<Longrightarrow>
     os_ok (os_free b os) \<and> open_fds (os_free b os) = open_fds os \<and>
     live (os_heap (os_free b os)) = live (os_heap os) - {b}"
  by (auto simp: os_free_def free_def os_ok_def heap_ok_def)

lemma os_close_ok:
  "os_ok os \<Longrightarrow> os_ok (os_close d os) \<and> open_fds (os_close d os) = open_fds os - {d} \<and>
     os_heap (os_close d os) = os_heap os"
  by (auto simp: os_close_def os_ok_def)

text \<open>
  \<open>holds c os0 os\<close>: beside what \<open>os0\<close> has, \<open>os\<close> holds exactly the blocks and
  descriptors of the connection.
\<close>

definition conn_fds :: "eb_connection \<Rightarrow> int set" where
  "conn_fds c = (if is_direct c then {fd c, read_fd c} else {fd c})"

definition holds :: "eb_connection \<Rightarrow> os \<Rightarrow> os \<Rightarrow> bool" where
  "holds c os0 os \<longleftrightarrow> os_ok os \<and> conn_block c \<noteq> conn_addr c \<and>
     {conn_block c, conn_addr c} \<inter> live (os_heap os0) = {} \<and>
     live (os_heap os) = live (os_heap os0) \<union> {conn_block c, conn_addr c} \<and>
     conn_fds c \<inter> open_fds os0 = {} \<and> open_fds os = open_fds os0 \<union> conn_fds c \<and>
     (is_direct c \<longrightarrow> read_fd c \<noteq> 0)"

definition same_resources :: "os \<Rightarrow> os \<Rightarrow> bool" where
  "same_resources os0 os \<longleftrightarrow> os_ok os \<and> live (os_heap os) = live (os_heap os0) \<and> open_fds os = open_fds os0"

definition connect_post :: "os \<Rightarrow> eb_connection option \<times> os \<Rightarrow> bool" where
  "connect_post os0 r = (case r of (None, os) \<Rightarrow> same_resources os0 os | (Some c, os) \<Rightarrow> holds c os0 os)"


text \<open>The state after the two blocks are taken: what both branches start from.\<close>

definition took_blocks :: "nat \<Rightarrow> nat \<Rightarrow> os \<Rightarrow> os \<Rightarrow> bool" where
  "took_blocks conn res os0 os \<longleftrightarrow> os_ok os \<and> conn \<noteq> res \<and> {conn, res} \<inter> live (os_heap os0) = {} \<and>
     live (os_heap os) = live (os_heap os0) \<union> {conn, res}"

lemma give_back_blocks:
  assumes "took_blocks conn res os0 os" "open_fds os = open_fds os0"
  shows "same_resources os0 (os_free conn (os_free res os))"
proof -
  have r: "os_ok (os_free res os)" "open_fds (os_free res os) = open_fds os"
    "live (os_heap (os_free res os)) = live (os_heap os) - {res}"
    using os_free_ok [of os res] assms by (auto simp: took_blocks_def)
  then show ?thesis
    using os_free_ok [of "os_free res os" conn] assms by (auto simp: took_blocks_def same_resources_def)
qed

lemma took_blocks_keep:
  "took_blocks conn res os0 os \<Longrightarrow> os_ok os' \<Longrightarrow> os_heap os' = os_heap os \<Longrightarrow> took_blocks conn res os0 os'"
  by (simp add: took_blocks_def)

lemma connect_direct_post:
  assumes t: "took_blocks conn res os0 os" and f: "open_fds os = open_fds os0"
  shows "connect_post os0 (eb_connect_direct conn res os)"
proof -
  obtain rx os1 where s1: "os_socket os = (rx, os1)" by fastforce
  obtain bnd os2 where s2: "os_call os1 = (bnd, os2)" by fastforce
  obtain tx os3 where s3: "os_socket os2 = (tx, os3)" by fastforce
  have ok: "os_ok os" using t by (simp add: took_blocks_def)
  note o1 = os_socket_ok [OF s1 ok]
  note o2 = os_call_ok [OF s2 o1 [THEN conjunct1]]
  note o3 = os_socket_ok [OF s3 o2 [THEN conjunct1]]
  note t1 = took_blocks_keep [OF t, of os1] and t2 = took_blocks_keep [OF t, of "os_close rx os2"]
    and t3 = took_blocks_keep [OF t, of "os_close tx (os_close rx os3)"]
  have c2: "os_ok (os_close rx os2)" "open_fds (os_close rx os2) = open_fds os2 - {rx}"
    "os_heap (os_close rx os2) = os_heap os2"
    using os_close_ok [of os2 rx] o2 by auto
  have c3: "os_ok (os_close tx (os_close rx os3))"
    "open_fds (os_close tx (os_close rx os3)) = open_fds os3 - {rx} - {tx}"
    "os_heap (os_close tx (os_close rx os3)) = os_heap os3"
    using os_close_ok [of os3 rx] os_close_ok [of "os_close rx os3" tx] o3 by auto
  have neg: "open_fds os0 - {-1} = open_fds os0" using ok f by (auto simp: os_ok_def)
  consider "rx = -1" | "rx \<noteq> -1" "\<not> bnd" | "rx \<noteq> -1" bnd "tx = -1" | "rx \<noteq> -1" bnd "tx \<noteq> -1" by blast
  then show ?thesis
  proof cases
    case 1
    then show ?thesis using s1 o1 f give_back_blocks [OF t1]
      by (simp add: eb_connect_direct_def connect_post_def)
  next
    case 2
    then show ?thesis using s1 s2 o1 o2 f c2 give_back_blocks [OF t2]
      by (simp add: eb_connect_direct_def connect_post_def)
  next
    case 3
    then show ?thesis using s1 s2 s3 o1 o2 o3 f c3 neg give_back_blocks [OF t3]
      by (simp add: eb_connect_direct_def connect_post_def)
  next
    case 4
    then show ?thesis using s1 s2 s3 o1 o2 o3 f t
      by (auto simp: eb_connect_direct_def connect_post_def holds_def conn_fds_def took_blocks_def)
  qed
qed

lemma connect_tcp_post:
  assumes t: "took_blocks conn res os0 os" and f: "open_fds os = open_fds os0"
  shows "connect_post os0 (eb_connect_tcp conn res junk os)"
proof -
  obtain sk os1 where s1: "os_socket os = (sk, os1)" by fastforce
  obtain cn os2 where s2: "os_call os1 = (cn, os2)" by fastforce
  have ok: "os_ok os" using t by (simp add: took_blocks_def)
  note o1 = os_socket_ok [OF s1 ok]
  note o2 = os_call_ok [OF s2 o1 [THEN conjunct1]]
  note t1 = took_blocks_keep [OF t, of os1] and t2 = took_blocks_keep [OF t, of "os_close sk os2"]
  have c2: "os_ok (os_close sk os2)" "open_fds (os_close sk os2) = open_fds os2 - {sk}"
    "os_heap (os_close sk os2) = os_heap os2"
    using os_close_ok [of os2 sk] o2 by auto
  consider "sk = -1" | "sk \<noteq> -1" "\<not> cn" | "sk \<noteq> -1" cn by blast
  then show ?thesis
  proof cases
    case 1
    then show ?thesis using s1 o1 f give_back_blocks [OF t1]
      by (simp add: eb_connect_tcp_def connect_post_def)
  next
    case 2
    then show ?thesis using s1 s2 o1 o2 f c2 give_back_blocks [OF t2]
      by (simp add: eb_connect_tcp_def connect_post_def)
  next
    case 3
    then show ?thesis using s1 s2 o1 o2 f t
      by (auto simp: eb_connect_tcp_def connect_post_def holds_def conn_fds_def took_blocks_def)
  qed
qed

lemma connect_post_ok:
  assumes "os_ok os"
  shows "connect_post os (eb_connect direct junk os)"
proof -
  obtain p os1 where m: "os_malloc os = (p, os1)" by fastforce
  note o1 = os_malloc_ok [OF m assms]
  show ?thesis
  proof (cases p)
    case None
    then show ?thesis using m o1 by (simp add: eb_connect_def connect_post_def same_resources_def)
  next
    case (Some conn)
    obtain r os2 where g: "os_getaddrinfo os1 = (r, os2)" by fastforce
    note o2 = os_getaddrinfo_ok [OF g o1 [THEN conjunct1]]
    show ?thesis
    proof (cases r)
      case None
      then have "live (os_heap os2) = insert conn (live (os_heap os))" "os_ok os2"
        "conn \<notin> live (os_heap os)" "open_fds os2 = open_fds os"
        using o1 o2 Some by auto
      then have "same_resources os (os_free conn os2)"
        using os_free_ok [of os2 conn] by (auto simp: same_resources_def)
      then show ?thesis using m g Some None by (simp add: eb_connect_def connect_post_def)
    next
      case res: (Some res)
      have t: "took_blocks conn res os os2" and f: "open_fds os2 = open_fds os"
        using o1 o2 Some res by (auto simp: took_blocks_def)
      show ?thesis using m g Some res connect_direct_post [OF t f] connect_tcp_post [OF t f, of junk]
        by (simp add: eb_connect_def)
    qed
  qed
qed

lemma disconnect_direct:
  assumes "holds c os0 os" "is_direct c"
  shows "fst (eb_disconnect (Some c) os) = None \<and> same_resources os0 (snd (eb_disconnect (Some c) os))"
proof -
  let ?os = "os_close (read_fd c) (os_close (fd c) os)"
  have h: "os_ok os" "open_fds os = open_fds os0 \<union> {fd c, read_fd c}" "{fd c, read_fd c} \<inter> open_fds os0 = {}"
    "read_fd c \<noteq> 0"
    using assms by (auto simp: holds_def conn_fds_def)
  have "os_ok ?os \<and> os_heap ?os = os_heap os \<and> open_fds ?os = open_fds os0"
    using os_close_ok [of os "fd c"] os_close_ok [of "os_close (fd c) os" "read_fd c"] h by auto
  moreover have "took_blocks (conn_block c) (conn_addr c) os0 os"
    using assms by (auto simp: holds_def took_blocks_def)
  ultimately have "same_resources os0 (os_free (conn_block c) (os_free (conn_addr c) ?os))"
    using give_back_blocks took_blocks_keep by blast
  moreover have "snd (eb_disconnect (Some c) os) = os_free (conn_block c) (os_free (conn_addr c) ?os)"
    using h(4) by (simp add: eb_disconnect_def os_free_def os_close_def)
  moreover have "fst (eb_disconnect (Some c) os) = None" by (simp add: eb_disconnect_def Let_def)
  ultimately show ?thesis by simp
qed

text \<open>A TCP connection also closes whatever descriptor its stale field names.\<close>

lemma disconnect_tcp:
  assumes "holds c os0 os" "\<not> is_direct c"
  shows "open_fds (snd (eb_disconnect (Some c) os)) =
    open_fds os0 - (if read_fd c \<noteq> 0 then {read_fd c} else {})"
  using assms by (auto simp: holds_def conn_fds_def eb_disconnect_def Let_def os_free_def os_close_def)

end
