(* ===== verification/Etherbone_Theorems.thy ===== *)
theory Etherbone_Theorems
  imports Etherbone
begin

text \<open>
  The properties of the Etherbone client: the packet format, reads and writes over a
  slave that keeps the protocol, and the blocks and descriptors of connections.
\<close>

section \<open>Concrete inputs\<close>

definition demo_os :: os where
  "demo_os = \<lparr>os_heap = \<lparr>next_block = 1, live = {}, oom = (\<lambda>_. False), corrupt = False\<rparr>,
     open_fds = {0, 1, 2}, next_fd = 3, syscalls = 0, fails = (\<lambda>_. False)\<rparr>"

definition demo_conn :: eb_connection where
  "demo_conn = \<lparr>conn_block = 1, fd = 4, read_fd = 3, is_direct = True, conn_addr = 2\<rparr>"

definition demo_slave :: slave where
  "demo_slave = \<lparr>slave_mem = (\<lambda>_. 0), slave_out = []\<rparr>"

lemma demo_os_ok: "os_ok demo_os"
  by (auto simp: os_ok_def demo_os_def heap_ok_def)

lemmas connect_defs = eb_connect_def eb_connect_direct_def eb_connect_tcp_def os_malloc_def malloc_def
  os_getaddrinfo_def os_socket_def os_call_def

lemma connect_shape:
  assumes "eb_connect direct junk os = (Some c, os')"
  shows "is_direct c = direct" and "\<not> direct \<Longrightarrow> read_fd c = junk"
  using assms by (auto simp: eb_connect_def eb_connect_direct_def eb_connect_tcp_def
      split: prod.splits option.splits if_splits)

section \<open>Packets\<close>

text \<open>
  C16: the packets follow the format that \<^verbatim>\<open>etherbone.h\<close> documents: both are 20 bytes long, and
  a reader of that format gets back the address and the data of a write, and the address of
  a read, in network byte order.
\<close>

theorem packets_parse_back:
  "eb_parse (eb_fill_write32 data address) = Some (EbWrite address data) \<and>
   eb_parse (eb_fill_read32 address) = Some (EbRead address) \<and>
   length (eb_fill_write32 data address) = 20 \<and> length (eb_fill_read32 address) = 20"
  using parse_fill_write parse_fill_read by (simp add: fill_write_bytes fill_read_bytes)

text \<open>
  C17: over a connection whose other end accepts a write record and answers a read record as the
  protocol says, any sequence of \<^verbatim>\<open>eb_write32\<close> calls followed by \<^verbatim>\<open>eb_read32\<close> yields the value
  last written to that address, or the one the slave had there; the client is a
  refinement of a memory.
\<close>

theorem writes_then_read_back:
  assumes "eb_slave ops conn mem idle" and "idle n"
  shows "fst (eb_read32 ops conn a (fold (\<lambda>(v, x). eb_write32 ops conn v x) ws n)) =
    fold (\<lambda>(v, x) m. m(x := v)) ws (mem n) a"
  by (rule eb_slave.writes_then_read [OF assms])

theorem writes_then_read_back_witness:
  "fst (eb_read32 slave_net demo_conn 0x100
     (eb_write32 slave_net demo_conn 9 0x104 (eb_write32 slave_net demo_conn 7 0x100 demo_slave))) = 7"
  using writes_then_read_back [OF slave.eb_slave_axioms [of demo_conn], where n = demo_slave and
      a = "0x100" and ws = "[(7, 0x100), (9, 0x104)]"]
  by (simp add: demo_slave_def)

section \<open>Connections\<close>

text \<open>
  C18: \<^verbatim>\<open>eb_connect\<close> leaks nothing, whichever of its calls fail: when it returns \<^verbatim>\<open>NULL\<close> the
  process holds the blocks and descriptors it held before; otherwise it holds besides
  exactly the two blocks and the one or two descriptors of the connection, all of them new.
\<close>

theorem connect_leaks_nothing:
  assumes "os_ok os"
  shows "case eb_connect direct junk os of
      (None, os') \<Rightarrow> same_resources os os'
    | (Some c, os') \<Rightarrow> is_direct c = direct \<and> holds c os os'"
  using connect_post_ok [OF assms, of direct junk] connect_shape(1) [of direct junk os]
  by (auto simp: connect_post_def split: prod.splits option.splits)

theorem connect_leaks_nothing_witness:
  "case eb_connect True 77 (demo_os\<lparr>fails := (\<lambda>i. i = 3)\<rparr>) of
      (None, os') \<Rightarrow> same_resources (demo_os\<lparr>fails := (\<lambda>i. i = 3)\<rparr>) os'
    | (Some c, os') \<Rightarrow> False"
proof -
  have "os_ok (demo_os\<lparr>fails := (\<lambda>i. i = 3)\<rparr>)" using demo_os_ok by (simp add: os_ok_def)
  from connect_leaks_nothing [OF this, of True 77] show ?thesis
    by (simp add: connect_defs demo_os_def)
qed

text \<open>
  Closing a direct (UDP) connection gives back exactly what opening it took.
\<close>

lemma direct_connection_closes:
  assumes "os_ok os" and "eb_connect True junk os = (Some c, os')"
  shows "fst (eb_disconnect (Some c) os') = None \<and> same_resources os (snd (eb_disconnect (Some c) os'))"
  using disconnect_direct [of c os os'] connect_post_ok [OF assms(1), of True junk] assms(2)
    connect_shape(1) [OF assms(2)]
  by (simp add: connect_post_def)

lemma direct_connection_example:
  "case eb_connect True 77 demo_os of
      (Some c, os') \<Rightarrow> c = demo_conn \<and> open_fds os' = {0, 1, 2, 3, 4} \<and>
        same_resources demo_os (snd (eb_disconnect (Some c) os'))
    | (None, _) \<Rightarrow> False"
proof -
  obtain os' where e: "eb_connect True 77 demo_os = (Some demo_conn, os')" "open_fds os' = {0, 1, 2, 3, 4}"
    by (simp add: connect_defs demo_os_def demo_conn_def insert_commute)
  from direct_connection_closes [OF demo_os_ok e(1)] e show ?thesis by simp
qed

text \<open>
  C19: a TCP connection never sets \<^verbatim>\<open>read_fd\<close>, so \<^verbatim>\<open>eb_disconnect\<close> reads what \<^verbatim>\<open>malloc\<close> left
  there and closes that descriptor too, whoever it belongs to.
\<close>

theorem tcp_disconnect_closes_foreign:
  assumes "os_ok os" and "eb_connect False junk os = (Some c, os')" and "junk \<noteq> 0"
  shows "open_fds (snd (eb_disconnect (Some c) os')) = open_fds os - {junk}"
  using disconnect_tcp [of c os os'] connect_post_ok [OF assms(1), of False junk] assms(2,3)
    connect_shape [OF assms(2)]
  by (simp add: connect_post_def)

theorem tcp_disconnect_closes_foreign_witness:
  "case eb_connect False 2 demo_os of
      (Some c, os') \<Rightarrow> 2 \<in> open_fds demo_os \<and> 2 \<notin> open_fds (snd (eb_disconnect (Some c) os'))
    | (None, _) \<Rightarrow> False"
proof -
  obtain c os' where e: "eb_connect False 2 demo_os = (Some c, os')"
    by (simp add: connect_defs demo_os_def)
  from tcp_disconnect_closes_foreign [OF demo_os_ok e] e show ?thesis by (simp add: demo_os_def)
qed

end
