(* ===== verification/Ubpf_Session.thy ===== *)
theory Ubpf_Session
  imports Jit_Correct Ubpf_Loader
begin

text \<open>
  Sessions: what a client of \<^verbatim>\<open>ubpf.h\<close> can do with one machine, as a step relation
  over the operations of ubpf\_vm.c, ubpf\_loader.c and ubpf\_jit\_x86\_64.c, and the invariant of
  its states.
\<close>

section \<open>Loaded programs\<close>

text \<open>What a loaded program is, beside well formed: as long as the machine says.\<close>

definition loaded_ok :: "ubpf_vm \<Rightarrow> bool" where
  "loaded_ok vm \<longleftrightarrow> (\<forall>b code. insts vm = Some (b, code) \<longrightarrow>
     (\<exists>vm0. wf_prog vm0 code) \<and> unat (num_insts vm) = length code)"

lemma load_loaded_ok:
  assumes "ubpf_load vm code len h = (Inr vm', h')" and "unat len \<le> length code"
  shows "loaded_ok vm'"
proof (rule ubpf_load_Inr [OF assms(1)])
  fix b
  let ?p = "decode_insts (take (unat len) code)"
  assume vm': "vm' = vm\<lparr>insts := Some (b, ?p), num_insts := ucast (len div 8)\<rparr>" and wf: "wf_prog vm ?p"
  have lp: "length ?p = unat len div 8" using assms(2) by (simp add: length_decode_insts)
  then have "unat len div 8 < 2 ^ 16" using wf by (simp add: wf_prog_def MAX_INSTS_def)
  then have "unat (num_insts vm') = length ?p"
    using lp by (simp add: vm' unsigned_ucast_eq [where 'b = 32] unat_div_distrib take_bit_nat_eq_self)
  then show ?thesis using wf by (auto simp: loaded_ok_def vm')
qed

lemma load_elf_loaded_ok:
  assumes "length elf < 2 ^ 64" and "ubpf_load_elf vm elf h = (Inr vm', h')"
  shows "loaded_ok vm'"
proof (rule load_elf_parts [OF assms])
  fix sections k code h1 h2
  assume l: "ubpf_load vm code (ucast (sect_size (sections ! k))) h1 = (Inr vm', h2)"
    and len: "length code = unat (sect_size (sections ! k))"
  have "unat (ucast (sect_size (sections ! k)) :: u32) \<le> unat (sect_size (sections ! k))"
    by (simp add: unsigned_ucast_eq)
  then show ?thesis using load_loaded_ok [OF l] len by simp
qed

section \<open>Sessions\<close>

text \<open>
  The states a client of \<^verbatim>\<open>ubpf.h\<close> can bring a machine to, from the heap \<open>h0\<close> it starts with:
  it creates the machine, then registers functions, toggles the bounds check, loads code or
  an ELF file and compiles, in any order and as often as it likes, whatever fails on the
  way.  A call after which the process has no defined state ends the session: a
  failed assertion or a null buffer in the compiler, undefined behaviour in the ELF loader,
  a length beyond the buffer that the client passes to \<^verbatim>\<open>ubpf_load\<close>.
\<close>

definition kept :: "ubpf_vm \<Rightarrow> 'e + ubpf_vm \<Rightarrow> ubpf_vm" where
  "kept vm r = (case r of Inl _ \<Rightarrow> vm | Inr vm' \<Rightarrow> vm')"

lemma kept_simps [simp]: "kept vm (Inl e) = vm" "kept vm (Inr vm') = vm'"
  by (simp_all add: kept_def)

inductive session :: "heap \<Rightarrow> ubpf_vm \<Rightarrow> heap \<Rightarrow> bool" for h0 where
  created: "ubpf_create h0 = (Some vm, h) \<Longrightarrow> session h0 vm h"
| registered: "session h0 vm h \<Longrightarrow> session h0 (snd (ubpf_register vm idx name fn)) h"
| toggled: "session h0 vm h \<Longrightarrow> session h0 (snd (toggle_bounds_check vm enable)) h"
| loaded: "session h0 vm h \<Longrightarrow> unat len \<le> length code \<Longrightarrow> ubpf_load vm code len h = (r, h') \<Longrightarrow>
    session h0 (kept vm r) h'"
| loaded_elf: "session h0 vm h \<Longrightarrow> length elf < 2 ^ 64 \<Longrightarrow> ubpf_load_elf vm elf h = (r, h') \<Longrightarrow>
    \<forall>u. r \<noteq> Inl (ElfUndefined u) \<Longrightarrow> session h0 (kept vm r) h'"
| compiled: "session h0 vm h \<Longrightarrow> ubpf_compile vm rmap addrs mprotect_ok h = (r, h') \<Longrightarrow>
    r \<noteq> Inl NullBuffer \<Longrightarrow> r \<noteq> Inl BufferAssert \<Longrightarrow> session h0 (kept vm r) h'"

lemma compile_keeps:
  "ubpf_compile vm rmap addrs mp h = (Inr vm', h') \<Longrightarrow>
     insts vm' = insts vm \<and> num_insts vm' = num_insts vm \<and> ext_funcs vm' = ext_funcs vm \<and>
     ext_func_names vm' = ext_func_names vm"
  by (auto simp: ubpf_compile_def Let_def split: if_splits option.splits prod.splits sum.splits jit_error.splits)

lemma vm_ok_cong:
  "ext_funcs vm' = ext_funcs vm \<Longrightarrow> ext_func_names vm' = ext_func_names vm \<Longrightarrow> vm_ok vm \<Longrightarrow> vm_ok vm'"
  by (simp add: vm_ok_def funcs_of_def names_of_def)

definition session_ok :: "nat set \<Rightarrow> ubpf_vm \<Rightarrow> heap \<Rightarrow> bool" where
  "session_ok L vm h \<longleftrightarrow> owns vm h L \<and> loaded_ok vm"

lemma session_ok_load:
  assumes "session_ok L vm h" "unat len \<le> length code" "ubpf_load vm code len h = (r, h')"
  shows "session_ok L (kept vm r) h'"
proof (cases r)
  case (Inl e)
  then show ?thesis using assms owns_load_fail [of vm h L code len e h'] by (simp add: session_ok_def)
next
  case (Inr v)
  then show ?thesis
    using assms owns_load [of vm h L code len v h'] load_loaded_ok [of vm code len h v h']
    by (simp add: session_ok_def)
qed

lemma session_ok_load_elf:
  assumes "session_ok L vm h" "length elf < 2 ^ 64" "ubpf_load_elf vm elf h = (r, h')"
  shows "session_ok L (kept vm r) h'"
  using assms load_elf_owns [of vm h L elf r h'] load_elf_loaded_ok [of elf vm h _ h']
  by (cases r) (simp_all add: session_ok_def)

lemma session_ok_compile:
  assumes "session_ok L vm h" "ubpf_compile vm rmap addrs mp h = (r, h')"
    "r \<noteq> Inl NullBuffer" "r \<noteq> Inl BufferAssert"
  shows "session_ok L (kept vm r) h'"
proof -
  have "owns (kept vm r) h' L"
    unfolding kept_def
    by (rule compile_owns [OF _ assms(2-4)]) (use assms(1) in \<open>auto simp: session_ok_def loaded_ok_def\<close>)
  moreover have "loaded_ok (kept vm r)"
    using assms(1) compile_keeps [of vm rmap addrs mp h _ h'] assms(2)
    by (cases r) (simp_all add: session_ok_def loaded_ok_def)
  ultimately show ?thesis by (simp add: session_ok_def)
qed

lemma session_invariant:
  assumes "session h0 vm h" and "heap_ok h0"
  shows "session_ok (live h0) vm h"
  using assms(1)
proof induction
  case (created vm h)
  then show ?case
    using owns_create [OF assms(2)] vm_ok_create by (simp add: session_ok_def loaded_ok_def)
next
  case (registered vm h idx name fn)
  then show ?case using owns_register [of vm h "live h0" idx name fn]
    by (simp add: session_ok_def loaded_ok_def ubpf_register_def)
next
  case (toggled vm h enable)
  then show ?case using owns_toggle [of vm h "live h0" enable]
    by (simp add: session_ok_def loaded_ok_def toggle_bounds_check_def)
qed (blast intro: session_ok_load session_ok_load_elf session_ok_compile)+

end
