(* ===== verification/Usb_Defs.thy ===== *)
theory Usb_Defs
  imports C_Heap
begin

text \<open>
  The data of libusb's descriptor parser, after \<^verbatim>\<open>libusb.h\<close> and \<^verbatim>\<open>descriptor.c\<close> of the copy under
  tools/wishbone-utils/wishbone-tool/crates/libusb-sys: the constants, the structs
  as records, and \<^verbatim>\<open>usbi_parse_descriptor\<close>, which fills a struct from the bytes of
  the device.  A struct whose bytes are filled is seen as the list of its bytes, with
  the padding of the C layout.  The host is little-endian, as the x86-64 of the rest
  of the development.
\<close>

section \<open>Descriptor types\<close>

definition LIBUSB_DT_DEVICE :: byte where [usb_consts]: "LIBUSB_DT_DEVICE = 0x01"
definition LIBUSB_DT_CONFIG :: byte where [usb_consts]: "LIBUSB_DT_CONFIG = 0x02"
definition LIBUSB_DT_STRING :: byte where [usb_consts]: "LIBUSB_DT_STRING = 0x03"
definition LIBUSB_DT_INTERFACE :: byte where [usb_consts]: "LIBUSB_DT_INTERFACE = 0x04"
definition LIBUSB_DT_ENDPOINT :: byte where [usb_consts]: "LIBUSB_DT_ENDPOINT = 0x05"
definition LIBUSB_DT_BOS :: byte where [usb_consts]: "LIBUSB_DT_BOS = 0x0f"
definition LIBUSB_DT_DEVICE_CAPABILITY :: byte where [usb_consts]: "LIBUSB_DT_DEVICE_CAPABILITY = 0x10"
definition LIBUSB_DT_SS_ENDPOINT_COMPANION :: byte where [usb_consts]: "LIBUSB_DT_SS_ENDPOINT_COMPANION = 0x30"

section \<open>Descriptor sizes\<close>

definition LIBUSB_DT_DEVICE_SIZE :: int where [usb_consts]: "LIBUSB_DT_DEVICE_SIZE = 18"
definition LIBUSB_DT_CONFIG_SIZE :: int where [usb_consts]: "LIBUSB_DT_CONFIG_SIZE = 9"
definition LIBUSB_DT_INTERFACE_SIZE :: int where [usb_consts]: "LIBUSB_DT_INTERFACE_SIZE = 9"
definition LIBUSB_DT_SS_ENDPOINT_COMPANION_SIZE :: int where [usb_consts]: "LIBUSB_DT_SS_ENDPOINT_COMPANION_SIZE = 6"
definition LIBUSB_DT_BOS_SIZE :: int where [usb_consts]: "LIBUSB_DT_BOS_SIZE = 5"
definition LIBUSB_DT_DEVICE_CAPABILITY_SIZE :: int where [usb_consts]: "LIBUSB_DT_DEVICE_CAPABILITY_SIZE = 3"
definition LIBUSB_BT_USB_2_0_EXTENSION_SIZE :: int where [usb_consts]: "LIBUSB_BT_USB_2_0_EXTENSION_SIZE = 7"
definition LIBUSB_BT_SS_USB_DEVICE_CAPABILITY_SIZE :: int where [usb_consts]: "LIBUSB_BT_SS_USB_DEVICE_CAPABILITY_SIZE = 10"
definition LIBUSB_BT_CONTAINER_ID_SIZE :: int where [usb_consts]: "LIBUSB_BT_CONTAINER_ID_SIZE = 20"

section \<open>Device capability types\<close>

definition LIBUSB_BT_USB_2_0_EXTENSION :: byte where [usb_consts]: "LIBUSB_BT_USB_2_0_EXTENSION = 2"
definition LIBUSB_BT_SS_USB_DEVICE_CAPABILITY :: byte where [usb_consts]: "LIBUSB_BT_SS_USB_DEVICE_CAPABILITY = 3"
definition LIBUSB_BT_CONTAINER_ID :: byte where [usb_consts]: "LIBUSB_BT_CONTAINER_ID = 4"

section \<open>Error codes\<close>

definition LIBUSB_SUCCESS :: int where [usb_consts]: "LIBUSB_SUCCESS = 0"
definition LIBUSB_ERROR_IO :: int where [usb_consts]: "LIBUSB_ERROR_IO = - 1"
definition LIBUSB_ERROR_INVALID_PARAM :: int where [usb_consts]: "LIBUSB_ERROR_INVALID_PARAM = - 2"
definition LIBUSB_ERROR_ACCESS :: int where [usb_consts]: "LIBUSB_ERROR_ACCESS = - 3"
definition LIBUSB_ERROR_NO_DEVICE :: int where [usb_consts]: "LIBUSB_ERROR_NO_DEVICE = - 4"
definition LIBUSB_ERROR_NOT_FOUND :: int where [usb_consts]: "LIBUSB_ERROR_NOT_FOUND = - 5"
definition LIBUSB_ERROR_BUSY :: int where [usb_consts]: "LIBUSB_ERROR_BUSY = - 6"
definition LIBUSB_ERROR_TIMEOUT :: int where [usb_consts]: "LIBUSB_ERROR_TIMEOUT = - 7"
definition LIBUSB_ERROR_OVERFLOW :: int where [usb_consts]: "LIBUSB_ERROR_OVERFLOW = - 8"
definition LIBUSB_ERROR_PIPE :: int where [usb_consts]: "LIBUSB_ERROR_PIPE = - 9"
definition LIBUSB_ERROR_INTERRUPTED :: int where [usb_consts]: "LIBUSB_ERROR_INTERRUPTED = - 10"
definition LIBUSB_ERROR_NO_MEM :: int where [usb_consts]: "LIBUSB_ERROR_NO_MEM = - 11"
definition LIBUSB_ERROR_NOT_SUPPORTED :: int where [usb_consts]: "LIBUSB_ERROR_NOT_SUPPORTED = - 12"
definition LIBUSB_ERROR_OTHER :: int where [usb_consts]: "LIBUSB_ERROR_OTHER = - 99"
definition LIBUSB_ERROR_COUNT :: int where [usb_consts]: "LIBUSB_ERROR_COUNT = 14"

section \<open>Constants of descriptor.c and libusbi.h\<close>

definition DESC_HEADER_LENGTH :: int where [usb_consts]: "DESC_HEADER_LENGTH = 2"
definition INTERFACE_DESC_LENGTH :: int where [usb_consts]: "INTERFACE_DESC_LENGTH = 9"
definition ENDPOINT_DESC_LENGTH :: int where [usb_consts]: "ENDPOINT_DESC_LENGTH = 7"
definition ENDPOINT_AUDIO_DESC_LENGTH :: int where [usb_consts]: "ENDPOINT_AUDIO_DESC_LENGTH = 9"
definition USB_MAXENDPOINTS :: int where [usb_consts]: "USB_MAXENDPOINTS = 32"
definition USB_MAXINTERFACES :: int where [usb_consts]: "USB_MAXINTERFACES = 32"
definition USB_MAXCONFIG :: int where [usb_consts]: "USB_MAXCONFIG = 8"

section \<open>usbi\_parse\_descriptor\<close>

text \<open>
  The loop over the format: the position in the source, the struct's bytes and the
  position in them.  \<open>None\<close> is a read or a write outside the two; \<open>host_endian\<close> copies
  where the other case converts.
\<close>

primrec parse_chars ::
  "byte list \<Rightarrow> bool \<Rightarrow> string \<Rightarrow> nat \<Rightarrow> byte list \<Rightarrow> nat \<Rightarrow> (byte list \<times> nat) option" where
  "parse_chars source host_endian [] sp dest dp = Some (dest, sp)"
| "parse_chars source host_endian (c # cs) sp dest dp =
    (if c = CHR ''b'' then
       Option.bind (buf_read source sp 1) (\<lambda>v.
       Option.bind (buf_write dest dp v) (\<lambda>dest.
         parse_chars source host_endian cs (sp + 1) dest (dp + 1)))
     else if c = CHR ''w'' then
       (let dp = dp + dp mod 2 in
        Option.bind (buf_read source sp 2) (\<lambda>v.
        Option.bind (buf_write dest dp (if host_endian then v else le_bytes 2 (le_word v :: u16))) (\<lambda>dest.
          parse_chars source host_endian cs (sp + 2) dest (dp + 2))))
     else if c = CHR ''d'' then
       (let dp = dp + dp mod 2 in
        Option.bind (buf_read source sp 4) (\<lambda>v.
        Option.bind (buf_write dest dp (if host_endian then v else le_bytes 4 (le_word v :: u32))) (\<lambda>dest.
          parse_chars source host_endian cs (sp + 4) dest (dp + 4))))
     else if c = CHR ''u'' then
       Option.bind (buf_read source sp 16) (\<lambda>v.
       Option.bind (buf_write dest dp v) (\<lambda>dest.
         parse_chars source host_endian cs (sp + 16) dest (dp + 16)))
     else parse_chars source host_endian cs sp dest dp)"

definition usbi_parse_descriptor ::
  "byte list \<Rightarrow> string \<Rightarrow> byte list \<Rightarrow> bool \<Rightarrow> (byte list \<times> nat) option" where
  "usbi_parse_descriptor source descriptor dest host_endian = parse_chars source host_endian descriptor 0 dest 0"

text \<open>The same on the heap: an access outside the buffers corrupts it.\<close>

definition parse_into :: "string \<Rightarrow> bool \<Rightarrow> byte list \<Rightarrow> byte list \<Rightarrow> heap \<Rightarrow> byte list \<times> heap" where
  "parse_into fmt host_endian source dest h =
    (case usbi_parse_descriptor source fmt dest host_endian of
       None \<Rightarrow> (dest, h\<lparr>corrupt := True\<rparr>)
     | Some (d, _) \<Rightarrow> (d, h))"

definition copy_bytes :: "byte list \<Rightarrow> nat \<Rightarrow> heap \<Rightarrow> byte list \<times> heap" where
  "copy_bytes source n h =
    (case buf_read source 0 n of None \<Rightarrow> ([], h\<lparr>corrupt := True\<rparr>) | Some bs \<Rightarrow> (bs, h))"

definition read_byte :: "byte list \<Rightarrow> nat \<Rightarrow> heap \<Rightarrow> byte \<times> heap" where
  "read_byte source i h = (if i < length source then (source ! i, h) else (0, h\<lparr>corrupt := True\<rparr>))"

section \<open>The structs\<close>

record usb_descriptor_header =
  hdr_bLength :: byte
  hdr_bDescriptorType :: byte

record libusb_endpoint_descriptor =
  ep_bLength :: byte
  ep_bDescriptorType :: byte
  ep_bEndpointAddress :: byte
  ep_bmAttributes :: byte
  ep_wMaxPacketSize :: u16
  ep_bInterval :: byte
  ep_bRefresh :: byte
  ep_bSynchAddress :: byte
  ep_extra :: "(nat \<times> byte list) option"
  ep_extra_length :: int

record libusb_interface_descriptor =
  if_bLength :: byte
  if_bDescriptorType :: byte
  if_bInterfaceNumber :: byte
  if_bAlternateSetting :: byte
  if_bNumEndpoints :: byte
  if_bInterfaceClass :: byte
  if_bInterfaceSubClass :: byte
  if_bInterfaceProtocol :: byte
  if_iInterface :: byte
  if_endpoint :: "(nat \<times> libusb_endpoint_descriptor list) option"
  if_extra :: "(nat \<times> byte list) option"
  if_extra_length :: int

record libusb_interface =
  altsetting :: "(nat \<times> libusb_interface_descriptor list) option"
  num_altsetting :: nat

record libusb_config_descriptor =
  cfg_bLength :: byte
  cfg_bDescriptorType :: byte
  cfg_wTotalLength :: u16
  cfg_bNumInterfaces :: byte
  cfg_bConfigurationValue :: byte
  cfg_iConfiguration :: byte
  cfg_bmAttributes :: byte
  cfg_MaxPower :: byte
  cfg_interface :: "(nat \<times> libusb_interface list) option"
  cfg_extra :: "(nat \<times> byte list) option"
  cfg_extra_length :: int

text \<open>What \<^verbatim>\<open>calloc\<close> leaves in an endpoint and an interface.\<close>

definition zero_endpoint :: libusb_endpoint_descriptor where
  "zero_endpoint = \<lparr>ep_bLength = 0, ep_bDescriptorType = 0, ep_bEndpointAddress = 0, ep_bmAttributes = 0,
     ep_wMaxPacketSize = 0, ep_bInterval = 0, ep_bRefresh = 0, ep_bSynchAddress = 0, ep_extra = None,
     ep_extra_length = 0\<rparr>"

definition zero_interface :: libusb_interface where
  "zero_interface = \<lparr>altsetting = None, num_altsetting = 0\<rparr>"

definition ep_bytes :: "libusb_endpoint_descriptor \<Rightarrow> byte list" where
  "ep_bytes ep = [ep_bLength ep, ep_bDescriptorType ep, ep_bEndpointAddress ep, ep_bmAttributes ep] @
     le_bytes 2 (ep_wMaxPacketSize ep) @ [ep_bInterval ep, ep_bRefresh ep, ep_bSynchAddress ep]"

definition ep_put :: "byte list \<Rightarrow> libusb_endpoint_descriptor \<Rightarrow> libusb_endpoint_descriptor" where
  "ep_put d ep = ep\<lparr>ep_bLength := d ! 0, ep_bDescriptorType := d ! 1, ep_bEndpointAddress := d ! 2,
     ep_bmAttributes := d ! 3, ep_wMaxPacketSize := le_word [d ! 4, d ! 5], ep_bInterval := d ! 6,
     ep_bRefresh := d ! 7, ep_bSynchAddress := d ! 8\<rparr>"

text \<open>The three pointer fields of a new interface descriptor are set before they are used.\<close>

definition if_of :: "byte list \<Rightarrow> libusb_interface_descriptor" where
  "if_of d = \<lparr>if_bLength = d ! 0, if_bDescriptorType = d ! 1, if_bInterfaceNumber = d ! 2,
     if_bAlternateSetting = d ! 3, if_bNumEndpoints = d ! 4, if_bInterfaceClass = d ! 5,
     if_bInterfaceSubClass = d ! 6, if_bInterfaceProtocol = d ! 7, if_iInterface = d ! 8,
     if_endpoint = None, if_extra = None, if_extra_length = 0\<rparr>"

definition cfg_of :: "byte list \<Rightarrow> libusb_config_descriptor" where
  "cfg_of d = \<lparr>cfg_bLength = d ! 0, cfg_bDescriptorType = d ! 1, cfg_wTotalLength = le_word [d ! 2, d ! 3],
     cfg_bNumInterfaces = d ! 4, cfg_bConfigurationValue = d ! 5, cfg_iConfiguration = d ! 6,
     cfg_bmAttributes = d ! 7, cfg_MaxPower = d ! 8, cfg_interface = None, cfg_extra = None,
     cfg_extra_length = 0\<rparr>"

definition parse_header :: "byte list \<Rightarrow> heap \<Rightarrow> usb_descriptor_header \<times> heap" where
  "parse_header buffer h =
    (case parse_into ''bb'' False buffer [0, 0] h of
       (d, h) \<Rightarrow> (\<lparr>hdr_bLength = d ! 0, hdr_bDescriptorType = d ! 1\<rparr>, h))"

section \<open>Parsing inside the buffer\<close>

text \<open>How many bytes a format takes, and where in the struct it ends.\<close>

definition fmt_width :: "char \<Rightarrow> nat" where
  "fmt_width c = (if c = CHR ''b'' then 1 else if c = CHR ''w'' then 2 else if c = CHR ''d'' then 4
     else if c = CHR ''u'' then 16 else 0)"

primrec fmt_end :: "string \<Rightarrow> nat \<Rightarrow> nat" where
  "fmt_end [] dp = dp"
| "fmt_end (c # cs) dp =
    fmt_end cs ((if c = CHR ''w'' \<or> c = CHR ''d'' then dp + dp mod 2 else dp) + fmt_width c)"

definition fmt_size :: "string \<Rightarrow> nat" where
  "fmt_size cs = sum_list (map fmt_width cs)"

lemma fmt_end_ge: "dp \<le> fmt_end cs dp"
proof (induction cs arbitrary: dp)
  case (Cons c cs)
  have "dp \<le> (if c = CHR ''w'' \<or> c = CHR ''d'' then dp + dp mod 2 else dp) + fmt_width c" by simp
  then show ?case unfolding fmt_end.simps using Cons.IH order_trans by blast
qed simp

lemma buf_read_Some: "sp + n \<le> length src \<Longrightarrow> buf_read src sp n = Some (take n (drop sp src))"
  by (simp add: buf_read_def)

lemma parse_chars_total:
  "sp + fmt_size cs \<le> length src \<Longrightarrow> fmt_end cs dp \<le> length dest \<Longrightarrow>
    \<exists>d. parse_chars src he cs sp dest dp = Some (d, sp + fmt_size cs) \<and> length d = length dest"
proof (induction cs arbitrary: sp dest dp)
  case Nil
  then show ?case by (simp add: fmt_size_def)
next
  case (Cons c cs)
  define dp' where "dp' = (if c = CHR ''w'' \<or> c = CHR ''d'' then dp + dp mod 2 else dp)"
  have e: "dp' + fmt_width c \<le> length dest"
    using Cons.prems(2) fmt_end_ge [of "dp' + fmt_width c" cs] by (simp add: dp'_def)
  have r: "sp + fmt_width c + fmt_size cs \<le> length src"
    using Cons.prems(1) by (simp add: fmt_size_def)
  have w: "buf_write dest dp' v = Some (take dp' dest @ v @ drop (dp' + length v) dest)"
    if "length v = fmt_width c" for v
    using e that by (simp add: buf_write_def)
  have rec: "\<exists>d. parse_chars src he cs (sp + fmt_width c) (take dp' dest @ v @ drop (dp' + length v) dest)
      (dp' + fmt_width c) = Some (d, sp + fmt_width c + fmt_size cs) \<and> length d = length dest"
    if "length v = fmt_width c" for v
    using Cons.IH [of "sp + fmt_width c" "dp' + fmt_width c" "take dp' dest @ v @ drop (dp' + length v) dest"]
      Cons.prems(2) r e that by (simp add: dp'_def)
  have rd: "buf_read src sp (fmt_width c) = Some (take (fmt_width c) (drop sp src))"
    "length (take (fmt_width c) (drop sp src)) = fmt_width c"
    using r by (simp_all add: buf_read_def)
  have sz: "fmt_size (c # cs) = fmt_width c + fmt_size cs" by (simp add: fmt_size_def)
  consider "c = CHR ''b''" | "c = CHR ''w''" | "c = CHR ''d''" | "c = CHR ''u''"
    | "fmt_width c = 0" "c \<notin> {CHR ''b'', CHR ''w'', CHR ''d'', CHR ''u''}" by (auto simp: fmt_width_def)
  then show ?case
  proof cases
    case 1
    then show ?thesis using rd rec [OF rd(2)] w [OF rd(2)] sz by (simp add: dp'_def fmt_width_def add.assoc)
  next
    case 2
    define v where "v = (if he then take 2 (drop sp src) else le_bytes 2 (le_word (take 2 (drop sp src)) :: u16))"
    have "length v = fmt_width c" using rd(2) 2 by (simp add: v_def fmt_width_def)
    with rec [of v] w [of v] rd(1) sz 2 show ?thesis
      by (simp add: dp'_def fmt_width_def add.assoc Let_def v_def [symmetric])
  next
    case 3
    define v where "v = (if he then take 4 (drop sp src) else le_bytes 4 (le_word (take 4 (drop sp src)) :: u32))"
    have "length v = fmt_width c" using rd(2) 3 by (simp add: v_def fmt_width_def)
    with rec [of v] w [of v] rd(1) sz 3 show ?thesis
      by (simp add: dp'_def fmt_width_def add.assoc Let_def v_def [symmetric])
  next
    case 4
    then show ?thesis using rd rec [OF rd(2)] w [OF rd(2)] sz by (simp add: dp'_def fmt_width_def add.assoc)
  next
    case 5
    then show ?thesis using Cons.IH [of sp dp dest] Cons.prems sz by simp
  qed
qed

lemma parse_into_inside:
  assumes "fmt_size fmt \<le> length src" and "fmt_end fmt 0 \<le> length dest"
  shows "snd (parse_into fmt he src dest h) = h" and "length (fst (parse_into fmt he src dest h)) = length dest"
  using parse_chars_total [of 0 fmt src 0 dest he] assms
  by (auto simp: parse_into_def usbi_parse_descriptor_def)

lemma buf_read_1: "sp < length src \<Longrightarrow> buf_read src sp (Suc 0) = Some [src ! sp]"
  by (simp add: buf_read_def Cons_nth_drop_Suc [symmetric])

lemma parse_header_inside:
  assumes "2 \<le> length buffer"
  shows "parse_header buffer h = (\<lparr>hdr_bLength = buffer ! 0, hdr_bDescriptorType = buffer ! 1\<rparr>, h)"
proof -
  have "buf_read buffer 0 (Suc 0) = Some [buffer ! 0]" "buf_read buffer (Suc 0) (Suc 0) = Some [buffer ! Suc 0]"
    using assms by (auto intro: buf_read_1)
  then show ?thesis
    by (simp add: parse_header_def parse_into_def usbi_parse_descriptor_def buf_write_def)
qed

end
