(* ===== verification/Usb_Descriptor.thy ===== *)
theory Usb_Descriptor
  imports Usb_Defs
begin

text \<open>
  The descriptor parser of libusb, \<^verbatim>\<open>descriptor.c\<close>: endpoints, interfaces with their alternate
  settings, configurations, and the functions that give their memory back.
  A buffer is the list of the bytes from the pointer to the end of its block, beside the
  \<open>sz\<close> the code keeps; where the code returns the number of bytes parsed, it is the sum of what
  was skipped.  Pointers own their block, and the heap records what is live.
\<close>

section \<open>Class and vendor specific descriptors\<close>

text \<open>
  The loop that \<^verbatim>\<open>parse_endpoint\<close>, \<^verbatim>\<open>parse_interface\<close> and \<^verbatim>\<open>parse_configuration\<close> each contain: skip to
  the next standard descriptor.  It stops at an invalid length, at a descriptor that does not
  fit the rest, or at what is left.
\<close>

datatype skip_result = SkipInvalid | SkipShort int | SkipDone "byte list" int

definition standard_type :: "byte \<Rightarrow> bool" where
  "standard_type t \<longleftrightarrow> t = LIBUSB_DT_ENDPOINT \<or> t = LIBUSB_DT_INTERFACE \<or> t = LIBUSB_DT_CONFIG \<or> t = LIBUSB_DT_DEVICE"

function skip_extra :: "byte list \<Rightarrow> int \<Rightarrow> heap \<Rightarrow> skip_result \<times> heap" where
  "skip_extra buffer sz h =
    (if sz < DESC_HEADER_LENGTH then (SkipDone buffer sz, h)
     else case parse_header buffer h of (header, h) \<Rightarrow>
       (let bl = uint (hdr_bLength header) in
        if bl < DESC_HEADER_LENGTH then (SkipInvalid, h)
        else if bl > sz then (SkipShort sz, h)
        else if standard_type (hdr_bDescriptorType header) then (SkipDone buffer sz, h)
        else skip_extra (drop (nat bl) buffer) (sz - bl) h))"
  by pat_completeness auto
termination
  by (relation "measure (\<lambda>(buffer, sz, h). nat sz)") (auto simp: DESC_HEADER_LENGTH_def)

declare skip_extra.simps [simp del]

section \<open>Endpoints\<close>

definition clear_endpoint :: "libusb_endpoint_descriptor \<Rightarrow> heap \<Rightarrow> heap" where
  "clear_endpoint ep h = free (map_option fst (ep_extra ep)) h"

definition endpoint_extra ::
  "libusb_endpoint_descriptor \<Rightarrow> byte list \<Rightarrow> int \<Rightarrow> int \<Rightarrow> heap \<Rightarrow> int \<times> libusb_endpoint_descriptor \<times> heap" where
  "endpoint_extra ep begin_buf sz parsed h =
    (case skip_extra begin_buf sz h of
       (SkipInvalid, h) \<Rightarrow> (LIBUSB_ERROR_IO, ep, h)
     | (SkipShort sz', h) \<Rightarrow> (parsed + (sz - sz'), ep, h)
     | (SkipDone buffer sz', h) \<Rightarrow>
        (let len = sz - sz'; none = ep\<lparr>ep_extra := None, ep_extra_length := 0\<rparr> in
         if len \<le> 0 then (parsed + len, none, h)
         else case malloc h of
           (None, h) \<Rightarrow> (LIBUSB_ERROR_NO_MEM, none, h)
         | (Some b, h) \<Rightarrow>
            (case copy_bytes begin_buf (nat len) h of
               (bs, h) \<Rightarrow> (parsed + len, ep\<lparr>ep_extra := Some (b, bs), ep_extra_length := len\<rparr>, h))))"

definition parse_endpoint ::
  "libusb_endpoint_descriptor \<Rightarrow> byte list \<Rightarrow> int \<Rightarrow> bool \<Rightarrow> heap \<Rightarrow> int \<times> libusb_endpoint_descriptor \<times> heap" where
  "parse_endpoint ep buffer sz host_endian h =
    (if sz < DESC_HEADER_LENGTH then (LIBUSB_ERROR_IO, ep, h)
     else case parse_header buffer h of (header, h) \<Rightarrow>
       (let bl = uint (hdr_bLength header) in
        if hdr_bDescriptorType header \<noteq> LIBUSB_DT_ENDPOINT then (0, ep, h)
        else if bl > sz then (0, ep, h)
        else if bl < ENDPOINT_DESC_LENGTH then (LIBUSB_ERROR_IO, ep, h)
        else case parse_into (if bl \<ge> ENDPOINT_AUDIO_DESC_LENGTH then ''bbbbwbbb'' else ''bbbbwb'')
                  host_endian buffer (ep_bytes ep) h of
          (d, h) \<Rightarrow> endpoint_extra (ep_put d ep) (drop (nat bl) buffer) (sz - bl) bl h))"

section \<open>Interfaces\<close>

definition clear_altsetting :: "libusb_interface_descriptor \<Rightarrow> heap \<Rightarrow> heap" where
  "clear_altsetting ifp h =
    (let h = free (map_option fst (if_extra ifp)) h;
         h = (case if_endpoint ifp of
                None \<Rightarrow> h
              | Some (b, eps) \<Rightarrow>
                  fold (\<lambda>ep h. clear_endpoint ep (touch b h)) (take (unat (if_bNumEndpoints ifp)) eps) h)
     in free (map_option fst (if_endpoint ifp)) h)"

definition clear_interface :: "libusb_interface \<Rightarrow> heap \<Rightarrow> libusb_interface \<times> heap" where
  "clear_interface usb_interface h =
    (let h = (case altsetting usb_interface of
                None \<Rightarrow> h
              | Some (b, alts) \<Rightarrow>
                  fold (\<lambda>ifp h. clear_altsetting ifp (touch b h)) (take (num_altsetting usb_interface) alts) h)
     in (usb_interface\<lparr>altsetting := None\<rparr>, free (map_option fst (altsetting usb_interface)) h))"

definition usbi_reallocf :: "nat option \<Rightarrow> heap \<Rightarrow> nat option \<times> heap" where
  "usbi_reallocf ptr h = (case realloc ptr h of (None, h) \<Rightarrow> (None, free ptr h) | (Some b, h) \<Rightarrow> (Some b, h))"

text \<open>
  The endpoints of one alternate setting: how many were parsed and what is left, or the error.
\<close>

datatype endpoints_result =
    EndpointError int "libusb_endpoint_descriptor list"
  | EndpointsParsed nat "libusb_endpoint_descriptor list" "byte list" int

primrec parse_endpoints ::
  "bool \<Rightarrow> nat \<Rightarrow> nat \<Rightarrow> libusb_endpoint_descriptor list \<Rightarrow> byte list \<Rightarrow> int \<Rightarrow> heap \<Rightarrow> endpoints_result \<times> heap" where
  "parse_endpoints host_endian 0 i eps buffer sz h = (EndpointsParsed i eps buffer sz, h)"
| "parse_endpoints host_endian (Suc n) i eps buffer sz h =
    (case parse_endpoint (eps ! i) buffer sz host_endian h of
       (r, ep, h) \<Rightarrow>
         (let eps = eps[i := ep] in
          if r < 0 then (EndpointError r eps, h)
          else if r = 0 then (EndpointsParsed i eps buffer sz, h)
          else parse_endpoints host_endian n (Suc i) eps (drop (nat r) buffer) (sz - r) h))"

text \<open>
  One pass through the loop of \<^verbatim>\<open>parse_interface\<close>: it returns, fails (\<^verbatim>\<open>goto err\<close>), or goes on with the
  interface, the interface number, the rest of the buffer and the number of bytes parsed.
\<close>

datatype altsetting_result =
    AltReturn int libusb_interface
  | AltFail int libusb_interface
  | AltNext libusb_interface int "byte list" int int

text \<open>The last part of the pass: is what follows an alternate setting of the same interface?\<close>

definition next_altsetting ::
  "libusb_interface \<Rightarrow> int \<Rightarrow> byte list \<Rightarrow> int \<Rightarrow> int \<Rightarrow> heap \<Rightarrow> altsetting_result \<times> heap" where
  "next_altsetting f interface_number buffer sz parsed h =
    (if sz < LIBUSB_DT_INTERFACE_SIZE then (AltReturn parsed f, h)
     else case read_byte buffer 1 h of (t, h) \<Rightarrow>
       if t \<noteq> LIBUSB_DT_INTERFACE then (AltReturn parsed f, h)
       else case read_byte buffer 2 h of (n, h) \<Rightarrow>
         if uint n \<noteq> interface_number then (AltReturn parsed f, h)
         else (AltNext f interface_number buffer sz parsed, h))"

text \<open>\<open>put\<close> stores the interface descriptor \<^verbatim>\<open>ifp\<close> points to, the last of the array.\<close>

definition altsetting_endpoints ::
  "bool \<Rightarrow> (libusb_interface_descriptor \<Rightarrow> libusb_interface) \<Rightarrow> libusb_interface_descriptor \<Rightarrow> int \<Rightarrow>
     byte list \<Rightarrow> int \<Rightarrow> int \<Rightarrow> heap \<Rightarrow> altsetting_result \<times> heap" where
  "altsetting_endpoints host_endian put ifp interface_number buffer sz parsed h =
    (let n = unat (if_bNumEndpoints ifp) in
     if n = 0 then next_altsetting (put ifp) interface_number buffer sz parsed h
     else case malloc h of
       (None, h) \<Rightarrow> (AltFail LIBUSB_ERROR_NO_MEM (put (ifp\<lparr>if_endpoint := None\<rparr>)), h)
     | (Some b, h) \<Rightarrow>
        (case parse_endpoints host_endian n 0 (replicate n zero_endpoint) buffer sz h of
           (EndpointError r eps, h) \<Rightarrow> (AltFail r (put (ifp\<lparr>if_endpoint := Some (b, eps)\<rparr>)), h)
         | (EndpointsParsed i eps buffer' sz', h) \<Rightarrow>
             next_altsetting (put (ifp\<lparr>if_endpoint := Some (b, eps), if_bNumEndpoints := of_nat i\<rparr>))
               interface_number buffer' sz' (parsed + (sz - sz')) h))"

definition altsetting_extra ::
  "bool \<Rightarrow> (libusb_interface_descriptor \<Rightarrow> libusb_interface) \<Rightarrow> libusb_interface_descriptor \<Rightarrow> int \<Rightarrow>
     byte list \<Rightarrow> int \<Rightarrow> int \<Rightarrow> heap \<Rightarrow> altsetting_result \<times> heap" where
  "altsetting_extra host_endian put ifp interface_number begin_buf sz parsed h =
    (case skip_extra begin_buf sz h of
       (SkipInvalid, h) \<Rightarrow> (AltFail LIBUSB_ERROR_IO (put ifp), h)
     | (SkipShort sz', h) \<Rightarrow> (AltReturn (parsed + (sz - sz')) (put ifp), h)
     | (SkipDone buffer sz', h) \<Rightarrow>
        (let len = sz - sz' in
         if len > 0 then
           (case malloc h of
              (None, h) \<Rightarrow> (AltFail LIBUSB_ERROR_NO_MEM (put ifp), h)
            | (Some b, h) \<Rightarrow>
               (case copy_bytes begin_buf (nat len) h of
                  (bs, h) \<Rightarrow> altsetting_endpoints host_endian put
                     (ifp\<lparr>if_extra := Some (b, bs), if_extra_length := len\<rparr>)
                     interface_number buffer sz' (parsed + len) h))
         else altsetting_endpoints host_endian put ifp interface_number buffer sz' (parsed + len) h))"

definition parse_altsetting ::
  "bool \<Rightarrow> libusb_interface \<Rightarrow> int \<Rightarrow> byte list \<Rightarrow> int \<Rightarrow> int \<Rightarrow> heap \<Rightarrow> altsetting_result \<times> heap" where
  "parse_altsetting host_endian f interface_number buffer sz parsed h =
    (case usbi_reallocf (map_option fst (altsetting f)) h of
       (None, h) \<Rightarrow> (AltFail LIBUSB_ERROR_NO_MEM f, h)
     | (Some b, h) \<Rightarrow>
        (case parse_into ''bbbbbbbbb'' False buffer (replicate 9 0) h of
           (d, h) \<Rightarrow>
            (let n = num_altsetting f;
                 alts = (case altsetting f of None \<Rightarrow> [] | Some (_, alts) \<Rightarrow> take n alts);
                 ifp = if_of d; bl = uint (if_bLength ifp);
                 put = (\<lambda>ifp. f\<lparr>altsetting := Some (b, alts @ [ifp])\<rparr>)
             in if if_bDescriptorType ifp \<noteq> LIBUSB_DT_INTERFACE then (AltReturn parsed (put ifp), h)
                else if bl < INTERFACE_DESC_LENGTH then (AltFail LIBUSB_ERROR_IO (put ifp), h)
                else if bl > sz then (AltReturn parsed (put ifp), h)
                else if uint (if_bNumEndpoints ifp) > USB_MAXENDPOINTS
                then (AltFail LIBUSB_ERROR_IO (put ifp), h)
                else altsetting_extra host_endian (\<lambda>ifp. (put ifp)\<lparr>num_altsetting := Suc n\<rparr>) ifp
                  (if interface_number = -1 then uint (if_bInterfaceNumber ifp) else interface_number)
                  (drop (nat bl) buffer) (sz - bl) (parsed + bl) h)))"

text \<open>Each pass consumes bytes, so the loop ends.\<close>

definition skip_spec :: "byte list \<Rightarrow> int \<Rightarrow> skip_result \<Rightarrow> bool" where
  "skip_spec buffer sz r = (case r of
     SkipInvalid \<Rightarrow> True
   | SkipShort s \<Rightarrow> s \<le> sz \<and> 0 \<le> s
   | SkipDone b s \<Rightarrow> s \<le> sz \<and> (0 \<le> sz \<longrightarrow> 0 \<le> s) \<and> b = drop (nat (sz - s)) buffer)"

lemma skip_spec_step:
  assumes "skip_spec (drop (nat k) buffer) (sz - k) r" "0 \<le> k" "k \<le> sz"
  shows "skip_spec buffer sz r"
proof -
  have "nat (sz - k - s) + nat k = nat (sz - s)" if "s \<le> sz - k" for s using that assms(2) by linarith
  then show ?thesis using assms by (auto simp: skip_spec_def split: skip_result.splits)
qed

lemma skip_extra_spec:
  "skip_extra buffer sz h = (r, h') \<Longrightarrow> skip_spec buffer sz r \<and> (sz \<le> int (length buffer) \<longrightarrow> h' = h)"
proof (induction buffer sz h arbitrary: r h' rule: skip_extra.induct)
  case (1 buffer sz h)
  obtain header h1 where hd: "parse_header buffer h = (header, h1)" by fastforce
  define bl where "bl = uint (hdr_bLength header)"
  have h1: "sz \<le> int (length buffer) \<Longrightarrow> \<not> sz < DESC_HEADER_LENGTH \<Longrightarrow> h1 = h"
    using parse_header_inside [of buffer h] hd by (simp add: DESC_HEADER_LENGTH_def)
  show ?case
  proof (cases "\<not> sz < DESC_HEADER_LENGTH \<and> \<not> bl < DESC_HEADER_LENGTH \<and> \<not> sz < bl \<and>
      \<not> standard_type (hdr_bDescriptorType header)")
    case True
    then have r: "skip_extra (drop (nat bl) buffer) (sz - bl) h1 = (r, h')"
      using "1.prems" hd by (simp add: skip_extra.simps [of buffer sz h] Let_def bl_def)
    have "skip_spec (drop (nat bl) buffer) (sz - bl) r \<and>
        (sz - bl \<le> int (length (drop (nat bl) buffer)) \<longrightarrow> h' = h1)"
      using "1.IH" [OF _ hd [symmetric] bl_def _ _ _ r] True by blast
    moreover have "sz - bl \<le> int (length (drop (nat bl) buffer))" if "sz \<le> int (length buffer)"
      using that True by (simp add: DESC_HEADER_LENGTH_def) linarith
    ultimately show ?thesis using skip_spec_step [of bl buffer sz r] True h1 by (auto simp: bl_def)
  next
    case False
    then show ?thesis
      using "1.prems" hd h1 by (auto simp: skip_extra.simps [of buffer sz h] Let_def bl_def skip_spec_def
          DESC_HEADER_LENGTH_def split: if_splits)
  qed
qed

lemma skip_extra_le:
  "skip_extra buffer sz h = (SkipShort s, h') \<Longrightarrow> s \<le> sz"
  "skip_extra buffer sz h = (SkipDone b s, h') \<Longrightarrow> s \<le> sz"
  using skip_extra_spec by (fastforce simp: skip_spec_def)+

lemma parse_endpoint_r:
  "parse_endpoint ep buffer sz he h = (r, ep', h') \<Longrightarrow> r > 0 \<Longrightarrow> ENDPOINT_DESC_LENGTH \<le> r"
  by (auto simp: parse_endpoint_def endpoint_extra_def Let_def usb_consts dest!: skip_extra_le
      split: if_splits prod.splits skip_result.splits option.splits)

lemma parse_endpoints_le:
  "parse_endpoints he n i eps buffer sz h = (EndpointsParsed j eps' buffer' sz', h') \<Longrightarrow> sz' \<le> sz"
  by (induction n arbitrary: i eps buffer sz h) (fastforce simp: Let_def split: prod.splits if_splits)+

lemma next_altsetting_le:
  "next_altsetting f k buffer sz parsed h = (AltNext f' k' buffer' sz' parsed', h') \<Longrightarrow> sz' = sz"
  by (auto simp: next_altsetting_def split: if_splits prod.splits)

lemma altsetting_endpoints_le:
  "altsetting_endpoints he put ifp k buffer sz parsed h = (AltNext f' k' buffer' sz' parsed', h') \<Longrightarrow>
     sz' \<le> sz"
  by (auto simp: altsetting_endpoints_def Let_def dest!: next_altsetting_le parse_endpoints_le
      split: if_splits prod.splits option.splits endpoints_result.splits)

lemma altsetting_extra_le:
  "altsetting_extra he put ifp k buffer sz parsed h = (AltNext f' k' buffer' sz' parsed', h') \<Longrightarrow>
     sz' \<le> sz"
  by (fastforce simp: altsetting_extra_def Let_def dest!: altsetting_endpoints_le skip_extra_le
      split: if_splits prod.splits option.splits skip_result.splits)

lemma parse_altsetting_less:
  "parse_altsetting he f k buffer sz parsed h = (AltNext f' k' buffer' sz' parsed', h') \<Longrightarrow> sz' < sz"
  by (fastforce simp: parse_altsetting_def Let_def INTERFACE_DESC_LENGTH_def dest!: altsetting_extra_le
      split: if_splits prod.splits option.splits)

function parse_interface_loop ::
  "bool \<Rightarrow> libusb_interface \<Rightarrow> int \<Rightarrow> byte list \<Rightarrow> int \<Rightarrow> int \<Rightarrow> heap \<Rightarrow> int \<times> libusb_interface \<times> heap" where
  "parse_interface_loop host_endian f interface_number buffer sz parsed h =
    (if sz < INTERFACE_DESC_LENGTH then (parsed, f, h)
     else case parse_altsetting host_endian f interface_number buffer sz parsed h of
       (AltReturn r f', h') \<Rightarrow> (r, f', h')
     | (AltFail r f', h') \<Rightarrow> (case clear_interface f' h' of (f'', h'') \<Rightarrow> (r, f'', h''))
     | (AltNext f' k' buffer' sz' parsed', h') \<Rightarrow>
         parse_interface_loop host_endian f' k' buffer' sz' parsed' h')"
  by pat_completeness auto
termination
proof (relation "measure (\<lambda>(he, f, k, buffer, sz, parsed, h). nat sz)", goal_cases)
  case (2 he f k buffer sz parsed h r h' f' k' buffer' sz' parsed')
  then have "parse_altsetting he f k buffer sz parsed h = (AltNext f' k' buffer' sz' parsed', h')" by simp
  from parse_altsetting_less [OF this] 2(1) show ?case by (simp add: INTERFACE_DESC_LENGTH_def)
qed simp

declare parse_interface_loop.simps [simp del]

definition parse_interface ::
  "libusb_interface \<Rightarrow> byte list \<Rightarrow> int \<Rightarrow> bool \<Rightarrow> heap \<Rightarrow> int \<times> libusb_interface \<times> heap" where
  "parse_interface usb_interface buffer sz host_endian h =
     parse_interface_loop host_endian (usb_interface\<lparr>num_altsetting := 0\<rparr>) (-1) buffer sz 0 h"

section \<open>Configurations\<close>

definition clear_configuration :: "libusb_config_descriptor \<Rightarrow> heap \<Rightarrow> heap" where
  "clear_configuration config h =
    (let h = (case cfg_interface config of
                None \<Rightarrow> h
              | Some (b, fs) \<Rightarrow>
                  fold (\<lambda>f h. snd (clear_interface f (touch b h))) (take (unat (cfg_bNumInterfaces config)) fs) h);
         h = free (map_option fst (cfg_interface config)) h
     in free (map_option fst (cfg_extra config)) h)"

definition put_interface :: "nat \<Rightarrow> libusb_interface \<Rightarrow> libusb_config_descriptor \<Rightarrow> libusb_config_descriptor" where
  "put_interface i f config = config\<lparr>cfg_interface := map_option (\<lambda>(b, fs). (b, fs[i := f])) (cfg_interface config)\<rparr>"

text \<open>The first bytes of class specific descriptors are kept, later ones dropped (the \<^verbatim>\<open>FIXME\<close>).\<close>

definition config_extra ::
  "libusb_config_descriptor \<Rightarrow> byte list \<Rightarrow> int \<Rightarrow> heap \<Rightarrow> libusb_config_descriptor option \<times> heap" where
  "config_extra config begin_buf len h =
    (if len > 0 \<and> cfg_extra_length config = 0 then
       (case malloc h of
          (None, h) \<Rightarrow> (None, h)
        | (Some b, h) \<Rightarrow>
           (case copy_bytes begin_buf (nat len) h of
              (bs, h) \<Rightarrow> (Some (config\<lparr>cfg_extra := Some (b, bs), cfg_extra_length := len\<rparr>), h)))
     else (Some config, h))"

text \<open>The loop over the interfaces; the size left, or the error after \<^verbatim>\<open>clear_configuration\<close>.\<close>

primrec parse_interfaces ::
  "bool \<Rightarrow> nat \<Rightarrow> nat \<Rightarrow> libusb_config_descriptor \<Rightarrow> byte list \<Rightarrow> int \<Rightarrow> heap \<Rightarrow>
     int \<times> libusb_config_descriptor \<times> heap" where
  "parse_interfaces host_endian 0 i config buffer sz h = (sz, config, h)"
| "parse_interfaces host_endian (Suc n) i config buffer sz h =
    (case skip_extra buffer sz h of
       (SkipInvalid, h) \<Rightarrow> (LIBUSB_ERROR_IO, config, clear_configuration config h)
     | (SkipShort sz', h) \<Rightarrow> (sz', config\<lparr>cfg_bNumInterfaces := of_nat i\<rparr>, h)
     | (SkipDone buffer' sz', h) \<Rightarrow>
        (case config_extra config buffer (sz - sz') h of
           (None, h) \<Rightarrow> (LIBUSB_ERROR_NO_MEM, config, clear_configuration config h)
         | (Some config, h) \<Rightarrow>
            (let f = (case cfg_interface config of None \<Rightarrow> zero_interface | Some (_, fs) \<Rightarrow> fs ! i) in
             case parse_interface f buffer' sz' host_endian h of
               (r, f, h) \<Rightarrow>
                (let config = put_interface i f config in
                 if r < 0 then (r, config, clear_configuration config h)
                 else if r = 0 then (sz', config\<lparr>cfg_bNumInterfaces := of_nat i\<rparr>, h)
                 else parse_interfaces host_endian n (Suc i) config (drop (nat r) buffer') (sz' - r) h))))"

text \<open>The result is the size left; the descriptor is only defined when it is not negative.\<close>

definition parse_configuration ::
  "byte list \<Rightarrow> int \<Rightarrow> bool \<Rightarrow> heap \<Rightarrow> int \<times> libusb_config_descriptor \<times> heap" where
  "parse_configuration buffer sz host_endian h =
    (if sz < LIBUSB_DT_CONFIG_SIZE then (LIBUSB_ERROR_IO, cfg_of (replicate 9 0), h)
     else case parse_into ''bbwbbbbb'' host_endian buffer (replicate 9 0) h of
       (d, h) \<Rightarrow>
        (let config = cfg_of d; bl = uint (cfg_bLength config); n = unat (cfg_bNumInterfaces config) in
         if cfg_bDescriptorType config \<noteq> LIBUSB_DT_CONFIG then (LIBUSB_ERROR_IO, config, h)
         else if bl < LIBUSB_DT_CONFIG_SIZE then (LIBUSB_ERROR_IO, config, h)
         else if bl > sz then (LIBUSB_ERROR_IO, config, h)
         else if int n > USB_MAXINTERFACES then (LIBUSB_ERROR_IO, config, h)
         else case malloc h of
           (None, h) \<Rightarrow> (LIBUSB_ERROR_NO_MEM, config, h)
         | (Some b, h) \<Rightarrow>
             parse_interfaces host_endian n 0 (config\<lparr>cfg_interface := Some (b, replicate n zero_interface)\<rparr>)
               (drop (nat bl) buffer) (sz - bl) h))"

text \<open>A descriptor that a client holds is its block and its contents.\<close>

definition raw_desc_to_config ::
  "byte list \<Rightarrow> int \<Rightarrow> bool \<Rightarrow> heap \<Rightarrow> int \<times> (nat \<times> libusb_config_descriptor) option \<times> heap" where
  "raw_desc_to_config buf sz host_endian h =
    (case malloc h of
       (None, h) \<Rightarrow> (LIBUSB_ERROR_NO_MEM, None, h)
     | (Some b, h) \<Rightarrow>
        (case parse_configuration buf sz host_endian h of
           (r, config, h) \<Rightarrow>
             if r < 0 then (r, None, free (Some b) h)
             else (LIBUSB_SUCCESS, Some (b, config), h)))"

definition libusb_free_config_descriptor :: "(nat \<times> libusb_config_descriptor) option \<Rightarrow> heap \<Rightarrow> heap" where
  "libusb_free_config_descriptor config h =
    (case config of None \<Rightarrow> h | Some (b, c) \<Rightarrow> free (Some b) (clear_configuration c (touch b h)))"

end
