(* ===== verification/Usb_Config.thy ===== *)
theory Usb_Config
  imports Usb_Descriptor
begin

text \<open>
  The descriptor parser owns what it allocates and stays inside its buffer.  \<open>cfg_blocks\<close>
  and its parts list the blocks a descriptor holds; each step of the parser is shown to
  add exactly the blocks its result lists, and the clearing functions to give them back.
\<close>

section \<open>What a descriptor holds\<close>

definition ep_blocks :: "libusb_endpoint_descriptor \<Rightarrow> nat list" where
  "ep_blocks ep = opt_list (map_option fst (ep_extra ep))"

definition alt_blocks :: "libusb_interface_descriptor \<Rightarrow> nat list" where
  "alt_blocks ifp = opt_list (map_option fst (if_extra ifp)) @
     (case if_endpoint ifp of
        None \<Rightarrow> []
      | Some (b, eps) \<Rightarrow> concat (map ep_blocks (take (unat (if_bNumEndpoints ifp)) eps)) @ [b])"

definition intf_blocks :: "libusb_interface \<Rightarrow> nat list" where
  "intf_blocks f =
     (case altsetting f of
        None \<Rightarrow> []
      | Some (b, alts) \<Rightarrow> concat (map alt_blocks (take (num_altsetting f) alts)) @ [b])"

definition cfg_blocks :: "libusb_config_descriptor \<Rightarrow> nat list" where
  "cfg_blocks c =
     (case cfg_interface c of
        None \<Rightarrow> []
      | Some (b, fs) \<Rightarrow> concat (map intf_blocks (take (unat (cfg_bNumInterfaces c)) fs)) @ [b]) @
     opt_list (map_option fst (cfg_extra c))"

section \<open>Clearing\<close>

lemma owned_clear_endpoint: "owned (ep_blocks ep @ rest) h L \<Longrightarrow> owned rest (clear_endpoint ep h) L"
  by (simp add: clear_endpoint_def ep_blocks_def owned_free)

interpretation endpoint: heap_object ep_blocks clear_endpoint
  by unfold_locales (rule owned_clear_endpoint)

lemma owned_clear_altsetting:
  assumes "owned (alt_blocks ifp @ rest) h L"
  shows "owned rest (clear_altsetting ifp h) L"
proof (cases "if_endpoint ifp")
  case None
  then show ?thesis using owned_free [of "map_option fst (if_extra ifp)" rest] assms by (simp add: alt_blocks_def clear_altsetting_def)
next
  case (Some p)
  obtain b eps where p: "p = (b, eps)" by fastforce
  let ?eps = "take (unat (if_bNumEndpoints ifp)) eps"
  have "owned (concat (map ep_blocks ?eps) @ [b] @ rest) (free (map_option fst (if_extra ifp)) h) L"
    using assms Some p owned_free by (simp add: alt_blocks_def)
  from endpoint.owned_clear_array [OF _ this, of b]
  have "owned ([b] @ rest) (fold (\<lambda>ep h. clear_endpoint ep (touch b h)) ?eps
      (free (map_option fst (if_extra ifp)) h)) L" by simp
  then show ?thesis using Some p owned_free_front by (simp add: clear_altsetting_def Let_def)
qed

interpretation altsetting: heap_object alt_blocks clear_altsetting
  by unfold_locales (rule owned_clear_altsetting)

lemma owned_clear_interface:
  assumes "owned (intf_blocks f @ rest) h L"
  shows "owned rest (snd (clear_interface f h)) L"
proof (cases "altsetting f")
  case None
  then show ?thesis using assms by (simp add: intf_blocks_def clear_interface_def)
next
  case (Some p)
  obtain b alts where p: "p = (b, alts)" by fastforce
  have "owned (concat (map alt_blocks (take (num_altsetting f) alts)) @ [b] @ rest) h L"
    using assms Some p by (simp add: intf_blocks_def)
  from altsetting.owned_clear_array [OF _ this, of b]
  show ?thesis using Some p owned_free_front by (simp add: clear_interface_def Let_def)
qed

interpretation interface: heap_object intf_blocks "\<lambda>f h. snd (clear_interface f h)"
  by unfold_locales (rule owned_clear_interface)

lemma owned_clear_configuration:
  assumes "owned (cfg_blocks c @ rest) h L"
  shows "owned rest (clear_configuration c h) L"
proof (cases "cfg_interface c")
  case None
  then show ?thesis
    using assms owned_free [of "map_option fst (cfg_extra c)" rest] by (simp add: cfg_blocks_def clear_configuration_def)
next
  case (Some p)
  obtain b fs where p: "p = (b, fs)" by fastforce
  let ?e = "opt_list (map_option fst (cfg_extra c))"
  have "owned (concat (map intf_blocks (take (unat (cfg_bNumInterfaces c)) fs)) @ [b] @ ?e @ rest) h L"
    using assms Some p by (simp add: cfg_blocks_def)
  from interface.owned_clear_array [OF _ this, of b]
  show ?thesis using Some p owned_free_front owned_free by (simp add: clear_configuration_def Let_def)
qed

interpretation configuration: heap_object cfg_blocks clear_configuration
  by unfold_locales (rule owned_clear_configuration)

text \<open>A corrupt heap stays corrupt, and freeing makes no block live.\<close>

lemma corrupt_free: "corrupt h \<Longrightarrow> corrupt (free p h)" "live (free p h) \<subseteq> live h"
  by (auto simp: free_def split: option.splits)

lemma corrupt_touch: "corrupt h \<Longrightarrow> corrupt (touch b h)" "live (touch b h) = live h"
  by (simp_all add: touch_def)

lemma fold_keeps:
  assumes "\<And>x h. P h \<Longrightarrow> P (f x h)"
  shows "P h \<Longrightarrow> P (fold f xs h)"
  by (induction xs arbitrary: h) (auto intro: assms)

lemma clear_altsetting_keeps:
  assumes "\<And>p h. P h \<Longrightarrow> P (free p h)" and "\<And>b h. P h \<Longrightarrow> P (touch b h)" and "P h"
  shows "P (clear_altsetting ifp h)"
proof -
  have "P (fold (\<lambda>ep h. clear_endpoint ep (touch b h)) eps h)" if "P h" for b eps h
    by (rule fold_keeps [where P = P, OF _ that]) (simp add: clear_endpoint_def assms)
  then show ?thesis using assms by (auto simp: clear_altsetting_def Let_def split: option.splits)
qed

lemma clear_interface_keeps:
  assumes "\<And>p h. P h \<Longrightarrow> P (free p h)" and "\<And>b h. P h \<Longrightarrow> P (touch b h)" and "P h"
  shows "P (snd (clear_interface f h))"
proof -
  have "P (fold (\<lambda>ifp h. clear_altsetting ifp (touch b h)) alts h)" if "P h" for b alts h
    by (rule fold_keeps [where P = P, OF _ that]) (rule clear_altsetting_keeps [where P = P], erule assms(1), erule assms(2), erule assms(2))
  then show ?thesis using assms by (auto simp: clear_interface_def Let_def split: option.splits)
qed

lemma clear_configuration_keeps:
  assumes "\<And>p h. P h \<Longrightarrow> P (free p h)" and "\<And>b h. P h \<Longrightarrow> P (touch b h)" and "P h"
  shows "P (clear_configuration c h)"
proof -
  have "P (fold (\<lambda>f h. snd (clear_interface f (touch b h))) fs h)" if "P h" for b fs h
    by (rule fold_keeps [where P = P, OF _ that]) (rule clear_interface_keeps [where P = P], erule assms(1), erule assms(2), erule assms(2))
  then show ?thesis using assms by (auto simp: clear_configuration_def Let_def split: option.splits)
qed

lemma clear_configuration_corrupt: "corrupt h \<Longrightarrow> corrupt (clear_configuration c h)"
  by (rule clear_configuration_keeps [where P = corrupt]) (auto intro: corrupt_free corrupt_touch)

text \<open>Clearing an interface whose array is gone.\<close>

lemma clear_interface_stale:
  assumes "altsetting f = Some (b, alts)" and "b \<notin> live h"
  shows "corrupt (snd (clear_interface f h))"
proof -
  let ?h = "fold (\<lambda>ifp h. clear_altsetting ifp (touch b h)) (take (num_altsetting f) alts) h"
  have "b \<notin> live ?h"
    by (rule fold_keeps [where P = "\<lambda>h. b \<notin> live h", OF _ assms(2)],
        rule clear_altsetting_keeps [where P = "\<lambda>h. b \<notin> live h"])
      (use corrupt_free(2) in \<open>auto simp: corrupt_touch(2)\<close>)
  then show ?thesis using assms(1) by (simp add: clear_interface_def free_def)
qed

section \<open>Endpoints\<close>

lemma copy_bytes_inside: "n \<le> length src \<Longrightarrow> copy_bytes src n h = (take n src, h)"
  by (simp add: copy_bytes_def buf_read_def)

lemma skip_done:
  assumes "skip_extra buffer sz h = (SkipDone buffer' sz', h')" "sz \<le> int (length buffer)"
  shows "h' = h" "sz' \<le> sz" "0 \<le> sz \<Longrightarrow> 0 \<le> sz'" "sz' \<le> int (length buffer')"
    "nat (sz - sz') \<le> length buffer \<or> sz < 0"
proof -
  have s: "skip_spec buffer sz (SkipDone buffer' sz')" "h' = h" using skip_extra_spec [OF assms(1)] assms(2) by auto
  then show "h' = h" "sz' \<le> sz" "0 \<le> sz \<Longrightarrow> 0 \<le> sz'" by (auto simp: skip_spec_def)
  have "buffer' = drop (nat (sz - sz')) buffer" "sz' \<le> sz" using s by (auto simp: skip_spec_def)
  then have b: "length buffer' = length buffer - nat (sz - sz')" "sz' \<le> sz" by simp_all
  show "sz' \<le> int (length buffer')" unfolding b(1) using b(2) assms(2) by linarith
  show "nat (sz - sz') \<le> length buffer \<or> sz < 0"
    using s assms(2) by (auto simp: skip_spec_def)
qed

lemma skip_short:
  assumes "skip_extra buffer sz h = (SkipShort sz', h')" "sz \<le> int (length buffer)"
  shows "h' = h" "sz' \<le> sz" "0 \<le> sz'"
  using skip_extra_spec [OF assms(1)] assms(2) by (auto simp: skip_spec_def)

lemma skip_invalid:
  "skip_extra buffer sz h = (SkipInvalid, h') \<Longrightarrow> sz \<le> int (length buffer) \<Longrightarrow> h' = h"
  using skip_extra_spec by blast

definition error_code :: "int \<Rightarrow> bool" where
  "error_code r \<longleftrightarrow> r = LIBUSB_ERROR_IO \<or> r = LIBUSB_ERROR_NO_MEM"

lemma error_code_neg: "error_code r \<Longrightarrow> r < 0"
  by (auto simp: error_code_def usb_consts)

definition endpoint_post ::
  "int \<Rightarrow> nat list \<Rightarrow> nat set \<Rightarrow> int \<times> libusb_endpoint_descriptor \<times> heap \<Rightarrow> bool" where
  "endpoint_post sz bs L res = (case res of (r, ep, h) \<Rightarrow>
     owned (ep_blocks ep @ bs) h L \<and> r \<le> sz \<and> (r \<le> 0 \<longrightarrow> ep_blocks ep = []) \<and> (r < 0 \<longrightarrow> error_code r))"

lemma endpoint_extra_post:
  assumes "owned bs h L" "ep_blocks ep = []" "sz \<le> int (length buffer)" "0 \<le> sz" "0 < parsed"
  shows "endpoint_post (parsed + sz) bs L (endpoint_extra ep buffer sz parsed h)"
proof -
  obtain r h1 where sk: "skip_extra buffer sz h = (r, h1)" by fastforce
  have none: "ep_blocks (ep\<lparr>ep_extra := None, ep_extra_length := 0\<rparr>) = []"
    by (simp add: ep_blocks_def opt_list_def)
  show ?thesis
  proof (cases r)
    case SkipInvalid
    then show ?thesis
      using sk skip_invalid [of buffer sz h h1] assms
      by (simp add: endpoint_extra_def endpoint_post_def error_code_def usb_consts)
  next
    case (SkipShort s)
    then show ?thesis
      using sk skip_short [of buffer sz h s h1] assms by (simp add: endpoint_extra_def endpoint_post_def)
  next
    case (SkipDone b s)
    note d = skip_done [OF sk [unfolded SkipDone] assms(3)]
    obtain p h2 where m: "malloc h1 = (p, h2)" by fastforce
    have o: "owned (opt_list p @ bs) h2 L" using owned_malloc [OF m] assms(1) d(1) by simp
    have c: "copy_bytes buffer (nat (sz - s)) h2 = (take (nat (sz - s)) buffer, h2)"
      using copy_bytes_inside d(5) assms(4) by simp
    consider "sz - s \<le> 0" | "0 < sz - s" "p = None" | q where "0 < sz - s" "p = Some q" by fastforce
    then show ?thesis
    proof cases
      case 1
      then show ?thesis
        using SkipDone sk d assms none by (simp add: endpoint_extra_def endpoint_post_def)
    next
      case 2
      then show ?thesis
        using SkipDone sk d assms none m o
        by (simp add: endpoint_extra_def endpoint_post_def error_code_def opt_list_def Let_def usb_consts)
    next
      case 3
      then show ?thesis
        using SkipDone sk d assms m o c
        by (simp add: endpoint_extra_def endpoint_post_def opt_list_def Let_def ep_blocks_def)
    qed
  qed
qed

lemma fmt_sizes:
  "fmt_size ''bbbbwbbb'' = 9" "fmt_size ''bbbbwb'' = 7" "fmt_size ''bbbbbbbbb'' = 9" "fmt_size ''bbwbbbbb'' = 9"
  "fmt_end ''bbbbwbbb'' 0 = 9" "fmt_end ''bbbbwb'' 0 = 7" "fmt_end ''bbbbbbbbb'' 0 = 9" "fmt_end ''bbwbbbbb'' 0 = 9"
  by (simp_all add: fmt_size_def fmt_width_def)

lemma ep_blocks_put [simp]: "ep_blocks (ep_put d ep) = ep_blocks ep"
  by (simp add: ep_blocks_def ep_put_def)

lemma parse_endpoint_post:
  assumes "owned bs h L" "ep_blocks ep = []" "sz \<le> int (length buffer)" "0 \<le> sz"
  shows "endpoint_post sz bs L (parse_endpoint ep buffer sz he h)"
proof (cases "sz < DESC_HEADER_LENGTH")
  case True
  then show ?thesis using assms by (simp add: parse_endpoint_def endpoint_post_def error_code_def usb_consts)
next
  case False
  define bl where "bl = uint (buffer ! 0)"
  have hd: "parse_header buffer h = (\<lparr>hdr_bLength = buffer ! 0, hdr_bDescriptorType = buffer ! 1\<rparr>, h)"
    using False assms(3) by (intro parse_header_inside) (simp add: DESC_HEADER_LENGTH_def)
  show ?thesis
  proof (cases "buffer ! 1 = LIBUSB_DT_ENDPOINT \<and> \<not> bl > sz \<and> \<not> bl < ENDPOINT_DESC_LENGTH")
    case bad: False
    then show ?thesis
      using False hd assms
      by (auto simp: parse_endpoint_def endpoint_post_def error_code_def bl_def [symmetric] Let_def usb_consts)
  next
    case good: True
    define fmt where "fmt = (if bl \<ge> ENDPOINT_AUDIO_DESC_LENGTH then ''bbbbwbbb'' else ''bbbbwb'')"
    have "fmt_size fmt \<le> length buffer"
      using good assms(3) by (auto simp: fmt_def fmt_sizes usb_consts)
    moreover have "fmt_end fmt 0 \<le> length (ep_bytes ep)" by (simp add: fmt_def fmt_width_def ep_bytes_def)
    ultimately obtain d where d: "parse_into fmt he buffer (ep_bytes ep) h = (d, h)"
      using parse_into_inside(1) by (metis prod.collapse)
    have "endpoint_post (bl + (sz - bl)) bs L (endpoint_extra (ep_put d ep) (drop (nat bl) buffer) (sz - bl) bl h)"
      using good assms by (intro endpoint_extra_post) (auto simp: usb_consts)
    then show ?thesis
      using False hd good d by (simp add: parse_endpoint_def bl_def [symmetric] fmt_def [symmetric] Let_def)
  qed
qed

definition eps_blocks :: "libusb_endpoint_descriptor list \<Rightarrow> nat list" where
  "eps_blocks eps = concat (map ep_blocks eps)"

lemma eps_blocks_append: "eps_blocks (xs @ ys) = eps_blocks xs @ eps_blocks ys"
  by (simp add: eps_blocks_def)

lemma eps_blocks_take_Suc:
  "i < length eps \<Longrightarrow> eps_blocks (take (Suc i) (eps[i := ep])) = eps_blocks (take i eps) @ ep_blocks ep"
  by (simp add: eps_blocks_def take_Suc_conv_app_nth)

lemma eps_blocks_none: "\<forall>ep \<in> set eps. ep_blocks ep = [] \<Longrightarrow> eps_blocks eps = []"
  by (simp add: eps_blocks_def)

text \<open>
  The endpoints from the \<open>i\<close>th on hold nothing yet; when the loop ends, those it has counted hold
  what was allocated, and after an error those before the one that failed.
\<close>

definition endpoints_post ::
  "nat \<Rightarrow> int \<Rightarrow> nat list \<Rightarrow> nat set \<Rightarrow> endpoints_result \<times> heap \<Rightarrow> bool" where
  "endpoints_post n sz bs L res = (case res of
     (EndpointError r eps, h) \<Rightarrow> error_code r \<and> owned (eps_blocks eps @ bs) h L \<and> length eps = n
   | (EndpointsParsed j eps buffer sz', h) \<Rightarrow> owned (eps_blocks (take j eps) @ bs) h L \<and> length eps = n \<and>
       j \<le> n \<and> sz' \<le> sz \<and> 0 \<le> sz' \<and> sz' \<le> int (length buffer))"

lemma parse_endpoints_post:
  assumes "owned (eps_blocks (take i eps) @ bs) h L" "length eps = i + n"
    and "\<forall>ep \<in> set (drop i eps). ep_blocks ep = []" "sz \<le> int (length buffer)" "0 \<le> sz"
  shows "endpoints_post (i + n) sz bs L (parse_endpoints he n i eps buffer sz h)"
  using assms
proof (induction n arbitrary: i eps buffer sz h)
  case 0
  then show ?case by (simp add: endpoints_post_def)
next
  case (Suc n)
  have i: "i < length eps" using Suc.prems(2) by simp
  obtain r ep h1 where p: "parse_endpoint (eps ! i) buffer sz he h = (r, ep, h1)" using prod_cases3 by blast
  have none: "ep_blocks (eps ! i) = []" using Suc.prems(3) i by (metis Cons_nth_drop_Suc list.set_intros(1))
  have post: "owned (ep_blocks ep @ eps_blocks (take i eps) @ bs) h1 L" "r \<le> sz"
    "r \<le> 0 \<Longrightarrow> ep_blocks ep = []" "r < 0 \<Longrightarrow> error_code r"
    using parse_endpoint_post [OF Suc.prems(1) none Suc.prems(4,5), of he] p by (simp_all add: endpoint_post_def)
  let ?eps = "eps[i := ep]"
  have rest: "\<forall>e \<in> set (drop (Suc i) ?eps). ep_blocks e = []"
    using Suc.prems(3) by (simp flip: Cons_nth_drop_Suc [OF i])
  have all: "eps_blocks ?eps = eps_blocks (take i eps)" if "ep_blocks ep = []"
  proof -
    have "eps_blocks ?eps = eps_blocks (take (Suc i) ?eps) @ eps_blocks (drop (Suc i) ?eps)"
      using eps_blocks_append append_take_drop_id by metis
    then show ?thesis using eps_blocks_take_Suc [OF i] eps_blocks_none [OF rest] that by simp
  qed
  consider "r < 0" | "r = 0" | "0 < r" by linarith
  then show ?case
  proof cases
    case 1
    then show ?thesis using p post all Suc.prems(2) by (simp add: endpoints_post_def)
  next
    case 2
    then show ?thesis using p post Suc.prems by (simp add: endpoints_post_def)
  next
    case 3
    have "owned (eps_blocks (take (Suc i) ?eps) @ bs) h1 L"
      unfolding eps_blocks_take_Suc [OF i] using post(1) by (elim owned_perm) simp
    from Suc.IH [OF this _ rest, of "sz - r" "drop (nat r) buffer"] 3
    show ?thesis using p post(2) Suc.prems(2,4) by (auto simp: endpoints_post_def split: endpoints_result.splits)
  qed
qed

section \<open>Interfaces\<close>

text \<open>
  A pass through the loop: \<open>num0\<close> is the number of alternate settings before it.  A failed
  reallocation leaves an array that is gone.
\<close>

definition stale :: "libusb_interface \<Rightarrow> heap \<Rightarrow> bool" where
  "stale f h \<longleftrightarrow> (\<exists>b alts. altsetting f = Some (b, alts) \<and> b \<notin> live h)"

definition complete :: "libusb_interface \<Rightarrow> bool" where
  "complete f \<longleftrightarrow> (\<exists>b alts. altsetting f = Some (b, alts) \<and> length alts = num_altsetting f)"

definition alt_post :: "int \<Rightarrow> int \<Rightarrow> nat list \<Rightarrow> nat set \<Rightarrow> altsetting_result \<times> heap \<Rightarrow> bool" where
  "alt_post parsed sz bs L res = (case res of
     (AltReturn r f, h) \<Rightarrow> owned (intf_blocks f @ bs) h L \<and> parsed \<le> r \<and> r \<le> parsed + sz
   | (AltFail r f, h) \<Rightarrow> error_code r \<and> owned (intf_blocks f @ bs) h L
   | (AltNext f k buffer sz' parsed', h) \<Rightarrow> owned (intf_blocks f @ bs) h L \<and> complete f \<and>
       parsed \<le> parsed' \<and> parsed' + sz' = parsed + sz \<and> 0 \<le> sz' \<and> sz' \<le> int (length buffer))"

lemma alt_post_mono:
  "alt_post parsed sz bs L res \<Longrightarrow> parsed + sz = parsed' + sz' \<Longrightarrow> parsed' \<le> parsed \<Longrightarrow> alt_post parsed' sz' bs L res"
  by (auto simp: alt_post_def split: altsetting_result.splits)

lemma read_byte_inside: "i < length src \<Longrightarrow> read_byte src i h = (src ! i, h)"
  by (simp add: read_byte_def)

lemma next_altsetting_post:
  assumes "owned (intf_blocks f @ bs) h L" "complete f" "0 \<le> sz" "sz \<le> int (length buffer)"
  shows "alt_post parsed sz bs L (next_altsetting f k buffer sz parsed h)"
  using assms by (auto simp: next_altsetting_def alt_post_def read_byte_inside LIBUSB_DT_INTERFACE_SIZE_def)

text \<open>\<open>put\<close> is the update of the descriptor's place in the array.\<close>

definition put_ok :: "(libusb_interface_descriptor \<Rightarrow> libusb_interface) \<Rightarrow> nat list \<Rightarrow> bool" where
  "put_ok put bs \<longleftrightarrow> (\<forall>ifp. complete (put ifp) \<and> mset (intf_blocks (put ifp)) = mset (alt_blocks ifp @ bs))"

lemma put_ok_owned: "put_ok put bs \<Longrightarrow> owned (alt_blocks ifp @ bs @ cs) h L \<Longrightarrow> owned (intf_blocks (put ifp) @ cs) h L"
  by (erule owned_perm) (simp add: put_ok_def)

lemma altsetting_endpoints_post:
  assumes "put_ok put bs" "owned (alt_blocks ifp @ bs @ cs) h L" "if_endpoint ifp = None"
    and "0 \<le> sz" "sz \<le> int (length buffer)" "uint (if_bNumEndpoints ifp) \<le> USB_MAXENDPOINTS"
  shows "alt_post parsed sz cs L (altsetting_endpoints he put ifp k buffer sz parsed h)"
proof -
  let ?n = "unat (if_bNumEndpoints ifp)"
  have c: "complete (put i)" for i using assms(1) by (simp add: put_ok_def)
  have x: "alt_blocks (ifp\<lparr>if_endpoint := None\<rparr>) = alt_blocks ifp"
    "alt_blocks ifp = opt_list (map_option fst (if_extra ifp))"
    using assms(3) by (simp_all add: alt_blocks_def)
  have e: "alt_blocks (ifp\<lparr>if_endpoint := Some (b, eps), if_bNumEndpoints := m\<rparr>) =
      alt_blocks ifp @ eps_blocks (take (unat m) eps) @ [b]" for b eps m
    by (simp add: alt_blocks_def x(2) eps_blocks_def assms(3))
  obtain p h1 where m: "malloc h = (p, h1)" by fastforce
  note o = owned_malloc [OF m assms(2)]
  consider "?n = 0" | "?n \<noteq> 0" "p = None" | b where "?n \<noteq> 0" "p = Some b" by fastforce
  then show ?thesis
  proof cases
    case 1
    then show ?thesis
      using next_altsetting_post [OF put_ok_owned [OF assms(1,2)] c assms(4,5)] by (simp add: altsetting_endpoints_def)
  next
    case 2
    then have "owned (intf_blocks (put (ifp\<lparr>if_endpoint := None\<rparr>)) @ cs) h1 L"
      using o x(1) by (intro put_ok_owned [OF assms(1)]) (simp add: opt_list_def)
    then show ?thesis
      using 2 m by (simp add: altsetting_endpoints_def alt_post_def error_code_def Let_def)
  next
    case 3
    let ?bs = "[b] @ alt_blocks ifp @ bs @ cs"
    obtain q h2 where q: "parse_endpoints he ?n 0 (replicate ?n zero_endpoint) buffer sz h1 = (q, h2)" by fastforce
    have post: "endpoints_post ?n sz ?bs L (q, h2)"
      using parse_endpoints_post [of 0 "replicate ?n zero_endpoint" ?bs h1 L ?n sz buffer he] o 3 assms q
      by (simp add: eps_blocks_def opt_list_def ep_blocks_def zero_endpoint_def)
    have own: "owned (intf_blocks (put (ifp\<lparr>if_endpoint := Some (b, eps), if_bNumEndpoints := m\<rparr>)) @ cs) h2 L"
      if "owned (eps_blocks (take (unat m) eps) @ ?bs) h2 L" for eps m
      by (rule put_ok_owned [OF assms(1)], rule owned_perm [OF that]) (simp add: e)
    show ?thesis
    proof (cases q)
      case (EndpointError r eps)
      then have "owned (intf_blocks (put (ifp\<lparr>if_endpoint := Some (b, eps)\<rparr>)) @ cs) h2 L" "error_code r"
        using own [of "if_bNumEndpoints ifp" eps] post by (simp_all add: endpoints_post_def)
      then show ?thesis
        using 3 m q EndpointError by (simp add: altsetting_endpoints_def alt_post_def Let_def)
    next
      case (EndpointsParsed j eps buffer' sz')
      have j: "j \<le> ?n" "unat (of_nat j :: byte) = j"
        using post EndpointsParsed unsigned_less [of "if_bNumEndpoints ifp", where 'a = nat]
        by (simp_all add: endpoints_post_def unat_of_nat take_bit_nat_eq_self)
      have "alt_post (parsed + (sz - sz')) sz' cs L (next_altsetting
          (put (ifp\<lparr>if_endpoint := Some (b, eps), if_bNumEndpoints := of_nat j\<rparr>)) k buffer' sz' (parsed + (sz - sz')) h2)"
        using post EndpointsParsed j(2)
        by (intro next_altsetting_post own c) (simp_all add: endpoints_post_def)
      then have "alt_post parsed sz cs L (next_altsetting
          (put (ifp\<lparr>if_endpoint := Some (b, eps), if_bNumEndpoints := of_nat j\<rparr>)) k buffer' sz' (parsed + (sz - sz')) h2)"
        using post EndpointsParsed by (elim alt_post_mono) (simp_all add: endpoints_post_def)
      then show ?thesis
        using 3 m q EndpointsParsed by (simp add: altsetting_endpoints_def Let_def)
    qed
  qed
qed

lemma altsetting_extra_post:
  assumes "put_ok put bs" "owned (bs @ cs) h L" "if_endpoint ifp = None" "if_extra ifp = None"
    and "0 \<le> sz" "sz \<le> int (length buffer)" "uint (if_bNumEndpoints ifp) \<le> USB_MAXENDPOINTS"
  shows "alt_post parsed sz cs L (altsetting_extra he put ifp k buffer sz parsed h)"
proof -
  obtain r h1 where sk: "skip_extra buffer sz h = (r, h1)" by fastforce
  have none: "alt_blocks ifp = []" using assms(3,4) by (simp add: alt_blocks_def opt_list_def)
  have own: "owned (intf_blocks (put ifp) @ cs) h L"
    using assms(2) none by (intro put_ok_owned [OF assms(1)]) simp
  show ?thesis
  proof (cases r)
    case SkipInvalid
    then show ?thesis using sk skip_invalid [of buffer sz h h1] own assms(6)
      by (simp add: altsetting_extra_def alt_post_def error_code_def)
  next
    case (SkipShort s)
    then show ?thesis using sk skip_short [of buffer sz h s h1] own assms(6)
      by (simp add: altsetting_extra_def alt_post_def)
  next
    case (SkipDone b s)
    note d = skip_done [OF sk [unfolded SkipDone] assms(6)]
    obtain p h2 where m: "malloc h1 = (p, h2)" by fastforce
    have o: "owned (opt_list p @ bs @ cs) h2 L" using owned_malloc [OF m] assms(2) d(1) by simp
    have c: "copy_bytes buffer (nat (sz - s)) h2 = (take (nat (sz - s)) buffer, h2)"
      using copy_bytes_inside d(5) assms(5) by simp
    consider "\<not> 0 < sz - s" | "0 < sz - s" "p = None" | q where "0 < sz - s" "p = Some q" by fastforce
    then show ?thesis
    proof cases
      case 1
      have "alt_post (parsed + (sz - s)) s cs L
          (altsetting_endpoints he put ifp k b s (parsed + (sz - s)) h1)"
        using none assms d by (intro altsetting_endpoints_post [OF assms(1)]) simp_all
      then have "alt_post parsed sz cs L (altsetting_endpoints he put ifp k b s (parsed + (sz - s)) h1)"
        using d(2) by (elim alt_post_mono) simp_all
      then show ?thesis using SkipDone sk 1 by (simp add: altsetting_extra_def)
    next
      case 2
      then have "owned (intf_blocks (put ifp) @ cs) h2 L"
        using o none by (intro put_ok_owned [OF assms(1)]) (simp add: opt_list_def)
      then show ?thesis
        using SkipDone sk 2 m by (simp add: altsetting_extra_def alt_post_def error_code_def)
    next
      case 3
      let ?ifp = "ifp\<lparr>if_extra := Some (q, take (nat (sz - s)) buffer), if_extra_length := sz - s\<rparr>"
      have "alt_blocks ?ifp = [q]" using assms(3) by (simp add: alt_blocks_def opt_list_def)
      then have "alt_post (parsed + (sz - s)) s cs L
          (altsetting_endpoints he put ?ifp k b s (parsed + (sz - s)) h2)"
        using o 3 assms d by (intro altsetting_endpoints_post [OF assms(1)]) (simp_all add: opt_list_def)
      then have "alt_post parsed sz cs L (altsetting_endpoints he put ?ifp k b s (parsed + (sz - s)) h2)"
        using d(2) by (elim alt_post_mono) simp_all
      then show ?thesis using SkipDone sk 3 m c by (simp add: altsetting_extra_def Let_def)
    qed
  qed
qed

text \<open>
  Before a pass the interface is empty, or complete; a failed reallocation is a failure that leaves
  it stale.
\<close>

definition loop_ok :: "libusb_interface \<Rightarrow> int \<Rightarrow> bool" where
  "loop_ok f parsed \<longleftrightarrow> 0 \<le> parsed \<and>
     (if parsed = 0 then altsetting f = None \<and> num_altsetting f = 0 else complete f)"

lemma owned_reallocf:
  assumes "usbi_reallocf p h = (q, h')" "owned (opt_list p @ bs) h L"
  shows "case q of Some b \<Rightarrow> owned (b # bs) h' L | None \<Rightarrow> owned bs h' L"
proof -
  obtain q1 h1 where r: "realloc p h = (q1, h1)" by fastforce
  note o = owned_realloc [OF r assms(2)]
  show ?thesis
  proof (cases q1)
    case None
    then have "q = None" "h' = free p h1" using assms(1) r by (simp_all add: usbi_reallocf_def)
    then show ?thesis using o None owned_free by simp
  next
    case (Some b)
    then have "q = Some b" "h' = h1" using assms(1) r by (simp_all add: usbi_reallocf_def)
    then show ?thesis using o Some by (simp add: opt_list_def)
  qed
qed

lemma parse_into_interface:
  assumes "9 \<le> length buffer"
  obtains d where "parse_into ''bbbbbbbbb'' False buffer (replicate 9 0) h = (d, h)"
proof -
  have "fmt_size ''bbbbbbbbb'' \<le> length buffer" using assms fmt_sizes by simp
  moreover have "fmt_end ''bbbbbbbbb'' 0 \<le> length (replicate 9 (0::byte))" by (simp add: fmt_width_def)
  ultimately show ?thesis using parse_into_inside(1) that by (metis prod.collapse)
qed

definition pass_post :: "int \<Rightarrow> int \<Rightarrow> nat list \<Rightarrow> nat set \<Rightarrow> altsetting_result \<times> heap \<Rightarrow> bool" where
  "pass_post parsed sz bs L res = (case res of
     (AltReturn r f, h) \<Rightarrow> owned (intf_blocks f @ bs) h L \<and> parsed \<le> r \<and> r \<le> parsed + sz \<and>
       (r = 0 \<longrightarrow> num_altsetting f = 0)
   | (AltFail r f, h) \<Rightarrow> error_code r \<and>
       (owned (intf_blocks f @ bs) h L \<or> r = LIBUSB_ERROR_NO_MEM \<and> stale f h)
   | (AltNext f k buffer sz' parsed', h) \<Rightarrow> owned (intf_blocks f @ bs) h L \<and> complete f \<and>
       parsed < parsed' \<and> parsed' + sz' = parsed + sz \<and> 0 \<le> sz' \<and> sz' \<le> int (length buffer))"

lemma alt_post_pass:
  "alt_post parsed' sz' bs L res \<Longrightarrow> parsed + sz = parsed' + sz' \<Longrightarrow> 0 \<le> parsed \<Longrightarrow> parsed < parsed' \<Longrightarrow>
     pass_post parsed sz bs L res"
  by (auto simp: alt_post_def pass_post_def split: altsetting_result.splits)

lemma parse_altsetting_post:
  assumes "owned (intf_blocks f @ bs) h L" "loop_ok f parsed"
    and "INTERFACE_DESC_LENGTH \<le> sz" "sz \<le> int (length buffer)"
  shows "pass_post parsed sz bs L (parse_altsetting he f k buffer sz parsed h)"
proof -
  define n where "n = num_altsetting f"
  define alts where "alts = (case altsetting f of None \<Rightarrow> [] | Some (_, alts) \<Rightarrow> take n alts)"
  have len: "length alts = n"
    using assms(2) by (auto simp: loop_ok_def complete_def alts_def n_def split: if_splits)
  have blocks: "intf_blocks f = concat (map alt_blocks alts) @ opt_list (map_option fst (altsetting f))"
    by (auto simp: intf_blocks_def alts_def n_def opt_list_def split: option.splits)
  let ?p = "map_option fst (altsetting f)" and ?alts = "concat (map alt_blocks alts)"
  have "owned (opt_list ?p @ ?alts @ bs) h L"
    using assms(1) unfolding blocks by (elim owned_perm) simp
  moreover obtain q h1 where q: "usbi_reallocf ?p h = (q, h1)" by fastforce
  ultimately have o: "case q of Some b \<Rightarrow> owned (b # ?alts @ bs) h1 L | None \<Rightarrow> owned (?alts @ bs) h1 L"
    using owned_reallocf by blast
  show ?thesis
  proof (cases q)
    case None
    have "owned (intf_blocks f @ bs) h1 L \<or> stale f h1"
    proof (cases "altsetting f")
      case None
      then show ?thesis using o \<open>q = None\<close> blocks by (simp add: opt_list_def)
    next
      case (Some p)
      obtain b as where p: "p = (b, as)" by fastforce
      have "b \<notin> live h1"
        using o \<open>q = None\<close> \<open>owned (opt_list ?p @ ?alts @ bs) h L\<close> Some p
        by (auto simp: owned_def opt_list_def)
      then show ?thesis using Some p by (simp add: stale_def)
    qed
    then show ?thesis
      using q None by (auto simp: parse_altsetting_def pass_post_def error_code_def)
  next
    case (Some b)
    have sz: "9 \<le> length buffer" using assms(3,4) by (simp add: INTERFACE_DESC_LENGTH_def)
    obtain d where d: "parse_into ''bbbbbbbbb'' False buffer (replicate 9 0) h1 = (d, h1)"
      by (rule parse_into_interface [OF sz])
    define ifp where "ifp = if_of d"
    define bl where "bl = uint (if_bLength ifp)"
    define put where "put = (\<lambda>ifp. f\<lparr>altsetting := Some (b, alts @ [ifp])\<rparr>)"
    have put: "put_ok (\<lambda>ifp. (put ifp)\<lparr>num_altsetting := Suc n\<rparr>) (b # ?alts)"
      using len by (simp add: put_ok_def complete_def put_def intf_blocks_def)
    have o1: "owned ((b # ?alts) @ bs) h1 L" using o Some by simp
    have uncounted: "owned (intf_blocks (put i) @ bs) h1 L" for i
      by (rule owned_perm [OF o1]) (simp add: put_def intf_blocks_def len n_def [symmetric])
    have none: "if_endpoint ifp = None" "if_extra ifp = None" by (simp_all add: ifp_def if_of_def)
    have num: "parsed = 0 \<Longrightarrow> num_altsetting (put i) = 0" for i
      using assms(2) by (simp add: loop_ok_def put_def)
    let ?extra = "altsetting_extra he (\<lambda>ifp. (put ifp)\<lparr>num_altsetting := Suc n\<rparr>) ifp
        (if k = -1 then uint (if_bInterfaceNumber ifp) else k) (drop (nat bl) buffer) (sz - bl) (parsed + bl) h1"
    have extra: "pass_post parsed sz bs L ?extra"
      if "INTERFACE_DESC_LENGTH \<le> bl" "bl \<le> sz" "uint (if_bNumEndpoints ifp) \<le> USB_MAXENDPOINTS"
    proof (rule alt_post_pass)
      show "alt_post (parsed + bl) (sz - bl) bs L ?extra"
        using that assms(4) by (intro altsetting_extra_post [OF put o1 none]) (auto simp: INTERFACE_DESC_LENGTH_def)
    qed (use that assms(2) in \<open>auto simp: loop_ok_def INTERFACE_DESC_LENGTH_def\<close>)
    have eq: "parse_altsetting he f k buffer sz parsed h =
      (if if_bDescriptorType ifp \<noteq> LIBUSB_DT_INTERFACE then (AltReturn parsed (put ifp), h1)
       else if bl < INTERFACE_DESC_LENGTH then (AltFail LIBUSB_ERROR_IO (put ifp), h1)
       else if bl > sz then (AltReturn parsed (put ifp), h1)
       else if uint (if_bNumEndpoints ifp) > USB_MAXENDPOINTS then (AltFail LIBUSB_ERROR_IO (put ifp), h1)
       else ?extra)"
      using q Some d
      by (simp add: parse_altsetting_def Let_def ifp_def [symmetric] bl_def [symmetric] n_def [symmetric]
          alts_def [symmetric] put_def)
    show ?thesis
      unfolding eq using extra uncounted [of ifp] num [of ifp] assms(3)
      by (auto simp: pass_post_def error_code_def INTERFACE_DESC_LENGTH_def)
  qed
qed

text \<open>
  The whole loop: a result that is not negative comes with the blocks of the interface; an error
  leaves nothing behind, or, when memory ran out, a heap that is corrupt.
\<close>

definition intf_post :: "int \<Rightarrow> nat list \<Rightarrow> nat set \<Rightarrow> int \<times> libusb_interface \<times> heap \<Rightarrow> bool" where
  "intf_post bound bs L res = (case res of (r, f, h) \<Rightarrow>
     if r < 0 then error_code r \<and>
       (owned bs h L \<and> altsetting f = None \<or> r = LIBUSB_ERROR_NO_MEM \<and> corrupt h)
     else r \<le> bound \<and> owned (intf_blocks f @ bs) h L \<and> (r = 0 \<longrightarrow> num_altsetting f = 0))"

lemma clear_interface_None: "altsetting (fst (clear_interface f h)) = None"
  by (simp add: clear_interface_def Let_def)

lemma parse_interface_loop_post:
  "owned (intf_blocks f @ bs) h L \<Longrightarrow> loop_ok f parsed \<Longrightarrow> 0 \<le> sz \<Longrightarrow> sz \<le> int (length buffer) \<Longrightarrow>
     intf_post (parsed + sz) bs L (parse_interface_loop he f k buffer sz parsed h)"
proof (induction he f k buffer sz parsed h rule: parse_interface_loop.induct)
  case (1 he f k buffer sz parsed h)
  show ?case
  proof (cases "sz < INTERFACE_DESC_LENGTH")
    case True
    then show ?thesis
      using "1.prems" by (auto simp: parse_interface_loop.simps [of he f k buffer] intf_post_def loop_ok_def)
  next
    case False
    obtain a h1 where a: "parse_altsetting he f k buffer sz parsed h = (a, h1)" by fastforce
    have post: "pass_post parsed sz bs L (a, h1)"
      using parse_altsetting_post [OF "1.prems"(1,2) _ "1.prems"(4), of he k] a False by simp
    have p0: "0 \<le> parsed" using "1.prems"(2) by (simp add: loop_ok_def)
    show ?thesis
    proof (cases a)
      case (AltReturn r f')
      then show ?thesis
        using False a post p0 by (simp add: parse_interface_loop.simps [of he f k buffer] intf_post_def pass_post_def)
    next
      case (AltFail r f')
      obtain f'' h2 where c: "clear_interface f' h1 = (f'', h2)" by fastforce
      have "owned (intf_blocks f' @ bs) h1 L \<Longrightarrow> owned bs h2 L"
        using owned_clear_interface [of f' bs h1 L] c by simp
      moreover have "stale f' h1 \<Longrightarrow> corrupt h2"
        using clear_interface_stale [of f' _ _ h1] c by (auto simp: stale_def)
      ultimately show ?thesis
        using False a AltFail post c clear_interface_None [of f' h1]
        by (auto simp: parse_interface_loop.simps [of he f k buffer] intf_post_def pass_post_def
            dest: error_code_neg)
    next
      case (AltNext f' k' buffer' sz' parsed')
      then have "intf_post (parsed' + sz') bs L (parse_interface_loop he f' k' buffer' sz' parsed' h1)"
        using "1.IH" [OF False a [symmetric] AltNext] post p0 by (simp add: pass_post_def loop_ok_def)
      then show ?thesis
        using False a AltNext post by (simp add: parse_interface_loop.simps [of he f k buffer] pass_post_def)
    qed
  qed
qed

lemma parse_interface_post:
  assumes "owned bs h L" "altsetting f = None" "0 \<le> sz" "sz \<le> int (length buffer)"
  shows "intf_post sz bs L (parse_interface f buffer sz he h)"
  using parse_interface_loop_post [of "f\<lparr>num_altsetting := 0\<rparr>" bs h L 0 sz buffer he "-1"] assms
  by (simp add: parse_interface_def intf_blocks_def loop_ok_def)

section \<open>Configurations\<close>

definition intfs_blocks :: "libusb_interface list \<Rightarrow> nat list" where
  "intfs_blocks fs = concat (map intf_blocks fs)"

lemma intfs_blocks_append: "intfs_blocks (xs @ ys) = intfs_blocks xs @ intfs_blocks ys"
  by (simp add: intfs_blocks_def)

lemma intfs_blocks_take_Suc:
  "i < length fs \<Longrightarrow> intfs_blocks (take (Suc i) (fs[i := f])) = intfs_blocks (take i fs) @ intf_blocks f"
  by (simp add: intfs_blocks_def take_Suc_conv_app_nth)

lemma intfs_blocks_none: "\<forall>f \<in> set fs. altsetting f = None \<Longrightarrow> intfs_blocks fs = []"
  by (simp add: intfs_blocks_def intf_blocks_def)

text \<open>
  The state of the loop over the interfaces: those before the \<open>i\<close>th are parsed, the others empty.
\<close>

definition cfg_state ::
  "nat \<Rightarrow> nat \<Rightarrow> libusb_config_descriptor \<Rightarrow> nat \<Rightarrow> libusb_interface list \<Rightarrow> bool" where
  "cfg_state n i c b fs \<longleftrightarrow> cfg_interface c = Some (b, fs) \<and> length fs = n \<and> i \<le> n \<and> n < 256 \<and>
     (\<forall>f \<in> set (drop i fs). altsetting f = None) \<and> (cfg_extra_length c = 0 \<longrightarrow> cfg_extra c = None)"

definition cfg_state_blocks ::
  "nat \<Rightarrow> libusb_config_descriptor \<Rightarrow> nat \<Rightarrow> libusb_interface list \<Rightarrow> nat list" where
  "cfg_state_blocks i c b fs = intfs_blocks (take i fs) @ [b] @ opt_list (map_option fst (cfg_extra c))"

lemma cfg_state_clear:
  assumes "cfg_state n i c b fs" "owned (cfg_state_blocks i c b fs @ bs) h L" "unat (cfg_bNumInterfaces c) = n"
  shows "owned bs (clear_configuration c h) L"
proof (rule owned_clear_configuration)
  have "intfs_blocks fs = intfs_blocks (take i fs)"
    using intfs_blocks_append [of "take i fs" "drop i fs"] intfs_blocks_none assms(1)
    by (simp add: cfg_state_def)
  then have "cfg_blocks c = cfg_state_blocks i c b fs"
    using assms(1,3) by (simp add: cfg_blocks_def cfg_state_blocks_def cfg_state_def intfs_blocks_def)
  then show "owned (cfg_blocks c @ bs) h L" using assms(2) by simp
qed

text \<open>A result that is not negative: what the descriptor lists, and at most one block more.\<close>

definition cfg_post :: "int \<Rightarrow> nat list \<Rightarrow> nat set \<Rightarrow> int \<times> libusb_config_descriptor \<times> heap \<Rightarrow> bool" where
  "cfg_post bound bs L res = (case res of (r, c, h) \<Rightarrow>
     if r < 0 then error_code r \<and> (owned bs h L \<or> r = LIBUSB_ERROR_NO_MEM \<and> corrupt h)
     else r \<le> bound \<and> (\<exists>leak. length leak \<le> 1 \<and> owned (cfg_blocks c @ leak @ bs) h L))"

lemma cfg_post_mono: "cfg_post b bs L res \<Longrightarrow> b \<le> c \<Longrightarrow> cfg_post c bs L res"
  by (auto simp: cfg_post_def)

lemma cfg_done:
  assumes "cfg_state n i c b fs" "owned (cfg_state_blocks i c b fs @ leak @ bs) h L" "length leak \<le> 1" "0 \<le> s"
  shows "cfg_post s bs L (s, c\<lparr>cfg_bNumInterfaces := of_nat i\<rparr>, h)"
proof -
  have "unat (of_nat i :: byte) = i"
    using assms(1) by (simp add: cfg_state_def unat_of_nat take_bit_nat_eq_self)
  then have "cfg_blocks (c\<lparr>cfg_bNumInterfaces := of_nat i\<rparr>) = cfg_state_blocks i c b fs"
    using assms(1) by (simp add: cfg_blocks_def cfg_state_blocks_def cfg_state_def intfs_blocks_def)
  then show ?thesis using assms(2-4) by (auto simp: cfg_post_def intro!: exI [of _ leak])
qed

lemma config_extra_post:
  assumes "cfg_state n i c b fs" "owned (cfg_state_blocks i c b fs @ bs) h L" "nat len \<le> length buffer"
    and "config_extra c buffer len h = (q, h')"
  shows "case q of
      None \<Rightarrow> owned (cfg_state_blocks i c b fs @ bs) h' L
    | Some c' \<Rightarrow> cfg_state n i c' b fs \<and> owned (cfg_state_blocks i c' b fs @ bs) h' L \<and>
        cfg_bNumInterfaces c' = cfg_bNumInterfaces c"
proof (cases "len > 0 \<and> cfg_extra_length c = 0")
  case False
  then show ?thesis using assms by (auto simp: config_extra_def)
next
  case True
  obtain p h1 where m: "malloc h = (p, h1)" by fastforce
  note o = owned_malloc [OF m assms(2)]
  show ?thesis
  proof (cases p)
    case None
    then show ?thesis using assms(4) True m o by (auto simp: config_extra_def opt_list_def)
  next
    case (Some x)
    let ?c = "c\<lparr>cfg_extra := Some (x, take (nat len) buffer), cfg_extra_length := len\<rparr>"
    have q: "q = Some ?c" "h' = h1"
      using assms(4) True m Some copy_bytes_inside [OF assms(3), of h1] by (simp_all add: config_extra_def)
    have "cfg_extra c = None" using assms(1) True by (simp add: cfg_state_def)
    then have "mset (cfg_state_blocks i ?c b fs @ bs) = mset (opt_list p @ cfg_state_blocks i c b fs @ bs)"
      using Some by (simp add: cfg_state_blocks_def opt_list_def)
    then have "owned (cfg_state_blocks i ?c b fs @ bs) h1 L" using o owned_perm by blast
    then show ?thesis using q assms(1) True by (simp add: cfg_state_def)
  qed
qed

lemma parse_interfaces_post:
  assumes "cfg_state (i + n) i c b fs" "owned (cfg_state_blocks i c b fs @ bs) h L"
    and "unat (cfg_bNumInterfaces c) = i + n" "0 \<le> sz" "sz \<le> int (length buffer)"
  shows "cfg_post sz bs L (parse_interfaces he n i c buffer sz h)"
  using assms
proof (induction n arbitrary: i c fs buffer sz h)
  case 0
  then have "cfg_post sz bs L (sz, c\<lparr>cfg_bNumInterfaces := of_nat i\<rparr>, h)"
    by (intro cfg_done [where leak = "[]"]) auto
  moreover have "of_nat i = cfg_bNumInterfaces c"
    using arg_cong [OF 0(3), of "of_nat :: nat \<Rightarrow> byte"] by simp
  ultimately show ?case by simp
next
  case (Suc n)
  obtain r h1 where sk: "skip_extra buffer sz h = (r, h1)" by fastforce
  note fail = cfg_state_clear [OF Suc.prems(1) _ Suc.prems(3)]
  show ?case
  proof (cases r)
    case SkipInvalid
    then show ?thesis using sk skip_invalid [of buffer sz h h1] Suc.prems(2,5) fail
      by (simp add: cfg_post_def error_code_def usb_consts)
  next
    case (SkipShort s)
    note s = skip_short [OF sk [unfolded SkipShort] Suc.prems(5)]
    have "cfg_post s bs L (s, c\<lparr>cfg_bNumInterfaces := of_nat i\<rparr>, h)"
      using Suc.prems(1,2) s by (intro cfg_done [where leak = "[]"]) auto
    then show ?thesis using sk SkipShort s by (auto intro: cfg_post_mono)
  next
    case (SkipDone buffer' s)
    note d = skip_done [OF sk [unfolded SkipDone] Suc.prems(5)]
    have len: "nat (sz - s) \<le> length buffer" using d(5) Suc.prems(4) by auto
    obtain q h2 where q: "config_extra c buffer (sz - s) h1 = (q, h2)" by fastforce
    note e = config_extra_post [OF Suc.prems(1,2) len, of q h2] 
    show ?thesis
    proof (cases q)
      case None
      then have "owned bs (clear_configuration c h2) L" using e q d(1) fail by simp
      then show ?thesis using sk SkipDone q None by (simp add: cfg_post_def error_code_def usb_consts)
    next
      case (Some c1)
      have c1: "cfg_state (i + Suc n) i c1 b fs" "owned (cfg_state_blocks i c1 b fs @ bs) h2 L"
        "unat (cfg_bNumInterfaces c1) = i + Suc n"
        using e q d(1) Some Suc.prems(3) by auto
      have i: "i < length fs" and fs: "cfg_interface c1 = Some (b, fs)" and none: "altsetting (fs ! i) = None"
        using c1(1) by (auto simp: cfg_state_def simp flip: Cons_nth_drop_Suc)
      obtain r f h3 where p: "parse_interface (fs ! i) buffer' s he h2 = (r, f, h3)" using prod_cases3 by blast
      have post: "intf_post s (cfg_state_blocks i c1 b fs @ bs) L (r, f, h3)"
        using parse_interface_post [OF c1(2) none _ d(4), of he] d(3) Suc.prems(4) p by simp
      let ?c = "put_interface i f c1" and ?fs = "fs[i := f]"
      have st: "cfg_state (i + Suc n) i ?c b ?fs" if "altsetting f = None"
        using c1(1) i that by (auto simp: cfg_state_def put_interface_def simp flip: Cons_nth_drop_Suc)
      have st': "cfg_state (i + Suc n) (Suc i) ?c b ?fs"
        using c1(1) i by (auto simp: cfg_state_def put_interface_def simp flip: Cons_nth_drop_Suc)
      have num: "cfg_bNumInterfaces ?c = cfg_bNumInterfaces c1" by (simp add: put_interface_def)
      have eq: "parse_interfaces he (Suc n) i c buffer sz h =
          (if r < 0 then (r, ?c, clear_configuration ?c h3)
           else if r = 0 then (s, ?c\<lparr>cfg_bNumInterfaces := of_nat i\<rparr>, h3)
           else parse_interfaces he n (Suc i) ?c (drop (nat r) buffer') (s - r) h3)"
        using sk SkipDone q Some fs p by (simp add: Let_def)
      have same: "cfg_state_blocks i ?c b ?fs = cfg_state_blocks i c1 b fs"
        by (simp add: cfg_state_blocks_def put_interface_def)
      consider "r < 0" | "r = 0" | "0 < r" by linarith
      then show ?thesis
      proof cases
        case 1
        have "owned (cfg_state_blocks i c1 b fs @ bs) h3 L \<and> altsetting f = None \<Longrightarrow>
            owned bs (clear_configuration ?c h3) L"
          using cfg_state_clear [OF st, of bs h3 L] same num c1(3) by simp
        then show ?thesis
          unfolding eq using 1 post clear_configuration_corrupt [of h3] by (auto simp: cfg_post_def intf_post_def)
      next
        case 2
        then have o: "owned (intf_blocks f @ cfg_state_blocks i c1 b fs @ bs) h3 L" "num_altsetting f = 0"
          using post by (simp_all add: intf_post_def)
        have st0: "cfg_state (i + Suc n) i (c1\<lparr>cfg_interface := Some (b, ?fs)\<rparr>) b fs \<Longrightarrow> True" by simp
        have "unat (of_nat i :: byte) = i"
          using c1(1) by (simp add: cfg_state_def unat_of_nat take_bit_nat_eq_self)
        then have b: "cfg_blocks (?c\<lparr>cfg_bNumInterfaces := of_nat i\<rparr>) = cfg_state_blocks i c1 b fs"
          using fs by (simp add: cfg_blocks_def cfg_state_blocks_def put_interface_def intfs_blocks_def)
        have "owned (cfg_blocks (?c\<lparr>cfg_bNumInterfaces := of_nat i\<rparr>) @ intf_blocks f @ bs) h3 L"
          unfolding b by (rule owned_perm [OF o(1)]) simp
        moreover have "length (intf_blocks f) \<le> 1"
          using o(2) by (simp add: intf_blocks_def split: option.splits)
        ultimately show ?thesis
          unfolding eq using 2 d(2,3) Suc.prems(4) by (auto simp: cfg_post_def intro!: exI [of _ "intf_blocks f"])
      next
        case 3
        then have r: "r \<le> s" "owned (intf_blocks f @ cfg_state_blocks i c1 b fs @ bs) h3 L"
          using post by (simp_all add: intf_post_def)
        have "owned (cfg_state_blocks (Suc i) ?c b ?fs @ bs) h3 L"
          by (rule owned_perm [OF r(2)])
            (simp add: cfg_state_blocks_def intfs_blocks_take_Suc [OF i] put_interface_def)
        then have "cfg_post (s - r) bs L (parse_interfaces he n (Suc i) ?c (drop (nat r) buffer') (s - r) h3)"
          using Suc.IH [of "Suc i" ?c ?fs h3 "s - r" "drop (nat r) buffer'"] st' c1(3) num r(1) d(4) 3
          by simp
        then show ?thesis unfolding eq using 3 d(2) by (auto intro: cfg_post_mono)
      qed
    qed
  qed
qed

lemma parse_configuration_post:
  assumes "owned bs h L" "sz \<le> int (length buffer)"
  shows "cfg_post sz bs L (parse_configuration buffer sz he h)"
proof (cases "sz < LIBUSB_DT_CONFIG_SIZE")
  case True
  then show ?thesis using assms by (simp add: parse_configuration_def cfg_post_def error_code_def usb_consts)
next
  case False
  have "fmt_size ''bbwbbbbb'' \<le> length buffer" using False assms(2) by (simp add: fmt_width_def fmt_size_def usb_consts)
  moreover have "fmt_end ''bbwbbbbb'' 0 \<le> length (replicate 9 (0::byte))" by (simp add: fmt_width_def)
  ultimately obtain d where d: "parse_into ''bbwbbbbb'' he buffer (replicate 9 0) h = (d, h)"
    using parse_into_inside(1) by (metis prod.collapse)
  define c where "c = cfg_of d"
  define bl where "bl = uint (cfg_bLength c)"
  define n where "n = unat (cfg_bNumInterfaces c)"
  obtain p h1 where m: "malloc h = (p, h1)" by fastforce
  note o = owned_malloc [OF m assms(1)]
  let ?c = "\<lambda>b. c\<lparr>cfg_interface := Some (b, replicate n zero_interface)\<rparr>"
  have eq: "parse_configuration buffer sz he h =
      (if cfg_bDescriptorType c \<noteq> LIBUSB_DT_CONFIG then (LIBUSB_ERROR_IO, c, h)
       else if bl < LIBUSB_DT_CONFIG_SIZE then (LIBUSB_ERROR_IO, c, h)
       else if bl > sz then (LIBUSB_ERROR_IO, c, h)
       else if int n > USB_MAXINTERFACES then (LIBUSB_ERROR_IO, c, h)
       else case p of None \<Rightarrow> (LIBUSB_ERROR_NO_MEM, c, h1)
         | Some b \<Rightarrow> parse_interfaces he n 0 (?c b) (drop (nat bl) buffer) (sz - bl) h1)"
    using False d m
    by (simp add: parse_configuration_def Let_def c_def [symmetric] bl_def [symmetric] n_def [symmetric] split: option.splits)
  have "cfg_post (sz - bl) bs L (parse_interfaces he n 0 (?c b) (drop (nat bl) buffer) (sz - bl) h1)"
    if "p = Some b" "\<not> bl < LIBUSB_DT_CONFIG_SIZE" "\<not> bl > sz" "\<not> int n > USB_MAXINTERFACES" for b
  proof (rule parse_interfaces_post)
    show "cfg_state (0 + n) 0 (?c b) b (replicate n zero_interface)"
      using that by (simp add: cfg_state_def zero_interface_def c_def cfg_of_def usb_consts)
    show "owned (cfg_state_blocks 0 (?c b) b (replicate n zero_interface) @ bs) h1 L"
      using o that by (simp add: cfg_state_blocks_def intfs_blocks_def opt_list_def c_def cfg_of_def)
  qed (use that assms(2) in \<open>auto simp: n_def usb_consts\<close>)
  then show ?thesis
    unfolding eq using assms(1) o False
    by (auto simp: cfg_post_def error_code_def opt_list_def usb_consts split: option.splits prod.splits if_splits)
qed

end
