(* ===== verification/Usb_Api.thy ===== *)
theory Usb_Api
  imports Usb_Config
begin

text \<open>
  The descriptor functions that libusb exports, \<^verbatim>\<open>descriptor.c\<close>, and the two inline requests of
  \<^verbatim>\<open>libusb.h\<close> they use.  The operating system backend and \<^verbatim>\<open>libusb_control_transfer\<close> are
  arguments: functions on a state \<open>'d\<close> that return what the code gets, and the bytes they store.
\<close>

section \<open>The backend\<close>

text \<open>
  A call returns its result, the bytes it stored in the buffer it was given and
  \<^verbatim>\<open>host_endian\<close>.  \<open>fill_buffer\<close> is the buffer after that; a buffer keeps what it held where nothing
  was stored.
\<close>

type_synonym reply = "int \<times> byte list \<times> bool"

record 'd usb_backend =
  be_get_device_descriptor :: "'d \<Rightarrow> reply \<times> 'd"
  be_get_active_config_descriptor :: "nat \<Rightarrow> 'd \<Rightarrow> reply \<times> 'd"
  be_get_config_descriptor :: "byte \<Rightarrow> nat \<Rightarrow> 'd \<Rightarrow> reply \<times> 'd"
  be_get_config_descriptor_by_value :: "(byte \<Rightarrow> 'd \<Rightarrow> reply \<times> 'd) option"

definition fill_buffer :: "byte list \<Rightarrow> byte list \<Rightarrow> byte list" where
  "fill_buffer old bytes = take (length old) bytes @ drop (length bytes) old"

lemma length_fill_buffer [simp]: "length (fill_buffer old bytes) = length old"
  by (simp add: fill_buffer_def)

section \<open>The device descriptor\<close>

record libusb_device_descriptor =
  dev_bLength :: byte
  dev_bDescriptorType :: byte
  dev_bcdUSB :: u16
  dev_bDeviceClass :: byte
  dev_bDeviceSubClass :: byte
  dev_bDeviceProtocol :: byte
  dev_bMaxPacketSize0 :: byte
  dev_idVendor :: u16
  dev_idProduct :: u16
  dev_bcdDevice :: u16
  dev_iManufacturer :: byte
  dev_iProduct :: byte
  dev_iSerialNumber :: byte
  dev_bNumConfigurations :: byte

definition device_of :: "byte list \<Rightarrow> libusb_device_descriptor" where
  "device_of d = \<lparr>dev_bLength = d ! 0, dev_bDescriptorType = d ! 1, dev_bcdUSB = le_word [d ! 2, d ! 3],
     dev_bDeviceClass = d ! 4, dev_bDeviceSubClass = d ! 5, dev_bDeviceProtocol = d ! 6,
     dev_bMaxPacketSize0 = d ! 7, dev_idVendor = le_word [d ! 8, d ! 9], dev_idProduct = le_word [d ! 10, d ! 11],
     dev_bcdDevice = le_word [d ! 12, d ! 13], dev_iManufacturer = d ! 14, dev_iProduct = d ! 15,
     dev_iSerialNumber = d ! 16, dev_bNumConfigurations = d ! 17\<rparr>"

text \<open>\<^verbatim>\<open>libusb_cpu_to_le16\<close>, which \<^verbatim>\<open>libusb_le16_to_cpu\<close> is defined to be: the two bytes, low byte first.\<close>

definition libusb_cpu_to_le16 :: "u16 \<Rightarrow> u16" where
  "libusb_cpu_to_le16 x = le_word [ucast (x AND 0xff), ucast (drop_bit 8 x)]"

definition usbi_device_cache_descriptor ::
  "'d usb_backend \<Rightarrow> byte list \<Rightarrow> 'd \<Rightarrow> (int \<times> libusb_device_descriptor) \<times> 'd" where
  "usbi_device_cache_descriptor ops old s =
    (case be_get_device_descriptor ops s of
       ((r, bytes, host_endian), s) \<Rightarrow>
        (let desc = device_of (fill_buffer old bytes) in
         if r < 0 then ((r, desc), s)
         else if \<not> host_endian then
           ((LIBUSB_SUCCESS, desc\<lparr>dev_bcdUSB := libusb_cpu_to_le16 (dev_bcdUSB desc),
              dev_idVendor := libusb_cpu_to_le16 (dev_idVendor desc),
              dev_idProduct := libusb_cpu_to_le16 (dev_idProduct desc),
              dev_bcdDevice := libusb_cpu_to_le16 (dev_bcdDevice desc)\<rparr>), s)
         else ((LIBUSB_SUCCESS, desc), s)))"

section \<open>Configuration descriptors\<close>

text \<open>
  What \<^verbatim>\<open>libusb_get_active_config_descriptor\<close> and \<^verbatim>\<open>libusb_get_config_descriptor\<close> do with the backend call
  \<open>fetch\<close>, which each makes twice: for the header, and for as much as the header announces.
\<close>

definition fetch_config ::
  "(nat \<Rightarrow> 'd \<Rightarrow> reply \<times> 'd) \<Rightarrow> 'd \<Rightarrow> heap \<Rightarrow>
     (int \<times> (nat \<times> libusb_config_descriptor) option \<times> heap) \<times> 'd" where
  "fetch_config fetch s h =
    (case fetch (nat LIBUSB_DT_CONFIG_SIZE) s of
       ((r, bytes, host_endian), s) \<Rightarrow>
        if r < 0 then ((r, None, h), s)
        else if r < LIBUSB_DT_CONFIG_SIZE then ((LIBUSB_ERROR_IO, None, h), s)
        else case parse_into ''bbw'' host_endian (fill_buffer (replicate (nat LIBUSB_DT_CONFIG_SIZE) 0) bytes)
                 (replicate 9 0) h of
          (d, h) \<Rightarrow>
           (let total = unat (cfg_wTotalLength (cfg_of d)) in
            case malloc h of
              (None, h) \<Rightarrow> ((LIBUSB_ERROR_NO_MEM, None, h), s)
            | (Some buf, h) \<Rightarrow>
               (case fetch total s of
                  ((r, bytes, host_endian), s) \<Rightarrow>
                   (case (if r \<ge> 0
                          then raw_desc_to_config (fill_buffer (replicate total 0) bytes) r host_endian h
                          else (r, None, h)) of
                      (r, config, h) \<Rightarrow> ((r, config, free (Some buf) h), s)))))"

definition libusb_get_active_config_descriptor ::
  "'d usb_backend \<Rightarrow> 'd \<Rightarrow> heap \<Rightarrow> (int \<times> (nat \<times> libusb_config_descriptor) option \<times> heap) \<times> 'd" where
  "libusb_get_active_config_descriptor ops = fetch_config (be_get_active_config_descriptor ops)"

definition libusb_get_config_descriptor ::
  "'d usb_backend \<Rightarrow> byte \<Rightarrow> byte \<Rightarrow> 'd \<Rightarrow> heap \<Rightarrow>
     (int \<times> (nat \<times> libusb_config_descriptor) option \<times> heap) \<times> 'd" where
  "libusb_get_config_descriptor ops num_configurations config_index s h =
    (if config_index \<ge> num_configurations then ((LIBUSB_ERROR_NOT_FOUND, None, h), s)
     else fetch_config (be_get_config_descriptor ops config_index) s h)"

text \<open>
  The loop of \<^verbatim>\<open>usbi_get_config_index_by_value\<close>, \<open>n\<close> configurations from the \<open>i\<close>th on: the result and
  \<^verbatim>\<open>idx\<close>.  \<open>junk\<close> is what the six bytes of \<^verbatim>\<open>tmp\<close> hold before the call; they are used even when the backend
  stored fewer.
\<close>

primrec config_index_loop ::
  "'d usb_backend \<Rightarrow> byte list \<Rightarrow> byte \<Rightarrow> nat \<Rightarrow> nat \<Rightarrow> 'd \<Rightarrow> (int \<times> int) \<times> 'd" where
  "config_index_loop ops junk v 0 i s = ((0, -1), s)"
| "config_index_loop ops junk v (Suc n) i s =
    (case be_get_config_descriptor ops (of_nat i) 6 s of
       ((r, bytes, host_endian), s) \<Rightarrow>
         if r < 0 then ((r, -1), s)
         else if fill_buffer junk bytes ! 5 = v then ((0, int i), s)
         else config_index_loop ops junk v n (Suc i) s)"

definition usbi_get_config_index_by_value ::
  "'d usb_backend \<Rightarrow> byte list \<Rightarrow> byte \<Rightarrow> byte \<Rightarrow> 'd \<Rightarrow> (int \<times> int) \<times> 'd" where
  "usbi_get_config_index_by_value ops junk num_configurations v =
     config_index_loop ops junk v (unat num_configurations) 0"

text \<open>The buffer of the backend's own lookup belongs to the backend.\<close>

definition libusb_get_config_descriptor_by_value ::
  "'d usb_backend \<Rightarrow> byte list \<Rightarrow> byte \<Rightarrow> byte \<Rightarrow> 'd \<Rightarrow> heap \<Rightarrow>
     (int \<times> (nat \<times> libusb_config_descriptor) option \<times> heap) \<times> 'd" where
  "libusb_get_config_descriptor_by_value ops junk num_configurations v s h =
    (case be_get_config_descriptor_by_value ops of
       Some by_value \<Rightarrow>
        (case by_value v s of
           ((r, buf, host_endian), s) \<Rightarrow>
             if r < 0 then ((r, None, h), s) else (raw_desc_to_config buf r host_endian h, s))
     | None \<Rightarrow>
        (case usbi_get_config_index_by_value ops junk num_configurations v s of
           ((r, idx), s) \<Rightarrow>
             if r < 0 then ((r, None, h), s)
             else if idx = -1 then ((LIBUSB_ERROR_NOT_FOUND, None, h), s)
             else libusb_get_config_descriptor ops num_configurations (word_of_int idx) s h))"

section \<open>The superspeed endpoint companion\<close>

record libusb_ss_endpoint_companion_descriptor =
  ssep_bLength :: byte
  ssep_bDescriptorType :: byte
  ssep_bMaxBurst :: byte
  ssep_bmAttributes :: byte
  ssep_wBytesPerInterval :: u16

definition ssep_of :: "byte list \<Rightarrow> libusb_ss_endpoint_companion_descriptor" where
  "ssep_of d = \<lparr>ssep_bLength = d ! 0, ssep_bDescriptorType = d ! 1, ssep_bMaxBurst = d ! 2,
     ssep_bmAttributes = d ! 3, ssep_wBytesPerInterval = le_word [d ! 4, d ! 5]\<rparr>"

function ss_companion_loop ::
  "byte list \<Rightarrow> int \<Rightarrow> heap \<Rightarrow> int \<times> (nat \<times> libusb_ss_endpoint_companion_descriptor) option \<times> heap" where
  "ss_companion_loop buffer sz h =
    (if sz < DESC_HEADER_LENGTH then (LIBUSB_ERROR_NOT_FOUND, None, h)
     else case parse_header buffer h of (header, h) \<Rightarrow>
       (let bl = uint (hdr_bLength header) in
        if bl < 2 \<or> bl > sz then (LIBUSB_ERROR_IO, None, h)
        else if hdr_bDescriptorType header \<noteq> LIBUSB_DT_SS_ENDPOINT_COMPANION
        then ss_companion_loop (drop (nat bl) buffer) (sz - bl) h
        else if bl < LIBUSB_DT_SS_ENDPOINT_COMPANION_SIZE then (LIBUSB_ERROR_IO, None, h)
        else case malloc h of
          (None, h) \<Rightarrow> (LIBUSB_ERROR_NO_MEM, None, h)
        | (Some b, h) \<Rightarrow>
           (case parse_into ''bbbbw'' False buffer (replicate 6 0) h of
              (d, h) \<Rightarrow> (LIBUSB_SUCCESS, Some (b, ssep_of d), h))))"
  by pat_completeness auto
termination
  by (relation "measure (\<lambda>(buffer, sz, h). nat sz)") (auto simp: DESC_HEADER_LENGTH_def)

declare ss_companion_loop.simps [simp del]

definition libusb_get_ss_endpoint_companion_descriptor ::
  "libusb_endpoint_descriptor \<Rightarrow> heap \<Rightarrow> int \<times> (nat \<times> libusb_ss_endpoint_companion_descriptor) option \<times> heap" where
  "libusb_get_ss_endpoint_companion_descriptor endpoint h =
     ss_companion_loop (case ep_extra endpoint of None \<Rightarrow> [] | Some (_, bs) \<Rightarrow> bs) (ep_extra_length endpoint) h"

definition libusb_free_ss_endpoint_companion_descriptor ::
  "(nat \<times> libusb_ss_endpoint_companion_descriptor) option \<Rightarrow> heap \<Rightarrow> heap" where
  "libusb_free_ss_endpoint_companion_descriptor ep_comp h = free (map_option fst ep_comp) h"

section \<open>The Binary Object Store\<close>

record libusb_bos_descriptor =
  bos_bLength :: byte
  bos_bDescriptorType :: byte
  bos_wTotalLength :: u16
  bos_bNumDeviceCaps :: byte
  bos_dev_capability :: "(nat \<times> byte list) option list"

definition bos_of :: "byte list \<Rightarrow> libusb_bos_descriptor" where
  "bos_of d = \<lparr>bos_bLength = d ! 0, bos_bDescriptorType = d ! 1, bos_wTotalLength = le_word [d ! 2, d ! 3],
     bos_bNumDeviceCaps = d ! 4, bos_dev_capability = replicate (unat (d ! 4)) None\<rparr>"

definition libusb_free_bos_descriptor :: "(nat \<times> libusb_bos_descriptor) option \<Rightarrow> heap \<Rightarrow> heap" where
  "libusb_free_bos_descriptor bos h =
    (case bos of
       None \<Rightarrow> h
     | Some (b, d) \<Rightarrow>
         free (Some b) (fold (\<lambda>cap h. free (map_option fst cap) (touch b h))
           (take (unat (bos_bNumDeviceCaps d)) (bos_dev_capability d)) h))"

text \<open>
  The loop over the device capabilities, \<open>n\<close> from the \<open>i\<close>th on: the error after the descriptor is freed,
  or how many were read.
\<close>

primrec bos_loop ::
  "nat \<Rightarrow> nat \<Rightarrow> nat \<Rightarrow> libusb_bos_descriptor \<Rightarrow> byte list \<Rightarrow> int \<Rightarrow> bool \<Rightarrow> heap \<Rightarrow>
     (int + nat \<times> libusb_bos_descriptor) \<times> heap" where
  "bos_loop b 0 i bos buffer sz host_endian h = (Inr (i, bos), h)"
| "bos_loop b (Suc n) i bos buffer sz host_endian h =
    (if sz < LIBUSB_DT_DEVICE_CAPABILITY_SIZE then (Inr (i, bos), h)
     else case parse_into ''bbb'' host_endian buffer (replicate 3 0) h of
       (d, h) \<Rightarrow>
        (let bl = uint (d ! 0) in
         if d ! 1 \<noteq> LIBUSB_DT_DEVICE_CAPABILITY then (Inr (i, bos), h)
         else if bl < LIBUSB_DT_DEVICE_CAPABILITY_SIZE
         then (Inl LIBUSB_ERROR_IO, libusb_free_bos_descriptor (Some (b, bos)) h)
         else if bl > sz then (Inr (i, bos), h)
         else case malloc h of
           (None, h) \<Rightarrow> (Inl LIBUSB_ERROR_NO_MEM, libusb_free_bos_descriptor (Some (b, bos)) h)
         | (Some c, h) \<Rightarrow>
            (case copy_bytes buffer (nat bl) h of
               (bs, h) \<Rightarrow>
                 bos_loop b n (Suc i)
                   (bos\<lparr>bos_dev_capability := (bos_dev_capability bos)[i := Some (c, bs)]\<rparr>)
                   (drop (nat bl) buffer) (sz - bl) host_endian h)))"

definition parse_bos ::
  "byte list \<Rightarrow> int \<Rightarrow> bool \<Rightarrow> heap \<Rightarrow> int \<times> (nat \<times> libusb_bos_descriptor) option \<times> heap" where
  "parse_bos buffer sz host_endian h =
    (if sz < LIBUSB_DT_BOS_SIZE then (LIBUSB_ERROR_IO, None, h)
     else case parse_into ''bbwb'' host_endian buffer (replicate 5 0) h of
       (d, h) \<Rightarrow>
        (let bl = uint (d ! 0) in
         if d ! 1 \<noteq> LIBUSB_DT_BOS then (LIBUSB_ERROR_IO, None, h)
         else if bl < LIBUSB_DT_BOS_SIZE then (LIBUSB_ERROR_IO, None, h)
         else if bl > sz then (LIBUSB_ERROR_IO, None, h)
         else case malloc h of
           (None, h) \<Rightarrow> (LIBUSB_ERROR_NO_MEM, None, h)
         | (Some b, h) \<Rightarrow>
            (case bos_loop b (unat (d ! 4)) 0 (bos_of d) (drop (nat bl) buffer) (sz - bl) host_endian h of
               (Inl r, h) \<Rightarrow> (r, None, h)
             | (Inr (i, bos), h) \<Rightarrow> (LIBUSB_SUCCESS, Some (b, bos\<lparr>bos_bNumDeviceCaps := of_nat i\<rparr>), h))))"

text \<open>
  \<open>control\<close> is \<^verbatim>\<open>libusb_control_transfer\<close> on the open device: request type, request, value, index and
  length; it returns its result and the bytes it stored.
\<close>

type_synonym 'd control = "byte \<Rightarrow> byte \<Rightarrow> u16 \<Rightarrow> u16 \<Rightarrow> u16 \<Rightarrow> 'd \<Rightarrow> (int \<times> byte list) \<times> 'd"

definition LIBUSB_ENDPOINT_IN :: byte where [usb_consts]: "LIBUSB_ENDPOINT_IN = 0x80"
definition LIBUSB_REQUEST_GET_DESCRIPTOR :: byte where [usb_consts]: "LIBUSB_REQUEST_GET_DESCRIPTOR = 0x06"

definition libusb_get_descriptor ::
  "'d control \<Rightarrow> byte \<Rightarrow> byte \<Rightarrow> int \<Rightarrow> 'd \<Rightarrow> (int \<times> byte list) \<times> 'd" where
  "libusb_get_descriptor control desc_type desc_index len =
     control LIBUSB_ENDPOINT_IN LIBUSB_REQUEST_GET_DESCRIPTOR
       (push_bit 8 (ucast desc_type) OR ucast desc_index) 0 (word_of_int len)"

definition libusb_get_string_descriptor ::
  "'d control \<Rightarrow> byte \<Rightarrow> u16 \<Rightarrow> int \<Rightarrow> 'd \<Rightarrow> (int \<times> byte list) \<times> 'd" where
  "libusb_get_string_descriptor control desc_index langid len =
     control LIBUSB_ENDPOINT_IN LIBUSB_REQUEST_GET_DESCRIPTOR
       (push_bit 8 (ucast LIBUSB_DT_STRING) OR ucast desc_index) langid (word_of_int len)"

definition libusb_get_bos_descriptor ::
  "'d control \<Rightarrow> 'd \<Rightarrow> heap \<Rightarrow> (int \<times> (nat \<times> libusb_bos_descriptor) option \<times> heap) \<times> 'd" where
  "libusb_get_bos_descriptor control s h =
    (case libusb_get_descriptor control LIBUSB_DT_BOS 0 LIBUSB_DT_BOS_SIZE s of
       ((r, bytes), s) \<Rightarrow>
        if r < 0 then ((r, None, h), s)
        else if r < LIBUSB_DT_BOS_SIZE then ((LIBUSB_ERROR_IO, None, h), s)
        else case parse_into ''bbwb'' False (fill_buffer (replicate (nat LIBUSB_DT_BOS_SIZE) 0) bytes)
               (replicate 5 0) h of
          (d, h) \<Rightarrow>
           (let total = unat (bos_wTotalLength (bos_of d)) in
            case malloc h of
              (None, h) \<Rightarrow> ((LIBUSB_ERROR_NO_MEM, None, h), s)
            | (Some bos_data, h) \<Rightarrow>
               (case libusb_get_descriptor control LIBUSB_DT_BOS 0 (int total) s of
                  ((r, bytes), s) \<Rightarrow>
                   (case (if r \<ge> 0 then parse_bos (fill_buffer (replicate total 0) bytes) r False h
                          else (r, None, h)) of
                      (r, bos, h) \<Rightarrow> ((r, bos, free (Some bos_data) h), s)))))"

section \<open>Device capabilities\<close>

text \<open>
  A device capability is a block of a BOS descriptor; the code reads its type and length, then
  parses it with the format of the type.
\<close>

record libusb_usb_2_0_extension_descriptor =
  ext_bLength :: byte
  ext_bDescriptorType :: byte
  ext_bDevCapabilityType :: byte
  ext_bmAttributes :: u32

record libusb_ss_usb_device_capability_descriptor =
  ss_bLength :: byte
  ss_bDescriptorType :: byte
  ss_bDevCapabilityType :: byte
  ss_bmAttributes :: byte
  ss_wSpeedSupported :: u16
  ss_bFunctionalitySupport :: byte
  ss_bU1DevExitLat :: byte
  ss_bU2DevExitLat :: u16

record libusb_container_id_descriptor =
  cid_bLength :: byte
  cid_bDescriptorType :: byte
  cid_bDevCapabilityType :: byte
  cid_bReserved :: byte
  cid_ContainerID :: "byte list"

definition ext_of :: "byte list \<Rightarrow> libusb_usb_2_0_extension_descriptor" where
  "ext_of d = \<lparr>ext_bLength = d ! 0, ext_bDescriptorType = d ! 1, ext_bDevCapabilityType = d ! 2,
     ext_bmAttributes = le_word (take 4 (drop 4 d))\<rparr>"

definition ss_of :: "byte list \<Rightarrow> libusb_ss_usb_device_capability_descriptor" where
  "ss_of d = \<lparr>ss_bLength = d ! 0, ss_bDescriptorType = d ! 1, ss_bDevCapabilityType = d ! 2,
     ss_bmAttributes = d ! 3, ss_wSpeedSupported = le_word [d ! 4, d ! 5], ss_bFunctionalitySupport = d ! 6,
     ss_bU1DevExitLat = d ! 7, ss_bU2DevExitLat = le_word [d ! 8, d ! 9]\<rparr>"

definition cid_of :: "byte list \<Rightarrow> libusb_container_id_descriptor" where
  "cid_of d = \<lparr>cid_bLength = d ! 0, cid_bDescriptorType = d ! 1, cid_bDevCapabilityType = d ! 2,
     cid_bReserved = d ! 3, cid_ContainerID = take 16 (drop 4 d)\<rparr>"

definition get_capability ::
  "byte \<Rightarrow> int \<Rightarrow> string \<Rightarrow> nat \<Rightarrow> (byte list \<Rightarrow> 'c) \<Rightarrow> byte list \<Rightarrow> heap \<Rightarrow> int \<times> (nat \<times> 'c) option \<times> heap" where
  "get_capability cap_type min_length fmt width mk dev_cap h =
    (case read_byte dev_cap 2 h of (t, h) \<Rightarrow>
     if t \<noteq> cap_type then (LIBUSB_ERROR_INVALID_PARAM, None, h)
     else case read_byte dev_cap 0 h of (bl, h) \<Rightarrow>
     if uint bl < min_length then (LIBUSB_ERROR_IO, None, h)
     else case malloc h of
       (None, h) \<Rightarrow> (LIBUSB_ERROR_NO_MEM, None, h)
     | (Some b, h) \<Rightarrow>
        (case parse_into fmt False dev_cap (replicate width 0) h of
           (d, h) \<Rightarrow> (LIBUSB_SUCCESS, Some (b, mk d), h)))"

definition libusb_get_usb_2_0_extension_descriptor ::
  "byte list \<Rightarrow> heap \<Rightarrow> int \<times> (nat \<times> libusb_usb_2_0_extension_descriptor) option \<times> heap" where
  "libusb_get_usb_2_0_extension_descriptor =
     get_capability LIBUSB_BT_USB_2_0_EXTENSION LIBUSB_BT_USB_2_0_EXTENSION_SIZE ''bbbd'' 8 ext_of"

definition libusb_get_ss_usb_device_capability_descriptor ::
  "byte list \<Rightarrow> heap \<Rightarrow> int \<times> (nat \<times> libusb_ss_usb_device_capability_descriptor) option \<times> heap" where
  "libusb_get_ss_usb_device_capability_descriptor =
     get_capability LIBUSB_BT_SS_USB_DEVICE_CAPABILITY LIBUSB_BT_SS_USB_DEVICE_CAPABILITY_SIZE ''bbbbwbbw'' 10 ss_of"

definition libusb_get_container_id_descriptor ::
  "byte list \<Rightarrow> heap \<Rightarrow> int \<times> (nat \<times> libusb_container_id_descriptor) option \<times> heap" where
  "libusb_get_container_id_descriptor =
     get_capability LIBUSB_BT_CONTAINER_ID LIBUSB_BT_CONTAINER_ID_SIZE ''bbbbu'' 20 cid_of"

section \<open>String descriptors\<close>

text \<open>
  The copy loop: \<open>None\<close> is a read outside the 255 bytes of \<^verbatim>\<open>tbuf\<close>, or a write outside \<open>data\<close>, which
  the caller claims to be \<open>len\<close> bytes long.
\<close>

function string_loop :: "byte list \<Rightarrow> int \<Rightarrow> nat \<Rightarrow> nat \<Rightarrow> byte list \<Rightarrow> (nat \<times> byte list) option" where
  "string_loop tbuf len si di data =
    (if si < unat (tbuf ! 0) then
       (if int di \<ge> len - 1 then Some (di, data)
        else if si \<ge> length tbuf then None
        else if tbuf ! si AND 0x80 = 0 \<and> si + 1 \<ge> length tbuf then None
        else let c = (if tbuf ! si AND 0x80 \<noteq> 0 \<or> tbuf ! (si + 1) \<noteq> 0 then 0x3f else tbuf ! si) in
          if di < length data then string_loop tbuf len (si + 2) (di + 1) (data[di := c]) else None)
     else Some (di, data))"
  by pat_completeness auto
termination by (relation "measure (\<lambda>(tbuf, len, si, di, data). unat (tbuf ! 0) - si)") auto

declare string_loop.simps [simp del]

text \<open>\<open>junk\<close> is what \<^verbatim>\<open>tbuf\<close> holds at first; the second call stores over the bytes of the first.\<close>

definition libusb_get_string_descriptor_ascii ::
  "'d control \<Rightarrow> byte list \<Rightarrow> byte \<Rightarrow> byte list \<Rightarrow> int \<Rightarrow> 'd \<Rightarrow> (int \<times> byte list) option \<times> 'd" where
  "libusb_get_string_descriptor_ascii control junk desc_index data len s =
    (if desc_index = 0 then (Some (LIBUSB_ERROR_INVALID_PARAM, data), s)
     else case libusb_get_string_descriptor control 0 0 255 s of
       ((r, bytes), s) \<Rightarrow>
        if r < 0 then (Some (r, data), s)
        else if r < 4 then (Some (LIBUSB_ERROR_IO, data), s)
        else let tbuf = fill_buffer junk bytes; langid = (le_word [tbuf ! 2, tbuf ! 3] :: u16) in
          (case libusb_get_string_descriptor control desc_index langid 255 s of
             ((r, bytes), s) \<Rightarrow>
              if r < 0 then (Some (r, data), s)
              else let tbuf = fill_buffer tbuf bytes in
                if tbuf ! 1 \<noteq> LIBUSB_DT_STRING then (Some (LIBUSB_ERROR_IO, data), s)
                else if uint (tbuf ! 0) > r then (Some (LIBUSB_ERROR_IO, data), s)
                else (case string_loop tbuf len 2 0 data of
                   None \<Rightarrow> (None, s)
                 | Some (di, data) \<Rightarrow>
                     (if di < length data then Some (int di, data[di := 0]) else None, s))))"

end
