(* ===== verification/Usb_Theorems.thy ===== *)
theory Usb_Theorems
  imports Usb_Api
begin

text \<open>
  The properties of libusb's descriptor functions: what a parsed descriptor holds and gives back, where
  the parser leaks and where it uses memory after it is freed, and the bounds of the string reader.
\<close>

section \<open>Concrete inputs\<close>

definition usb_heap :: "nat set \<Rightarrow> heap" where
  "usb_heap fails = \<lparr>next_block = 1, live = {}, oom = (\<lambda>b. b \<in> fails), corrupt = False\<rparr>"

lemma usb_heap_ok: "heap_ok (usb_heap fails)" "live (usb_heap fails) = {}"
  by (simp_all add: usb_heap_def heap_ok_def)

text \<open>One interface with two alternate settings, the first with one endpoint.\<close>

definition demo_config :: "byte list" where
  "demo_config = [9, 2, 34, 0, 1, 1, 0, 0x80, 50,  9, 4, 0, 0, 1, 0xff, 0, 0, 0,  7, 5, 0x81, 2, 64, 0, 0,
     9, 4, 0, 1, 0, 0xff, 0, 0, 0]"

text \<open>An endpoint descriptor where the interface should be.\<close>

definition demo_stray :: "byte list" where
  "demo_stray = [9, 2, 18, 0, 1, 1, 0, 0x80, 50,  9, 5, 0x81, 2, 64, 0, 0, 0, 0]"

lemma demo_config_parsed:
  "(case raw_desc_to_config demo_config 34 False (usb_heap {}) of
     (r, config, h) \<Rightarrow> r = 0 \<and> map_option (\<lambda>(b, c). (b, cfg_blocks c)) config = Some (1, [4, 5, 2]))"
  by code_simp

lemma raw_desc_cases:
  assumes "heap_ok h" and "sz \<le> int (length buf)" and "raw_desc_to_config buf sz he h = (r, config, h')"
  shows "(r < 0 \<and> config = None \<and>
      (heap_ok h' \<and> live h' = live h \<or> r = LIBUSB_ERROR_NO_MEM \<and> corrupt h')) \<or>
    (r = LIBUSB_SUCCESS \<and> (\<exists>b c leak. config = Some (b, c) \<and> length leak \<le> 1 \<and>
      owned (b # cfg_blocks c @ leak) h' (live h)))"
proof -
  have own: "owned [] h (live h)" using assms(1) by (simp add: owned_Nil)
  obtain p h1 where m: "malloc h = (p, h1)" by fastforce
  note o = owned_malloc [OF m own]
  show ?thesis
  proof (cases p)
    case None
    then show ?thesis using assms(3) m o by (auto simp: raw_desc_to_config_def opt_list_def owned_Nil usb_consts)
  next
    case (Some b)
    obtain r1 c h2 where c: "parse_configuration buf sz he h1 = (r1, c, h2)" using prod_cases3 by blast
    have post: "cfg_post sz [b] (live h) (r1, c, h2)"
      using parse_configuration_post [of "[b]" h1 "live h" sz buf he] o Some assms(2) c by (simp add: opt_list_def)
    show ?thesis
    proof (cases "r1 < 0")
      case True
      then have "r = r1" "config = None" "h' = free (Some b) h2"
        using assms(3) m Some c by (simp_all add: raw_desc_to_config_def)
      moreover have "owned [b] h2 (live h) \<Longrightarrow> owned [] (free (Some b) h2) (live h)" by (rule owned_free_front)
      ultimately show ?thesis
        using post True corrupt_free(1) [of h2 "Some b"] by (auto simp: cfg_post_def owned_Nil)
    next
      case False
      then obtain leak where l: "length leak \<le> 1" "owned (cfg_blocks c @ leak @ [b]) h2 (live h)"
        using post by (auto simp: cfg_post_def)
      have "owned (b # cfg_blocks c @ leak) h2 (live h)" by (rule owned_perm [OF l(2)]) simp
      then show ?thesis
        using assms(3) m Some c False l(1) by (auto simp: raw_desc_to_config_def usb_consts)
    qed
  qed
qed

section \<open>Configuration descriptors\<close>

text \<open>
  C20: \<^verbatim>\<open>raw_desc_to_config\<close> with a buffer of at least \<^verbatim>\<open>size\<close> bytes, whatever they are: an error leaves the heap
  as it was; a descriptor that is returned comes with the blocks it lists, each of them new, and at
  most one more that nobody holds; \<^verbatim>\<open>libusb_free_config_descriptor\<close> then gives back all but that one, each once.
  The exception is running out of memory, when the heap may be corrupt.  So no byte outside the buffer is read.
\<close>

theorem config_parse_owns:
  assumes "heap_ok h" and "sz \<le> int (length buf)" and "raw_desc_to_config buf sz he h = (r, config, h')"
  shows "(r < 0 \<and> config = None \<and>
      (heap_ok h' \<and> live h' = live h \<or> r = LIBUSB_ERROR_NO_MEM \<and> corrupt h')) \<or>
    (r = LIBUSB_SUCCESS \<and> (\<exists>b c leak. config = Some (b, c) \<and> length leak \<le> 1 \<and>
      owned (b # cfg_blocks c @ leak) h' (live h) \<and> owned leak (libusb_free_config_descriptor config h') (live h)))"
  using raw_desc_cases [OF assms]
proof (elim disjE conjE exE)
  fix b c leak
  assume c: "r = LIBUSB_SUCCESS" "config = Some (b, c)" "length leak \<le> 1" "owned (b # cfg_blocks c @ leak) h' (live h)"
  have "owned (cfg_blocks c @ b # leak) h' (live h)" by (rule owned_perm [OF c(4)]) simp
  then have "owned (b # leak) (clear_configuration c h') (live h)" by (rule owned_clear_configuration)
  then have "owned leak (libusb_free_config_descriptor config h') (live h)"
    using owned_touch [OF c(4), of b] c(2) owned_free_front by (simp add: libusb_free_config_descriptor_def)
  then show ?thesis using c by blast
qed simp_all

theorem config_parse_owns_witness:
  "case raw_desc_to_config demo_config 34 False (usb_heap {}) of (r, config, h') \<Rightarrow>
    \<exists>leak. length leak \<le> 1 \<and> owned (1 # [4, 5, 2] @ leak) h' {} \<and> owned leak (libusb_free_config_descriptor config h') {}"
proof -
  obtain r config h' where p: "raw_desc_to_config demo_config 34 False (usb_heap {}) = (r, config, h')"
    using prod_cases3 by blast
  have "34 \<le> int (length demo_config)" by (simp add: demo_config_def)
  from config_parse_owns [OF usb_heap_ok(1) this p] demo_config_parsed p show ?thesis
    by (auto simp: usb_heap_ok)
qed

text \<open>
  C21: that block and that exception exist.  When another standard descriptor stands where an interface should start, the
  array allocated for its alternate settings is forgotten, because the interface is not counted: the configuration is
  returned as a success, and after it is freed the array is still allocated.  When the array of alternate settings cannot
  grow, \<^verbatim>\<open>usbi_reallocf\<close> has freed it, and \<^verbatim>\<open>clear_interface\<close> then reads it and frees it again.
\<close>

theorem config_error_paths_leak_and_corrupt:
  "(case raw_desc_to_config demo_stray 18 False (usb_heap {}) of (r, config, h') \<Rightarrow>
      r = LIBUSB_SUCCESS \<and> live (libusb_free_config_descriptor config h') = {3} \<and>
      \<not> corrupt (libusb_free_config_descriptor config h')) \<and>
   (case raw_desc_to_config demo_config 34 False (usb_heap {5}) of (r, config, h') \<Rightarrow>
      r = LIBUSB_ERROR_NO_MEM \<and> corrupt h')"
proof
  show "case raw_desc_to_config demo_stray 18 False (usb_heap {}) of (r, config, h') \<Rightarrow>
      r = LIBUSB_SUCCESS \<and> live (libusb_free_config_descriptor config h') = {3} \<and>
      \<not> corrupt (libusb_free_config_descriptor config h')"
    by code_simp
  have "fst (raw_desc_to_config demo_config 34 False (usb_heap {5})) = LIBUSB_ERROR_NO_MEM"
    by code_simp
  moreover have "corrupt (snd (snd (raw_desc_to_config demo_config 34 False (usb_heap {5}))))"
    by code_simp
  ultimately show "case raw_desc_to_config demo_config 34 False (usb_heap {5}) of (r, config, h') \<Rightarrow>
      r = LIBUSB_ERROR_NO_MEM \<and> corrupt h'" by (simp add: case_prod_unfold)
qed

section \<open>The Binary Object Store\<close>

definition bos_blocks :: "libusb_bos_descriptor \<Rightarrow> nat list" where
  "bos_blocks d = concat (map (\<lambda>cap. opt_list (map_option fst cap))
     (take (unat (bos_bNumDeviceCaps d)) (bos_dev_capability d)))"

interpretation capability: heap_object "\<lambda>cap. opt_list (map_option fst cap)" "\<lambda>cap. free (map_option fst cap)"
  by unfold_locales (rule owned_free)

lemma owned_free_bos:
  assumes "owned (bos_blocks d @ b # bs) h L"
  shows "owned bs (libusb_free_bos_descriptor (Some (b, d)) h) L"
  using capability.owned_clear_array [of b "b # bs", OF _ assms [unfolded bos_blocks_def]] owned_free_front
  by (simp add: libusb_free_bos_descriptor_def)

text \<open>The capabilities from the \<open>i\<close>th on are empty.\<close>

definition bos_state :: "nat \<Rightarrow> nat \<Rightarrow> libusb_bos_descriptor \<Rightarrow> bool" where
  "bos_state n i d \<longleftrightarrow> length (bos_dev_capability d) = n \<and> unat (bos_bNumDeviceCaps d) = n \<and> i \<le> n \<and>
     (\<forall>cap \<in> set (drop i (bos_dev_capability d)). cap = None)"

lemma bos_blocks_state:
  assumes "bos_state n i d"
  shows "bos_blocks d = concat (map (\<lambda>cap. opt_list (map_option fst cap)) (take i (bos_dev_capability d)))"
proof -
  have "bos_blocks d = concat (map (\<lambda>cap. opt_list (map_option fst cap))
      (take i (bos_dev_capability d) @ drop i (bos_dev_capability d)))"
    using assms by (simp add: bos_blocks_def bos_state_def)
  also have "concat (map (\<lambda>cap. opt_list (map_option fst cap)) (drop i (bos_dev_capability d))) = []"
    using assms by (auto simp: bos_state_def opt_list_def)
  ultimately show ?thesis by (simp only: map_append concat_append append_Nil2)
qed

lemma bos_loop_post:
  assumes "owned (bos_blocks d @ b # bs) h L" "bos_state (i + n) i d" "sz \<le> int (length buffer)"
    and "bos_loop b n i d buffer sz he h = (q, h')"
  shows "case q of
      Inl r \<Rightarrow> error_code r \<and> owned bs h' L
    | Inr (j, d') \<Rightarrow> owned (bos_blocks d' @ b # bs) h' L \<and> bos_state (i + n) j d'"
  using assms
proof (induction n arbitrary: i d buffer sz h)
  case 0
  then show ?case by auto
next
  case (Suc n)
  show ?case
  proof (cases "sz < LIBUSB_DT_DEVICE_CAPABILITY_SIZE")
    case True
    then show ?thesis using Suc.prems by auto
  next
    case False
    then have "fmt_size ''bbb'' \<le> length buffer" "fmt_end ''bbb'' 0 \<le> length (replicate 3 (0::byte))"
      using Suc.prems(3) by (simp_all add: fmt_size_def fmt_width_def usb_consts)
    then obtain c where c: "parse_into ''bbb'' he buffer (replicate 3 0) h = (c, h)"
      using parse_into_inside(1) by (metis prod.collapse)
    define bl where "bl = uint (c ! 0)"
    obtain p h1 where m: "malloc h = (p, h1)" by fastforce
    note o = owned_malloc [OF m Suc.prems(1)]
    let ?free = "libusb_free_bos_descriptor (Some (b, d))"
    let ?d = "\<lambda>x. d\<lparr>bos_dev_capability := (bos_dev_capability d)[i := Some (x, take (nat bl) buffer)]\<rparr>"
    consider (stop) "c ! 1 \<noteq> LIBUSB_DT_DEVICE_CAPABILITY \<or>
          \<not> bl < LIBUSB_DT_DEVICE_CAPABILITY_SIZE \<and> bl > sz"
      | (short) "c ! 1 = LIBUSB_DT_DEVICE_CAPABILITY" "bl < LIBUSB_DT_DEVICE_CAPABILITY_SIZE"
      | (good) "c ! 1 = LIBUSB_DT_DEVICE_CAPABILITY" "\<not> bl < LIBUSB_DT_DEVICE_CAPABILITY_SIZE" "\<not> bl > sz"
      by blast
    then show ?thesis
    proof cases
      case stop
      then have "bos_loop b (Suc n) i d buffer sz he h = (Inr (i, d), h) \<or>
          bl < LIBUSB_DT_DEVICE_CAPABILITY_SIZE \<and> c ! 1 \<noteq> LIBUSB_DT_DEVICE_CAPABILITY"
        using False c by (auto simp: Let_def bl_def [symmetric])
      then have "bos_loop b (Suc n) i d buffer sz he h = (Inr (i, d), h)"
        using False c by (auto simp: Let_def)
      then show ?thesis using Suc.prems by (simp del: bos_loop.simps)
    next
      case short
      then have "q = Inl LIBUSB_ERROR_IO" "h' = ?free h"
        using Suc.prems(4) False c by (auto simp: Let_def bl_def)
      then show ?thesis using owned_free_bos [OF Suc.prems(1)] by (simp add: error_code_def)
    next
      case good
      show ?thesis
      proof (cases p)
        case None
        then have "q = Inl LIBUSB_ERROR_NO_MEM" "h' = ?free h1"
          using Suc.prems(4) False c good m by (auto simp: Let_def bl_def)
        then show ?thesis using owned_free_bos [of d b bs h1 L] o None by (simp add: error_code_def opt_list_def)
      next
        case (Some x)
        have cb: "copy_bytes buffer (nat bl) h1 = (take (nat bl) buffer, h1)"
          using good(3) Suc.prems(3) by (intro copy_bytes_inside) linarith
        have rec: "bos_loop b n (Suc i) (?d x) (drop (nat bl) buffer) (sz - bl) he h1 = (q, h')"
          using Suc.prems(4) False c good m Some cb by (simp add: Let_def bl_def [symmetric])
        have i: "i < length (bos_dev_capability d)" using Suc.prems(2) by (simp add: bos_state_def)
        have st: "bos_state (Suc i + n) (Suc i) (?d x)"
          using Suc.prems(2) i by (simp add: bos_state_def flip: Cons_nth_drop_Suc)
        have "mset (bos_blocks (?d x)) = add_mset x (mset (bos_blocks d))"
          using bos_blocks_state [OF st] bos_blocks_state [OF Suc.prems(2)] i
          by (simp add: take_Suc_conv_app_nth opt_list_def)
        then have "owned (bos_blocks (?d x) @ b # bs) h1 L"
          using o Some by (elim owned_perm) (simp add: opt_list_def)
        moreover have "sz - bl \<le> int (length (drop (nat bl) buffer))"
          unfolding length_drop using good Suc.prems(3) by (auto simp: usb_consts)
        moreover have "i + Suc n = Suc i + n" by simp
        ultimately show ?thesis using Suc.IH [OF _ st _ rec] by metis
      qed
    qed
  qed
qed

text \<open>
  C22: parsing a BOS descriptor, whatever bytes the device sends, leaves the heap as it was when it fails, even
  half way through the capabilities or out of memory; when it succeeds, freeing the descriptor
  leaves the heap as it was.
\<close>

theorem bos_parse_leaks_nothing:
  assumes "heap_ok h" and "sz \<le> int (length buffer)" and "parse_bos buffer sz he h = (r, bos, h')"
  shows "\<not> corrupt h' \<and> (r < 0 \<longrightarrow> bos = None \<and> live h' = live h) \<and>
    \<not> corrupt (libusb_free_bos_descriptor bos h') \<and> live (libusb_free_bos_descriptor bos h') = live h"
proof -
  have own: "owned [] h (live h)" using assms(1) by (simp add: owned_Nil)
  have stop: ?thesis if "r < 0" "bos = None" "owned [] h' (live h)"
    using that by (auto simp: libusb_free_bos_descriptor_def owned_Nil heap_ok_def)
  show ?thesis
  proof (cases "sz < LIBUSB_DT_BOS_SIZE")
    case True
    then show ?thesis using assms(3) own by (intro stop) (auto simp: parse_bos_def usb_consts)
  next
    case False
    then have "fmt_size ''bbwb'' \<le> length buffer" "fmt_end ''bbwb'' 0 \<le> length (replicate 5 (0::byte))"
      using assms(2) by (simp_all add: fmt_size_def fmt_width_def usb_consts)
    then obtain d where d: "parse_into ''bbwb'' he buffer (replicate 5 0) h = (d, h)"
      using parse_into_inside(1) by (metis prod.collapse)
    define bl where "bl = uint (d ! 0)"
    show ?thesis
    proof (cases "d ! 1 = LIBUSB_DT_BOS \<and> \<not> bl < LIBUSB_DT_BOS_SIZE \<and> \<not> bl > sz")
      case bad: False
      then show ?thesis
        using assms(3) own False d by (intro stop) (auto simp: parse_bos_def Let_def bl_def usb_consts split: if_splits)
    next
      case good: True
      obtain p h1 where m: "malloc h = (p, h1)" by fastforce
      note o = owned_malloc [OF m own]
      show ?thesis
      proof (cases p)
        case None
        then show ?thesis
          using assms(3) o False d good m
          by (intro stop) (auto simp: parse_bos_def Let_def bl_def [symmetric] opt_list_def usb_consts)
      next
        case (Some b)
        obtain q h2 where q: "bos_loop b (unat (d ! 4)) 0 (bos_of d) (drop (nat bl) buffer) (sz - bl) he h1 = (q, h2)"
          by fastforce
        have st: "bos_state (0 + unat (d ! 4)) 0 (bos_of d)" by (simp add: bos_state_def bos_of_def)
        have own_b: "owned (bos_blocks (bos_of d) @ b # []) h1 (live h)"
          using o Some bos_blocks_state [OF st] by (simp add: opt_list_def)
        have "sz - bl \<le> int (length (drop (nat bl) buffer))"
          unfolding length_drop using good assms(2) by (auto simp: usb_consts)
        from bos_loop_post [OF own_b st this q] have post: "case q of
            Inl r \<Rightarrow> error_code r \<and> owned [] h2 (live h)
          | Inr (j, d') \<Rightarrow> owned (bos_blocks d' @ [b]) h2 (live h) \<and> bos_state (unat (d ! 4)) j d'"
          by (simp only: add_0)
        have eq: "parse_bos buffer sz he h = (case q of Inl r \<Rightarrow> (r, None, h2)
            | Inr (i, d') \<Rightarrow> (LIBUSB_SUCCESS, Some (b, d'\<lparr>bos_bNumDeviceCaps := of_nat i\<rparr>), h2))"
          using False d good m Some q by (simp add: parse_bos_def Let_def bl_def [symmetric] split: sum.splits)
        show ?thesis
        proof (cases q)
          case (Inl e)
          then show ?thesis using eq assms(3) post by (intro stop) (auto dest: error_code_neg)
        next
          case (Inr jd)
          obtain j d' where jd: "jd = (j, d')" by fastforce
          then have o2: "owned (bos_blocks d' @ [b]) h2 (live h)" and s2: "bos_state (unat (d ! 4)) j d'"
            using post Inr by simp_all
          let ?d' = "d'\<lparr>bos_bNumDeviceCaps := of_nat j\<rparr>"
          have "j \<le> unat (d ! 4)" using s2 by (simp add: bos_state_def)
          then have "unat (of_nat j :: byte) = j"
            using unsigned_less [of "d ! 4", where 'a = nat] by (simp add: unat_of_nat take_bit_nat_eq_self)
          then have "bos_blocks ?d' = bos_blocks d'" using bos_blocks_state [OF s2] by (simp add: bos_blocks_def)
          then have "owned [] (libusb_free_bos_descriptor (Some (b, ?d')) h2) (live h)"
            using owned_free_bos [of ?d' b "[]"] o2 by simp
          then show ?thesis using eq assms(3) Inr jd o2 by (auto simp: owned_Nil heap_ok_def dest: ownedD(3) simp: usb_consts)
        qed
      qed
    qed
  qed
qed

definition demo_bos :: "byte list" where
  "demo_bos = [5, 15, 12, 0, 2,  7, 16, 2, 2, 0, 0, 0,  2, 16, 3]"

theorem bos_parse_leaks_nothing_witness:
  "case parse_bos demo_bos 15 False (usb_heap {}) of (r, bos, h') \<Rightarrow> r = LIBUSB_ERROR_IO \<and> bos = None \<and> live h' = {}"
proof -
  obtain r bos h' where p: "parse_bos demo_bos 15 False (usb_heap {}) = (r, bos, h')" using prod_cases3 by blast
  have "fst (parse_bos demo_bos 15 False (usb_heap {})) = LIBUSB_ERROR_IO" by code_simp
  with bos_parse_leaks_nothing [OF usb_heap_ok(1) _ p] p show ?thesis
    by (simp add: demo_bos_def usb_heap_ok usb_consts)
qed

section \<open>String descriptors\<close>

definition ascii_prefix :: "nat \<Rightarrow> byte list \<Rightarrow> bool" where
  "ascii_prefix n data \<longleftrightarrow> (\<forall>k < n. data ! k < 0x80)"

lemma ascii_byte: "(c :: byte) AND 0x80 = 0 \<Longrightarrow> c < 0x80"
proof -
  have "\<forall>c \<in> set (map word_of_nat [0..<256] :: byte list). c AND 0x80 = 0 \<longrightarrow> c < 0x80" by code_simp
  moreover have "c \<in> set (map word_of_nat [0..<256])"
    using unsigned_less [of c, where 'a = nat] by (auto intro!: image_eqI [of _ _ "unat c"])
  ultimately show "c AND 0x80 = 0 \<Longrightarrow> c < 0x80" by blast
qed

lemma string_loop_post:
  assumes "length tbuf = 255" "unat (tbuf ! 0) < 255 \<or> len \<le> 127"
    and "si = 2 + 2 * di" "int di < len" "len \<le> int (length data)" "ascii_prefix di data"
  shows "\<exists>di' data'. string_loop tbuf len si di data = Some (di', data') \<and> int di' < len \<and>
    length data' = length data \<and> ascii_prefix di' data' \<and> drop (nat len) data' = drop (nat len) data"
  using assms
proof (induction tbuf len si di data rule: string_loop.induct)
  case (1 tbuf len si di data)
  show ?case
  proof (cases "si < unat (tbuf ! 0) \<and> \<not> int di \<ge> len - 1")
    case False
    then have "string_loop tbuf len si di data = Some (di, data)" by (subst string_loop.simps) auto
    then show ?thesis using 1 by simp
  next
    case True
    define c :: byte where "c = (if tbuf ! si AND 0x80 \<noteq> 0 \<or> tbuf ! (si + 1) \<noteq> 0 then 0x3f else tbuf ! si)"
    have "unat (tbuf ! 0) \<le> 255" using unsigned_less [of "tbuf ! 0", where 'a = nat] by simp
    then have si: "si + 1 < length tbuf" using True 1(2-4) by auto
    have di: "di < length data" using 1(5,6) by linarith
    have "c < 0x80" using ascii_byte [of "tbuf ! si"] by (auto simp: c_def)
    then have asc: "ascii_prefix (di + 1) (data[di := c])"
      using 1(7) di by (auto simp: ascii_prefix_def nth_list_update less_Suc_eq)
    have rec: "string_loop tbuf len si di data = string_loop tbuf len (si + 2) (di + 1) (data[di := c])"
      using True si di by (subst string_loop.simps) (simp add: c_def Let_def)
    have ih: "\<exists>di' data'. string_loop tbuf len (si + 2) (di + 1) (data[di := c]) = Some (di', data') \<and> int di' < len \<and>
        length data' = length (data[di := c]) \<and> ascii_prefix di' data' \<and>
        drop (nat len) data' = drop (nat len) (data[di := c])"
      by (rule "1.IH") (use True si di asc 1(2-6) in \<open>auto simp: c_def\<close>)
    have "drop (nat len) (data[di := c]) = drop (nat len) data" using 1(5) by simp
    then show ?thesis using ih rec by simp
  qed
qed

text \<open>
  What \<^verbatim>\<open>libusb_control_transfer\<close> documents: a result that is not negative is the number of bytes stored, at most
  as many as were asked for; \<open>ok\<close> is what is assumed of the first of them.
\<close>

definition transfers :: "(byte \<Rightarrow> bool) \<Rightarrow> 'd control \<Rightarrow> bool" where
  "transfers ok control \<longleftrightarrow> (\<forall>t q v i n s. case control t q v i n s of
     ((r, bytes), _) \<Rightarrow> 0 \<le> r \<longrightarrow> int (length bytes) = r \<and> r \<le> uint n \<and> (bytes \<noteq> [] \<longrightarrow> ok (bytes ! 0)))"

lemma transfersD:
  assumes "transfers ok control" "libusb_get_string_descriptor control i l 255 s = ((r, bytes), s')" "0 \<le> r"
  shows "int (length bytes) = r" "r \<le> 255" "bytes \<noteq> [] \<Longrightarrow> ok (bytes ! 0)"
proof -
  have "case libusb_get_string_descriptor control i l 255 s of
      ((r, bytes), _) \<Rightarrow> 0 \<le> r \<longrightarrow> int (length bytes) = r \<and> r \<le> uint (word_of_int 255 :: u16) \<and>
        (bytes \<noteq> [] \<longrightarrow> ok (bytes ! 0))"
    using assms(1) unfolding transfers_def libusb_get_string_descriptor_def by (elim allE)
  then show "int (length bytes) = r" "r \<le> 255" "bytes \<noteq> [] \<Longrightarrow> ok (bytes ! 0)"
    using assms(2,3) by simp_all
qed

lemma fill_buffer_first:
  "length old = 255 \<Longrightarrow> fill_buffer old bytes ! 0 = (if bytes = [] then old ! 0 else bytes ! 0)"
  by (cases bytes) (auto simp: fill_buffer_def)

lemma string_ascii_cases:
  assumes "transfers (\<lambda>b. b \<noteq> 255 \<or> len \<le> 127) control" "length junk = 255" "0 < len" "len \<le> int (length data)"
  shows "\<exists>r data' s'. libusb_get_string_descriptor_ascii control junk desc_index data len s = (Some (r, data'), s') \<and>
    (r < 0 \<and> data' = data \<or>
     0 \<le> r \<and> r < len \<and> length data' = length data \<and> data' ! nat r = 0 \<and> ascii_prefix (nat r) data' \<and>
       drop (nat len) data' = drop (nat len) data)"
proof -
  obtain r1 bs1 s1 where c1: "libusb_get_string_descriptor control 0 0 255 s = ((r1, bs1), s1)"
    using prod_cases3 by (metis prod.collapse)
  define tbuf where "tbuf = fill_buffer junk bs1"
  define langid :: u16 where "langid = le_word [tbuf ! 2, tbuf ! 3]"
  obtain r bs s2 where c2: "libusb_get_string_descriptor control desc_index langid 255 s1 = ((r, bs), s2)"
    using prod_cases3 by (metis prod.collapse)
  define tbuf2 where "tbuf2 = fill_buffer tbuf bs"
  note def = libusb_get_string_descriptor_ascii_def c1 tbuf_def [symmetric] tbuf2_def [symmetric] Let_def
  show ?thesis
  proof (cases "desc_index = 0 \<or> r1 < 4 \<or> r < 0 \<or> tbuf2 ! 1 \<noteq> LIBUSB_DT_STRING \<or> uint (tbuf2 ! 0) > r")
    case True
    then show ?thesis using c2 by (auto simp: def langid_def usb_consts)
  next
    case False
    have "bs1 \<noteq> []" using transfersD(1) [OF assms(1) c1] False by auto
    then have "tbuf ! 0 \<noteq> 255 \<or> len \<le> 127"
      using transfersD(3) [OF assms(1) c1] False assms(2) by (auto simp: tbuf_def fill_buffer_first)
    moreover have len: "length tbuf = 255" "length tbuf2 = 255" using assms(2) by (simp_all add: tbuf_def tbuf2_def)
    ultimately have "tbuf2 ! 0 \<noteq> 255 \<or> len \<le> 127"
      using transfersD(3) [OF assms(1) c2] False by (auto simp: tbuf2_def fill_buffer_first)
    moreover have "unat (tbuf2 ! 0) < 255" if "tbuf2 ! 0 \<noteq> 255"
    proof -
      have "unat (tbuf2 ! 0) \<noteq> unat (255 :: byte)" using that word_unat_eq_iff by blast
      then show ?thesis using unsigned_less [of "tbuf2 ! 0", where 'a = nat] by simp
    qed
    ultimately have b: "unat (tbuf2 ! 0) < 255 \<or> len \<le> 127" by blast
    obtain di data' where l: "string_loop tbuf2 len 2 0 data = Some (di, data')" "int di < len"
      "length data' = length data" "ascii_prefix di data'" "drop (nat len) data' = drop (nat len) data"
      using string_loop_post [OF len(2) b, of 2 0 data] assms(3,4) by (auto simp: ascii_prefix_def)
    have "libusb_get_string_descriptor_ascii control junk desc_index data len s =
        (Some (int di, data'[di := 0]), s2)"
      using False l assms(4) c2 by (simp add: def langid_def)
    moreover have "ascii_prefix di (data'[di := 0])" using l(4) by (auto simp: ascii_prefix_def)
    ultimately show ?thesis using l assms(4) by simp
  qed
qed

text \<open>A device with one string in one language: the reply depends on the index.\<close>

definition string_device :: "byte list \<Rightarrow> unit control" where
  "string_device string t q v i n s =
    (if n < 255 then ((-1, []), s)
     else if v = 0x300 then ((4, [4, 3, 9, 4]), s) else ((int (length string), string), s))"


text \<open>
  When a device does send a string descriptor of length 255, the longest the request allows, whose characters
  are all ASCII, the last of them is judged by a byte after the end of \<^verbatim>\<open>tbuf\<close>.
\<close>

lemma string_ascii_reads_past_buffer:
  "fst (libusb_get_string_descriptor_ascii (string_device (255 # 3 # concat (replicate 126 [0x41, 0]) @ [0x41]))
     (replicate 255 0) 1 (replicate 200 7) 200 ()) = None"
  by code_simp

end
