(* ===== verification/Usb_Events.thy ===== *)
theory Usb_Events
  imports Usb_Defs
begin

text \<open>
  The events of a libusb context, \<^verbatim>\<open>io.c\<close>, \<^verbatim>\<open>hotplug.c\<close> and \<^verbatim>\<open>core.c\<close>: threads that raise
  events, the one that handles them, and those that close devices, over the pipe that wakes \<^verbatim>\<open>poll\<close>.
  Every critical section of \<^verbatim>\<open>event_data_lock\<close> is one operation, so that their interleavings are
  sequences of steps.
\<close>

section \<open>The data of events\<close>

text \<open>
  \<open>event_pipe\<close> is the number of bytes in the pipe.  The write end does not block and fails when the
  pipe, of \<open>cap\<close> bytes, is full.  The read end blocks (\<^verbatim>\<open>usbi_pipe\<close> sets \<^verbatim>\<open>O_NONBLOCK\<close> on the
  write end only): a read of the empty pipe is \<open>None\<close>.
\<close>

record 'm events =
  event_flags :: u32
  device_close :: u32
  hotplug_msgs :: "'m list"
  completed_transfers :: "nat list"
  event_pipe :: nat

definition USBI_EVENT_POLLFDS_MODIFIED :: u32 where [usb_consts]: "USBI_EVENT_POLLFDS_MODIFIED = push_bit 0 1"
definition USBI_EVENT_USER_INTERRUPT :: u32 where [usb_consts]: "USBI_EVENT_USER_INTERRUPT = push_bit 1 1"
definition USBI_EVENT_HOTPLUG_CB_DEREGISTERED :: u32 where
  [usb_consts]: "USBI_EVENT_HOTPLUG_CB_DEREGISTERED = push_bit 2 1"

definition usbi_pending_events :: "('m, 'z) events_scheme \<Rightarrow> bool" where
  "usbi_pending_events s \<longleftrightarrow> event_flags s \<noteq> 0 \<or> device_close s \<noteq> 0 \<or> hotplug_msgs s \<noteq> [] \<or>
     completed_transfers s \<noteq> []"

definition usbi_signal_event :: "nat \<Rightarrow> ('m, 'z) events_scheme \<Rightarrow> int \<times> ('m, 'z) events_scheme" where
  "usbi_signal_event cap s =
     (if event_pipe s < cap then (0, s\<lparr>event_pipe := Suc (event_pipe s)\<rparr>) else (LIBUSB_ERROR_IO, s))"

definition usbi_clear_event :: "('m, 'z) events_scheme \<Rightarrow> ('m, 'z) events_scheme option" where
  "usbi_clear_event s = (case event_pipe s of 0 \<Rightarrow> None | Suc n \<Rightarrow> Some (s\<lparr>event_pipe := n\<rparr>))"

section \<open>Raising an event\<close>

text \<open>What every function that raises an event does, under the lock: it signals only the first.\<close>

definition raise_event ::
  "nat \<Rightarrow> (('m, 'z) events_scheme \<Rightarrow> ('m, 'z) events_scheme) \<Rightarrow> ('m, 'z) events_scheme \<Rightarrow> ('m, 'z) events_scheme" where
  "raise_event cap update s =
    (let pending_events = usbi_pending_events s; s = update s
     in if \<not> pending_events then snd (usbi_signal_event cap s) else s)"

definition add_hotplug_msg :: "nat \<Rightarrow> 'm \<Rightarrow> ('m, 'z) events_scheme \<Rightarrow> ('m, 'z) events_scheme" where
  "add_hotplug_msg cap m = raise_event cap (\<lambda>s. s\<lparr>hotplug_msgs := hotplug_msgs s @ [m]\<rparr>)"

definition usbi_signal_transfer_completion :: "nat \<Rightarrow> nat \<Rightarrow> ('m, 'z) events_scheme \<Rightarrow> ('m, 'z) events_scheme" where
  "usbi_signal_transfer_completion cap t =
     raise_event cap (\<lambda>s. s\<lparr>completed_transfers := completed_transfers s @ [t]\<rparr>)"

definition set_event_flag :: "u32 \<Rightarrow> ('m, 'z) events_scheme \<Rightarrow> ('m, 'z) events_scheme" where
  "set_event_flag flag s = s\<lparr>event_flags := event_flags s OR flag\<rparr>"

definition libusb_interrupt_event_handler :: "nat \<Rightarrow> ('m, 'z) events_scheme \<Rightarrow> ('m, 'z) events_scheme" where
  "libusb_interrupt_event_handler cap = raise_event cap (set_event_flag USBI_EVENT_USER_INTERRUPT)"

definition usbi_fd_notification :: "nat \<Rightarrow> ('m, 'z) events_scheme \<Rightarrow> ('m, 'z) events_scheme" where
  "usbi_fd_notification cap = raise_event cap (set_event_flag USBI_EVENT_POLLFDS_MODIFIED)"

definition signal_deregistered :: "nat \<Rightarrow> ('m, 'z) events_scheme \<Rightarrow> ('m, 'z) events_scheme" where
  "signal_deregistered cap = raise_event cap (set_event_flag USBI_EVENT_HOTPLUG_CB_DEREGISTERED)"

section \<open>Closing a device\<close>

text \<open>The two sections of \<^verbatim>\<open>libusb_close\<close> around \<^verbatim>\<open>do_close\<close>.\<close>

definition close_begin :: "nat \<Rightarrow> ('m, 'z) events_scheme \<Rightarrow> ('m, 'z) events_scheme" where
  "close_begin cap = raise_event cap (\<lambda>s. s\<lparr>device_close := device_close s + 1\<rparr>)"

text \<open>\<open>clear_if_idle\<close> is the end of a section: the pipe is read when nothing is pending any more.\<close>

definition clear_if_idle :: "('m, 'z) events_scheme \<Rightarrow> ('m, 'z) events_scheme option" where
  "clear_if_idle s = (if \<not> usbi_pending_events s then usbi_clear_event s else Some s)"

definition close_end :: "('m, 'z) events_scheme \<Rightarrow> ('m, 'z) events_scheme option" where
  "close_end s = clear_if_idle (s\<lparr>device_close := device_close s - 1\<rparr>)"

section \<open>Handling events\<close>

text \<open>
  The sections of \<^verbatim>\<open>handle_events\<close>: before \<^verbatim>\<open>poll\<close>, where \<open>allocated\<close> says whether the array of descriptors
  could be allocated (\<open>Inl\<close> is the error return); then, when the pipe is readable, the one that takes the flags
  and the messages; then the loop over completed transfers, which gives up the lock for each.
\<close>

definition update_pollfds ::
  "bool \<Rightarrow> ('m, 'z) events_scheme \<Rightarrow> (int \<times> ('m, 'z) events_scheme) option" where
  "update_pollfds allocated s =
    (if event_flags s AND USBI_EVENT_POLLFDS_MODIFIED \<noteq> 0 then
       (if \<not> allocated then Some (LIBUSB_ERROR_NO_MEM, s)
        else map_option (\<lambda>s. (0, s))
          (clear_if_idle (s\<lparr>event_flags := event_flags s AND NOT USBI_EVENT_POLLFDS_MODIFIED\<rparr>)))
     else Some (0, s))"

text \<open>The result of a section of the loop: the transfer to complete next, if any.\<close>

definition next_completed ::
  "int \<Rightarrow> ('m, 'z) events_scheme \<Rightarrow> (nat option \<times> ('m, 'z) events_scheme) option" where
  "next_completed ret s =
    (case completed_transfers s of
       t # ts \<Rightarrow> if ret = 0 then Some (Some t, s\<lparr>completed_transfers := ts\<rparr>)
                 else map_option (\<lambda>s. (None, s)) (clear_if_idle s)
     | [] \<Rightarrow> map_option (\<lambda>s. (None, s)) (clear_if_idle s))"

text \<open>The flags and messages: whether a callback was deregistered, and the messages to process.\<close>

definition take_events :: "('m, 'z) events_scheme \<Rightarrow> bool \<times> 'm list \<times> ('m, 'z) events_scheme" where
  "take_events s =
    (let s = s\<lparr>event_flags := event_flags s AND NOT USBI_EVENT_USER_INTERRUPT\<rparr>;
         hotplug_cb_deregistered = (event_flags s AND USBI_EVENT_HOTPLUG_CB_DEREGISTERED \<noteq> 0);
         s = s\<lparr>event_flags := event_flags s AND NOT USBI_EVENT_HOTPLUG_CB_DEREGISTERED\<rparr>
     in (hotplug_cb_deregistered, hotplug_msgs s, s\<lparr>hotplug_msgs := []\<rparr>))"

section \<open>Threads\<close>

text \<open>
  Who holds \<^verbatim>\<open>events_lock\<close>: nobody, a thread in \<^verbatim>\<open>handle_events\<close> that polls or completes a transfer, or one
  that closes a device.  A configuration is the number of threads inside \<^verbatim>\<open>libusb_close\<close>, the holder, and
  the data.
\<close>

datatype events_lock = Unlocked | Polling | Completing | Closing

inductive event_step ::
  "nat \<Rightarrow> nat \<times> events_lock \<times> ('m, 'z) events_scheme \<Rightarrow> nat \<times> events_lock \<times> ('m, 'z) events_scheme \<Rightarrow> bool"
  for cap where
  hotplug: "event_step cap (n, l, s) (n, l, add_hotplug_msg cap m s)"
| completion: "event_step cap (n, l, s) (n, l, usbi_signal_transfer_completion cap t s)"
| interrupt: "event_step cap (n, l, s) (n, l, libusb_interrupt_event_handler cap s)"
| fds: "event_step cap (n, l, s) (n, l, usbi_fd_notification cap s)"
| deregister: "event_step cap (n, l, s) (n, l, signal_deregistered cap s)"
| closing: "Suc n < 2 ^ 32 \<Longrightarrow> event_step cap (n, l, s) (Suc n, l, close_begin cap s)"
| close_lock: "0 < n \<Longrightarrow> event_step cap (n, Unlocked, s) (n, Closing, s)"
| closed: "close_end s = Some s' \<Longrightarrow> event_step cap (Suc n, Closing, s) (n, Unlocked, s')"
| poll: "update_pollfds allocated s = Some (0, s') \<Longrightarrow> event_step cap (n, Unlocked, s) (n, Polling, s')"
| poll_failed: "update_pollfds allocated s = Some (r, s') \<Longrightarrow> r \<noteq> 0 \<Longrightarrow>
    event_step cap (n, Unlocked, s) (n, Unlocked, s')"
| other: "event_step cap (n, Polling, s) (n, Unlocked, s)"
| event: "0 < event_pipe s \<Longrightarrow> take_events s = (dereg, msgs, s1) \<Longrightarrow> next_completed 0 s1 = Some (t, s') \<Longrightarrow>
    event_step cap (n, Polling, s) (n, if t = None then Unlocked else Completing, s')"
| completed: "next_completed ret s = Some (t, s') \<Longrightarrow>
    event_step cap (n, Completing, s) (n, if t = None then Unlocked else Completing, s')"

inductive_cases event_stepE: "event_step cap c c'"

text \<open>A context starts with nothing pending and an empty pipe, before \<^verbatim>\<open>usbi_add_pollfd\<close> adds the pipe itself.\<close>

definition events_init :: "'m events" where
  "events_init = \<lparr>event_flags = 0, device_close = 0, hotplug_msgs = [], completed_transfers = [], event_pipe = 0\<rparr>"

inductive event_reach :: "nat \<Rightarrow> nat \<times> events_lock \<times> 'm events \<Rightarrow> bool" for cap where
  init: "event_reach cap (0, Unlocked, usbi_fd_notification cap events_init)"
| step: "event_reach cap c \<Longrightarrow> event_step cap c c' \<Longrightarrow> event_reach cap c'"

section \<open>The invariant\<close>

text \<open>
  The pipe is readable while an event is pending, and while the thread that was woken by it is at work.
\<close>

definition event_inv :: "nat \<times> events_lock \<times> ('m, 'z) events_scheme \<Rightarrow> bool" where
  "event_inv c = (case c of (n, l, s) \<Rightarrow>
     (usbi_pending_events s \<longrightarrow> 0 < event_pipe s) \<and> (l = Completing \<longrightarrow> 0 < event_pipe s) \<and>
     (l = Closing \<longrightarrow> 0 < n) \<and> n < 2 ^ 32 \<and> device_close s = of_nat n)"

lemma raise_event_inv:
  assumes "event_inv (n, l, s)" and "0 < cap" and "event_pipe (update s) = event_pipe s"
    and "device_close (update s) = of_nat n'" and "n' < 2 ^ 32" and "n \<le> n'"
  shows "event_inv (n', l, raise_event cap update s)"
  using assms by (auto simp: event_inv_def raise_event_def usbi_signal_event_def Let_def usbi_pending_events_def)

lemmas raise_event_defs = add_hotplug_msg_def usbi_signal_transfer_completion_def libusb_interrupt_event_handler_def
  usbi_fd_notification_def signal_deregistered_def close_begin_def set_event_flag_def

lemma raise_inv:
  assumes "event_inv (n, l, s)" and "0 < cap"
  shows "event_inv (n, l, add_hotplug_msg cap m s)" "event_inv (n, l, usbi_signal_transfer_completion cap t s)"
    "event_inv (n, l, libusb_interrupt_event_handler cap s)" "event_inv (n, l, usbi_fd_notification cap s)"
    "event_inv (n, l, signal_deregistered cap s)" "Suc n < 2 ^ 32 \<Longrightarrow> event_inv (Suc n, l, close_begin cap s)"
  unfolding raise_event_defs by (rule raise_event_inv [OF assms]; use assms in \<open>simp add: event_inv_def\<close>)+

lemma clear_if_idle_inv:
  assumes "0 < event_pipe s"
  shows "\<exists>s'. clear_if_idle s = Some s' \<and> (usbi_pending_events s' \<longrightarrow> 0 < event_pipe s') \<and>
    device_close s' = device_close s"
  using assms by (cases "event_pipe s") (auto simp: clear_if_idle_def usbi_clear_event_def usbi_pending_events_def)

lemma close_end_inv:
  assumes "event_inv (Suc n, Closing, s)"
  shows "\<exists>s'. close_end s = Some s' \<and> event_inv (n, Unlocked, s')"
proof -
  have n: "Suc n < 2 ^ 32" "device_close s = of_nat (Suc n)" using assms by (simp_all add: event_inv_def)
  have "unat (of_nat (Suc n) :: u32) = Suc n"
    using n(1) by (simp add: unat_of_nat take_bit_nat_eq_self del: of_nat_Suc)
  then have "(of_nat (Suc n) :: u32) \<noteq> 0" by (metis Zero_not_Suc unsigned_0)
  then have "0 < event_pipe s" using assms n(2) by (auto simp: event_inv_def usbi_pending_events_def)
  then show ?thesis
    using clear_if_idle_inv [of "s\<lparr>device_close := device_close s - 1\<rparr>"] n
    by (auto simp: close_end_def event_inv_def)
qed

lemma update_pollfds_inv:
  assumes "event_inv (n, Unlocked, s)"
  shows "\<exists>r s'. update_pollfds allocated s = Some (r, s') \<and> event_inv (n, Unlocked, s') \<and>
    event_inv (n, Polling, s')"
proof (cases "event_flags s AND USBI_EVENT_POLLFDS_MODIFIED = 0 \<or> \<not> allocated")
  case True
  then show ?thesis using assms by (auto simp: update_pollfds_def event_inv_def)
next
  case False
  then have "event_flags s \<noteq> 0" by auto
  then have "0 < event_pipe s" using assms by (auto simp: event_inv_def usbi_pending_events_def)
  then show ?thesis
    using clear_if_idle_inv [of "s\<lparr>event_flags := event_flags s AND NOT USBI_EVENT_POLLFDS_MODIFIED\<rparr>"] False assms
    by (auto simp: update_pollfds_def event_inv_def)
qed

lemma next_completed_inv:
  assumes "0 < event_pipe s" and "n < 2 ^ 32" and "device_close s = of_nat n"
  shows "\<exists>t s'. next_completed ret s = Some (t, s') \<and>
    event_inv (n, if t = None then Unlocked else Completing, s')"
  using clear_if_idle_inv [OF assms(1)] assms
  by (auto simp: next_completed_def event_inv_def split: list.splits)

lemma take_events_keeps:
  "take_events s = (dereg, msgs, s') \<Longrightarrow> event_pipe s' = event_pipe s \<and> device_close s' = device_close s"
  by (auto simp: take_events_def Let_def)

lemma event_step_inv:
  assumes "event_step cap c c'" and "event_inv c" and "0 < cap"
  shows "event_inv c'"
  using assms(1,2)
proof (cases rule: event_step.cases)
  case (closed s s' n)
  then show ?thesis using close_end_inv [of n s] assms(2) by auto
next
  case (poll allocated s s' n)
  then show ?thesis using update_pollfds_inv [of n s allocated] assms(2) by auto
next
  case (poll_failed allocated s r s' n)
  then show ?thesis using update_pollfds_inv [of n s allocated] assms(2) by auto
next
  case (event s dereg msgs s1 t s' n)
  then show ?thesis
    using next_completed_inv [of s1 n 0] take_events_keeps [of s dereg msgs s1] assms(2) by (auto simp: event_inv_def)
next
  case (completed ret s t s' n)
  then show ?thesis using next_completed_inv [of s n ret] assms(2) by (auto simp: event_inv_def)
next
  case (close_lock n s)
  then show ?thesis using assms(2) by (simp add: event_inv_def)
next
  case (other n s)
  then show ?thesis using assms(2) by (simp add: event_inv_def)
qed (use assms(2,3) in \<open>simp_all add: raise_inv\<close>)

lemma event_reach_inv:
  assumes "event_reach cap c" and "0 < cap"
  shows "event_inv c"
  using assms(1)
proof induction
  case init
  show ?case using assms(2)
    by (simp add: event_inv_def events_init_def usbi_fd_notification_def raise_event_def usbi_signal_event_def
        usbi_pending_events_def set_event_flag_def Let_def)
next
  case (step c c')
  then show ?case using event_step_inv assms(2) by blast
qed

end
