(* ===== verification/Usb_Devices.thy ===== *)
theory Usb_Devices
  imports Usb_Events Usb_Api "HOL-Library.AList"
begin

text \<open>
  The devices of a libusb context, \<^verbatim>\<open>core.c\<close>: their reference counts, the list of connected devices, the
  lists a client gets, the handles it opens and the interfaces it claims.  A device is named by its
  block; what the operating system backend does is an argument.
\<close>

section \<open>The context\<close>

record libusb_device =
  d_refcnt :: int
  d_bus_number :: byte
  d_port_number :: byte
  d_parent_dev :: "nat option"
  d_device_address :: byte
  d_num_configurations :: byte
  d_speed :: int
  d_session_data :: u64
  d_device_descriptor :: libusb_device_descriptor
  d_attached :: bool

record libusb_device_handle =
  h_dev :: nat
  h_claimed_interfaces :: u64
  h_auto_detach_kernel_driver :: int

record libusb_hotplug_message =
  msg_event :: byte
  msg_device :: nat

record libusb_hotplug_callback =
  cb_flags :: byte
  cb_vendor_id :: u16
  cb_product_id :: u16
  cb_dev_class :: byte
  cb_fn :: nat
  cb_handle :: int
  cb_user_data :: nat

text \<open>
  A list of the code is the list of the blocks of its elements, here with their contents.
  \<open>hotplug_ready\<close> says that \<^verbatim>\<open>usbi_io_init\<close> has initialised \<^verbatim>\<open>hotplug_msgs\<close>; \<open>os_data\<close> is what the
  backend keeps.
\<close>

record 'd libusb_context = "(nat \<times> libusb_hotplug_message) events" +
  us_heap :: heap
  us_devices :: "(nat \<times> libusb_device) list"
  usb_devs :: "nat list"
  open_devs :: "(nat \<times> libusb_device_handle) list"
  hotplug_cbs :: "(nat \<times> libusb_hotplug_callback) list"
  next_hotplug_cb_handle :: int
  hotplug_ready :: bool
  os_data :: 'd

text \<open>The capacity of the array is a field of its own; its length is the length of the list.\<close>

record discovered_devs =
  dd_block :: nat
  dd_capacity :: nat
  dd_devices :: "nat list"

record 'd usbi_os_backend =
  os_get_device_list ::
    "(discovered_devs \<Rightarrow> 'd libusb_context \<Rightarrow> (int \<times> discovered_devs option) \<times> 'd libusb_context) option"
  os_hotplug_poll :: "('d libusb_context \<Rightarrow> 'd libusb_context) option"
  os_destroy_device :: "(nat \<Rightarrow> 'd \<Rightarrow> 'd) option"
  os_get_device_descriptor :: "nat \<Rightarrow> 'd \<Rightarrow> reply \<times> 'd"
  os_open :: "nat \<Rightarrow> 'd \<Rightarrow> int \<times> 'd"
  os_close :: "nat \<Rightarrow> 'd \<Rightarrow> 'd"
  os_claim_interface :: "nat \<Rightarrow> int \<Rightarrow> 'd \<Rightarrow> int \<times> 'd"
  os_release_interface :: "nat \<Rightarrow> int \<Rightarrow> 'd \<Rightarrow> int \<times> 'd"
  os_set_interface_altsetting :: "nat \<Rightarrow> int \<Rightarrow> int \<Rightarrow> 'd \<Rightarrow> int \<times> 'd"
  os_pipe :: nat

definition LIBUSB_HOTPLUG_EVENT_DEVICE_ARRIVED :: byte where [usb_consts]: "LIBUSB_HOTPLUG_EVENT_DEVICE_ARRIVED = 0x01"
definition LIBUSB_HOTPLUG_EVENT_DEVICE_LEFT :: byte where [usb_consts]: "LIBUSB_HOTPLUG_EVENT_DEVICE_LEFT = 0x02"
definition LIBUSB_SPEED_UNKNOWN :: int where [usb_consts]: "LIBUSB_SPEED_UNKNOWN = 0"
definition USB_MAXCONFIG :: int where [usb_consts]: "USB_MAXCONFIG = 8"
definition DISCOVERED_DEVICES_SIZE_STEP :: nat where [usb_consts]: "DISCOVERED_DEVICES_SIZE_STEP = 8"

text \<open>\<^verbatim>\<open>libusb_has_capability(LIBUSB_CAP_HAS_HOTPLUG)\<close>.\<close>

definition has_hotplug :: "'d usbi_os_backend \<Rightarrow> bool" where
  "has_hotplug ops \<longleftrightarrow> os_get_device_list ops = None"

section \<open>Access to devices\<close>

text \<open>An access to a device that is gone corrupts the heap.\<close>

definition fault :: "'d libusb_context \<Rightarrow> 'd libusb_context" where
  "fault s = s\<lparr>us_heap := (us_heap s)\<lparr>corrupt := True\<rparr>\<rparr>"

definition find_device :: "'d libusb_context \<Rightarrow> nat \<Rightarrow> libusb_device option" where
  "find_device s b = map_of (us_devices s) b"

definition put_device :: "nat \<Rightarrow> libusb_device \<Rightarrow> (nat \<times> libusb_device) list \<Rightarrow> (nat \<times> libusb_device) list" where
  "put_device b d ds = map (\<lambda>(x, e). (x, if x = b then d else e)) ds"

definition update_device :: "nat \<Rightarrow> (libusb_device \<Rightarrow> libusb_device) \<Rightarrow> 'd libusb_context \<Rightarrow> 'd libusb_context" where
  "update_device b f s =
    (case find_device s b of
       None \<Rightarrow> fault s
     | Some d \<Rightarrow> s\<lparr>us_devices := put_device b (f d) (us_devices s)\<rparr>)"

definition free_device :: "nat \<Rightarrow> 'd libusb_context \<Rightarrow> 'd libusb_context" where
  "free_device b s =
     s\<lparr>us_heap := free (Some b) (us_heap s), us_devices := filter (\<lambda>(x, d). x \<noteq> b) (us_devices s)\<rparr>"

text \<open>An allocation and a release with the context's heap.\<close>

definition alloc :: "'d libusb_context \<Rightarrow> nat option \<times> 'd libusb_context" where
  "alloc s = (case malloc (us_heap s) of (p, h) \<Rightarrow> (p, s\<lparr>us_heap := h\<rparr>))"

definition release :: "nat \<Rightarrow> 'd libusb_context \<Rightarrow> 'd libusb_context" where
  "release b s = s\<lparr>us_heap := free (Some b) (us_heap s)\<rparr>"

text \<open>\<^verbatim>\<open>list_del\<close> of a device that is in no list follows a null pointer.\<close>

definition unlink_device :: "nat \<Rightarrow> 'd libusb_context \<Rightarrow> 'd libusb_context" where
  "unlink_device b s = (if b \<in> set (usb_devs s) then s\<lparr>usb_devs := remove1 b (usb_devs s)\<rparr> else fault s)"

section \<open>Connection\<close>

definition usbi_hotplug_notification ::
  "'d usbi_os_backend \<Rightarrow> nat \<Rightarrow> byte \<Rightarrow> 'd libusb_context \<Rightarrow> 'd libusb_context" where
  "usbi_hotplug_notification ops dev event s =
    (case alloc s of
       (None, s) \<Rightarrow> s
     | (Some message, s) \<Rightarrow> add_hotplug_msg (os_pipe ops) (message, \<lparr>msg_event = event, msg_device = dev\<rparr>) s)"

definition usbi_connect_device :: "'d usbi_os_backend \<Rightarrow> nat \<Rightarrow> 'd libusb_context \<Rightarrow> 'd libusb_context" where
  "usbi_connect_device ops dev s =
    (let s = update_device dev (\<lambda>d. d\<lparr>d_attached := True\<rparr>) s;
         s = s\<lparr>usb_devs := dev # usb_devs s\<rparr>
     in if has_hotplug ops \<and> hotplug_ready s
        then usbi_hotplug_notification ops dev LIBUSB_HOTPLUG_EVENT_DEVICE_ARRIVED s else s)"

definition usbi_disconnect_device :: "'d usbi_os_backend \<Rightarrow> nat \<Rightarrow> 'd libusb_context \<Rightarrow> 'd libusb_context" where
  "usbi_disconnect_device ops dev s =
    (let s = update_device dev (\<lambda>d. d\<lparr>d_attached := False\<rparr>) s;
         s = unlink_device dev s
     in if has_hotplug ops \<and> hotplug_ready s
        then usbi_hotplug_notification ops dev LIBUSB_HOTPLUG_EVENT_DEVICE_LEFT s else s)"

text \<open>\<open>mutex_ok\<close> is whether \<^verbatim>\<open>usbi_mutex_init\<close> succeeds.\<close>

definition usbi_alloc_device ::
  "'d usbi_os_backend \<Rightarrow> bool \<Rightarrow> u64 \<Rightarrow> 'd libusb_context \<Rightarrow> nat option \<times> 'd libusb_context" where
  "usbi_alloc_device ops mutex_ok session_id s =
    (case alloc s of
       (None, s) \<Rightarrow> (None, s)
     | (Some dev, s) \<Rightarrow>
        if \<not> mutex_ok then (None, release dev s)
        else
          let d = \<lparr>d_refcnt = 1, d_bus_number = 0, d_port_number = 0, d_parent_dev = None, d_device_address = 0,
                d_num_configurations = 0, d_speed = LIBUSB_SPEED_UNKNOWN, d_session_data = session_id,
                d_device_descriptor = device_of (replicate 18 0), d_attached = False\<rparr>;
              s = s\<lparr>us_devices := (dev, d) # us_devices s\<rparr>
          in (Some dev, if \<not> has_hotplug ops then usbi_connect_device ops dev s else s))"

section \<open>References\<close>

definition libusb_ref_device :: "nat \<Rightarrow> 'd libusb_context \<Rightarrow> 'd libusb_context" where
  "libusb_ref_device dev = update_device dev (\<lambda>d. d\<lparr>d_refcnt := d_refcnt d + 1\<rparr>)"

text \<open>
  The last reference destroys the device, after it has given up its reference to its parent.  Each
  nested call takes a positive count to zero, so the recursion ends even on a cycle.
\<close>

definition counted :: "(nat \<times> libusb_device) list \<Rightarrow> nat" where
  "counted ds = length (filter (\<lambda>(x, d). 0 < d_refcnt d) ds)"

lemma counted_put:
  assumes "map_of ds b = Some d" "0 < d_refcnt d" "d_refcnt e = 0"
  shows "counted (put_device b e ds) < counted ds"
proof -
  have le: "counted (put_device b e ds) \<le> counted ds" for ds
    by (induction ds) (auto simp: counted_def put_device_def assms(3) split: if_splits)
  show ?thesis
    using assms(1)
  proof (induction ds)
    case (Cons xd ds)
    obtain x e' where "xd = (x, e')" by fastforce
    then show ?case using Cons le [of ds] assms(2,3)
      by (cases "x = b") (auto simp: counted_def put_device_def)
  qed simp
qed

function libusb_unref_device :: "'d usbi_os_backend \<Rightarrow> nat option \<Rightarrow> 'd libusb_context \<Rightarrow> 'd libusb_context" where
  "libusb_unref_device ops None s = s"
| "libusb_unref_device ops (Some dev) s =
    (case find_device s dev of
       None \<Rightarrow> fault s
     | Some d \<Rightarrow>
        (let refcnt = d_refcnt d - 1;
             s1 = s\<lparr>us_devices := put_device dev (d\<lparr>d_refcnt := refcnt\<rparr>) (us_devices s)\<rparr> in
         if refcnt = 0 then
           (let s2 = libusb_unref_device ops (d_parent_dev d) s1;
                s3 = (case os_destroy_device ops of None \<Rightarrow> s2 | Some f \<Rightarrow> s2\<lparr>os_data := f dev (os_data s2)\<rparr>);
                s4 = (if \<not> has_hotplug ops then usbi_disconnect_device ops dev s3 else s3)
            in free_device dev s4)
         else s1))"
  by pat_completeness auto
termination
  by (relation "measure (\<lambda>(ops, p, s). counted (us_devices s))")
    (auto simp: find_device_def intro!: counted_put)

declare libusb_unref_device.simps(2) [simp del]

section \<open>Lists of devices\<close>

definition discovered_devs_alloc :: "'d libusb_context \<Rightarrow> discovered_devs option \<times> 'd libusb_context" where
  "discovered_devs_alloc s =
    (case alloc s of (p, s) \<Rightarrow>
      (map_option (\<lambda>b. \<lparr>dd_block = b, dd_capacity = DISCOVERED_DEVICES_SIZE_STEP, dd_devices = []\<rparr>) p, s))"

definition discovered_devs_free :: "'d usbi_os_backend \<Rightarrow> discovered_devs \<Rightarrow> 'd libusb_context \<Rightarrow> 'd libusb_context" where
  "discovered_devs_free ops discdevs s =
     release (dd_block discdevs) (fold (\<lambda>dev. libusb_unref_device ops (Some dev)) (dd_devices discdevs) s)"

definition discovered_devs_append ::
  "'d usbi_os_backend \<Rightarrow> discovered_devs \<Rightarrow> nat \<Rightarrow> 'd libusb_context \<Rightarrow> discovered_devs option \<times> 'd libusb_context" where
  "discovered_devs_append ops discdevs dev s =
    (let devices = dd_devices discdevs @ [dev] in
     if length (dd_devices discdevs) < dd_capacity discdevs
     then (Some (discdevs\<lparr>dd_devices := devices\<rparr>), libusb_ref_device dev s)
     else case realloc (Some (dd_block discdevs)) (us_heap s) of
       (None, h) \<Rightarrow> (None, discovered_devs_free ops discdevs (s\<lparr>us_heap := h\<rparr>))
     | (Some b, h) \<Rightarrow>
         (Some \<lparr>dd_block = b, dd_capacity = dd_capacity discdevs + DISCOVERED_DEVICES_SIZE_STEP,
            dd_devices = devices\<rparr>, libusb_ref_device dev (s\<lparr>us_heap := h\<rparr>)))"

text \<open>The loop of \<^verbatim>\<open>libusb_get_device_list\<close> over the connected devices.\<close>

primrec append_devices ::
  "'d usbi_os_backend \<Rightarrow> nat list \<Rightarrow> discovered_devs \<Rightarrow> 'd libusb_context \<Rightarrow>
     discovered_devs option \<times> 'd libusb_context" where
  "append_devices ops [] discdevs s = (Some discdevs, s)"
| "append_devices ops (dev # devs) discdevs s =
    (case discovered_devs_append ops discdevs dev s of
       (None, s) \<Rightarrow> (None, s)
     | (Some discdevs, s) \<Rightarrow> append_devices ops devs discdevs s)"

text \<open>What is discovered: the result, the collection unless it was freed, and the state.\<close>

definition discover_devices ::
  "'d usbi_os_backend \<Rightarrow> discovered_devs \<Rightarrow> 'd libusb_context \<Rightarrow> (int \<times> discovered_devs option) \<times> 'd libusb_context" where
  "discover_devices ops discdevs s =
    (case os_get_device_list ops of
       None \<Rightarrow>
         (let s = (case os_hotplug_poll ops of None \<Rightarrow> s | Some poll \<Rightarrow> poll s) in
          case append_devices ops (usb_devs s) discdevs s of
            (None, s) \<Rightarrow> ((LIBUSB_ERROR_NO_MEM, None), s)
          | (Some discdevs, s) \<Rightarrow> ((0, Some discdevs), s))
     | Some get_device_list \<Rightarrow> get_device_list discdevs s)"

text \<open>The list a client gets is its block and the devices before the null pointer that ends it.\<close>

definition libusb_get_device_list ::
  "'d usbi_os_backend \<Rightarrow> 'd libusb_context \<Rightarrow> (int \<times> (nat \<times> nat list) option) \<times> 'd libusb_context" where
  "libusb_get_device_list ops s =
    (case discovered_devs_alloc s of
       (None, s) \<Rightarrow> ((LIBUSB_ERROR_NO_MEM, None), s)
     | (Some discdevs, s) \<Rightarrow>
        (case discover_devices ops discdevs s of
           ((r, p), s) \<Rightarrow>
            if r < 0 then ((r, None), case p of None \<Rightarrow> s | Some discdevs \<Rightarrow> discovered_devs_free ops discdevs s)
            else case p of
              None \<Rightarrow> ((0, None), fault s)
            | Some discdevs \<Rightarrow>
               (case alloc s of
                  (None, s) \<Rightarrow> ((LIBUSB_ERROR_NO_MEM, None), discovered_devs_free ops discdevs s)
                | (Some ret, s) \<Rightarrow>
                   ((int (length (dd_devices discdevs)), Some (ret, dd_devices discdevs)),
                    discovered_devs_free ops discdevs (fold libusb_ref_device (dd_devices discdevs) s)))))"

definition libusb_free_device_list ::
  "'d usbi_os_backend \<Rightarrow> (nat \<times> nat list) option \<Rightarrow> bool \<Rightarrow> 'd libusb_context \<Rightarrow> 'd libusb_context" where
  "libusb_free_device_list ops list unref_devices s =
    (case list of
       None \<Rightarrow> s
     | Some (b, devs) \<Rightarrow>
         release b (if unref_devices then fold (\<lambda>dev. libusb_unref_device ops (Some dev)) devs s else s))"

definition usbi_get_device_by_session_id :: "u64 \<Rightarrow> 'd libusb_context \<Rightarrow> nat option \<times> 'd libusb_context" where
  "usbi_get_device_by_session_id session_id s =
    (case filter (\<lambda>b. map_option d_session_data (find_device s b) = Some session_id) (usb_devs s) of
       [] \<Rightarrow> (None, s)
     | dev # devs \<Rightarrow> (Some dev, libusb_ref_device dev s))"

definition usbi_sanitize_device :: "'d usbi_os_backend \<Rightarrow> nat \<Rightarrow> 'd libusb_context \<Rightarrow> int \<times> 'd libusb_context" where
  "usbi_sanitize_device ops dev s =
    (case usbi_device_cache_descriptor
        \<lparr>be_get_device_descriptor = os_get_device_descriptor ops dev,
         be_get_active_config_descriptor = \<lambda>n d. ((0, [], False), d),
         be_get_config_descriptor = \<lambda>i n d. ((0, [], False), d), be_get_config_descriptor_by_value = None\<rparr>
        (replicate 18 0) (os_data s) of
       ((r, desc), os) \<Rightarrow>
        (let s = update_device dev (\<lambda>d. d\<lparr>d_device_descriptor := desc\<rparr>) (s\<lparr>os_data := os\<rparr>);
             num_configurations = dev_bNumConfigurations desc in
         if r < 0 then (r, s)
         else if uint num_configurations > USB_MAXCONFIG then (LIBUSB_ERROR_IO, s)
         else (0, update_device dev (\<lambda>d. d\<lparr>d_num_configurations := num_configurations\<rparr>) s)))"

section \<open>Port numbers\<close>

text \<open>
  The loop fills the array from its end, up to the root: \<open>Inl\<close> is the error, with what was written before it.
\<close>

datatype port_result = PortOverflow "byte list" | PortsFilled nat "byte list" | PortFault

primrec port_loop :: "'d libusb_context \<Rightarrow> nat \<Rightarrow> nat option \<Rightarrow> byte list \<Rightarrow> port_result" where
  "port_loop s 0 dev port_numbers =
    (case dev of
       None \<Rightarrow> PortsFilled 0 port_numbers
     | Some b \<Rightarrow>
        (case find_device s b of
           None \<Rightarrow> PortFault
         | Some d \<Rightarrow> if d_port_number d = 0 then PortsFilled 0 port_numbers else PortOverflow port_numbers))"
| "port_loop s (Suc i) dev port_numbers =
    (case dev of
       None \<Rightarrow> PortsFilled (Suc i) port_numbers
     | Some b \<Rightarrow>
        (case find_device s b of
           None \<Rightarrow> PortFault
         | Some d \<Rightarrow>
             if d_port_number d = 0 then PortsFilled (Suc i) port_numbers
             else port_loop s i (d_parent_dev d) (port_numbers[i := d_port_number d])))"

definition libusb_get_port_numbers ::
  "'d libusb_context \<Rightarrow> nat \<Rightarrow> byte list \<Rightarrow> int \<Rightarrow> (int \<times> byte list) option" where
  "libusb_get_port_numbers s dev port_numbers port_numbers_len =
    (if port_numbers_len \<le> 0 then Some (LIBUSB_ERROR_INVALID_PARAM, port_numbers)
     else let len = nat port_numbers_len in
       (case port_loop s len (Some dev) port_numbers of
          PortFault \<Rightarrow> None
        | PortOverflow port_numbers \<Rightarrow> Some (LIBUSB_ERROR_OVERFLOW, port_numbers)
        | PortsFilled i port_numbers \<Rightarrow>
            Some (int (len - i), take (len - i) (drop i port_numbers) @ drop (len - i) port_numbers)))"

section \<open>Handles\<close>

definition find_handle :: "'d libusb_context \<Rightarrow> nat \<Rightarrow> libusb_device_handle option" where
  "find_handle s hb = map_of (open_devs s) hb"

definition libusb_open ::
  "'d usbi_os_backend \<Rightarrow> bool \<Rightarrow> nat \<Rightarrow> 'd libusb_context \<Rightarrow> (int \<times> nat option) \<times> 'd libusb_context" where
  "libusb_open ops mutex_ok dev s =
    (case find_device s dev of
       None \<Rightarrow> ((0, None), fault s)
     | Some d \<Rightarrow>
        if \<not> d_attached d then ((LIBUSB_ERROR_NO_DEVICE, None), s)
        else case alloc s of
          (None, s) \<Rightarrow> ((LIBUSB_ERROR_NO_MEM, None), s)
        | (Some hb, s) \<Rightarrow>
           if \<not> mutex_ok then ((LIBUSB_ERROR_OTHER, None), release hb s)
           else
             let s = libusb_ref_device dev s in
             (case os_open ops hb (os_data s) of
                (r, os) \<Rightarrow>
                 (let s = s\<lparr>os_data := os\<rparr> in
                  if r < 0 then ((r, None), release hb (libusb_unref_device ops (Some dev) s))
                  else ((0, Some hb),
                    s\<lparr>open_devs := (hb, \<lparr>h_dev = dev, h_claimed_interfaces = 0, h_auto_detach_kernel_driver = 0\<rparr>)
                       # open_devs s\<rparr>))))"

text \<open>The last part of \<^verbatim>\<open>do_close\<close>, after the transfers of the handle are taken off the list.\<close>

definition do_close :: "'d usbi_os_backend \<Rightarrow> nat \<Rightarrow> 'd libusb_context \<Rightarrow> 'd libusb_context" where
  "do_close ops hb s =
    (case find_handle s hb of
       None \<Rightarrow> fault s
     | Some hdl \<Rightarrow>
        (let s = s\<lparr>open_devs := filter (\<lambda>(x, e). x \<noteq> hb) (open_devs s), os_data := os_close ops hb (os_data s)\<rparr>
         in release hb (libusb_unref_device ops (Some (h_dev hdl)) s)))"

text \<open>\<open>handling_events\<close>: the caller is the thread that handles events, and holds its lock.\<close>

definition libusb_close ::
  "'d usbi_os_backend \<Rightarrow> bool \<Rightarrow> nat option \<Rightarrow> 'd libusb_context \<Rightarrow> 'd libusb_context option" where
  "libusb_close ops handling_events dev_handle s =
    (case dev_handle of
       None \<Rightarrow> Some s
     | Some hb \<Rightarrow>
        if handling_events then Some (do_close ops hb s)
        else close_end (do_close ops hb (close_begin (os_pipe ops) s)))"

text \<open>
  Claiming: a bit of the 64-bit \<^verbatim>\<open>claimed_interfaces\<close> per interface.  A negative number passes the check; the
  shift of \<^verbatim>\<open>1U\<close> by it is undefined, \<open>None\<close>.
\<close>

definition interface_bit :: "int \<Rightarrow> u32 option" where
  "interface_bit interface_number =
     (if 0 \<le> interface_number \<and> interface_number < 32
      then Some (push_bit (nat interface_number) 1) else None)"

definition put_handle :: "nat \<Rightarrow> libusb_device_handle \<Rightarrow> 'd libusb_context \<Rightarrow> 'd libusb_context" where
  "put_handle hb hdl s = s\<lparr>open_devs := map (\<lambda>(x, e). (x, if x = hb then hdl else e)) (open_devs s)\<rparr>"

definition libusb_claim_interface ::
  "'d usbi_os_backend \<Rightarrow> nat \<Rightarrow> int \<Rightarrow> 'd libusb_context \<Rightarrow> (int \<times> 'd libusb_context) option" where
  "libusb_claim_interface ops hb interface_number s =
    (if interface_number \<ge> USB_MAXINTERFACES then Some (LIBUSB_ERROR_INVALID_PARAM, s)
     else case find_handle s hb of
       None \<Rightarrow> None
     | Some hdl \<Rightarrow>
        (case find_device s (h_dev hdl) of
           None \<Rightarrow> None
         | Some d \<Rightarrow>
            if \<not> d_attached d then Some (LIBUSB_ERROR_NO_DEVICE, s)
            else case interface_bit interface_number of
              None \<Rightarrow> None
            | Some claim \<Rightarrow>
               if h_claimed_interfaces hdl AND ucast claim \<noteq> 0 then Some (0, s)
               else (case os_claim_interface ops hb interface_number (os_data s) of
                  (r, os) \<Rightarrow>
                    Some (r, (if r = 0
                       then put_handle hb (hdl\<lparr>h_claimed_interfaces := h_claimed_interfaces hdl OR ucast claim\<rparr>)
                       else id) (s\<lparr>os_data := os\<rparr>)))))"

definition libusb_release_interface ::
  "'d usbi_os_backend \<Rightarrow> nat \<Rightarrow> int \<Rightarrow> 'd libusb_context \<Rightarrow> (int \<times> 'd libusb_context) option" where
  "libusb_release_interface ops hb interface_number s =
    (if interface_number \<ge> USB_MAXINTERFACES then Some (LIBUSB_ERROR_INVALID_PARAM, s)
     else case find_handle s hb of
       None \<Rightarrow> None
     | Some hdl \<Rightarrow>
        (case interface_bit interface_number of
           None \<Rightarrow> None
         | Some claim \<Rightarrow>
            if h_claimed_interfaces hdl AND ucast claim = 0 then Some (LIBUSB_ERROR_NOT_FOUND, s)
            else (case os_release_interface ops hb interface_number (os_data s) of
               (r, os) \<Rightarrow>
                 Some (r, (if r = 0
                    then put_handle hb (hdl\<lparr>h_claimed_interfaces := h_claimed_interfaces hdl AND ucast (NOT claim)\<rparr>)
                    else id) (s\<lparr>os_data := os\<rparr>)))))"

definition libusb_set_interface_alt_setting ::
  "'d usbi_os_backend \<Rightarrow> nat \<Rightarrow> int \<Rightarrow> int \<Rightarrow> 'd libusb_context \<Rightarrow> (int \<times> 'd libusb_context) option" where
  "libusb_set_interface_alt_setting ops hb interface_number alternate_setting s =
    (if interface_number \<ge> USB_MAXINTERFACES then Some (LIBUSB_ERROR_INVALID_PARAM, s)
     else case find_handle s hb of
       None \<Rightarrow> None
     | Some hdl \<Rightarrow>
        (case find_device s (h_dev hdl) of
           None \<Rightarrow> None
         | Some d \<Rightarrow>
            if \<not> d_attached d then Some (LIBUSB_ERROR_NO_DEVICE, s)
            else case interface_bit interface_number of
              None \<Rightarrow> None
            | Some claim \<Rightarrow>
               if h_claimed_interfaces hdl AND ucast claim = 0 then Some (LIBUSB_ERROR_NOT_FOUND, s)
               else (case os_set_interface_altsetting ops hb interface_number alternate_setting (os_data s) of
                  (r, os) \<Rightarrow> Some (r, s\<lparr>os_data := os\<rparr>))))"

section \<open>Finding a device by its identity\<close>

definition find_vid_pid :: "'d libusb_context \<Rightarrow> u16 \<Rightarrow> u16 \<Rightarrow> nat list \<Rightarrow> nat option" where
  "find_vid_pid s vendor_id product_id devs =
    (case filter (\<lambda>b. case find_device s b of None \<Rightarrow> False
         | Some d \<Rightarrow> dev_idVendor (d_device_descriptor d) = vendor_id \<and>
             dev_idProduct (d_device_descriptor d) = product_id) devs of
       [] \<Rightarrow> None
     | dev # ds \<Rightarrow> Some dev)"

definition libusb_open_device_with_vid_pid ::
  "'d usbi_os_backend \<Rightarrow> bool \<Rightarrow> u16 \<Rightarrow> u16 \<Rightarrow> 'd libusb_context \<Rightarrow> nat option \<times> 'd libusb_context" where
  "libusb_open_device_with_vid_pid ops mutex_ok vendor_id product_id s =
    (case libusb_get_device_list ops s of
       ((r, list), s) \<Rightarrow>
        if r < 0 then (None, s)
        else (case find_vid_pid s vendor_id product_id (case list of None \<Rightarrow> [] | Some (b, devs) \<Rightarrow> devs) of
            None \<Rightarrow> (None, libusb_free_device_list ops list True s)
          | Some found \<Rightarrow>
             (case libusb_open ops mutex_ok found s of
                ((r, dev_handle), s) \<Rightarrow>
                  (if r < 0 then None else dev_handle, libusb_free_device_list ops list True s))))"

end
