(* ===== verification/Usb_Refcount.thy ===== *)
theory Usb_Refcount
  imports Usb_Devices
begin

text \<open>
  Reference counting.  The invariant says that the count of a device is the number of the references that are
  held: those of a multiset \<open>R\<close>, and those of the devices it is the parent of.  A reference can be
  duplicated and dropped; the last one destroys the device, and no device is used after that.
\<close>

section \<open>The contract\<close>

locale refcounted =
  fixes inv :: "nat multiset \<Rightarrow> 's \<Rightarrow> bool" and get :: "nat \<Rightarrow> 's \<Rightarrow> 's" and put :: "nat \<Rightarrow> 's \<Rightarrow> 's"
  assumes get_inv: "inv R s \<Longrightarrow> b \<in># R \<Longrightarrow> inv (add_mset b R) (get b s)"
    and put_inv: "inv (add_mset b R) s \<Longrightarrow> inv R (put b s)"
begin

lemma get_all: "inv R s \<Longrightarrow> set bs \<subseteq> set_mset R \<Longrightarrow> inv (mset bs + R) (fold get bs s)"
proof (induction bs arbitrary: R s)
  case (Cons b bs)
  then have "inv (add_mset b R) (get b s)" by (simp add: get_inv)
  from Cons.IH [OF this] Cons.prems(2) show ?case by auto
qed simp

lemma put_all: "inv (mset bs + R) s \<Longrightarrow> inv R (fold put bs s)"
  by (induction bs arbitrary: s) (auto simp: put_inv)

lemma get_put: "inv R s \<Longrightarrow> b \<in># R \<Longrightarrow> inv R (put b (get b s))"
  by (simp add: get_inv put_inv)

end

section \<open>Counts\<close>

text \<open>A device whose count is zero is being destroyed and has given up its parent.\<close>

definition parent_refs :: "nat \<times> libusb_device \<Rightarrow> nat list" where
  "parent_refs xd = (if d_refcnt (snd xd) = 0 then [] else opt_list (d_parent_dev (snd xd)))"

definition parents :: "(nat \<times> libusb_device) list \<Rightarrow> nat multiset" where
  "parents ds = mset (concat (map parent_refs ds))"

definition dying :: "(nat \<times> libusb_device) list \<Rightarrow> nat set" where
  "dying ds = {b. \<exists>d. (b, d) \<in> set ds \<and> d_refcnt d = 0}"

definition counts_ok :: "nat multiset \<Rightarrow> (nat \<times> libusb_device) list \<Rightarrow> bool" where
  "counts_ok R ds \<longleftrightarrow> distinct (map fst ds) \<and> (\<forall>(b, d) \<in> set ds. d_refcnt d = int (count (R + parents ds) b)) \<and>
     set_mset (R + parents ds) \<subseteq> fst ` set ds"

lemma counts_find:
  assumes "counts_ok R ds" and "b \<in># R"
  obtains d where "map_of ds b = Some d" "d_refcnt d = int (count (R + parents ds) b)" "0 < d_refcnt d"
proof -
  obtain d where d: "(b, d) \<in> set ds" using assms by (auto simp: counts_ok_def)
  then have "map_of ds b = Some d" using assms(1) by (simp add: counts_ok_def)
  moreover have c: "d_refcnt d = int (count (R + parents ds) b)" using assms(1) d by (auto simp: counts_ok_def)
  moreover have "0 < d_refcnt d" unfolding c using assms(2) by (simp add: count_greater_zero_iff [symmetric] del: count_greater_zero_iff)
  ultimately show ?thesis by (rule that)
qed

lemma put_device_simps [simp]:
  "map fst (put_device b d ds) = map fst ds" "fst ` set (put_device b d ds) = fst ` set ds"
  by (force simp: put_device_def image_iff)+

lemma set_put_device: "set (put_device b d ds) = (\<lambda>(x, e). (x, if x = b then d else e)) ` set ds"
  by (simp add: put_device_def)

lemma put_device_absent: "b \<notin> fst ` set ds \<Longrightarrow> put_device b d ds = ds"
  by (induction ds) (auto simp: put_device_def)

lemma parents_put:
  assumes "distinct (map fst ds)" and "map_of ds b = Some d"
  shows "parents (put_device b e ds) + mset (parent_refs (b, d)) = parents ds + mset (parent_refs (b, e))"
  using assms
proof (induction ds)
  case (Cons xd ds)
  obtain x d' where xd: "xd = (x, d')" by fastforce
  show ?case
  proof (cases "x = b")
    case True
    then have "put_device b e ds = ds" using Cons.prems(1) xd by (intro put_device_absent) auto
    moreover have "put_device b e (xd # ds) = (b, e) # put_device b e ds" using True xd by (simp add: put_device_def)
    ultimately show ?thesis using True xd Cons.prems(2) by (simp add: parents_def)
  next
    case False
    then have "put_device b e (xd # ds) = xd # put_device b e ds" using xd by (simp add: put_device_def)
    then show ?thesis using Cons False xd by (simp add: parents_def add.assoc)
  qed
qed simp

lemma counts_put:
  assumes ok: "counts_ok R ds" and d: "map_of ds b = Some d"
    and c: "\<And>x. int (count (R' + parents (put_device b e ds)) x) = int (count (R + parents ds) x) + (if x = b then k else 0)"
    and e: "d_refcnt e = d_refcnt d + k"
  shows "counts_ok R' (put_device b e ds)"
proof -
  have "d_refcnt (if x = b then e else y) = int (count (R' + parents (put_device b e ds)) x)" if "(x, y) \<in> set ds" for x y
  proof -
    have "d_refcnt y = int (count (R + parents ds) x)" using ok that by (auto simp: counts_ok_def)
    moreover have "y = d" if "x = b" using d ok \<open>(x, y) \<in> set ds\<close> that by (auto simp: counts_ok_def)
    ultimately show ?thesis using e unfolding c by auto
  qed
  then have "\<forall>(x, y) \<in> set (put_device b e ds). d_refcnt y = int (count (R' + parents (put_device b e ds)) x)"
    by (auto simp: set_put_device)
  moreover have "set_mset (R' + parents (put_device b e ds)) \<subseteq> fst ` set ds"
  proof
    fix x assume "x \<in># R' + parents (put_device b e ds)"
    then have "0 < count (R' + parents (put_device b e ds)) x" by (simp only: count_greater_zero_iff)
    then have "x = b \<or> 0 < count (R + parents ds) x" using c [of x]
      by (cases "x = b") (simp_all only: if_False add_0_right of_nat_eq_iff simp_thms)
    then have "x = b \<or> x \<in># R + parents ds" by (simp only: count_greater_zero_iff)
    moreover have "b \<in> fst ` set ds" using map_of_SomeD [OF d] by (rule rev_image_eqI) simp
    ultimately show "x \<in> fst ` set ds" using ok unfolding counts_ok_def by blast
  qed
  ultimately show ?thesis using ok unfolding counts_ok_def put_device_simps by blast
qed

lemma dying_put:
  assumes "distinct (map fst ds)" and "map_of ds b = Some d" and "d_refcnt d \<noteq> 0"
  shows "dying (put_device b e ds) = (if d_refcnt e = 0 then insert b (dying ds) else dying ds)"
proof -
  have mem: "x \<in> dying (put_device b e ds) \<longleftrightarrow> (\<exists>y. (x, y) \<in> set ds \<and> d_refcnt (if x = b then e else y) = 0)" for x
    by (auto simp: dying_def set_put_device)
  have "(b, y) \<in> set ds \<longleftrightarrow> y = d" for y
    using assms(1,2) by (metis map_of_eq_Some_iff option.inject)
  then have "b \<notin> dying ds" "b \<in> dying (put_device b e ds) \<longleftrightarrow> d_refcnt e = 0"
    using assms(3) unfolding mem by (auto simp: dying_def)
  moreover have "x \<in> dying (put_device b e ds) \<longleftrightarrow> x \<in> dying ds" if "x \<noteq> b" for x
    using that unfolding mem by (simp add: dying_def)
  ultimately show ?thesis by (intro set_eqI) (metis insert_iff)
qed

lemma parents_filter:
  assumes "\<And>d. (b, d) \<in> set ds \<Longrightarrow> d_refcnt d = 0"
  shows "parents (filter (\<lambda>(x, d). x \<noteq> b) ds) = parents ds"
  using assms by (induction ds) (auto simp: parents_def parent_refs_def)

lemma counts_remove:
  assumes ok: "counts_ok R ds" and "b \<in> dying ds"
  shows "counts_ok R (filter (\<lambda>(x, d). x \<noteq> b) ds)" and "dying (filter (\<lambda>(x, d). x \<noteq> b) ds) = dying ds - {b}"
proof -
  obtain d0 where d0: "(b, d0) \<in> set ds" "d_refcnt d0 = 0" using assms(2) by (auto simp: dying_def)
  have z: "d_refcnt d = 0" if "(b, d) \<in> set ds" for d
    using eq_key_imp_eq_value [OF _ that d0(1)] ok d0(2) by (auto simp: counts_ok_def)
  have p: "parents (filter (\<lambda>(x, d). x \<noteq> b) ds) = parents ds" using z by (rule parents_filter)
  from d0 have "count (R + parents ds) b = 0" using ok z by (auto simp: counts_ok_def)
  then have nb: "b \<notin># R + parents ds" by (simp add: not_in_iff)
  have "set_mset (R + parents ds) \<subseteq> fst ` set (filter (\<lambda>(x, d). x \<noteq> b) ds)"
  proof (rule subsetI)
    fix x assume x: "x \<in># R + parents ds"
    then have "x \<in> fst ` set ds" using ok unfolding counts_ok_def by blast
    then obtain y where "(x, y) \<in> set ds" by auto
    moreover have "x \<noteq> b" using x nb by blast
    ultimately show "x \<in> fst ` set (filter (\<lambda>(x, d). x \<noteq> b) ds)" by (intro image_eqI [of _ _ "(x, y)"]) simp_all
  qed
  then show "counts_ok R (filter (\<lambda>(x, d). x \<noteq> b) ds)"
    using ok unfolding counts_ok_def p by (simp add: distinct_map_filter)
  show "dying (filter (\<lambda>(x, d). x \<noteq> b) ds) = dying ds - {b}" by (auto simp: dying_def)
qed

section \<open>The invariant of a context\<close>

text \<open>
  \<open>devices_ok ops L rest R s\<close>: the counts are right for the references \<open>R\<close>; beside the blocks \<open>L\<close> exactly the
  devices and the blocks \<open>rest\<close> are allocated.  \<open>devices_inv\<close> adds that no device is being destroyed.
\<close>

definition devices_ok ::
  "'d usbi_os_backend \<Rightarrow> nat set \<Rightarrow> nat list \<Rightarrow> nat multiset \<Rightarrow> 'd libusb_context \<Rightarrow> bool" where
  "devices_ok ops L rest R s \<longleftrightarrow> counts_ok R (us_devices s) \<and>
     owned (map fst (us_devices s) @ rest) (us_heap s) L \<and> distinct (usb_devs s) \<and>
     (\<not> has_hotplug ops \<longrightarrow> set (usb_devs s) = fst ` set (us_devices s))"

definition devices_inv ::
  "'d usbi_os_backend \<Rightarrow> nat set \<Rightarrow> nat list \<Rightarrow> nat multiset \<Rightarrow> 'd libusb_context \<Rightarrow> bool" where
  "devices_inv ops L rest R s \<longleftrightarrow> devices_ok ops L rest R s \<and> dying (us_devices s) = {}"

text \<open>The parents of the devices.\<close>

definition edges :: "(nat \<times> libusb_device) list \<Rightarrow> (nat \<times> nat) set" where
  "edges ds = {(b, p). \<exists>d. (b, d) \<in> set ds \<and> d_parent_dev d = Some p}"

lemma edges_put:
  assumes "map_of ds b = Some d" and "d_parent_dev e = d_parent_dev d"
  shows "edges (put_device b e ds) \<subseteq> edges ds"
  using map_of_SomeD [OF assms(1)] assms(2) by (auto simp: edges_def set_put_device split: if_splits)

text \<open>
  What references leave alone: with hotplug support even the list of connected devices.  Devices may go, but keep
  their parents.
\<close>

definition frame :: "'d usbi_os_backend \<Rightarrow> 'd libusb_context \<Rightarrow> 'd libusb_context \<Rightarrow> bool" where
  "frame ops s s' \<longleftrightarrow> (\<exists>h ds u os. s' = s\<lparr>us_heap := h, us_devices := ds, usb_devs := u, os_data := os\<rparr> \<and>
     edges ds \<subseteq> edges (us_devices s) \<and> (has_hotplug ops \<longrightarrow> u = usb_devs s))"

lemma frameI:
  "has_hotplug ops \<longrightarrow> u = usb_devs s \<Longrightarrow> edges ds \<subseteq> edges (us_devices s) \<Longrightarrow>
     frame ops s (s\<lparr>us_heap := h, us_devices := ds, usb_devs := u, os_data := os\<rparr>)"
  by (auto simp: frame_def)

lemma frame_refl [simp]: "frame ops s s"
  unfolding frame_def by (intro exI [of _ "us_heap s"] exI [of _ "us_devices s"] exI [of _ "usb_devs s"]
      exI [of _ "os_data s"]) simp

lemma frame_trans:
  assumes "frame ops s s'" and "frame ops s' s''"
  shows "frame ops s s''"
proof -
  obtain h ds u os where "s' = s\<lparr>us_heap := h, us_devices := ds, usb_devs := u, os_data := os\<rparr>"
    "edges ds \<subseteq> edges (us_devices s)" "has_hotplug ops \<longrightarrow> u = usb_devs s"
    using assms(1) by (auto simp: frame_def)
  moreover obtain h' ds' u' os' where
    "s'' = s'\<lparr>us_heap := h', us_devices := ds', usb_devs := u', os_data := os'\<rparr>"
    "edges ds' \<subseteq> edges (us_devices s')" "has_hotplug ops \<longrightarrow> u' = usb_devs s'"
    using assms(2) by (auto simp: frame_def)
  ultimately show ?thesis
    using frameI [where ops = ops and u = u' and s = s and h = h' and ds = ds' and os = os'] by auto
qed

lemma frame_heap: "frame ops s (s\<lparr>us_heap := h\<rparr>)"
  using frameI [where ops = ops and s = s and h = h and u = "usb_devs s" and ds = "us_devices s" and os = "os_data s"]
  by simp

lemma frame_devices: "edges ds \<subseteq> edges (us_devices s) \<Longrightarrow> frame ops s (s\<lparr>us_devices := ds\<rparr>)"
  using frameI [where ops = ops and s = s and h = "us_heap s" and u = "usb_devs s" and ds = ds and os = "os_data s"]
  by simp

lemma frame_os: "frame ops s (s\<lparr>os_data := os\<rparr>)"
  using frameI [where ops = ops and s = s and h = "us_heap s" and u = "usb_devs s" and ds = "us_devices s" and os = os]
  by simp

lemma ref_device:
  assumes "devices_ok ops L rest R s" and "b \<in># R"
  shows "devices_ok ops L rest (add_mset b R) (libusb_ref_device b s)"
    and "dying (us_devices (libusb_ref_device b s)) = dying (us_devices s)"
    and "frame ops s (libusb_ref_device b s)"
proof -
  have ok: "counts_ok R (us_devices s)" using assms(1) by (simp add: devices_ok_def)
  obtain d where d: "map_of (us_devices s) b = Some d" "d_refcnt d = int (count (R + parents (us_devices s)) b)" "0 < d_refcnt d"
    using counts_find [OF ok assms(2)] .
  let ?e = "d\<lparr>d_refcnt := d_refcnt d + 1\<rparr>"
  have eq: "libusb_ref_device b s = s\<lparr>us_devices := put_device b ?e (us_devices s)\<rparr>"
    using d(1) by (simp add: libusb_ref_device_def update_device_def find_device_def)
  have dist: "distinct (map fst (us_devices s))" using ok by (simp add: counts_ok_def)
  have par: "parents (put_device b ?e (us_devices s)) = parents (us_devices s)"
    using parents_put [OF dist d(1), of ?e] d(3) by (simp add: parent_refs_def)
  have "counts_ok (add_mset b R) (put_device b ?e (us_devices s))"
    by (rule counts_put [OF ok d(1), where k = 1]) (simp_all add: par)
  then show "devices_ok ops L rest (add_mset b R) (libusb_ref_device b s)"
    using assms(1) by (simp add: devices_ok_def eq)
  show "dying (us_devices (libusb_ref_device b s)) = dying (us_devices s)"
    using dying_put [OF dist d(1), of ?e] d(3) by (simp add: eq)
  show "frame ops s (libusb_ref_device b s)" unfolding eq by (rule frame_devices, rule edges_put [OF d(1)]) simp
qed

text \<open>Dropping a reference that is not the last one, and the count of the last one.\<close>

lemma counts_drop:
  assumes ok: "counts_ok (add_mset b R) ds" and d: "map_of ds b = Some d" and n: "d_refcnt d \<noteq> 0"
    and e: "e = d\<lparr>d_refcnt := d_refcnt d - 1\<rparr>"
  shows "counts_ok (mset (if d_refcnt e = 0 then opt_list (d_parent_dev d) else []) + R) (put_device b e ds)"
proof -
  have dist: "distinct (map fst ds)" using ok by (simp add: counts_ok_def)
  have "parents (put_device b e ds) + mset (opt_list (d_parent_dev d)) =
      parents ds + mset (if d_refcnt e = 0 then [] else opt_list (d_parent_dev d))"
    using parents_put [OF dist d, of e] n e by (simp add: parent_refs_def)
  then have "mset (if d_refcnt e = 0 then opt_list (d_parent_dev d) else []) + parents (put_device b e ds) = parents ds"
    by (simp add: add.commute split: if_splits)
  then have par: "count (mset (if d_refcnt e = 0 then opt_list (d_parent_dev d) else [])) x +
      count (parents (put_device b e ds)) x = count (parents ds) x" for x
    by (metis count_union)
  show ?thesis
    by (rule counts_put [OF ok d, where k = "-1"]) (use par e in \<open>auto simp flip: par\<close>)
qed

lemma mset_remove_entry:
  assumes "distinct (map fst ds)" and "(b, d) \<in> set ds"
  shows "mset ds = add_mset (b, d) (mset (filter (\<lambda>(x, e). x \<noteq> b) ds))"
  using assms
proof (induction ds)
  case (Cons xd ds)
  obtain x e where xd: "xd = (x, e)" by fastforce
  show ?case
  proof (cases "x = b")
    case True
    then have "b \<notin> fst ` set ds" using Cons.prems(1) xd by simp
    then have "filter (\<lambda>(x, e). x \<noteq> b) ds = ds" "(b, d) \<notin> set ds" by (force intro: filter_True)+
    then show ?thesis using Cons.prems(2) xd True by simp
  next
    case False
    then show ?thesis using Cons xd by simp
  qed
qed simp

lemma mset_remove_key:
  assumes "distinct (map fst ds)" and "b \<in> fst ` set ds"
  shows "mset (b # map fst (filter (\<lambda>(x, d). x \<noteq> b) ds)) = mset (map fst ds)"
proof -
  obtain d where "(b, d) \<in> set ds" using assms(2) by auto
  from mset_remove_entry [OF assms(1) this]
  have "image_mset fst (mset ds) = image_mset fst (add_mset (b, d) (mset (filter (\<lambda>(x, d). x \<noteq> b) ds)))"
    by (rule arg_cong)
  then show ?thesis by simp
qed

lemma destroy_device:
  assumes "devices_ok ops L rest R s" and "b \<in> dying (us_devices s)"
  shows "devices_ok ops L rest R (free_device b (if \<not> has_hotplug ops then usbi_disconnect_device ops b s else s))"
    and "dying (us_devices (free_device b (if \<not> has_hotplug ops then usbi_disconnect_device ops b s else s))) =
      dying (us_devices s) - {b}"
    and "frame ops s (free_device b (if \<not> has_hotplug ops then usbi_disconnect_device ops b s else s))"
proof -
  let ?s = "if \<not> has_hotplug ops then usbi_disconnect_device ops b s else s"
  have ok: "counts_ok R (us_devices s)" using assms(1) by (simp add: devices_ok_def)
  then have dist: "distinct (map fst (us_devices s))" by (simp add: counts_ok_def)
  obtain d where d: "map_of (us_devices s) b = Some d" "d_refcnt d = 0"
    using assms(2) dist by (auto simp: dying_def)
  have "b \<in> set (usb_devs s)" if "\<not> has_hotplug ops"
    using assms that by (force simp: devices_ok_def dying_def)
  then obtain ds where s: "?s = s\<lparr>us_devices := ds, usb_devs := if has_hotplug ops then usb_devs s else remove1 b (usb_devs s)\<rparr>"
    and ds: "filter (\<lambda>(x, d). x \<noteq> b) ds = filter (\<lambda>(x, d). x \<noteq> b) (us_devices s)"
  proof (cases "has_hotplug ops")
    case True
    then show ?thesis using that [of "us_devices s"] by simp
  next
    case False
    have "filter (\<lambda>(x, d). x \<noteq> b) (put_device b e ds) = filter (\<lambda>(x, d). x \<noteq> b) ds" for e ds
      by (induction ds) (auto simp: put_device_def)
    moreover have "usbi_disconnect_device ops b s =
        s\<lparr>us_devices := put_device b (d\<lparr>d_attached := False\<rparr>) (us_devices s), usb_devs := remove1 b (usb_devs s)\<rparr>"
      using False d(1) \<open>\<not> has_hotplug ops \<Longrightarrow> b \<in> set (usb_devs s)\<close>
      by (simp add: usbi_disconnect_device_def update_device_def find_device_def unlink_device_def Let_def)
    ultimately show ?thesis using that False by simp
  qed
  have mem: "b \<in> fst ` set (us_devices s)" using map_of_SomeD [OF d(1)] by (rule rev_image_eqI) simp
  have "mset (b # map fst (filter (\<lambda>(x, d). x \<noteq> b) (us_devices s))) = mset (map fst (us_devices s))"
    using dist mem by (rule mset_remove_key)
  then have "mset (b # map fst (filter (\<lambda>(x, d). x \<noteq> b) (us_devices s)) @ rest) = mset (map fst (us_devices s) @ rest)"
    by simp
  then have "owned (b # map fst (filter (\<lambda>(x, d). x \<noteq> b) (us_devices s)) @ rest) (us_heap s) L"
    using assms(1) owned_perm unfolding devices_ok_def by blast
  note owned_free_front [OF this]
  then show "devices_ok ops L rest R (free_device b ?s)"
    using counts_remove(1) [OF ok assms(2)] assms(1)
    unfolding s by (auto simp: devices_ok_def free_device_def ds)
  show "dying (us_devices (free_device b ?s)) = dying (us_devices s) - {b}"
    using counts_remove(2) [OF ok assms(2)] unfolding s by (simp add: free_device_def ds)
  have ed: "edges (filter (\<lambda>(x, d). x \<noteq> b) ds) \<subseteq> edges (us_devices s)" unfolding ds by (auto simp: edges_def)
  have "free_device b ?s = s\<lparr>us_heap := free (Some b) (us_heap s), us_devices := filter (\<lambda>(x, d). x \<noteq> b) ds,
      usb_devs := if has_hotplug ops then usb_devs s else remove1 b (usb_devs s), os_data := os_data s\<rparr>"
    unfolding s by (simp add: free_device_def)
  then show "frame ops s (free_device b ?s)" by (elim ssubst) (rule frameI, simp, use ed in simp)
qed

lemma devices_ok_os: "devices_ok ops L rest R (s\<lparr>os_data := os\<rparr>) = devices_ok ops L rest R s"
  by (simp add: devices_ok_def)

lemma unref_device_opt:
  "devices_ok ops L rest (mset (opt_list p) + R) s \<Longrightarrow>
     devices_ok ops L rest R (libusb_unref_device ops p s) \<and>
     dying (us_devices (libusb_unref_device ops p s)) = dying (us_devices s) \<and>
     frame ops s (libusb_unref_device ops p s)"
proof (induction ops p s arbitrary: R rule: libusb_unref_device.induct)
  case (1 ops s)
  then show ?case by (simp add: opt_list_def)
next
  case (2 ops b s)
  have pre: "devices_ok ops L rest (add_mset b R) s" using "2.prems" by (simp add: opt_list_def)
  then have ok: "counts_ok (add_mset b R) (us_devices s)" by (simp add: devices_ok_def)
  then have dist: "distinct (map fst (us_devices s))" by (simp add: counts_ok_def)
  obtain d where d: "map_of (us_devices s) b = Some d" "0 < d_refcnt d" by (rule counts_find [OF ok]) auto
  define e where "e = d\<lparr>d_refcnt := d_refcnt d - 1\<rparr>"
  define s1 where "s1 = s\<lparr>us_devices := put_device b e (us_devices s)\<rparr>"
  have ok1: "devices_ok ops L rest (mset (if d_refcnt e = 0 then opt_list (d_parent_dev d) else []) + R) s1"
    using pre counts_drop [OF ok d(1) _ e_def] d(2) by (simp add: devices_ok_def s1_def)
  have dy1: "dying (us_devices s1) = (if d_refcnt e = 0 then insert b (dying (us_devices s)) else dying (us_devices s))"
    using dying_put [OF dist d(1)] d(2) by (simp add: s1_def)
  have f1: "frame ops s s1"
    unfolding s1_def by (rule frame_devices, rule edges_put [OF d(1)]) (simp add: e_def)
  have b: "b \<notin> dying (us_devices s)" using d map_of_is_SomeI [OF dist, of b] by (force simp: dying_def)
  show ?case
  proof (cases "d_refcnt e = 0")
    case False
    then have "libusb_unref_device ops (Some b) s = s1"
      using d(1) by (simp add: libusb_unref_device.simps(2) find_device_def Let_def s1_def e_def)
    then show ?thesis using ok1 dy1 f1 False by simp
  next
    case True
    let ?s2 = "libusb_unref_device ops (d_parent_dev d) s1"
    have ih: "devices_ok ops L rest R ?s2 \<and> dying (us_devices ?s2) = dying (us_devices s1) \<and> frame ops s1 ?s2"
      using "2.IH" [of d "d_refcnt d - 1" s1 R] d(1) True ok1 by (simp add: find_device_def s1_def e_def)
    define s3 where "s3 = (case os_destroy_device ops of None \<Rightarrow> ?s2 | Some f \<Rightarrow> ?s2\<lparr>os_data := f b (os_data ?s2)\<rparr>)"
    have s3: "devices_ok ops L rest R s3" "us_devices s3 = us_devices ?s2" "frame ops ?s2 s3"
      using ih by (auto simp: s3_def devices_ok_os frame_os split: option.splits)
    have "b \<in> dying (us_devices s3)" using s3(2) ih dy1 True by simp
    note dd = destroy_device [OF s3(1) this]
    have eq: "libusb_unref_device ops (Some b) s = free_device b (if \<not> has_hotplug ops then usbi_disconnect_device ops b s3 else s3)"
    proof -
      have one: "d_refcnt d = 1" using True by (simp add: e_def)
      then have "s\<lparr>us_devices := put_device b (d\<lparr>d_refcnt := 0\<rparr>) (us_devices s)\<rparr> = s1" by (simp add: s1_def e_def)
      then show ?thesis using d(1) one by (simp add: libusb_unref_device.simps(2) find_device_def Let_def s3_def)
    qed
    have "frame ops s s3" using f1 ih s3(3) frame_trans by blast
    then show ?thesis
      using dd frame_trans [OF _ dd(3)] b True dy1 ih s3(2) unfolding eq by simp
  qed
qed

lemma unref_device:
  assumes "devices_ok ops L rest (add_mset b R) s"
  shows "devices_ok ops L rest R (libusb_unref_device ops (Some b) s)"
    and "dying (us_devices (libusb_unref_device ops (Some b) s)) = dying (us_devices s)"
    and "frame ops s (libusb_unref_device ops (Some b) s)"
  using unref_device_opt [of ops L rest "Some b" R s] assms by (simp_all add: opt_list_def)

text \<open>The contract, for a context that differs from \<open>s0\<close> by references only.\<close>

interpretation devices: refcounted "\<lambda>R s. devices_inv ops L rest R s \<and> frame ops s0 s"
    libusb_ref_device "\<lambda>b. libusb_unref_device ops (Some b)" for ops L rest s0
proof
  fix R s b
  assume "devices_inv ops L rest R s \<and> frame ops s0 s" and b: "b \<in># R"
  then show "devices_inv ops L rest (add_mset b R) (libusb_ref_device b s) \<and> frame ops s0 (libusb_ref_device b s)"
    using ref_device [OF _ b] frame_trans unfolding devices_inv_def by metis
next
  fix R s b
  assume "devices_inv ops L rest (add_mset b R) s \<and> frame ops s0 s"
  then show "devices_inv ops L rest R (libusb_unref_device ops (Some b) s) \<and>
      frame ops s0 (libusb_unref_device ops (Some b) s)"
    using unref_device frame_trans unfolding devices_inv_def by metis
qed

end
