(* ===== verification/Usb_Handles.thy ===== *)
theory Usb_Handles
  imports Usb_Refcount
begin

text \<open>
  Lists of devices and open handles: a list is a block and a reference to each of its devices, a handle a block
  and a reference to its device.  Getting and freeing a list, opening and closing a device keep the
  invariant of \<^verbatim>\<open>Usb_Refcount\<close>, on every error path too.
\<close>

section \<open>Lists of devices\<close>

text \<open>The references of a collection or of a client's list are part of the multiset, its block of the others.\<close>

lemma owned_insert_rest:
  assumes "owned (opt_list p @ map fst ds @ rest) h L"
  shows "owned (map fst ds @ opt_list p @ rest) h L"
  by (rule owned_perm [OF assms]) simp

lemma frameD:
  assumes "frame ops s s'"
  shows "open_devs s' = open_devs s" "hotplug_cbs s' = hotplug_cbs s" "hotplug_msgs s' = hotplug_msgs s"
    "hotplug_ready s' = hotplug_ready s" "next_hotplug_cb_handle s' = next_hotplug_cb_handle s"
    "has_hotplug ops \<Longrightarrow> usb_devs s' = usb_devs s" "edges (us_devices s') \<subseteq> edges (us_devices s)"
    "events.truncate s' = events.truncate s"
  using assms by (auto simp: frame_def events.truncate_def)

lemma alloc_inv:
  assumes "alloc s = (p, s')" and "devices_inv ops L rest R s"
  shows "devices_inv ops L (opt_list p @ rest) R s'" and "frame ops s s'"
proof -
  obtain h where m: "malloc (us_heap s) = (p, h)" "s' = s\<lparr>us_heap := h\<rparr>"
    using assms(1) by (auto simp: alloc_def split: prod.splits)
  then show "devices_inv ops L (opt_list p @ rest) R s'"
    using owned_insert_rest [of p "us_devices s" rest h L] owned_malloc [OF m(1)] assms(2) by (simp add: devices_inv_def devices_ok_def)
  show "frame ops s s'" using m(2) frame_heap by simp
qed

lemma release_inv:
  assumes "devices_inv ops L (b # rest) R s"
  shows "devices_inv ops L rest R (release b s)" and "frame ops s (release b s)"
proof -
  have "owned (map fst (us_devices s) @ b # rest) (us_heap s) L"
    using assms by (simp add: devices_inv_def devices_ok_def)
  then have "owned (b # map fst (us_devices s) @ rest) (us_heap s) L" by (rule owned_perm) simp
  from owned_free_front [OF this] show "devices_inv ops L rest R (release b s)"
    using assms by (simp add: devices_inv_def devices_ok_def release_def)
  show "frame ops s (release b s)" by (simp add: release_def frame_heap)
qed

lemma devices_perm:
  assumes "devices_inv ops L rest R s" and "mset rest' = mset rest"
  shows "devices_inv ops L rest' R s"
proof -
  have "mset (map fst (us_devices s) @ rest') = mset (map fst (us_devices s) @ rest)" using assms(2) by simp
  then show ?thesis using assms(1) owned_perm unfolding devices_inv_def devices_ok_def by blast
qed

lemma free_devs_inv:
  assumes "devices_inv ops L (dd_block dd # rest) (mset (dd_devices dd) + R) s"
  shows "devices_inv ops L rest R (discovered_devs_free ops dd s)" and "frame ops s (discovered_devs_free ops dd s)"
proof -
  have p: "devices_inv ops L (dd_block dd # rest) R (fold (\<lambda>dev. libusb_unref_device ops (Some dev)) (dd_devices dd) s) \<and>
      frame ops s (fold (\<lambda>dev. libusb_unref_device ops (Some dev)) (dd_devices dd) s)"
    by (rule devices.put_all) (use assms in simp)
  then show "devices_inv ops L rest R (discovered_devs_free ops dd s)" "frame ops s (discovered_devs_free ops dd s)"
    using release_inv frame_trans unfolding discovered_devs_free_def by blast+
qed

lemma append_inv:
  assumes "devices_inv ops L (dd_block dd # rest) (mset (dd_devices dd) + R) s" and "b \<in># R"
    and "discovered_devs_append ops dd b s = (p, s')"
  shows "frame ops s s' \<and> (case p of None \<Rightarrow> devices_inv ops L rest R s'
    | Some dd' \<Rightarrow> dd_devices dd' = dd_devices dd @ [b] \<and>
        devices_inv ops L (dd_block dd' # rest) (mset (dd_devices dd') + R) s')"
proof -
  have ref: "devices_inv ops L rest' (mset (dd_devices dd @ [b]) + R) (libusb_ref_device b t) \<and>
      frame ops t (libusb_ref_device b t)"
    if "devices_inv ops L rest' (mset (dd_devices dd) + R) t" for rest' t
    using devices.get_inv [of ops L rest' "mset (dd_devices dd) + R" t t b] that assms(2) by simp
  show ?thesis
  proof (cases "length (dd_devices dd) < dd_capacity dd")
    case True
    then show ?thesis using assms(3) ref [OF assms(1)] by (auto simp: discovered_devs_append_def)
  next
    case False
    obtain q h where r: "realloc (Some (dd_block dd)) (us_heap s) = (q, h)" by fastforce
    have "owned (map fst (us_devices s) @ dd_block dd # rest) (us_heap s) L"
      using assms(1) by (simp add: devices_inv_def devices_ok_def)
    then have "owned (opt_list (Some (dd_block dd)) @ map fst (us_devices s) @ rest) (us_heap s) L"
      by (rule owned_perm) (simp add: opt_list_def)
    from owned_insert_rest [OF owned_realloc [OF r this]]
    have i: "devices_inv ops L ((case q of None \<Rightarrow> dd_block dd | Some b' \<Rightarrow> b') # rest) (mset (dd_devices dd) + R)
        (s\<lparr>us_heap := h\<rparr>)"
      using assms(1) by (auto simp: devices_inv_def devices_ok_def opt_list_def split: option.splits)
    show ?thesis
    proof (cases q)
      case None
      have "devices_inv ops L (dd_block dd # rest) (mset (dd_devices dd) + R) (s\<lparr>us_heap := h\<rparr>)" using i None by simp
      note f = free_devs_inv [OF this]
      have "p = None" "s' = discovered_devs_free ops dd (s\<lparr>us_heap := h\<rparr>)"
        using assms(3) False r None by (auto simp: discovered_devs_append_def Let_def)
      then show ?thesis using f(1) frame_trans [OF frame_heap f(2)] by simp
    next
      case (Some b')
      have "devices_inv ops L (b' # rest) (mset (dd_devices dd) + R) (s\<lparr>us_heap := h\<rparr>)" using i Some by simp
      note f = ref [OF this]
      have "s' = libusb_ref_device b (s\<lparr>us_heap := h\<rparr>)"
        "p = Some \<lparr>dd_block = b', dd_capacity = dd_capacity dd + DISCOVERED_DEVICES_SIZE_STEP, dd_devices = dd_devices dd @ [b]\<rparr>"
        using assms(3) False r Some by (auto simp: discovered_devs_append_def Let_def)
      then show ?thesis using f frame_trans [OF frame_heap conjunct2 [OF f]] by simp
    qed
  qed
qed

lemma append_all_inv:
  "devices_inv ops L (dd_block dd # rest) (mset (dd_devices dd) + R) s \<Longrightarrow> set bs \<subseteq> set_mset R \<Longrightarrow>
   append_devices ops bs dd s = (p, s') \<Longrightarrow>
   frame ops s s' \<and> (case p of None \<Rightarrow> devices_inv ops L rest R s'
    | Some dd' \<Rightarrow> dd_devices dd' = dd_devices dd @ bs \<and>
        devices_inv ops L (dd_block dd' # rest) (mset (dd_devices dd') + R) s')"
proof (induction bs arbitrary: dd s)
  case (Cons b bs)
  obtain q t where a: "discovered_devs_append ops dd b s = (q, t)" by fastforce
  note i = append_inv [OF Cons.prems(1) _ a]
  show ?case
  proof (cases q)
    case None
    then show ?thesis using i Cons.prems a by auto
  next
    case (Some dd')
    then have *: "append_devices ops bs dd' t = (p, s')" "dd_devices dd' = dd_devices dd @ [b]" "frame ops s t"
      "devices_inv ops L (dd_block dd' # rest) (mset (dd_devices dd') + R) t"
      using i Cons.prems a by auto
    have "set bs \<subseteq> set_mset R" using Cons.prems(2) by simp
    from Cons.IH [OF *(4) this *(1)] *(2,3) show ?thesis
      by (auto intro: frame_trans split: option.splits)
  qed
qed auto

text \<open>No device arrives or leaves while the backend polls.\<close>

definition quiet :: "'d usbi_os_backend \<Rightarrow> bool" where
  "quiet ops \<longleftrightarrow> has_hotplug ops \<and> (case os_hotplug_poll ops of None \<Rightarrow> True | Some poll \<Rightarrow> \<forall>s. poll s = s)"

lemma get_device_list_inv:
  assumes "devices_inv ops L rest R s" and "quiet ops" and "set (usb_devs s) \<subseteq> set_mset R"
    and "libusb_get_device_list ops s = ((r, list), s')"
  shows "frame ops s s' \<and>
    (r = LIBUSB_ERROR_NO_MEM \<and> list = None \<and> devices_inv ops L rest R s' \<or>
     r = int (length (usb_devs s)) \<and>
     (\<exists>b. list = Some (b, usb_devs s) \<and> devices_inv ops L (b # rest) (mset (usb_devs s) + R) s'))"
proof -
  have hp: "os_get_device_list ops = None" using assms(2) by (simp add: quiet_def has_hotplug_def)
  obtain p s1 where a: "alloc s = (p, s1)" by fastforce
  note i1 = alloc_inv [OF a assms(1)]
  have u1: "usb_devs s1 = usb_devs s" using a by (auto simp: alloc_def split: prod.splits)
  show ?thesis
  proof (cases p)
    case None
    then have "r = LIBUSB_ERROR_NO_MEM" "list = None" "s' = s1"
      using assms(4) a by (simp_all add: libusb_get_device_list_def discovered_devs_alloc_def)
    then show ?thesis using i1 None by (simp add: opt_list_def)
  next
    case (Some b0)
    let ?dd = "\<lparr>dd_block = b0, dd_capacity = DISCOVERED_DEVICES_SIZE_STEP, dd_devices = []\<rparr>"
    obtain q s2 where ap: "append_devices ops (usb_devs s) ?dd s1 = (q, s2)" by fastforce
    have poll: "(case os_hotplug_poll ops of None \<Rightarrow> s1 | Some poll \<Rightarrow> poll s1) = s1"
      using assms(2) by (auto simp: quiet_def split: option.splits)
    have disc: "discover_devices ops ?dd s1 =
        (case q of None \<Rightarrow> ((LIBUSB_ERROR_NO_MEM, None), s2) | Some dd \<Rightarrow> ((0, Some dd), s2))"
      using ap by (simp add: discover_devices_def hp poll u1 split: option.splits)
    have "devices_inv ops L (dd_block ?dd # rest) (mset (dd_devices ?dd) + R) s1"
      using i1 Some by (simp add: opt_list_def)
    note i2 = append_all_inv [OF this assms(3) ap]
    have f2: "frame ops s s2" using i1(2) i2 frame_trans by blast
    show ?thesis
    proof (cases q)
      case None
      then have "r = LIBUSB_ERROR_NO_MEM" "list = None" "s' = s2"
        using assms(4) a Some disc by (simp_all add: libusb_get_device_list_def discovered_devs_alloc_def usb_consts)
      then show ?thesis using i2 f2 None by simp
    next
      case q: (Some dd)
      then have dd: "dd_devices dd = usb_devs s" "devices_inv ops L (dd_block dd # rest) (mset (usb_devs s) + R) s2"
        using i2 by auto
      obtain rp s3 where a3: "alloc s2 = (rp, s3)" by fastforce
      note i3 = alloc_inv [OF a3 dd(2)]
      show ?thesis
      proof (cases rp)
        case None
        then have "r = LIBUSB_ERROR_NO_MEM" "list = None" "s' = discovered_devs_free ops dd s3"
          using assms(4) a Some disc q a3 by (simp_all add: libusb_get_device_list_def discovered_devs_alloc_def)
        moreover have "devices_inv ops L (dd_block dd # rest) (mset (dd_devices dd) + R) s3"
          using i3(1) None dd(1) by (simp add: opt_list_def)
        note free_devs_inv [OF this]
        ultimately show ?thesis using f2 i3(2) frame_trans by blast
      next
        case rb: (Some rb)
        let ?s4 = "fold libusb_ref_device (dd_devices dd) s3"
        have r: "r = int (length (usb_devs s))" "list = Some (rb, usb_devs s)" "s' = discovered_devs_free ops dd ?s4"
          using assms(4) a Some disc q a3 rb dd(1) by (simp_all add: libusb_get_device_list_def discovered_devs_alloc_def)
        have "devices_inv ops L (rb # dd_block dd # rest) (mset (usb_devs s) + R) s3 \<and> frame ops s3 s3"
          using i3(1) rb by (simp add: opt_list_def)
        from devices.get_all [OF this, of "usb_devs s"]
        have i4: "devices_inv ops L (rb # dd_block dd # rest) (mset (usb_devs s) + (mset (usb_devs s) + R)) ?s4"
          and f4: "frame ops s3 ?s4" using dd(1) by auto
        have "devices_inv ops L (dd_block dd # rb # rest) (mset (dd_devices dd) + (mset (usb_devs s) + R)) ?s4"
          unfolding dd(1) by (rule devices_perm [OF i4 [unfolded dd(1)]]) simp
        note i5 = free_devs_inv [OF this]
        have "frame ops s s'" using r(3) f2 i3(2) f4 i5(2) frame_trans by metis
        then show ?thesis using r i5(1) by simp
      qed
    qed
  qed
qed

lemma free_device_list_inv:
  assumes "devices_inv ops L (b # rest) (mset devs + R) s"
  shows "devices_inv ops L rest R (libusb_free_device_list ops (Some (b, devs)) True s)"
    and "frame ops s (libusb_free_device_list ops (Some (b, devs)) True s)"
proof -
  have p: "devices_inv ops L (b # rest) R (fold (\<lambda>dev. libusb_unref_device ops (Some dev)) devs s) \<and>
      frame ops s (fold (\<lambda>dev. libusb_unref_device ops (Some dev)) devs s)"
    by (rule devices.put_all) (use assms in simp)
  then show "devices_inv ops L rest R (libusb_free_device_list ops (Some (b, devs)) True s)"
    "frame ops s (libusb_free_device_list ops (Some (b, devs)) True s)"
    using release_inv(1) frame_trans [OF _ release_inv(2)] by (auto simp: libusb_free_device_list_def)
qed

section \<open>Handles\<close>

text \<open>An open handle is a block and a reference to its device.\<close>

lemma open_inv:
  assumes "devices_inv ops L rest R s" and "dev \<in># R"
    and "libusb_open ops mutex_ok dev s = ((r, hp), s')"
  shows "case hp of
      None \<Rightarrow> r < 0 \<and> devices_inv ops L rest R s' \<and> frame ops s s'
    | Some hb \<Rightarrow> r = 0 \<and> (\<exists>t. frame ops s t \<and> devices_inv ops L (hb # rest) (add_mset dev R) t \<and>
        s' = t\<lparr>open_devs := (hb, \<lparr>h_dev = dev, h_claimed_interfaces = 0, h_auto_detach_kernel_driver = 0\<rparr>) # open_devs s\<rparr>)"
proof -
  obtain d where d: "find_device s dev = Some d"
    using assms(1,2) counts_find unfolding devices_inv_def devices_ok_def find_device_def by metis
  obtain p s1 where a: "alloc s = (p, s1)" by fastforce
  note i1 = alloc_inv [OF a assms(1)]
  show ?thesis
  proof (cases "d_attached d")
    case False
    then have "r = LIBUSB_ERROR_NO_DEVICE" "hp = None" "s' = s" using assms(3) d by (auto simp: libusb_open_def)
    then show ?thesis using assms(1) by (simp add: usb_consts)
  next
    case att: True
    show ?thesis
    proof (cases p)
      case None
      then have "r = LIBUSB_ERROR_NO_MEM" "hp = None" "s' = s1" using assms(3) d att a by (auto simp: libusb_open_def)
      then show ?thesis using i1 None by (simp add: usb_consts opt_list_def)
    next
      case (Some hb)
      have i1': "devices_inv ops L (hb # rest) R s1" using i1 Some by (simp add: opt_list_def)
      let ?s2 = "libusb_ref_device dev s1"
      have i2: "devices_inv ops L (hb # rest) (add_mset dev R) ?s2 \<and> frame ops s1 ?s2"
        using devices.get_inv [of ops L "hb # rest" R s1 s1 dev] i1' assms(2) by simp
      obtain ro os where o: "os_open ops hb (os_data ?s2) = (ro, os)" by fastforce
      let ?s3 = "?s2\<lparr>os_data := os\<rparr>"
      have i3: "devices_inv ops L (hb # rest) (add_mset dev R) ?s3" using i2 by (simp add: devices_inv_def devices_ok_os)
      have f3: "frame ops s ?s3" using i1(2) i2 frame_os frame_trans by metis
      consider (mutex) "\<not> mutex_ok" | (failed) "mutex_ok" "ro < 0" | (opened) "mutex_ok" "\<not> ro < 0" by blast
      then show ?thesis
      proof cases
        case mutex
        then have "r = LIBUSB_ERROR_OTHER" "hp = None" "s' = release hb s1"
          using assms(3) d att a Some by (auto simp: libusb_open_def)
        then show ?thesis using release_inv [OF i1'] i1(2) frame_trans by (auto simp: usb_consts)
      next
        case failed
        let ?s4 = "libusb_unref_device ops (Some dev) ?s3"
        have s': "r = ro" "hp = None" "s' = release hb ?s4"
          using assms(3) d att a Some failed o by (auto simp: libusb_open_def Let_def)
        have i4: "devices_inv ops L (hb # rest) R ?s4 \<and> frame ops ?s3 ?s4"
          using devices.put_inv [of ops L "hb # rest" dev R ?s3 ?s3] i3 by simp
        then have "frame ops s s'" using release_inv(2) f3 frame_trans s'(3) by metis
        then show ?thesis using release_inv(1) i4 failed s' by auto
      next
        case opened
        then have "r = 0" "hp = Some hb" "s' = ?s3\<lparr>open_devs :=
            (hb, \<lparr>h_dev = dev, h_claimed_interfaces = 0, h_auto_detach_kernel_driver = 0\<rparr>) # open_devs ?s3\<rparr>"
          using assms(3) d att a Some o by (auto simp: libusb_open_def Let_def)
        moreover have "open_devs ?s3 = open_devs s" using f3 by (rule frameD)
        ultimately show ?thesis using i3 f3 by (auto simp del: frame_refl)
      qed
    qed
  qed
qed

lemma close_inv:
  assumes "devices_inv ops L (hb # rest) (add_mset (h_dev hdl) R) s" and "find_handle s hb = Some hdl"
  shows "devices_inv ops L rest R (do_close ops hb s)"
    and "frame ops (s\<lparr>open_devs := filter (\<lambda>(x, e). x \<noteq> hb) (open_devs s)\<rparr>) (do_close ops hb s)"
proof -
  let ?s1 = "s\<lparr>open_devs := filter (\<lambda>(x, e). x \<noteq> hb) (open_devs s), os_data := os_close ops hb (os_data s)\<rparr>"
  have "devices_inv ops L (hb # rest) (add_mset (h_dev hdl) R) ?s1"
    using assms(1) by (simp add: devices_inv_def devices_ok_def)
  then have i: "devices_inv ops L (hb # rest) R (libusb_unref_device ops (Some (h_dev hdl)) ?s1) \<and>
      frame ops ?s1 (libusb_unref_device ops (Some (h_dev hdl)) ?s1)"
    using devices.put_inv [of ops L "hb # rest" "h_dev hdl" R ?s1 ?s1] by simp
  have eq: "do_close ops hb s = release hb (libusb_unref_device ops (Some (h_dev hdl)) ?s1)"
    using assms(2) by (simp add: do_close_def)
  note r = release_inv [OF conjunct1 [OF i]]
  show "devices_inv ops L rest R (do_close ops hb s)" unfolding eq by (rule r(1))
  have "?s1 = s\<lparr>open_devs := filter (\<lambda>(x, e). x \<noteq> hb) (open_devs s)\<rparr>\<lparr>os_data := os_close ops hb (os_data s)\<rparr>" by simp
  then have "frame ops (s\<lparr>open_devs := filter (\<lambda>(x, e). x \<noteq> hb) (open_devs s)\<rparr>) ?s1" using frame_os by metis
  from frame_trans [OF this frame_trans [OF conjunct2 [OF i] r(2)]]
  show "frame ops (s\<lparr>open_devs := filter (\<lambda>(x, e). x \<noteq> hb) (open_devs s)\<rparr>) (do_close ops hb s)" unfolding eq .
qed

end
