(* ===== verification/Usb_Hotplug.thy ===== *)
theory Usb_Hotplug
  imports Usb_Handles
begin

text \<open>
  Hotplug callbacks, \<^verbatim>\<open>hotplug.c\<close>, the part of \<^verbatim>\<open>handle_events\<close> that delivers hotplug messages, and what
  \<^verbatim>\<open>libusb_exit\<close> does with the devices.
\<close>

section \<open>Constants\<close>

definition USBI_HOTPLUG_VENDOR_ID_VALID :: byte where [usb_consts]: "USBI_HOTPLUG_VENDOR_ID_VALID = push_bit 3 1"
definition USBI_HOTPLUG_PRODUCT_ID_VALID :: byte where [usb_consts]: "USBI_HOTPLUG_PRODUCT_ID_VALID = push_bit 4 1"
definition USBI_HOTPLUG_DEV_CLASS_VALID :: byte where [usb_consts]: "USBI_HOTPLUG_DEV_CLASS_VALID = push_bit 5 1"
definition USBI_HOTPLUG_NEEDS_FREE :: byte where [usb_consts]: "USBI_HOTPLUG_NEEDS_FREE = push_bit 6 1"
definition LIBUSB_HOTPLUG_ENUMERATE :: u32 where [usb_consts]: "LIBUSB_HOTPLUG_ENUMERATE = push_bit 0 1"
definition LIBUSB_HOTPLUG_MATCH_ANY :: int where [usb_consts]: "LIBUSB_HOTPLUG_MATCH_ANY = -1"

section \<open>Deregistration\<close>

definition needs_free :: "libusb_hotplug_callback \<Rightarrow> bool" where
  "needs_free cb \<longleftrightarrow> cb_flags cb AND USBI_HOTPLUG_NEEDS_FREE \<noteq> 0"

definition mark_callback :: "libusb_hotplug_callback \<Rightarrow> libusb_hotplug_callback" where
  "mark_callback cb = cb\<lparr>cb_flags := cb_flags cb OR USBI_HOTPLUG_NEEDS_FREE\<rparr>"

text \<open>A callback is only marked: it is freed when events are handled.\<close>

definition libusb_hotplug_deregister_callback ::
  "'d usbi_os_backend \<Rightarrow> int \<Rightarrow> 'd libusb_context \<Rightarrow> 'd libusb_context" where
  "libusb_hotplug_deregister_callback ops callback_handle s =
    (if \<not> has_hotplug ops then s
     else
       let deregistered = (\<exists>(b, cb) \<in> set (hotplug_cbs s). callback_handle = cb_handle cb);
           s = s\<lparr>hotplug_cbs := map (\<lambda>(b, cb). (b, if callback_handle = cb_handle cb then mark_callback cb else cb))
                 (hotplug_cbs s)\<rparr>
       in if deregistered then signal_deregistered (os_pipe ops) s else s)"

definition unlink_callback :: "nat \<Rightarrow> 'd libusb_context \<Rightarrow> 'd libusb_context" where
  "unlink_callback b s = release b (s\<lparr>hotplug_cbs := filter (\<lambda>(x, cb). x \<noteq> b) (hotplug_cbs s)\<rparr>)"

definition usbi_hotplug_deregister :: "bool \<Rightarrow> 'd libusb_context \<Rightarrow> 'd libusb_context" where
  "usbi_hotplug_deregister forced s =
     fold (\<lambda>(b, cb) s. if forced \<or> needs_free cb then unlink_callback b s else s) (hotplug_cbs s) s"

section \<open>Matching\<close>

text \<open>
  \<open>call\<close> is the client's code: for a callback function, the device, the event and the user data it gives the result and the
  handles the callback deregisters while it runs.
\<close>

type_synonym 'd client = "nat \<Rightarrow> nat \<Rightarrow> byte \<Rightarrow> nat \<Rightarrow> 'd \<Rightarrow> (int \<times> int list) \<times> 'd"

definition callback_matches :: "libusb_device_descriptor \<Rightarrow> byte \<Rightarrow> libusb_hotplug_callback \<Rightarrow> bool" where
  "callback_matches desc event cb \<longleftrightarrow>
     \<not> (cb_flags cb AND event = 0) \<and>
     \<not> (cb_flags cb AND USBI_HOTPLUG_VENDOR_ID_VALID \<noteq> 0 \<and> cb_vendor_id cb \<noteq> dev_idVendor desc) \<and>
     \<not> (cb_flags cb AND USBI_HOTPLUG_PRODUCT_ID_VALID \<noteq> 0 \<and> cb_product_id cb \<noteq> dev_idProduct desc) \<and>
     \<not> (cb_flags cb AND USBI_HOTPLUG_DEV_CLASS_VALID \<noteq> 0 \<and> cb_dev_class cb \<noteq> dev_bDeviceClass desc)"

definition usbi_hotplug_match_cb ::
  "'d usbi_os_backend \<Rightarrow> 'd client \<Rightarrow> nat \<Rightarrow> byte \<Rightarrow> libusb_hotplug_callback \<Rightarrow> 'd libusb_context \<Rightarrow>
     int \<times> 'd libusb_context" where
  "usbi_hotplug_match_cb ops call dev event cb s =
    (case find_device s dev of
       None \<Rightarrow> (0, fault s)
     | Some d \<Rightarrow>
        if \<not> callback_matches (d_device_descriptor d) event cb then (0, s)
        else case call (cb_fn cb) dev event (cb_user_data cb) (os_data s) of
          ((ret, handles), os) \<Rightarrow>
            (ret, fold (libusb_hotplug_deregister_callback ops) handles (s\<lparr>os_data := os\<rparr>)))"

text \<open>
  The loop keeps the next entry before it calls back; a callback can only mark entries, so the walk is over
  the entries that were there at first.
\<close>

primrec hotplug_match_loop ::
  "'d usbi_os_backend \<Rightarrow> 'd client \<Rightarrow> nat \<Rightarrow> byte \<Rightarrow> nat list \<Rightarrow> 'd libusb_context \<Rightarrow> 'd libusb_context" where
  "hotplug_match_loop ops call dev event [] s = s"
| "hotplug_match_loop ops call dev event (b # bs) s =
    (case map_of (hotplug_cbs s) b of
       None \<Rightarrow> fault s
     | Some cb \<Rightarrow>
        if needs_free cb then hotplug_match_loop ops call dev event bs s
        else (case usbi_hotplug_match_cb ops call dev event cb s of
          (ret, s) \<Rightarrow> hotplug_match_loop ops call dev event bs (if ret \<noteq> 0 then unlink_callback b s else s)))"

definition usbi_hotplug_match ::
  "'d usbi_os_backend \<Rightarrow> 'd client \<Rightarrow> nat \<Rightarrow> byte \<Rightarrow> 'd libusb_context \<Rightarrow> 'd libusb_context" where
  "usbi_hotplug_match ops call dev event s = hotplug_match_loop ops call dev event (map fst (hotplug_cbs s)) s"

section \<open>Registration\<close>

definition bad_id :: "int \<Rightarrow> int \<Rightarrow> bool" where
  "bad_id all_ones n \<longleftrightarrow> LIBUSB_HOTPLUG_MATCH_ANY \<noteq> n \<and> NOT all_ones AND n \<noteq> 0"

definition callback_of :: "u32 \<Rightarrow> int \<Rightarrow> int \<Rightarrow> int \<Rightarrow> nat \<Rightarrow> nat \<Rightarrow> int \<Rightarrow> libusb_hotplug_callback" where
  "callback_of events vendor_id product_id dev_class fn user_data handle =
    (let any = (\<lambda>n. n = LIBUSB_HOTPLUG_MATCH_ANY) in
     \<lparr>cb_flags = ucast events OR (if any vendor_id then 0 else USBI_HOTPLUG_VENDOR_ID_VALID) OR
        (if any product_id then 0 else USBI_HOTPLUG_PRODUCT_ID_VALID) OR
        (if any dev_class then 0 else USBI_HOTPLUG_DEV_CLASS_VALID),
      cb_vendor_id = (if any vendor_id then 0 else word_of_int vendor_id),
      cb_product_id = (if any product_id then 0 else word_of_int product_id),
      cb_dev_class = (if any dev_class then 0 else word_of_int dev_class),
      cb_fn = fn, cb_handle = handle, cb_user_data = user_data\<rparr>)"

text \<open>
  The next handle; the increment of the largest \<^verbatim>\<open>int\<close>, which C leaves undefined, wraps to a negative number, as the
  code expects.
\<close>

definition next_handle :: "int \<Rightarrow> int" where
  "next_handle n = (let m = sint (word_of_int (n + 1) :: u32) in if m < 0 then 1 else m)"

primrec enumerate_devices ::
  "'d usbi_os_backend \<Rightarrow> 'd client \<Rightarrow> nat \<Rightarrow> nat list \<Rightarrow> 'd libusb_context \<Rightarrow> 'd libusb_context" where
  "enumerate_devices ops call b [] s = s"
| "enumerate_devices ops call b (dev # devs) s =
    (case map_of (hotplug_cbs s) b of
       None \<Rightarrow> fault s
     | Some cb \<Rightarrow>
        enumerate_devices ops call b devs
          (snd (usbi_hotplug_match_cb ops call dev LIBUSB_HOTPLUG_EVENT_DEVICE_ARRIVED cb s)))"

text \<open>The callback function is a number, 0 the null pointer.\<close>

definition libusb_hotplug_register_callback ::
  "'d usbi_os_backend \<Rightarrow> 'd client \<Rightarrow> u32 \<Rightarrow> u32 \<Rightarrow> int \<Rightarrow> int \<Rightarrow> int \<Rightarrow> nat \<Rightarrow> nat \<Rightarrow> 'd libusb_context \<Rightarrow>
     (int \<times> int option) \<times> 'd libusb_context" where
  "libusb_hotplug_register_callback ops call events flags vendor_id product_id dev_class fn user_data s =
    (if events = 0 \<or> NOT (ucast LIBUSB_HOTPLUG_EVENT_DEVICE_ARRIVED OR ucast LIBUSB_HOTPLUG_EVENT_DEVICE_LEFT) AND events \<noteq> 0 \<or>
        flags \<noteq> 0 \<and> NOT LIBUSB_HOTPLUG_ENUMERATE AND flags \<noteq> 0 \<or>
        bad_id 0xffff vendor_id \<or> bad_id 0xffff product_id \<or> bad_id 0xff dev_class \<or> fn = 0
     then ((LIBUSB_ERROR_INVALID_PARAM, None), s)
     else if \<not> has_hotplug ops then ((LIBUSB_ERROR_NOT_SUPPORTED, None), s)
     else case alloc s of
       (None, s) \<Rightarrow> ((LIBUSB_ERROR_NO_MEM, None), s)
     | (Some b, s) \<Rightarrow>
        (let handle = next_hotplug_cb_handle s;
             s = s\<lparr>next_hotplug_cb_handle := next_handle handle,
                   hotplug_cbs := (b, callback_of events vendor_id product_id dev_class fn user_data handle) # hotplug_cbs s\<rparr>
         in if flags AND LIBUSB_HOTPLUG_ENUMERATE \<noteq> 0 \<and> events AND ucast LIBUSB_HOTPLUG_EVENT_DEVICE_ARRIVED \<noteq> 0 then
              (case libusb_get_device_list ops s of
                 ((len, devs), s) \<Rightarrow>
                   if len < 0 then ((len, None), libusb_hotplug_deregister_callback ops handle s)
                   else ((LIBUSB_SUCCESS, Some handle),
                     libusb_free_device_list ops devs True
                       (enumerate_devices ops call b (case devs of None \<Rightarrow> [] | Some (x, ds) \<Rightarrow> ds) s)))
            else ((LIBUSB_SUCCESS, Some handle), s)))"

section \<open>Delivery\<close>

text \<open>The loop of \<^verbatim>\<open>handle_events\<close> over the messages it has taken off the list.\<close>

primrec deliver_messages ::
  "'d usbi_os_backend \<Rightarrow> 'd client \<Rightarrow> (nat \<times> libusb_hotplug_message) list \<Rightarrow> 'd libusb_context \<Rightarrow> 'd libusb_context" where
  "deliver_messages ops call [] s = s"
| "deliver_messages ops call (m # ms) s =
    (let s = usbi_hotplug_match ops call (msg_device (snd m)) (msg_event (snd m)) s;
         s = (if msg_event (snd m) = LIBUSB_HOTPLUG_EVENT_DEVICE_LEFT
              then libusb_unref_device ops (Some (msg_device (snd m))) s else s)
     in deliver_messages ops call ms (release (fst m) s))"

text \<open>
  What \<^verbatim>\<open>handle_events\<close> does when the event pipe is readable, with no transfer to complete; \<open>None\<close> if it
  blocks on the pipe.
\<close>

definition handle_event_pipe :: "'d usbi_os_backend \<Rightarrow> 'd client \<Rightarrow> 'd libusb_context \<Rightarrow> 'd libusb_context option" where
  "handle_event_pipe ops call s =
    (case take_events s of
       (hotplug_cb_deregistered, msgs, s) \<Rightarrow>
         map_option (\<lambda>s. deliver_messages ops call msgs
             (if hotplug_cb_deregistered then usbi_hotplug_deregister False s else s)) (clear_if_idle s))"

text \<open>
  One round of \<^verbatim>\<open>handle_events\<close> in which no descriptor but the event pipe is ready; \<open>allocated\<close> is whether the array for
  \<^verbatim>\<open>poll\<close> could be allocated, \<open>poll_error\<close> the error of \<^verbatim>\<open>poll\<close>.  When it times out there is no transfer whose timeout
  expired.
\<close>

datatype poll_error = Interrupted | PollFailed

definition handle_events ::
  "'d usbi_os_backend \<Rightarrow> 'd client \<Rightarrow> bool \<Rightarrow> poll_error option \<Rightarrow> 'd libusb_context \<Rightarrow>
     (int \<times> 'd libusb_context) option" where
  "handle_events ops call allocated poll_error s =
    (case update_pollfds allocated s of
       None \<Rightarrow> None
     | Some (r, s) \<Rightarrow>
         if r \<noteq> 0 then Some (r, s)
         else if poll_error = Some Interrupted then Some (LIBUSB_ERROR_INTERRUPTED, s)
         else if poll_error = Some PollFailed then Some (LIBUSB_ERROR_IO, s)
         else if 0 < event_pipe s then map_option (\<lambda>s. (0, s)) (handle_event_pipe ops call s)
         else Some (0, s))"

section \<open>Exit\<close>

definition drop_devices :: "'d usbi_os_backend \<Rightarrow> 'd libusb_context \<Rightarrow> 'd libusb_context" where
  "drop_devices ops s = fold (\<lambda>dev s. libusb_unref_device ops (Some dev) (unlink_device dev s)) (usb_devs s) s"

text \<open>The part of \<^verbatim>\<open>libusb_exit\<close> before the sanity checks: callbacks, pending messages, connected devices.\<close>

definition exit_devices ::
  "'d usbi_os_backend \<Rightarrow> 'd client \<Rightarrow> bool \<Rightarrow> poll_error option \<Rightarrow> 'd libusb_context \<Rightarrow> 'd libusb_context option" where
  "exit_devices ops call allocated poll_error s =
    (if \<not> has_hotplug ops then Some s
     else
       let s = usbi_hotplug_deregister True s in
       map_option (drop_devices ops)
         (if open_devs s = [] then map_option snd (handle_events ops call allocated poll_error s) else Some s))"

end
