(* ===== verification/Usb_Contexts.thy ===== *)
theory Usb_Contexts
  imports Usb_Hotplug
begin

text \<open>
  The invariant of a whole context: who holds a reference to which device, and who owns which block.  Everything the
  client and the backend can do with devices, lists and handles keeps it, device arrival and departure
  with their messages included.
\<close>

section \<open>Who holds what\<close>

text \<open>
  A message that says that a device left holds the reference the list of connected devices had.  A message of an
  arrival holds none: its device is still connected, or a later message says that it left, or that message was lost.
\<close>

type_synonym messages = "(nat \<times> libusb_hotplug_message) list"

definition left_refs :: "messages \<Rightarrow> nat list" where
  "left_refs ms = map (msg_device \<circ> snd) (filter (\<lambda>m. msg_event (snd m) = LIBUSB_HOTPLUG_EVENT_DEVICE_LEFT) ms)"

primrec msgs_ok :: "nat set \<Rightarrow> messages \<Rightarrow> bool" where
  "msgs_ok U [] = True"
| "msgs_ok U (m # ms) \<longleftrightarrow> (msg_device (snd m) \<in> U \<or> msg_device (snd m) \<in> set (left_refs (m # ms))) \<and> msgs_ok U ms"

lemma left_refs_simps [simp]:
  "left_refs [] = []"
  "left_refs (m # ms) = (if msg_event (snd m) = LIBUSB_HOTPLUG_EVENT_DEVICE_LEFT
     then msg_device (snd m) # left_refs ms else left_refs ms)"
  "left_refs (ms @ ms') = left_refs ms @ left_refs ms'"
  by (simp_all add: left_refs_def)

lemma msgs_ok_mono: "msgs_ok U ms \<Longrightarrow> U \<subseteq> V \<Longrightarrow> msgs_ok V ms"
  by (induction ms) auto

lemma msgs_ok_append: "msgs_ok U ms \<Longrightarrow> msgs_ok U [m] \<Longrightarrow> msgs_ok U (ms @ [m])"
  by (induction ms) auto

lemma msgs_ok_left:
  "msgs_ok U ms \<Longrightarrow> msg_event (snd m) = LIBUSB_HOTPLUG_EVENT_DEVICE_LEFT \<Longrightarrow> U \<subseteq> insert (msg_device (snd m)) V \<Longrightarrow>
     msgs_ok V (ms @ [m])"
  by (induction ms) auto

text \<open>
  The references and blocks of a context: \<open>C\<close> are the references of the client and of the backend, \<open>X\<close> those
  that are lost, \<open>A\<close> the blocks of the lists the client holds.
\<close>

definition held :: "nat multiset \<Rightarrow> nat multiset \<Rightarrow> messages \<Rightarrow> 'd libusb_context \<Rightarrow> nat multiset" where
  "held C X ms s = mset (usb_devs s) + mset (left_refs ms) + mset (map (h_dev \<circ> snd) (open_devs s)) + C + X"

definition blocks :: "nat list \<Rightarrow> messages \<Rightarrow> 'd libusb_context \<Rightarrow> nat list" where
  "blocks A ms s = map fst (open_devs s) @ map fst (hotplug_cbs s) @ map fst ms @ A"

definition ctx_res ::
  "'d usbi_os_backend \<Rightarrow> nat set \<Rightarrow> nat list \<Rightarrow> nat multiset \<Rightarrow> nat multiset \<Rightarrow> messages \<Rightarrow> 'd libusb_context \<Rightarrow> bool" where
  "ctx_res ops L A C X ms s \<longleftrightarrow> has_hotplug ops \<and>
     devices_inv ops L (blocks A ms s) (held C X ms s) s \<and> msgs_ok (set (usb_devs s) \<union> set_mset X) ms \<and>
     acyclic (edges (us_devices s))"

text \<open>The invariant of a context, with messages \<open>ts\<close> that are taken off the list and not yet delivered.\<close>

definition ctx_inv ::
  "'d usbi_os_backend \<Rightarrow> nat set \<Rightarrow> nat list \<Rightarrow> nat multiset \<Rightarrow> nat multiset \<Rightarrow> messages \<Rightarrow> 'd libusb_context \<Rightarrow> bool" where
  "ctx_inv ops L A C X ts s \<longleftrightarrow> ctx_res ops L A C X (ts @ hotplug_msgs s) s \<and> 0 < os_pipe ops \<and>
     event_inv (0, Unlocked, s)"

lemma resD:
  assumes "ctx_res ops L A C X ms s"
  shows "has_hotplug ops" "devices_inv ops L (blocks A ms s) (held C X ms s) s"
    "msgs_ok (set (usb_devs s) \<union> set_mset X) ms" "acyclic (edges (us_devices s))"
  using assms by (simp_all add: ctx_res_def)

lemma ctxD:
  assumes "ctx_inv ops L A C X ts s"
  shows "ctx_res ops L A C X (ts @ hotplug_msgs s) s" "0 < os_pipe ops" "event_inv (0, Unlocked, s)"
  using assms by (simp_all add: ctx_inv_def)

lemmas ctx_resD = resD [OF ctxD(1)]

lemma event_inv_cong:
  assumes "events.truncate s' = events.truncate s"
  shows "event_inv (n, l, s') = event_inv (n, l, s)" and "hotplug_msgs s' = hotplug_msgs s"
  using assms by (simp_all add: events.truncate_def event_inv_def usbi_pending_events_def)

lemma held_add [simp]:
  "held (add_mset b C) X ms s = add_mset b (held C X ms s)" "held (M + C) X ms s = M + held C X ms s"
  "held C (add_mset b X) ms s = add_mset b (held C X ms s)"
  by (simp_all add: held_def add_ac)

section \<open>Steps that keep the connected devices\<close>

lemma res_intro:
  assumes "ctx_res ops L A C X ms s" and "usb_devs s' = usb_devs s"
    and "edges (us_devices s') \<subseteq> edges (us_devices s)"
    and "devices_inv ops L rest R s'" and "mset rest = mset (blocks A' ms s')" and "R = held C' X ms s'"
  shows "ctx_res ops L A' C' X ms s'"
proof -
  have "devices_inv ops L (blocks A' ms s') (held C' X ms s') s'"
    using devices_perm [OF assms(4)] assms(5,6) by simp
  moreover have "acyclic (edges (us_devices s'))" using resD(4) [OF assms(1)] assms(3) acyclic_subset by blast
  ultimately show ?thesis using assms(1,2) by (simp add: ctx_res_def)
qed

lemma ctx_intro:
  assumes "ctx_inv ops L A C X ts s" and "events.truncate s' = events.truncate s" and "usb_devs s' = usb_devs s"
    and "edges (us_devices s') \<subseteq> edges (us_devices s)" and "devices_inv ops L rest R s'"
    and "mset rest = mset (blocks A' (ts @ hotplug_msgs s') s')" and "R = held C' X (ts @ hotplug_msgs s') s'"
  shows "ctx_inv ops L A' C' X ts s'"
  using assms(1) event_inv_cong [OF assms(2)] res_intro [OF ctxD(1) [OF assms(1)] assms(3-5), of A' C'] assms(6,7)
  by (simp add: ctx_inv_def)

text \<open>A step that changes references only, as far as the frame allows.\<close>

lemma ctx_frame:
  assumes "ctx_inv ops L A C X ts s" and "frame ops s s'" and "devices_inv ops L rest R s'"
    and "mset rest = mset (blocks A' (ts @ hotplug_msgs s) s)" and "R = held C' X (ts @ hotplug_msgs s) s"
  shows "ctx_inv ops L A' C' X ts s'"
proof -
  note f = frameD [OF assms(2)]
  have u: "usb_devs s' = usb_devs s" using f(6) ctx_resD(1) [OF assms(1)] by simp
  show ?thesis
    by (rule ctx_intro [OF assms(1) f(8) u f(7) assms(3)]) (use f(1-3) u assms(4,5) in \<open>simp_all add: blocks_def held_def\<close>)
qed

lemma ctx_ref:
  assumes "ctx_inv ops L A C X ts s" and "b \<in># held C X (ts @ hotplug_msgs s) s"
  shows "ctx_inv ops L A (add_mset b C) X ts (libusb_ref_device b s)"
proof -
  let ?ms = "ts @ hotplug_msgs s"
  have "devices_inv ops L (blocks A ?ms s) (add_mset b (held C X ?ms s)) (libusb_ref_device b s) \<and>
      frame ops s (libusb_ref_device b s)"
    using devices.get_inv [of ops L "blocks A ?ms s" "held C X ?ms s" s s b] ctx_resD(2) [OF assms(1)] assms(2) by simp
  then show ?thesis by (elim conjE) (rule ctx_frame [OF assms(1)], simp_all)
qed

lemma ctx_unref:
  assumes "ctx_inv ops L A (add_mset b C) X ts s"
  shows "ctx_inv ops L A C X ts (libusb_unref_device ops (Some b) s)"
proof -
  let ?ms = "ts @ hotplug_msgs s"
  have "devices_inv ops L (blocks A ?ms s) (held C X ?ms s) (libusb_unref_device ops (Some b) s) \<and>
      frame ops s (libusb_unref_device ops (Some b) s)"
    using devices.put_inv [of ops L "blocks A ?ms s" b "held C X ?ms s" s s] ctx_resD(2) [OF assms] by simp
  then show ?thesis by (elim conjE) (rule ctx_frame [OF assms], simp_all)
qed

lemma ctx_get_list:
  assumes "ctx_inv ops L A C X ts s" and "quiet ops" and "libusb_get_device_list ops s = ((r, list), s')"
  shows "r = LIBUSB_ERROR_NO_MEM \<and> list = None \<and> ctx_inv ops L A C X ts s' \<or>
    r = int (length (usb_devs s)) \<and>
      (\<exists>b. list = Some (b, usb_devs s) \<and> ctx_inv ops L (b # A) (mset (usb_devs s) + C) X ts s')"
proof -
  let ?ms = "ts @ hotplug_msgs s"
  have "set (usb_devs s) \<subseteq> set_mset (held C X ?ms s)" by (auto simp: held_def)
  from get_device_list_inv [OF ctx_resD(2) [OF assms(1)] assms(2) this assms(3)]
  have f: "frame ops s s'" and c: "r = LIBUSB_ERROR_NO_MEM \<and> list = None \<and> devices_inv ops L (blocks A ?ms s) (held C X ?ms s) s' \<or>
      r = int (length (usb_devs s)) \<and> (\<exists>b. list = Some (b, usb_devs s) \<and>
        devices_inv ops L (b # blocks A ?ms s) (mset (usb_devs s) + held C X ?ms s) s')" by blast+
  have "ctx_inv ops L A C X ts s'" if "devices_inv ops L (blocks A ?ms s) (held C X ?ms s) s'"
    by (rule ctx_frame [OF assms(1) f that]) simp_all
  moreover have "ctx_inv ops L (b # A) (mset (usb_devs s) + C) X ts s'"
    if "devices_inv ops L (b # blocks A ?ms s) (mset (usb_devs s) + held C X ?ms s) s'" for b
    by (rule ctx_frame [OF assms(1) f that]) (simp_all add: blocks_def)
  ultimately show ?thesis using c by blast
qed

lemma ctx_free_list:
  assumes "ctx_inv ops L (b # A) (mset devs + C) X ts s"
  shows "ctx_inv ops L A C X ts (libusb_free_device_list ops (Some (b, devs)) True s)"
proof -
  let ?ms = "ts @ hotplug_msgs s"
  have "devices_inv ops L (b # blocks A ?ms s) (mset devs + held C X ?ms s) s"
    using devices_perm [OF ctx_resD(2) [OF assms], of "b # blocks A ?ms s"] by (simp add: blocks_def)
  note i = free_device_list_inv [OF this]
  show ?thesis by (rule ctx_frame [OF assms i(2,1)]) simp_all
qed

lemma ctx_alloc:
  assumes "ctx_inv ops L A C X ts s" and "alloc s = (p, s')"
  shows "ctx_inv ops L (opt_list p @ A) C X ts s'"
  by (rule ctx_frame [OF assms(1) alloc_inv(2,1) [OF assms(2) ctx_resD(2) [OF assms(1)]]]) (simp_all add: blocks_def)

lemma ctx_release:
  assumes "ctx_inv ops L (b # A) C X ts s"
  shows "ctx_inv ops L A C X ts (release b s)"
proof -
  let ?ms = "ts @ hotplug_msgs s"
  have "devices_inv ops L (b # blocks A ?ms s) (held C X ?ms s) s"
    by (rule devices_perm [OF ctx_resD(2) [OF assms]]) (simp add: blocks_def)
  note i = release_inv [OF this]
  show ?thesis by (rule ctx_frame [OF assms i(2,1)]) simp_all
qed

section \<open>Handles\<close>

lemma ctx_open:
  assumes "ctx_inv ops L A C X ts s" and "dev \<in># held C X (ts @ hotplug_msgs s) s"
    and "libusb_open ops mutex_ok dev s = ((r, hp), s')"
  shows "ctx_inv ops L A C X ts s'" and "hp = None \<longleftrightarrow> r < 0"
    and "map_option (h_dev) (case hp of None \<Rightarrow> None | Some hb \<Rightarrow> find_handle s' hb) = (if r < 0 then None else Some dev)"
proof -
  note i = open_inv [OF ctx_resD(2) [OF assms(1)] assms(2,3)]
  have "ctx_inv ops L A C X ts s' \<and> (hp = None \<longleftrightarrow> r < 0) \<and>
      map_option (h_dev) (case hp of None \<Rightarrow> None | Some hb \<Rightarrow> find_handle s' hb) = (if r < 0 then None else Some dev)"
  proof (cases hp)
    case None
    then show ?thesis using i by (auto intro!: ctx_frame [OF assms(1)])
  next
    case (Some hb)
    then obtain t where t: "frame ops s t" "r = 0"
      "devices_inv ops L (hb # blocks A (ts @ hotplug_msgs s) s) (add_mset dev (held C X (ts @ hotplug_msgs s) s)) t"
      "s' = t\<lparr>open_devs := (hb, \<lparr>h_dev = dev, h_claimed_interfaces = 0, h_auto_detach_kernel_driver = 0\<rparr>) # open_devs s\<rparr>"
      using i by auto
    note f = frameD [OF t(1)]
    have u: "usb_devs t = usb_devs s" using f(6) ctx_resD(1) [OF assms(1)] by simp
    have d: "devices_inv ops L (hb # blocks A (ts @ hotplug_msgs s) s) (add_mset dev (held C X (ts @ hotplug_msgs s) s)) s'"
      using t(3) unfolding t(4) by (simp add: devices_inv_def devices_ok_def)
    have "ctx_inv ops L A C X ts s'"
      by (rule ctx_intro [OF assms(1) _ _ _ d]) (use f u t(4) in \<open>simp_all add: blocks_def held_def events.truncate_def\<close>)
    then show ?thesis using Some t by (simp add: find_handle_def)
  qed
  then show "ctx_inv ops L A C X ts s'" "hp = None \<longleftrightarrow> r < 0"
    "map_option (h_dev) (case hp of None \<Rightarrow> None | Some hb \<Rightarrow> find_handle s' hb) = (if r < 0 then None else Some dev)"
    by blast+
qed

lemma res_distinct:
  assumes "ctx_res ops L A C X ms s"
  shows "distinct (map fst (open_devs s))" "distinct (map fst (hotplug_cbs s))" "distinct (usb_devs s)"
    "distinct (map fst (us_devices s))"
  using resD(2) [OF assms] by (auto simp: devices_inv_def devices_ok_def counts_ok_def owned_def blocks_def)

lemma res_close:
  assumes "ctx_res ops L A C X ms s" and "find_handle s hb = Some hdl"
  shows "ctx_res ops L A C X ms (do_close ops hb s)"
    and "events.truncate (do_close ops hb s) = events.truncate s"
    and "open_devs (do_close ops hb s) = filter (\<lambda>(x, e). x \<noteq> hb) (open_devs s)"
    and "hotplug_cbs (do_close ops hb s) = hotplug_cbs s" "usb_devs (do_close ops hb s) = usb_devs s"
proof -
  let ?o = "filter (\<lambda>(x, e). x \<noteq> hb) (open_devs s)"
  have m: "mset (open_devs s) = add_mset (hb, hdl) (mset ?o)"
    using mset_remove_entry [OF res_distinct(1) [OF assms(1)] map_of_SomeD] assms(2) by (simp add: find_handle_def)
  have m1: "mset (map fst (open_devs s)) = add_mset hb (mset (map fst ?o))"
    "mset (map (h_dev \<circ> snd) (open_devs s)) = add_mset (h_dev hdl) (mset (map (h_dev \<circ> snd) ?o))"
    using arg_cong [OF m, of "image_mset fst"] arg_cong [OF m, of "image_mset (h_dev \<circ> snd)"] by simp_all
  have "devices_inv ops L (hb # map fst ?o @ map fst (hotplug_cbs s) @ map fst ms @ A)
      (add_mset (h_dev hdl) (mset (usb_devs s) + mset (left_refs ms) + mset (map (h_dev \<circ> snd) ?o) + C + X)) s"
    using devices_perm [OF resD(2) [OF assms(1)]] m1 by (simp add: blocks_def held_def)
  note i = close_inv [OF this assms(2)]
  note f = frameD [OF i(2)]
  show t: "events.truncate (do_close ops hb s) = events.truncate s" using f(8) by (simp add: events.truncate_def)
  show "open_devs (do_close ops hb s) = ?o" "hotplug_cbs (do_close ops hb s) = hotplug_cbs s" using f(1,2) by simp_all
  show u: "usb_devs (do_close ops hb s) = usb_devs s" using f(6) resD(1) [OF assms(1)] by simp
  show "ctx_res ops L A C X ms (do_close ops hb s)"
    by (rule res_intro [OF assms(1) u _ i(1)]) (use f u in \<open>simp_all add: blocks_def held_def\<close>)
qed

text \<open>What is not an event does not depend on the events.\<close>

lemma res_more:
  assumes "events.more s' = events.more s"
  shows "ctx_res ops L A C X ms s' = ctx_res ops L A C X ms s" and "open_devs s' = open_devs s"
    and "hotplug_cbs s' = hotplug_cbs s" and "usb_devs s' = usb_devs s"
proof -
  have "us_heap s' = us_heap s" "us_devices s' = us_devices s" "usb_devs s' = usb_devs s" "open_devs s' = open_devs s"
    "hotplug_cbs s' = hotplug_cbs s"
    using assms by (cases s; cases s'; simp)+
  then show "ctx_res ops L A C X ms s' = ctx_res ops L A C X ms s" "open_devs s' = open_devs s"
    "hotplug_cbs s' = hotplug_cbs s" "usb_devs s' = usb_devs s"
    by (simp_all add: ctx_res_def devices_inv_def devices_ok_def blocks_def held_def)
qed

lemma raise_event_more:
  assumes "events.more (update s) = events.more s"
  shows "events.more (raise_event cap update s) = events.more s"
    and "hotplug_msgs (raise_event cap update s) = hotplug_msgs (update s)"
  using assms by (cases s, auto simp: raise_event_def Let_def usbi_signal_event_def)

lemma clear_if_idle_more:
  assumes "clear_if_idle s = Some s'"
  shows "events.more s' = events.more s" and "hotplug_msgs s' = hotplug_msgs s"
  using assms by (cases s, auto simp: clear_if_idle_def usbi_clear_event_def split: if_splits nat.splits)

lemma ctx_close:
  assumes "ctx_inv ops L A C X ts s" and "find_handle s hb = Some hdl"
  obtains s' where "libusb_close ops handling_events (Some hb) s = Some s'" and "ctx_inv ops L A C X ts s'"
proof (cases handling_events)
  case True
  note c = res_close [OF ctxD(1) [OF assms(1)] assms(2)]
  have "ctx_inv ops L A C X ts (do_close ops hb s)"
    using c(1) event_inv_cong [OF c(2)] ctxD(2,3) [OF assms(1)] by (simp add: ctx_inv_def)
  then show ?thesis using that True by (simp add: libusb_close_def)
next
  case False
  let ?s1 = "close_begin (os_pipe ops) s"
  have m: "events.more ?s1 = events.more s" "hotplug_msgs ?s1 = hotplug_msgs s"
    unfolding close_begin_def by (subst raise_event_more; simp; cases s; simp)+
  have e1: "event_inv (Suc 0, Unlocked, ?s1)"
    by (rule raise_inv(6)) (use ctxD(2,3) [OF assms(1)] in simp_all)
  have r1: "ctx_res ops L A C X (ts @ hotplug_msgs s) ?s1" "find_handle ?s1 hb = Some hdl"
    using ctxD(1) [OF assms(1)] assms(2) res_more [OF m(1)] by (simp_all add: find_handle_def)
  note c = res_close [OF r1]
  have "event_inv (Suc 0, Closing, do_close ops hb ?s1)"
    unfolding event_inv_cong(1) [OF c(2)] using e1 by (simp add: event_inv_def)
  then obtain s' where s': "close_end (do_close ops hb ?s1) = Some s'" "event_inv (0, Unlocked, s')"
    using close_end_inv by blast
  let ?t = "do_close ops hb ?s1"
  have "events.more s' = events.more (?t\<lparr>device_close := device_close ?t - 1\<rparr>)"
    "hotplug_msgs s' = hotplug_msgs (?t\<lparr>device_close := device_close ?t - 1\<rparr>)"
    using s'(1) clear_if_idle_more unfolding close_end_def by blast+
  then have "events.more s' = events.more ?t" "hotplug_msgs s' = hotplug_msgs s"
    using event_inv_cong(2) [OF c(2)] m(2) by (cases ?t, simp_all)
  then have "ctx_inv ops L A C X ts s'"
    using c(1) s'(2) res_more(1) ctxD(2) [OF assms(1)] unfolding ctx_inv_def by metis
  then show ?thesis using that False s'(1) by (simp add: libusb_close_def)
qed

section \<open>The backend\<close>

text \<open>A change to a device that is not to its count or parent; then to a device that has no children, which gets a parent.\<close>

lemma devices_update:
  assumes "devices_inv ops L rest R s" and "b \<in># R" and "\<And>d. d_refcnt (f d) = d_refcnt d \<and> d_parent_dev (f d) = d_parent_dev d"
  obtains ds where "update_device b f s = s\<lparr>us_devices := ds\<rparr>" and "edges ds \<subseteq> edges (us_devices s)"
    and "devices_inv ops L rest R (s\<lparr>us_devices := ds\<rparr>)" and "map fst ds = map fst (us_devices s)"
proof -
  have ok: "counts_ok R (us_devices s)" using assms(1) by (simp add: devices_inv_def devices_ok_def)
  then have dist: "distinct (map fst (us_devices s))" by (simp add: counts_ok_def)
  obtain d where d: "map_of (us_devices s) b = Some d" "0 < d_refcnt d" using counts_find [OF ok assms(2)] by metis
  let ?ds = "put_device b (f d) (us_devices s)"
  have par: "parents ?ds = parents (us_devices s)"
    using parents_put [OF dist d(1), of "f d"] assms(3) d(2) by (simp add: parent_refs_def)
  have "counts_ok R ?ds" by (rule counts_put [OF ok d(1), where k = 0]) (simp_all add: par assms(3))
  then have "devices_inv ops L rest R (s\<lparr>us_devices := ?ds\<rparr>)"
    using assms(1) dying_put [OF dist d(1), of "f d"] d(2) assms(3) by (simp add: devices_inv_def devices_ok_def)
  moreover have "edges ?ds \<subseteq> edges (us_devices s)" by (rule edges_put [OF d(1)]) (simp add: assms(3))
  ultimately show ?thesis using that [of ?ds] d(1) by (simp add: update_device_def find_device_def)
qed

lemma ctx_update:
  assumes "ctx_inv ops L A C X ts s" and "b \<in># held C X (ts @ hotplug_msgs s) s"
    and "\<And>d. d_refcnt (f d) = d_refcnt d \<and> d_parent_dev (f d) = d_parent_dev d"
  shows "ctx_inv ops L A C X ts (update_device b f s)" and "usb_devs (update_device b f s) = usb_devs s"
    and "hotplug_msgs (update_device b f s) = hotplug_msgs s"
proof -
  obtain ds where u: "update_device b f s = s\<lparr>us_devices := ds\<rparr>" "edges ds \<subseteq> edges (us_devices s)"
    "devices_inv ops L (blocks A (ts @ hotplug_msgs s) s) (held C X (ts @ hotplug_msgs s) s) (s\<lparr>us_devices := ds\<rparr>)"
    using devices_update [OF ctx_resD(2) [OF assms(1)] assms(2,3)] by metis
  show "ctx_inv ops L A C X ts (update_device b f s)"
    by (rule ctx_intro [OF assms(1), where rest = "blocks A (ts @ hotplug_msgs s) s" and R = "held C X (ts @ hotplug_msgs s) s"])
      (use u in \<open>simp_all add: blocks_def held_def events.truncate_def\<close>)
  show "usb_devs (update_device b f s) = usb_devs s" "hotplug_msgs (update_device b f s) = hotplug_msgs s"
    using u(1) by simp_all
qed

lemma devices_add:
  assumes "devices_inv ops L (b # rest) R s" and "has_hotplug ops" and "d_refcnt d = 1" and "d_parent_dev d = None"
  shows "devices_inv ops L rest (add_mset b R) (s\<lparr>us_devices := (b, d) # us_devices s\<rparr>)"
proof -
  let ?ds = "us_devices s"
  have ok: "counts_ok R ?ds" and o: "owned (map fst ?ds @ b # rest) (us_heap s) L"
    using assms(1) by (simp_all add: devices_inv_def devices_ok_def)
  have new: "b \<notin> fst ` set ?ds" using o by (auto simp: owned_def)
  then have z: "count (R + parents ?ds) b = 0" using ok unfolding counts_ok_def by (metis not_in_iff subsetD)
  have p: "parents ((b, d) # ?ds) = parents ?ds" using assms(4) by (simp add: parents_def parent_refs_def opt_list_def)
  have "counts_ok (add_mset b R) ((b, d) # ?ds)"
  proof -
    have "d_refcnt y = int (count (add_mset b R + parents ?ds) x)" if "(x, y) \<in> set ((b, d) # ?ds)" for x y
    proof (cases "x = b")
      case True
      then have "y = d" using that new by force
      then show ?thesis using z assms(3) True by simp
    next
      case False
      then have "(x, y) \<in> set ?ds" using that by simp
      then have "d_refcnt y = int (count (R + parents ?ds) x)" using ok unfolding counts_ok_def by blast
      then show ?thesis using False by simp
    qed
    then have "\<forall>(x, y) \<in> set ((b, d) # ?ds). d_refcnt y = int (count (add_mset b R + parents ?ds) x)" by blast
    moreover have "set_mset (add_mset b R + parents ?ds) \<subseteq> fst ` set ((b, d) # ?ds)" using ok unfolding counts_ok_def by auto
    moreover have "distinct (map fst ((b, d) # ?ds))" using ok new unfolding counts_ok_def by simp
    ultimately show ?thesis unfolding counts_ok_def p by blast
  qed
  moreover have "owned (map fst ((b, d) # ?ds) @ rest) (us_heap s) L" by (rule owned_perm [OF o]) simp
  moreover have "dying ((b, d) # ?ds) = dying ?ds" using assms(3) by (auto simp: dying_def)
  ultimately show ?thesis using assms(1,2) by (simp add: devices_inv_def devices_ok_def)
qed

lemma alloc_keeps:
  assumes "alloc s = (p, s')"
  shows "usb_devs s' = usb_devs s" "hotplug_msgs s' = hotplug_msgs s" "us_devices s' = us_devices s"
    "os_data s' = os_data s" "open_devs s' = open_devs s"
  using assms by (auto simp: alloc_def split: prod.splits)

lemma ctx_alloc_device:
  assumes "ctx_inv ops L A C X ts s" and "usbi_alloc_device ops mutex_ok session_id s = (p, s')"
  shows "ctx_inv ops L A (mset (opt_list p) + C) X ts s'" and "usb_devs s' = usb_devs s"
    and "open_devs s' = open_devs s"
proof -
  obtain q s1 where a: "alloc s = (q, s1)" by fastforce
  note i = ctx_alloc [OF assms(1) a]
  have "ctx_inv ops L A (mset (opt_list p) + C) X ts s' \<and> usb_devs s' = usb_devs s \<and> open_devs s' = open_devs s"
  proof (cases q)
    case None
    then show ?thesis using assms(2) a i alloc_keeps [OF a] by (auto simp: usbi_alloc_device_def opt_list_def)
  next
    case (Some b)
    then have ib: "ctx_inv ops L (b # A) C X ts s1" using i by (simp add: opt_list_def)
    show ?thesis
    proof (cases mutex_ok)
      case False
      then show ?thesis using assms(2) a Some ctx_release [OF ib] alloc_keeps [OF a]
        by (auto simp: usbi_alloc_device_def opt_list_def release_def)
    next
      case True
      let ?ms = "ts @ hotplug_msgs s1"
      obtain d where d: "s' = s1\<lparr>us_devices := (b, d) # us_devices s1\<rparr>" "p = Some b" "d_refcnt d = 1" "d_parent_dev d = None"
        using assms(2) a Some True ctx_resD(1) [OF assms(1)] by (auto simp: usbi_alloc_device_def Let_def)
      have "devices_inv ops L (b # blocks A ?ms s1) (held C X ?ms s1) s1"
        using devices_perm [OF ctx_resD(2) [OF ib]] by (simp add: blocks_def)
      from devices_add [OF this ctx_resD(1) [OF ib] d(3,4)]
      have i': "devices_inv ops L (blocks A ?ms s1) (add_mset b (held C X ?ms s1)) s'" unfolding d(1) .
      have e: "edges (us_devices s') \<subseteq> edges (us_devices s1)" using d(1,4) by (auto simp: edges_def)
      have "ctx_inv ops L A (mset (opt_list p) + C) X ts s'"
        by (rule ctx_intro [OF ib _ _ e i'])
          (use d(1,2) in \<open>simp_all add: events.truncate_def blocks_def held_def opt_list_def\<close>)
      then show ?thesis using d(1) alloc_keeps [OF a] by simp
    qed
  qed
  then show "ctx_inv ops L A (mset (opt_list p) + C) X ts s'" "usb_devs s' = usb_devs s" "open_devs s' = open_devs s" by blast+
qed

lemma ctx_set_parent:
  assumes "ctx_inv ops L A (add_mset p C) X ts s" and "b \<in># held (add_mset p C) X (ts @ hotplug_msgs s) s"
    and "find_device s b = Some d" "d_parent_dev d = None" and "b \<notin> Range (edges (us_devices s))" and "p \<noteq> b"
  shows "ctx_inv ops L A C X ts (update_device b (\<lambda>d. d\<lparr>d_parent_dev := Some p\<rparr>) s)"
proof -
  let ?ms = "ts @ hotplug_msgs s" and ?e = "d\<lparr>d_parent_dev := Some p\<rparr>"
  let ?ds = "put_device b ?e (us_devices s)" and ?R = "held C X ?ms s"
  have i: "devices_inv ops L (blocks A ?ms s) (add_mset p ?R) s" using ctx_resD(2) [OF assms(1)] by simp
  then have ok: "counts_ok (add_mset p ?R) (us_devices s)" by (simp add: devices_inv_def devices_ok_def)
  then have dist: "distinct (map fst (us_devices s))" by (simp add: counts_ok_def)
  have d: "map_of (us_devices s) b = Some d" using assms(3) by (simp add: find_device_def)
  then have pos: "d_refcnt d \<noteq> 0" using i map_of_SomeD [OF d] by (auto simp: devices_inv_def dying_def)
  have par: "parents ?ds = add_mset p (parents (us_devices s))"
    using parents_put [OF dist d, of ?e] pos assms(4) by (simp add: parent_refs_def opt_list_def)
  have "counts_ok ?R ?ds" by (rule counts_put [OF ok d, where k = 0]) (simp_all add: par)
  then have "devices_inv ops L (blocks A ?ms s) ?R (s\<lparr>us_devices := ?ds\<rparr>)"
    using i dying_put [OF dist d pos, of ?e] pos by (simp add: devices_inv_def devices_ok_def)
  moreover have "edges ?ds = insert (b, p) (edges (us_devices s))"
  proof -
    have "y = d" if "(b, y) \<in> set (us_devices s)" for y using that d dist by (metis map_of_eq_Some_iff option.inject)
    then have no: "(b, q) \<notin> edges (us_devices s)" for q using assms(4) by (auto simp: edges_def)
    have "(x, q) \<in> edges ?ds \<longleftrightarrow> x = b \<and> q = p \<or> (x, q) \<in> edges (us_devices s)" for x q
    proof (cases "x = b")
      case True
      then show ?thesis using map_of_SomeD [OF d] no [of q] by (force simp: edges_def set_put_device)
    next
      case False
      then show ?thesis by (force simp: edges_def set_put_device)
    qed
    then show ?thesis by auto
  qed
  moreover have "acyclic (insert (b, p) (edges (us_devices s)))"
  proof -
    have "(p, b) \<notin> (edges (us_devices s))\<^sup>*" using assms(5,6) by (auto elim: rtranclE)
    then show ?thesis using ctx_resD(4) [OF assms(1)] by (simp add: acyclic_insert)
  qed
  moreover have "update_device b (\<lambda>d. d\<lparr>d_parent_dev := Some p\<rparr>) s = s\<lparr>us_devices := ?ds\<rparr>"
    using assms(3) by (simp add: update_device_def)
  ultimately show ?thesis
    using assms(1) event_inv_cong(1) [of "s\<lparr>us_devices := ?ds\<rparr>" s 0 Unlocked]
    by (simp add: ctx_inv_def ctx_res_def blocks_def held_def events.truncate_def)
qed

text \<open>Messages.\<close>

lemma add_hotplug_msg_keeps:
  "events.more (add_hotplug_msg cap m s) = events.more s" "hotplug_msgs (add_hotplug_msg cap m s) = hotplug_msgs s @ [m]"
  "usb_devs (add_hotplug_msg cap m (t :: 'd libusb_context)) = usb_devs t"
proof -
  show m: "events.more (add_hotplug_msg cap m s) = events.more s" for s :: "(_, _) events_scheme"
    unfolding add_hotplug_msg_def by (rule raise_event_more) (cases s, simp)
  show "hotplug_msgs (add_hotplug_msg cap m s) = hotplug_msgs s @ [m]"
    unfolding add_hotplug_msg_def by (subst raise_event_more(2)) (cases s, simp_all)
  show "usb_devs (add_hotplug_msg cap m t) = usb_devs t" using res_more(4) [OF m] .
qed

lemma ctx_message:
  assumes "ctx_inv ops L (mb # A) C X' ts s" and "held C X' (ts @ hotplug_msgs s) s = held C X (ts @ hotplug_msgs s @ [(mb, m)]) s"
    and "msgs_ok (set (usb_devs s) \<union> set_mset X) (ts @ hotplug_msgs s @ [(mb, m)])"
  shows "ctx_inv ops L A C X ts (add_hotplug_msg (os_pipe ops) (mb, m) s)"
proof -
  let ?s = "add_hotplug_msg (os_pipe ops) (mb, m) s" and ?ms = "ts @ hotplug_msgs s @ [(mb, m)]"
  have "devices_inv ops L (blocks A ?ms s) (held C X ?ms s) s"
    using devices_perm [OF ctx_resD(2) [OF assms(1)], of "blocks A ?ms s"] assms(2) by (simp add: blocks_def)
  then have "ctx_res ops L A C X ?ms s" using assms(1,3) by (simp add: ctx_inv_def ctx_res_def)
  then have "ctx_res ops L A C X (ts @ hotplug_msgs ?s) ?s"
    by (simp add: res_more(1) [OF add_hotplug_msg_keeps(1)] add_hotplug_msg_keeps(2))
  moreover have "event_inv (0, Unlocked, ?s)" by (rule raise_inv(1) [OF ctxD(3,2) [OF assms(1)]])
  ultimately show ?thesis using ctxD(2) [OF assms(1)] by (simp add: ctx_inv_def)
qed

text \<open>A device that arrives takes a reference of the backend to the list of connected devices.\<close>

lemma ctx_connect:
  assumes "ctx_inv ops L A (add_mset b C) X ts s" and "b \<notin> set (usb_devs s)"
  shows "ctx_inv ops L A C X ts (usbi_connect_device ops b s)" and "usb_devs (usbi_connect_device ops b s) = b # usb_devs s"
proof -
  let ?s1 = "update_device b (\<lambda>d. d\<lparr>d_attached := True\<rparr>) s"
  let ?s2 = "?s1\<lparr>usb_devs := b # usb_devs ?s1\<rparr>"
  have "b \<in># held (add_mset b C) X (ts @ hotplug_msgs s) s" by simp
  note i1 = ctx_update [OF assms(1) this, of "\<lambda>d. d\<lparr>d_attached := True\<rparr>"]
  have i1: "ctx_inv ops L A (add_mset b C) X ts ?s1" "usb_devs ?s1 = usb_devs s" using i1 by simp_all
  let ?ms = "ts @ hotplug_msgs ?s1"
  have dv: "devices_inv ops L (blocks A ?ms ?s2) (held C X ?ms ?s2) ?s2"
    using ctx_resD(1,2) [OF i1(1)] assms(2) i1(2) by (simp add: devices_inv_def devices_ok_def blocks_def held_def)
  have "msgs_ok (set (usb_devs ?s2) \<union> set_mset X) ?ms" by (rule msgs_ok_mono [OF ctx_resD(3) [OF i1(1)]]) auto
  then have "ctx_res ops L A C X ?ms ?s2" using ctx_resD(1,4) [OF i1(1)] dv by (simp add: ctx_res_def)
  moreover have "event_inv (0, Unlocked, ?s2)"
    using event_inv_cong(1) [of ?s2 ?s1] ctxD(3) [OF i1(1)] by (simp add: events.truncate_def)
  ultimately have i2: "ctx_inv ops L A C X ts ?s2" using ctxD(2) [OF assms(1)] by (simp add: ctx_inv_def)
  have "ctx_inv ops L A C X ts (usbi_hotplug_notification ops b LIBUSB_HOTPLUG_EVENT_DEVICE_ARRIVED ?s2) \<and>
     usb_devs (usbi_hotplug_notification ops b LIBUSB_HOTPLUG_EVENT_DEVICE_ARRIVED ?s2) = usb_devs ?s2"
  proof -
    obtain q s3 where a: "alloc ?s2 = (q, s3)" by fastforce
    note k = alloc_keeps [OF a]
    have i3: "ctx_inv ops L (opt_list q @ A) C X ts s3" by (rule ctx_alloc [OF i2 a])
    show ?thesis
    proof (cases q)
      case None
      then show ?thesis using i3 a k(1) by (simp add: usbi_hotplug_notification_def opt_list_def)
    next
      case (Some mb)
      let ?m = "\<lparr>msg_event = LIBUSB_HOTPLUG_EVENT_DEVICE_ARRIVED, msg_device = b\<rparr>"
      have i3: "ctx_inv ops L (mb # A) C X ts s3" using i3 Some by (simp add: opt_list_def)
      have "msgs_ok (set (usb_devs s3) \<union> set_mset X) ((ts @ hotplug_msgs s3) @ [(mb, ?m)])"
        by (rule msgs_ok_append [OF ctx_resD(3) [OF i3]]) (simp add: k(1))
      then have "ctx_inv ops L A C X ts (add_hotplug_msg (os_pipe ops) (mb, ?m) s3)"
        by (intro ctx_message [OF i3]) (simp_all add: held_def usb_consts)
      then show ?thesis using a Some k(1) by (simp add: usbi_hotplug_notification_def add_hotplug_msg_keeps)
    qed
  qed
  then show "ctx_inv ops L A C X ts (usbi_connect_device ops b s)" "usb_devs (usbi_connect_device ops b s) = b # usb_devs s"
    using i2 i1(2) by (simp_all add: usbi_connect_device_def Let_def)
qed

text \<open>
  A device that leaves passes the reference of the list to the message.  When there is no memory for the message the
  reference is lost.
\<close>

lemma unlink_keeps:
  assumes "b \<in> set (usb_devs s)"
  shows "unlink_device b s = s\<lparr>usb_devs := remove1 b (usb_devs s)\<rparr>"
  using assms by (simp add: unlink_device_def)

lemma ctx_unlink:
  assumes "ctx_inv ops L A C X ts s" and "b \<in> set (usb_devs s)"
  shows "ctx_inv ops L A C (add_mset b X) ts (unlink_device b s)"
proof -
  let ?s = "s\<lparr>usb_devs := remove1 b (usb_devs s)\<rparr>" and ?ms = "ts @ hotplug_msgs s"
  have h: "held C (add_mset b X) ?ms ?s = held C X ?ms s" using assms(2) by (simp add: held_def)
  have "devices_inv ops L (blocks A ?ms ?s) (held C X ?ms s) ?s"
    using ctx_resD(1,2) [OF assms(1)] by (simp add: devices_inv_def devices_ok_def blocks_def)
  moreover have "msgs_ok (set (usb_devs ?s) \<union> set_mset (add_mset b X)) ?ms"
    by (rule msgs_ok_mono [OF ctx_resD(3) [OF assms(1)]]) (use res_distinct(3) [OF ctxD(1) [OF assms(1)]] in auto)
  ultimately have "ctx_res ops L A C (add_mset b X) ?ms ?s"
    using ctx_resD(1,4) [OF assms(1)] unfolding ctx_res_def h by simp
  moreover have "event_inv (0, Unlocked, ?s)"
    using event_inv_cong(1) [of ?s s] ctxD(3) [OF assms(1)] by (simp add: events.truncate_def)
  ultimately show ?thesis using ctxD(2) [OF assms(1)] by (simp add: ctx_inv_def unlink_keeps [OF assms(2)])
qed

lemma ctx_left:
  assumes "ctx_inv ops L A C (add_mset b X) ts s"
  shows "let s' = usbi_hotplug_notification ops b LIBUSB_HOTPLUG_EVENT_DEVICE_LEFT s in
    ctx_inv ops L A C (if fst (alloc s) = None then add_mset b X else X) ts s' \<and> usb_devs s' = usb_devs s"
proof -
  obtain q s1 where a: "alloc s = (q, s1)" by fastforce
  note k = alloc_keeps [OF a]
  have i: "ctx_inv ops L (opt_list q @ A) C (add_mset b X) ts s1" by (rule ctx_alloc [OF assms a])
  show ?thesis
  proof (cases q)
    case None
    then show ?thesis using i a k(1) by (simp add: usbi_hotplug_notification_def opt_list_def)
  next
    case (Some mb)
    let ?m = "\<lparr>msg_event = LIBUSB_HOTPLUG_EVENT_DEVICE_LEFT, msg_device = b\<rparr>"
    have i: "ctx_inv ops L (mb # A) C (add_mset b X) ts s1" using i Some by (simp add: opt_list_def)
    have "msgs_ok (set (usb_devs s1) \<union> set_mset X) ((ts @ hotplug_msgs s1) @ [(mb, ?m)])"
      by (rule msgs_ok_left [OF ctx_resD(3) [OF i]]) auto
    then have "ctx_inv ops L A C X ts (add_hotplug_msg (os_pipe ops) (mb, ?m) s1)"
      by (intro ctx_message [OF i]) (simp_all add: held_def)
    then show ?thesis using a Some k(1) by (simp add: usbi_hotplug_notification_def add_hotplug_msg_keeps Let_def)
  qed
qed

definition lost :: "'d libusb_context \<Rightarrow> nat \<Rightarrow> nat multiset" where
  "lost s b = (if hotplug_ready s \<and> fst (alloc s) \<noteq> None then {#} else {#b#})"

lemma ctx_disconnect:
  assumes "ctx_inv ops L A C X ts s" and "b \<in> set (usb_devs s)"
  shows "ctx_inv ops L A C (lost s b + X) ts (usbi_disconnect_device ops b s)"
    and "usb_devs (usbi_disconnect_device ops b s) = remove1 b (usb_devs s)"
proof -
  let ?s1 = "update_device b (\<lambda>d. d\<lparr>d_attached := False\<rparr>) s"
  have "b \<in># held C X (ts @ hotplug_msgs s) s" using assms(2) by (simp add: held_def)
  note i1 = ctx_update [OF assms(1) this, of "\<lambda>d. d\<lparr>d_attached := False\<rparr>"]
  have i1: "ctx_inv ops L A C X ts ?s1" "usb_devs ?s1 = usb_devs s" using i1 by simp_all
  let ?s2 = "unlink_device b ?s1"
  have b: "b \<in> set (usb_devs ?s1)" using assms(2) i1(2) by simp
  have i2: "ctx_inv ops L A C (add_mset b X) ts ?s2" by (rule ctx_unlink [OF i1(1) b])
  have "\<exists>ds. ?s2 = s\<lparr>us_devices := ds, usb_devs := remove1 b (usb_devs s)\<rparr>"
  proof -
    obtain ds where "?s1 = s\<lparr>us_devices := ds\<rparr>"
      using devices_update [OF ctx_resD(2) [OF assms(1)] \<open>b \<in># held C X (ts @ hotplug_msgs s) s\<close>, of "\<lambda>d. d\<lparr>d_attached := False\<rparr>"]
      by auto
    then show ?thesis using unlink_keeps [OF b] by auto
  qed
  then have k: "hotplug_ready ?s2 = hotplug_ready s" "fst (alloc ?s2) = fst (alloc s)" "usb_devs ?s2 = remove1 b (usb_devs s)"
    by (auto simp: alloc_def split: prod.splits)
  have "usbi_disconnect_device ops b s =
      (if hotplug_ready ?s2 then usbi_hotplug_notification ops b LIBUSB_HOTPLUG_EVENT_DEVICE_LEFT ?s2 else ?s2)"
    using ctx_resD(1) [OF assms(1)] by (simp add: usbi_disconnect_device_def Let_def)
  then show "ctx_inv ops L A C (lost s b + X) ts (usbi_disconnect_device ops b s)"
    "usb_devs (usbi_disconnect_device ops b s) = remove1 b (usb_devs s)"
    using ctx_left [OF i2] i2 k by (auto simp: lost_def Let_def)
qed


end
