(* ===== verification/Usb_Callbacks.thy ===== *)
theory Usb_Callbacks
  imports Usb_Contexts
begin

text \<open>
  The invariant of a context under hotplug callbacks: registration, matching, the delivery of messages and
  \<^verbatim>\<open>libusb_exit\<close>, after which nothing is left.
\<close>

section \<open>Callbacks\<close>

text \<open>Callbacks are marked, called and taken off the list; the references stay as they are.\<close>

definition calm :: "'d libusb_context \<Rightarrow> 'd libusb_context \<Rightarrow> bool" where
  "calm s s' \<longleftrightarrow> usb_devs s' = usb_devs s \<and> hotplug_msgs s' = hotplug_msgs s \<and> open_devs s' = open_devs s \<and>
     fst ` set (hotplug_cbs s') \<subseteq> fst ` set (hotplug_cbs s)"

lemma calm_refl [simp]: "calm s s"
  by (simp add: calm_def)

lemma calm_trans [trans]: "calm s s' \<Longrightarrow> calm s' s'' \<Longrightarrow> calm s s''"
  using subset_trans [of "fst ` set (hotplug_cbs s'')" "fst ` set (hotplug_cbs s')" "fst ` set (hotplug_cbs s)"]
  by (simp add: calm_def)

lemma calmD:
  "calm s s' \<Longrightarrow> usb_devs s' = usb_devs s" "calm s s' \<Longrightarrow> hotplug_msgs s' = hotplug_msgs s"
  "calm s s' \<Longrightarrow> open_devs s' = open_devs s" "calm s s' \<Longrightarrow> fst ` set (hotplug_cbs s') \<subseteq> fst ` set (hotplug_cbs s)"
  by (simp_all add: calm_def)

lemma calm_frame: "frame ops s s' \<Longrightarrow> has_hotplug ops \<Longrightarrow> calm s s'"
  using frameD [of ops s s'] by (simp add: calm_def)

lemma calm_release: "calm s (release b s)"
  by (simp add: calm_def release_def)

lemma ctx_callbacks:
  assumes "ctx_inv ops L A C X ts s" and "map fst cbs = map fst (hotplug_cbs s)"
  shows "ctx_inv ops L A C X ts (s\<lparr>hotplug_cbs := cbs\<rparr>)"
  using assms by (simp add: ctx_inv_def ctx_res_def devices_inv_def devices_ok_def blocks_def held_def
      event_inv_def usbi_pending_events_def)

lemma ctx_os: "ctx_inv ops L A C X ts (s\<lparr>os_data := os\<rparr>) = ctx_inv ops L A C X ts s"
  by (simp add: ctx_inv_def ctx_res_def devices_inv_def devices_ok_def blocks_def held_def
      event_inv_def usbi_pending_events_def)

lemma ctx_raise:
  assumes "ctx_inv ops L A C X ts s" and "\<And>s. event_pipe (update s) = event_pipe s"
    and "\<And>s. device_close (update s) = device_close s" and "\<And>s. hotplug_msgs (update s) = hotplug_msgs s"
    and "events.more (update s) = events.more s"
  shows "ctx_inv ops L A C X ts (raise_event (os_pipe ops) update s)"
proof -
  note m = raise_event_more [where update = update and s = s and cap = "os_pipe ops", OF assms(5)]
  have "event_inv (0, Unlocked, raise_event (os_pipe ops) update s)"
    by (rule raise_event_inv [OF ctxD(3,2) [OF assms(1)]]) (use ctxD(3) [OF assms(1)] assms(2,3) in \<open>simp_all add: event_inv_def\<close>)
  then show ?thesis using assms(1,4) m(2) by (simp add: ctx_inv_def res_more(1) [OF m(1)])
qed

lemma ctx_deregister:
  assumes "ctx_inv ops L A C X ts s"
  shows "ctx_inv ops L A C X ts (libusb_hotplug_deregister_callback ops handle s)"
    and "map fst (hotplug_cbs (libusb_hotplug_deregister_callback ops handle s)) = map fst (hotplug_cbs s)"
    and "calm s (libusb_hotplug_deregister_callback ops handle s)"
proof -
  let ?s = "s\<lparr>hotplug_cbs := map (\<lambda>(b, cb). (b, if handle = cb_handle cb then mark_callback cb else cb)) (hotplug_cbs s)\<rparr>"
  let ?f = "set_event_flag USBI_EVENT_HOTPLUG_CB_DEREGISTERED"
  have f: "map fst (hotplug_cbs ?s) = map fst (hotplug_cbs s)" by (simp add: case_prod_unfold)
  have i: "ctx_inv ops L A C X ts ?s" by (rule ctx_callbacks [OF assms]) (use f in simp)
  have "events.more (?f ?s) = events.more ?s" "hotplug_msgs (?f ?s) = hotplug_msgs ?s"
    by (cases s, simp add: set_event_flag_def)+
  note r = ctx_raise [OF i, of ?f, OF _ _ _ this(1)] and m = raise_event_more [of ?f ?s, OF this(1)]
    and h = this(2)
  have "ctx_inv ops L A C X ts (signal_deregistered (os_pipe ops) ?s)"
    unfolding signal_deregistered_def by (rule r) (simp_all add: set_event_flag_def)
  moreover have k: "hotplug_cbs (signal_deregistered (os_pipe ops) ?s) = hotplug_cbs ?s"
    "calm ?s (signal_deregistered (os_pipe ops) ?s)"
    unfolding signal_deregistered_def calm_def m(2) h using res_more(2-4) [OF m(1)] by auto
  moreover have "calm s ?s" using f by (auto simp: calm_def image_iff)
  ultimately show "ctx_inv ops L A C X ts (libusb_hotplug_deregister_callback ops handle s)"
    "map fst (hotplug_cbs (libusb_hotplug_deregister_callback ops handle s)) = map fst (hotplug_cbs s)"
    "calm s (libusb_hotplug_deregister_callback ops handle s)"
    using i assms f calm_trans [of s ?s] by (auto simp: libusb_hotplug_deregister_callback_def Let_def)
qed

lemma ctx_deregister_all:
  assumes "ctx_inv ops L A C X ts s"
  shows "ctx_inv ops L A C X ts (fold (libusb_hotplug_deregister_callback ops) handles s) \<and>
    map fst (hotplug_cbs (fold (libusb_hotplug_deregister_callback ops) handles s)) = map fst (hotplug_cbs s) \<and>
    calm s (fold (libusb_hotplug_deregister_callback ops) handles s)"
  using assms
proof (induction handles arbitrary: s)
  case (Cons h hs)
  note d = ctx_deregister [OF Cons.prems, of h]
  from Cons.IH [OF d(1)] d(2) calm_trans [OF d(3)] show ?case by simp
qed simp

lemma ctx_unlink_callback:
  assumes "ctx_inv ops L A C X ts s" and "b \<in> fst ` set (hotplug_cbs s)"
  shows "ctx_inv ops L A C X ts (unlink_callback b s)" and "calm s (unlink_callback b s)"
    and "fst ` set (hotplug_cbs (unlink_callback b s)) = fst ` set (hotplug_cbs s) - {b}"
proof -
  let ?s = "s\<lparr>hotplug_cbs := filter (\<lambda>(x, cb). x \<noteq> b) (hotplug_cbs s)\<rparr>" and ?ms = "ts @ hotplug_msgs s"
  have dist: "distinct (map fst (hotplug_cbs s))" by (rule res_distinct(2) [OF ctxD(1) [OF assms(1)]])
  have m: "mset (map fst (hotplug_cbs s)) = mset (b # map fst (filter (\<lambda>(x, cb). x \<noteq> b) (hotplug_cbs s)))"
    using mset_remove_key [OF dist assms(2)] by simp
  have "devices_inv ops L (b # blocks A ?ms ?s) (held C X ?ms s) s"
    by (rule devices_perm [OF ctx_resD(2) [OF assms(1)]]) (use m in \<open>simp add: blocks_def\<close>)
  then have "devices_inv ops L (blocks (b # A) ?ms ?s) (held C X ?ms ?s) ?s"
    using devices_perm [of ops L "b # blocks A ?ms ?s" "held C X ?ms s" s "blocks (b # A) ?ms ?s"]
    by (simp add: devices_inv_def devices_ok_def blocks_def held_def)
  then have "ctx_inv ops L (b # A) C X ts ?s"
    using assms(1) by (simp add: ctx_inv_def ctx_res_def event_inv_def usbi_pending_events_def)
  then show "ctx_inv ops L A C X ts (unlink_callback b s)" unfolding unlink_callback_def by (rule ctx_release)
  show "fst ` set (hotplug_cbs (unlink_callback b s)) = fst ` set (hotplug_cbs s) - {b}"
    by (force simp: unlink_callback_def release_def)
  then show "calm s (unlink_callback b s)" by (auto simp: calm_def unlink_callback_def release_def)
qed

text \<open>A device that is held is there.\<close>

lemma held_found:
  assumes "ctx_inv ops L A C X ts s" and "b \<in># held C X (ts @ hotplug_msgs s) s"
  obtains d where "find_device s b = Some d" "0 < d_refcnt d"
proof -
  have "counts_ok (held C X (ts @ hotplug_msgs s) s) (us_devices s)"
    using ctx_resD(2) [OF assms(1)] by (simp add: devices_inv_def devices_ok_def)
  from counts_find [OF this assms(2)] show ?thesis using that by (metis find_device_def)
qed

lemma ctx_match_cb:
  assumes "ctx_inv ops L A C X ts s" and "b \<in># held C X (ts @ hotplug_msgs s) s"
    and "usbi_hotplug_match_cb ops call b event cb s = (ret, s')"
  shows "ctx_inv ops L A C X ts s' \<and> map fst (hotplug_cbs s') = map fst (hotplug_cbs s) \<and> calm s s'"
proof -
  obtain d where d: "find_device s b = Some d" using held_found [OF assms(1,2)] .
  show ?thesis
  proof (cases "callback_matches (d_device_descriptor d) event cb")
    case False
    then show ?thesis using assms(1,3) d by (simp add: usbi_hotplug_match_cb_def)
  next
    case True
    obtain r hs os where c: "call (cb_fn cb) b event (cb_user_data cb) (os_data s) = ((r, hs), os)" by (metis surj_pair)
    have "ctx_inv ops L A C X ts (s\<lparr>os_data := os\<rparr>)" using assms(1) by (simp add: ctx_os)
    moreover have "calm s (s\<lparr>os_data := os\<rparr>)" by (simp add: calm_def)
    ultimately show ?thesis
      using assms(3) d True c ctx_deregister_all [of ops L A C X ts "s\<lparr>os_data := os\<rparr>" hs] calm_trans
      by (auto simp: usbi_hotplug_match_cb_def)
  qed
qed

text \<open>A device that is on the list of the connected ones, or in a message being delivered, stays held.\<close>

definition kept :: "nat \<Rightarrow> nat multiset \<Rightarrow> nat multiset \<Rightarrow> messages \<Rightarrow> 'd libusb_context \<Rightarrow> bool" where
  "kept b C X ts s \<longleftrightarrow> b \<in> set (usb_devs s) \<or> b \<in># C \<or> b \<in># X \<or> b \<in> set (left_refs ts) \<or>
     b \<in> set (left_refs (hotplug_msgs s))"

lemma keptD: "kept b C X ts s \<Longrightarrow> b \<in># held C X (ts @ hotplug_msgs s) s"
  by (auto simp: kept_def held_def)

lemma kept_calm: "kept b C X ts s \<Longrightarrow> calm s s' \<Longrightarrow> kept b C X ts s'"
  by (simp add: kept_def calm_def)

lemma ctx_match_loop:
  assumes "ctx_inv ops L A C X ts s" and "kept b C X ts s" and "distinct bs" and "set bs \<subseteq> fst ` set (hotplug_cbs s)"
  shows "ctx_inv ops L A C X ts (hotplug_match_loop ops call b event bs s) \<and>
    calm s (hotplug_match_loop ops call b event bs s)"
  using assms
proof (induction bs arbitrary: s)
  case (Cons c bs)
  obtain cb where cb: "map_of (hotplug_cbs s) c = Some cb"
    using Cons.prems(4) by (metis insert_subset list.simps(15) map_of_eq_None_iff option.exhaust)
  show ?case
  proof (cases "needs_free cb")
    case True
    then show ?thesis using Cons cb by simp
  next
    case False
    obtain ret s1 where m: "usbi_hotplug_match_cb ops call b event cb s = (ret, s1)" by fastforce
    note i1 = ctx_match_cb [OF Cons.prems(1) keptD [OF Cons.prems(2)] m]
    have f1: "fst ` set (hotplug_cbs s1) = fst ` set (hotplug_cbs s)" using i1 by (metis list.set_map)
    then have c1: "c \<in> fst ` set (hotplug_cbs s1)" using Cons.prems(4) by auto
    define s2 where "s2 = (if ret \<noteq> 0 then unlink_callback c s1 else s1)"
    have i2: "ctx_inv ops L A C X ts s2" "calm s s2" "fst ` set (hotplug_cbs s) - {c} \<subseteq> fst ` set (hotplug_cbs s2)"
      using i1 ctx_unlink_callback [OF conjunct1 [OF i1] c1] f1 calm_trans by (auto simp: s2_def)
    have "kept b C X ts s2" "set bs \<subseteq> fst ` set (hotplug_cbs s2)"
      using kept_calm [OF Cons.prems(2) i2(2)] i2(3) Cons.prems(3,4) by auto
    from Cons.IH [OF i2(1) this(1) _ this(2)] Cons.prems(3) calm_trans [OF i2(2)]
    show ?thesis using cb False m by (auto simp: s2_def Let_def split: if_splits)
  qed
qed simp

lemma ctx_match:
  assumes "ctx_inv ops L A C X ts s" and "kept b C X ts s"
  shows "ctx_inv ops L A C X ts (usbi_hotplug_match ops call b event s)" and "calm s (usbi_hotplug_match ops call b event s)"
  using ctx_match_loop [OF assms res_distinct(2) [OF ctxD(1) [OF assms(1)]], of call event]
  by (simp_all add: usbi_hotplug_match_def)

section \<open>Delivery\<close>

lemma ctx_drop_message:
  assumes "ctx_inv ops L A C X (m # ts) s"
  shows "ctx_inv ops L (fst m # A)
    (if msg_event (snd m) = LIBUSB_HOTPLUG_EVENT_DEVICE_LEFT then add_mset (msg_device (snd m)) C else C) X ts s"
proof -
  let ?C = "if msg_event (snd m) = LIBUSB_HOTPLUG_EVENT_DEVICE_LEFT then add_mset (msg_device (snd m)) C else C"
  have "devices_inv ops L (blocks (fst m # A) (ts @ hotplug_msgs s) s) (held ?C X (ts @ hotplug_msgs s) s) s"
    using devices_perm [OF ctx_resD(2) [OF assms], of "blocks (fst m # A) (ts @ hotplug_msgs s) s"]
    by (auto simp: blocks_def held_def)
  then show ?thesis using assms by (auto simp: ctx_inv_def ctx_res_def)
qed

lemma ctx_unref_calm:
  assumes "ctx_inv ops L A (add_mset b C) X ts s"
  shows "calm s (libusb_unref_device ops (Some b) s)"
proof -
  have "frame ops s (libusb_unref_device ops (Some b) s)"
    using unref_device(3) [of ops L "blocks A (ts @ hotplug_msgs s) s" b "held C X (ts @ hotplug_msgs s) s" s] ctx_resD(2) [OF assms] by (simp add: devices_inv_def)
  then show ?thesis using calm_frame ctx_resD(1) [OF assms] by blast
qed

lemma ctx_deliver:
  assumes "ctx_inv ops L A C X (ts @ us) s"
  shows "ctx_inv ops L A C X us (deliver_messages ops call ts s) \<and> calm s (deliver_messages ops call ts s)"
  using assms
proof (induction ts arbitrary: s)
  case (Cons m ts)
  let ?b = "msg_device (snd m)" and ?left = "msg_event (snd m) = LIBUSB_HOTPLUG_EVENT_DEVICE_LEFT"
  have "kept ?b C X (m # ts @ us) s" using ctx_resD(3) [OF Cons.prems] by (auto simp: kept_def)
  define s1 where "s1 = usbi_hotplug_match ops call ?b (msg_event (snd m)) s"
  have i1: "ctx_inv ops L A C X (m # ts @ us) s1" "calm s s1"
    using ctx_match [of ops L A C X "m # ts @ us" s ?b] Cons.prems \<open>kept ?b C X (m # ts @ us) s\<close> by (simp_all add: s1_def)
  note d = ctx_drop_message [OF i1(1)]
  define s2 where "s2 = (if ?left then libusb_unref_device ops (Some ?b) s1 else s1)"
  have i2: "ctx_inv ops L (fst m # A) C X (ts @ us) s2" "calm s s2"
    using d ctx_unref [of ops L "fst m # A" ?b C X "ts @ us" s1] ctx_unref_calm [of ops L "fst m # A" ?b C X "ts @ us" s1]
      i1(2) calm_trans by (auto simp: s2_def split: if_splits)
  have "deliver_messages ops call (m # ts) s = deliver_messages ops call ts (release (fst m) s2)"
    by (simp add: s1_def s2_def Let_def)
  moreover note ih = Cons.IH [OF ctx_release [OF i2(1)]]
  moreover note calm_trans [OF calm_trans [OF i2(2) calm_release] conjunct2 [OF ih]]
  ultimately show ?case by (simp only:)
qed simp

lemma deregister_loop:
  assumes "ctx_inv ops L A C X ts s" and "distinct (map fst cbs)" and "fst ` set cbs \<subseteq> fst ` set (hotplug_cbs s)"
  shows "let s' = fold (\<lambda>(b, cb) s. if forced \<or> needs_free cb then unlink_callback b s else s) cbs s in
    ctx_inv ops L A C X ts s' \<and> calm s s' \<and>
    (forced \<longrightarrow> fst ` set (hotplug_cbs s') = fst ` set (hotplug_cbs s) - fst ` set cbs)"
  using assms
proof (induction cbs arbitrary: s)
  case (Cons x cbs)
  obtain b cb where x: "x = (b, cb)" by fastforce
  have b: "b \<in> fst ` set (hotplug_cbs s)" using Cons.prems(3) x by auto
  define t where "t = (if forced \<or> needs_free cb then unlink_callback b s else s)"
  have t: "ctx_inv ops L A C X ts t" "calm s t" "fst ` set (hotplug_cbs s) - {b} \<subseteq> fst ` set (hotplug_cbs t)"
    "forced \<longrightarrow> fst ` set (hotplug_cbs t) = fst ` set (hotplug_cbs s) - {b}"
    using Cons.prems(1) ctx_unlink_callback [OF Cons.prems(1) b] by (auto simp: t_def)
  have "fst ` set cbs \<subseteq> fst ` set (hotplug_cbs s) - {b}" using Cons.prems(2,3) unfolding x by (simp add: subset_Diff_insert)
  then have "fst ` set cbs \<subseteq> fst ` set (hotplug_cbs t)" using t(3) by (rule subset_trans)
  from Cons.IH [OF t(1) _ this] Cons.prems(2)
  show ?case using calm_trans [OF t(2)] t(4) by (auto simp: x t_def [symmetric] Let_def)
qed simp

lemma ctx_deregister_marked:
  assumes "ctx_inv ops L A C X ts s"
  shows "ctx_inv ops L A C X ts (usbi_hotplug_deregister forced s)" and "calm s (usbi_hotplug_deregister forced s)"
    and "forced \<Longrightarrow> hotplug_cbs (usbi_hotplug_deregister forced s) = []"
  using deregister_loop [OF assms res_distinct(2) [OF ctxD(1) [OF assms]] subset_refl, of forced]
  by (auto simp: usbi_hotplug_deregister_def Let_def)

lemma ctx_take:
  assumes "ctx_inv ops L A C X [] s" and "0 < event_pipe s" and "take_events s = (dereg, msgs, t)"
  obtains s1 where "clear_if_idle t = Some s1" "ctx_inv ops L A C X msgs s1" "events.more s1 = events.more s"
    "hotplug_msgs s1 = []"
proof -
  have t: "event_pipe t = event_pipe s" "device_close t = device_close s" "hotplug_msgs t = []" "msgs = hotplug_msgs s"
    "events.more t = events.more s"
    using assms(3) by (cases s; auto simp: take_events_def Let_def)+
  obtain s1 where s1: "clear_if_idle t = Some s1" "usbi_pending_events s1 \<longrightarrow> 0 < event_pipe s1" "device_close s1 = device_close t"
    using clear_if_idle_inv [of t] assms(2) t(1) by auto
  note m = clear_if_idle_more [OF s1(1)]
  have "event_inv (0, Unlocked, s1)" using s1(2,3) ctxD(3) [OF assms(1)] t(2) by (simp add: event_inv_def)
  moreover have "ctx_res ops L A C X (msgs @ hotplug_msgs s1) s1"
    using ctxD(1) [OF assms(1)] res_more(1) [of s1 s] m t by simp
  ultimately have "ctx_inv ops L A C X msgs s1" using ctxD(2) [OF assms(1)] by (simp add: ctx_inv_def)
  then show ?thesis using that s1(1) m t by simp
qed

lemma ctx_handle:
  assumes "ctx_inv ops L A C X [] s" and "0 < event_pipe s"
  obtains s' where "handle_event_pipe ops call s = Some s'" "ctx_inv ops L A C X [] s'" "usb_devs s' = usb_devs s"
    "open_devs s' = open_devs s" "hotplug_msgs s' = []" "fst ` set (hotplug_cbs s') \<subseteq> fst ` set (hotplug_cbs s)"
proof -
  obtain dereg msgs t where t: "take_events s = (dereg, msgs, t)" by (metis surj_pair)
  obtain s1 where s1: "clear_if_idle t = Some s1" "ctx_inv ops L A C X msgs s1" "events.more s1 = events.more s" "hotplug_msgs s1 = []"
    using ctx_take [OF assms t] .
  define s2 where "s2 = (if dereg then usbi_hotplug_deregister False s1 else s1)"
  have i2: "ctx_inv ops L A C X msgs s2" "calm s1 s2" using ctx_deregister_marked [OF s1(2), of False] s1(2) by (simp_all add: s2_def)
  have i3: "ctx_inv ops L A C X [] (deliver_messages ops call msgs s2)" "calm s1 (deliver_messages ops call msgs s2)"
    using ctx_deliver [of ops L A C X msgs "[]" s2 call] i2 calm_trans [OF i2(2)] by simp_all
  note m = res_more(2-4) [OF s1(3)] and c = calmD [OF i3(2)]
  show ?thesis
    by (rule that [OF _ i3(1)]) (use t s1 c m in \<open>simp_all add: handle_event_pipe_def s2_def\<close>)
qed

lemma update_pollfds_keeps:
  assumes "update_pollfds allocated s = Some (r, s')"
  shows "events.more s' = events.more s" "hotplug_msgs s' = hotplug_msgs s" "allocated \<Longrightarrow> r = 0"
proof -
  have "events.more (s\<lparr>event_flags := f\<rparr>) = events.more s" for f by (cases s) simp
  then show "events.more s' = events.more s" "hotplug_msgs s' = hotplug_msgs s" "allocated \<Longrightarrow> r = 0"
    using assms clear_if_idle_more by (fastforce simp: update_pollfds_def split: if_splits)+
qed

lemma ctx_handle_events:
  assumes "ctx_inv ops L A C X [] s"
  obtains r s' where "handle_events ops call allocated poll_error s = Some (r, s')" "ctx_inv ops L A C X [] s'"
    "usb_devs s' = usb_devs s" "open_devs s' = open_devs s" "fst ` set (hotplug_cbs s') \<subseteq> fst ` set (hotplug_cbs s)"
    "allocated \<Longrightarrow> poll_error = None \<Longrightarrow> r = 0 \<and> hotplug_msgs s' = []"
proof -
  obtain r s1 where u: "update_pollfds allocated s = Some (r, s1)" "event_inv (0, Unlocked, s1)"
    using update_pollfds_inv [OF ctxD(3) [OF assms]] by blast
  note k = update_pollfds_keeps [OF u(1)] and m = res_more [OF update_pollfds_keeps(1) [OF u(1)]]
  have i1: "ctx_inv ops L A C X [] s1" using ctxD(1,2) [OF assms] u(2) k(2) m(1) by (simp add: ctx_inv_def)
  consider (failed) "r \<noteq> 0" | (poll) e where "r = 0" "poll_error = Some e" | (idle) "r = 0" "poll_error = None" "event_pipe s1 = 0"
    | (event) "r = 0" "poll_error = None" "0 < event_pipe s1" by auto
  then show ?thesis
  proof cases
    case failed
    then show ?thesis using that [of r s1] u(1) i1 m(2-4) k(3) by (auto simp: handle_events_def)
  next
    case (poll e)
    then show ?thesis
      using that [of "if e = Interrupted then LIBUSB_ERROR_INTERRUPTED else LIBUSB_ERROR_IO" s1] u(1) i1 m(2-4)
      by (cases e) (simp_all add: handle_events_def)
  next
    case idle
    then have "hotplug_msgs s1 = []" using u(2) by (simp add: event_inv_def usbi_pending_events_def)
    then show ?thesis using that [of 0 s1] u(1) i1 m(2-4) idle by (simp add: handle_events_def)
  next
    case event
    obtain s2 where "handle_event_pipe ops call s1 = Some s2" "ctx_inv ops L A C X [] s2" "usb_devs s2 = usb_devs s1"
      "open_devs s2 = open_devs s1" "hotplug_msgs s2 = []" "fst ` set (hotplug_cbs s2) \<subseteq> fst ` set (hotplug_cbs s1)"
      using ctx_handle [OF i1 event(3)] .
    then show ?thesis using that [of 0 s2] u(1) m(2-4) event by (simp add: handle_events_def)
  qed
qed

section \<open>The other calls of the client and the backend\<close>

lemma ctx_handles:
  assumes "ctx_inv ops L A C X ts s" and "map fst hs = map fst (open_devs s)"
    and "map (h_dev \<circ> snd) hs = map (h_dev \<circ> snd) (open_devs s)"
  shows "ctx_inv ops L A C X ts (s\<lparr>open_devs := hs\<rparr>)"
proof -
  have "mset (map (h_dev \<circ> snd) hs) = mset (map (h_dev \<circ> snd) (open_devs s))" using assms(3) by (rule arg_cong)
  then show ?thesis using assms(1,2) by (simp add: ctx_inv_def ctx_res_def devices_inv_def devices_ok_def blocks_def held_def
      event_inv_def usbi_pending_events_def)
qed

lemma ctx_put_handle:
  assumes "find_handle s hb = Some hdl" and "h_dev hdl' = h_dev hdl" and "ctx_inv ops L A C X ts s"
  shows "ctx_inv ops L A C X ts (put_handle hb hdl' s)"
proof -
  have "h_dev (if x = hb then hdl' else e) = h_dev e" if "(x, e) \<in> set (open_devs s)" for x e
    using that assms(1,2) map_of_is_SomeI [OF res_distinct(1) [OF ctxD(1) [OF assms(3)]] that]
    by (auto simp: find_handle_def)
  then show ?thesis unfolding put_handle_def by (intro ctx_handles [OF assms(3)]) auto
qed

lemma ctx_interfaces:
  assumes "ctx_inv ops L A C X ts s"
  shows "libusb_claim_interface ops hb n s = Some (r, s') \<Longrightarrow> ctx_inv ops L A C X ts s'"
    and "libusb_release_interface ops hb n s = Some (r, s') \<Longrightarrow> ctx_inv ops L A C X ts s'"
    and "libusb_set_interface_alt_setting ops hb n alt s = Some (r, s') \<Longrightarrow> ctx_inv ops L A C X ts s'"
proof -
  have p: "ctx_inv ops L A C X ts (put_handle hb (hdl\<lparr>h_claimed_interfaces := c\<rparr>) (s\<lparr>os_data := os\<rparr>))"
    if "find_handle s hb = Some hdl" for hdl c os
    by (rule ctx_put_handle [of _ _ hdl]) (use that assms in \<open>simp_all add: ctx_os find_handle_def\<close>)
  show "libusb_claim_interface ops hb n s = Some (r, s') \<Longrightarrow> ctx_inv ops L A C X ts s'"
    using assms p by (auto simp: libusb_claim_interface_def ctx_os split: if_splits option.splits prod.splits)
  show "libusb_release_interface ops hb n s = Some (r, s') \<Longrightarrow> ctx_inv ops L A C X ts s'"
    using assms p by (auto simp: libusb_release_interface_def ctx_os split: if_splits option.splits prod.splits)
  show "libusb_set_interface_alt_setting ops hb n alt s = Some (r, s') \<Longrightarrow> ctx_inv ops L A C X ts s'"
    using assms by (auto simp: libusb_set_interface_alt_setting_def ctx_os split: if_splits option.splits prod.splits)
qed

lemma ctx_by_session_id:
  assumes "ctx_inv ops L A C X ts s" and "usbi_get_device_by_session_id session_id s = (p, s')"
  shows "ctx_inv ops L A (mset (opt_list p) + C) X ts s'"
proof (cases p)
  case None
  then show ?thesis using assms by (auto simp: usbi_get_device_by_session_id_def opt_list_def split: list.splits)
next
  case (Some b)
  let ?f = "filter (\<lambda>b. map_option d_session_data (find_device s b) = Some session_id) (usb_devs s)"
  obtain bs where f: "?f = b # bs" "s' = libusb_ref_device b s"
    using assms(2) Some by (auto simp: usbi_get_device_by_session_id_def split: list.splits)
  then have "b \<in> set ?f" by simp
  then have "b \<in># held C X (ts @ hotplug_msgs s) s" by (auto simp: held_def)
  then show ?thesis using ctx_ref [OF assms(1)] f(2) Some by (simp add: opt_list_def)
qed

lemma ctx_sanitize:
  assumes "ctx_inv ops L A C X ts s" and "b \<in># held C X (ts @ hotplug_msgs s) s"
    and "usbi_sanitize_device ops b s = (r, s')"
  shows "ctx_inv ops L A C X ts s'"
proof -
  obtain r0 desc os where c: "usbi_device_cache_descriptor
        \<lparr>be_get_device_descriptor = os_get_device_descriptor ops b,
         be_get_active_config_descriptor = \<lambda>n d. ((0, [], False), d),
         be_get_config_descriptor = \<lambda>i n d. ((0, [], False), d), be_get_config_descriptor_by_value = None\<rparr>
        (replicate 18 0) (os_data s) = ((r0, desc), os)" by (metis surj_pair)
  let ?s0 = "s\<lparr>os_data := os\<rparr>"
  have i0: "ctx_inv ops L A C X ts ?s0" "b \<in># held C X (ts @ hotplug_msgs ?s0) ?s0"
    using assms(1,2) by (simp_all add: ctx_os held_def)
  let ?s1 = "update_device b (\<lambda>d. d\<lparr>d_device_descriptor := desc\<rparr>) ?s0"
  note i1 = ctx_update [OF i0, of "\<lambda>d. d\<lparr>d_device_descriptor := desc\<rparr>"]
  obtain ds where "?s1 = ?s0\<lparr>us_devices := ds\<rparr>"
    using devices_update [OF ctx_resD(2) [OF i0(1)] i0(2), of "\<lambda>d. d\<lparr>d_device_descriptor := desc\<rparr>"] by auto
  then have "held C X (ts @ hotplug_msgs ?s1) ?s1 = held C X (ts @ hotplug_msgs ?s0) ?s0" by (simp add: held_def)
  then have b: "b \<in># held C X (ts @ hotplug_msgs ?s1) ?s1" using i0(2) by simp
  note i2 = ctx_update(1) [OF i1(1) b, of "\<lambda>d. d\<lparr>d_num_configurations := dev_bNumConfigurations desc\<rparr>"]
  show ?thesis using assms(3) c i1(1) i2 by (auto simp: usbi_sanitize_device_def Let_def split: if_splits)
qed

lemma ctx_open_vid_pid:
  assumes "ctx_inv ops L A C X ts s" and "quiet ops"
    and "libusb_open_device_with_vid_pid ops mutex_ok vid pid s = (hp, s')"
  shows "ctx_inv ops L A C X ts s'"
proof -
  obtain r list t where g: "libusb_get_device_list ops s = ((r, list), t)" by (metis surj_pair)
  show ?thesis
  proof (cases "r < 0")
    case True
    then show ?thesis using assms(3) g ctx_get_list [OF assms(1,2) g] by (auto simp: libusb_open_device_with_vid_pid_def)
  next
    case False
    then obtain b where b: "list = Some (b, usb_devs s)" "ctx_inv ops L (b # A) (mset (usb_devs s) + C) X ts t"
      using ctx_get_list [OF assms(1,2) g] by (auto simp: usb_consts)
    show ?thesis
    proof (cases "find_vid_pid t vid pid (usb_devs s)")
      case None
      then show ?thesis using assms(3) g False b(1) ctx_free_list [OF b(2)] by (auto simp: libusb_open_device_with_vid_pid_def)
    next
      case (Some dev)
      obtain ro ho u where o: "libusb_open ops mutex_ok dev t = ((ro, ho), u)" by (metis surj_pair)
      have "dev \<in> set (usb_devs s)"
        using Some by (auto simp: find_vid_pid_def filter_eq_Cons_iff split: list.splits)
      then have "dev \<in># held (mset (usb_devs s) + C) X (ts @ hotplug_msgs t) t" by simp
      note i = ctx_open(1) [OF b(2) this o]
      show ?thesis using assms(3) g False b(1) Some o ctx_free_list [OF i] by (auto simp: libusb_open_device_with_vid_pid_def)
    qed
  qed
qed

section \<open>Registration\<close>

lemma ctx_enumerate:
  assumes "ctx_inv ops L A C X ts s" and "set devs \<subseteq> set_mset C" and "b \<in> fst ` set (hotplug_cbs s)"
  shows "ctx_inv ops L A C X ts (enumerate_devices ops call b devs s) \<and> calm s (enumerate_devices ops call b devs s)"
  using assms
proof (induction devs arbitrary: s)
  case (Cons dev devs)
  obtain cb where cb: "map_of (hotplug_cbs s) b = Some cb" using Cons.prems(3) by (metis map_of_eq_None_iff option.exhaust)
  obtain r t where m: "usbi_hotplug_match_cb ops call dev LIBUSB_HOTPLUG_EVENT_DEVICE_ARRIVED cb s = (r, t)" by fastforce
  have "dev \<in># held C X (ts @ hotplug_msgs s) s" using Cons.prems(2) by (simp add: held_def)
  note i = ctx_match_cb [OF Cons.prems(1) this m]
  have b: "b \<in> fst ` set (hotplug_cbs t)" using i Cons.prems(3) by (metis list.set_map)
  have "set devs \<subseteq> set_mset C" using Cons.prems(2) by simp
  note ih = Cons.IH [OF conjunct1 [OF i] this b]
  then show ?case using cb m calm_trans [OF conjunct2 [OF conjunct2 [OF i]] conjunct2 [OF ih]] by simp
qed simp

lemma ctx_add_callback:
  assumes "ctx_inv ops L (b # A) C X ts s"
  shows "ctx_inv ops L A C X ts (s\<lparr>next_hotplug_cb_handle := h, hotplug_cbs := (b, cb) # hotplug_cbs s\<rparr>)"
proof -
  let ?s = "s\<lparr>next_hotplug_cb_handle := h, hotplug_cbs := (b, cb) # hotplug_cbs s\<rparr>"
  have "devices_inv ops L (blocks A (ts @ hotplug_msgs s) ?s) (held C X (ts @ hotplug_msgs s) s) s"
    by (rule devices_perm [OF ctx_resD(2) [OF assms]]) (simp add: blocks_def)
  then show ?thesis using assms by (simp add: ctx_inv_def ctx_res_def devices_inv_def devices_ok_def held_def blocks_def
      event_inv_def usbi_pending_events_def)
qed

lemma ctx_register:
  assumes "ctx_inv ops L A C X ts s" and "quiet ops"
    and "libusb_hotplug_register_callback ops call events flags vid pid cls fn ud s = ((r, h), s')"
  shows "ctx_inv ops L A C X ts s'"
proof -
  define bad where "bad \<longleftrightarrow> events = 0 \<or> NOT (ucast LIBUSB_HOTPLUG_EVENT_DEVICE_ARRIVED OR ucast LIBUSB_HOTPLUG_EVENT_DEVICE_LEFT) AND events \<noteq> 0 \<or>
        flags \<noteq> 0 \<and> NOT LIBUSB_HOTPLUG_ENUMERATE AND flags \<noteq> 0 \<or>
        bad_id 0xffff vid \<or> bad_id 0xffff pid \<or> bad_id 0xff cls \<or> fn = 0"
  define enum where "enum \<longleftrightarrow> flags AND LIBUSB_HOTPLUG_ENUMERATE \<noteq> 0 \<and> events AND ucast LIBUSB_HOTPLUG_EVENT_DEVICE_ARRIVED \<noteq> 0"
  note d = libusb_hotplug_register_callback_def [of ops call events flags vid pid cls fn ud s, folded bad_def enum_def]
  obtain q s1 where a: "alloc s = (q, s1)" by fastforce
  note i1 = ctx_alloc [OF assms(1) a]
  consider (bad) "bad \<or> \<not> has_hotplug ops" | (oom) "\<not> bad" "has_hotplug ops" "q = None"
    | (ok) b where "\<not> bad" "has_hotplug ops" "q = Some b" by fastforce
  then show ?thesis
  proof cases
    case bad
    then have "s' = s" using assms(3) unfolding d by (simp split: if_splits)
    then show ?thesis using assms(1) by simp
  next
    case oom
    then have "s' = s1" using assms(3) a unfolding d by simp
    then show ?thesis using i1 oom(3) by (simp add: opt_list_def)
  next
    case ok
    let ?h = "next_hotplug_cb_handle s1"
    define t where "t = s1\<lparr>next_hotplug_cb_handle := next_handle ?h,
      hotplug_cbs := (b, callback_of events vid pid cls fn ud ?h) # hotplug_cbs s1\<rparr>"
    have it: "ctx_inv ops L A C X ts t" unfolding t_def by (rule ctx_add_callback) (use i1 ok(3) in \<open>simp add: opt_list_def\<close>)
    have bt: "b \<in> fst ` set (hotplug_cbs t)" by (simp add: t_def)
    obtain len devs u where g: "libusb_get_device_list ops t = ((len, devs), u)" by (metis surj_pair)
    note ig = ctx_get_list [OF it assms(2) g]
    have eq: "((r, h), s') = (if enum then
        (if len < 0 then ((len, None), libusb_hotplug_deregister_callback ops ?h u)
         else ((LIBUSB_SUCCESS, Some ?h), libusb_free_device_list ops devs True
            (enumerate_devices ops call b (case devs of None \<Rightarrow> [] | Some (x, ds) \<Rightarrow> ds) u)))
       else ((LIBUSB_SUCCESS, Some ?h), t))"
      unfolding assms(3) [symmetric] d using a ok g by (simp add: Let_def t_def cong: if_cong)
    show ?thesis
    proof (cases enum)
      case False
      then show ?thesis using eq it by simp
    next
      case True
      show ?thesis
      proof (cases "len < 0")
        case True
        then show ?thesis using eq \<open>enum\<close> ig ctx_deregister(1) by auto
      next
        case False
        then obtain x where x: "devs = Some (x, usb_devs t)" "ctx_inv ops L (x # A) (mset (usb_devs t) + C) X ts u"
          using ig by (auto simp: usb_consts)
        have "frame ops t u"
          using get_device_list_inv [OF ctx_resD(2) [OF it] assms(2) _ g] by (auto simp: held_def)
        then have "b \<in> fst ` set (hotplug_cbs u)" using bt frameD(2) by metis
        from ctx_free_list [OF conjunct1 [OF ctx_enumerate [OF x(2) _ this, of "usb_devs t" call]]]
        show ?thesis using eq \<open>enum\<close> False x(1) by simp
      qed
    qed
  qed
qed

section \<open>Exit\<close>

lemma ctx_drop_devices:
  assumes "ctx_inv ops L A C X [] s" and "hotplug_msgs s = []"
  shows "ctx_inv ops L A C X [] (drop_devices ops s) \<and> usb_devs (drop_devices ops s) = [] \<and>
    hotplug_msgs (drop_devices ops s) = [] \<and> open_devs (drop_devices ops s) = open_devs s \<and>
    hotplug_cbs (drop_devices ops s) = hotplug_cbs s"
  using assms unfolding drop_devices_def
proof (induction "usb_devs s" arbitrary: s)
  case (Cons b bs)
  let ?s1 = "unlink_device b s"
  have b: "b \<in> set (usb_devs s)" using Cons.hyps(2) by (metis list.set_intros(1))
  have u: "?s1 = s\<lparr>usb_devs := bs\<rparr>" using unlink_keeps [OF b] by (metis Cons.hyps(2) remove1.simps(2))
  have "ctx_inv ops L A C (add_mset b X) [] ?s1" by (rule ctx_unlink [OF Cons.prems(1) b])
  then have i1: "ctx_inv ops L A (add_mset b C) X [] ?s1" using Cons.prems(2) by (simp add: u ctx_inv_def ctx_res_def)
  let ?s2 = "libusb_unref_device ops (Some b) ?s1"
  note i2 = ctx_unref [OF i1]
  have "frame ops ?s1 ?s2"
    using unref_device(3) [of ops L "blocks A [] ?s1" b "held C X [] ?s1" ?s1] ctx_resD(2) [OF i1] Cons.prems(2) u
    by (simp add: devices_inv_def)
  note f = frameD [OF this]
  have k: "usb_devs ?s2 = bs" "hotplug_msgs ?s2 = []" "open_devs ?s2 = open_devs s" "hotplug_cbs ?s2 = hotplug_cbs s"
    using f(1-3,6) ctx_resD(1) [OF i1] u Cons.prems(2) by simp_all
  from Cons.hyps(1) [OF k(1) [symmetric] i2 k(2)] k show ?case
    by (simp add: Cons.hyps(2) [symmetric])
qed simp

lemma no_references:
  assumes "counts_ok {#} ds" and "dying ds = {}" and "acyclic (edges ds)"
  shows "ds = []"
proof (rule ccontr)
  assume "ds \<noteq> []"
  have "edges ds \<subseteq> fst ` set ds \<times> (\<lambda>(b, d). the (d_parent_dev d)) ` set ds" by (force simp: edges_def)
  then have "finite (edges ds)" by (rule finite_subset) simp
  then have wf: "wf (edges ds)" using assms(3) by (rule finite_acyclic_wf)
  obtain x where "x \<in> fst ` set ds" using \<open>ds \<noteq> []\<close> by (cases ds) auto
  from wfE_min [OF wf this] obtain z where z: "z \<in> fst ` set ds" "\<And>y. (y, z) \<in> edges ds \<Longrightarrow> y \<notin> fst ` set ds" by metis
  have "z \<notin># parents ds"
  proof
    assume "z \<in># parents ds"
    then obtain y d where "(y, d) \<in> set ds" "d_parent_dev d = Some z"
      by (auto simp: parents_def parent_refs_def opt_list_def split: if_splits option.splits)
    then show False using z(2) [of y] by (force simp: edges_def)
  qed
  then have "count (parents ds) z = 0" by (simp add: not_in_iff)
  moreover obtain d where "(z, d) \<in> set ds" using z(1) by auto
  ultimately have "d_refcnt d = 0" using assms(1) by (auto simp: counts_ok_def)
  then show False using assms(2) \<open>(z, d) \<in> set ds\<close> by (auto simp: dying_def)
qed

lemma ctx_exit:
  assumes "ctx_inv ops L [] {#} {#} [] s" and "open_devs s = []"
  obtains s' where "exit_devices ops call True None s = Some s'" "us_devices s' = []" "usb_devs s' = []" "hotplug_cbs s' = []"
    "hotplug_msgs s' = []" "live (us_heap s') = L" "\<not> corrupt (us_heap s')"
proof -
  let ?s1 = "usbi_hotplug_deregister True s"
  note i1 = ctx_deregister_marked [OF assms(1), of True]
  have k1: "open_devs ?s1 = []" "hotplug_cbs ?s1 = []" using i1(3) calmD(3) [OF i1(2)] assms(2) by simp_all
  obtain s2 where s2: "handle_events ops call True None ?s1 = Some (0, s2)" "ctx_inv ops L [] {#} {#} [] s2"
    "open_devs s2 = open_devs ?s1" "hotplug_msgs s2 = []" "fst ` set (hotplug_cbs s2) \<subseteq> fst ` set (hotplug_cbs ?s1)"
    by (rule ctx_handle_events [OF i1(1), of call True None]) blast
  let ?s3 = "drop_devices ops s2"
  have i3: "ctx_inv ops L [] {#} {#} [] ?s3" "usb_devs ?s3 = []" "hotplug_msgs ?s3 = []" "open_devs ?s3 = []" "hotplug_cbs ?s3 = []"
    using ctx_drop_devices [OF s2(2,4)] s2(3,5) k1 by simp_all
  have d: "devices_inv ops L [] {#} ?s3" using ctx_resD(2) [OF i3(1)] i3(2-5) by (simp add: blocks_def held_def)
  then have "us_devices ?s3 = []" using no_references ctx_resD(4) [OF i3(1)] by (simp add: devices_inv_def devices_ok_def)
  moreover from d this have "owned [] (us_heap ?s3) L" by (simp add: devices_inv_def devices_ok_def)
  ultimately show ?thesis
    using that [of ?s3] s2(1) k1(1) i3 ctx_resD(1) [OF assms(1)] ownedD [of "[]" "us_heap ?s3" L]
    by (simp add: exit_devices_def Let_def)
qed

end
