(* ===== verification/Usb_Session.thy ===== *)
theory Usb_Session
  imports Usb_Callbacks
begin

text \<open>
  Whole sessions with libusb, from \<^verbatim>\<open>libusb_init\<close> to \<^verbatim>\<open>libusb_exit\<close>: any sequence of calls of a client and of
  a backend with hotplug support.  The count of every device is the number of its holders, no memory is
  used after it was freed, and at the end everything is given back.
\<close>

section \<open>Initialisation\<close>

text \<open>The context after the first part of \<^verbatim>\<open>libusb_init\<close>: the rest of it is zero.\<close>

definition init_context :: "heap \<Rightarrow> 'd \<Rightarrow> 'd libusb_context" where
  "init_context h os =
     \<lparr>event_flags = 0, device_close = 0, hotplug_msgs = [], completed_transfers = [], event_pipe = 0,
      us_heap = h, us_devices = [], usb_devs = [], open_devs = [], hotplug_cbs = [], next_hotplug_cb_handle = 1,
      hotplug_ready = False, os_data = os\<rparr>"

text \<open>\<open>pipe_ok\<close> and \<open>pollfd_ok\<close>: whether the pipe could be made, and its entry in the list of descriptors.\<close>

definition usbi_io_init :: "nat \<Rightarrow> bool \<Rightarrow> bool \<Rightarrow> 'd libusb_context \<Rightarrow> int \<times> 'd libusb_context" where
  "usbi_io_init cap pipe_ok pollfd_ok s =
    (let s = s\<lparr>hotplug_msgs := [], completed_transfers := [], hotplug_ready := True\<rparr> in
     if \<not> pipe_ok then (LIBUSB_ERROR_OTHER, s)
     else if \<not> pollfd_ok then (LIBUSB_ERROR_NO_MEM, s)
     else (0, usbi_fd_notification cap (s\<lparr>event_pipe := 0\<rparr>)))"

text \<open>\<open>backend_init\<close> and \<open>backend_exit\<close> are the backend's; the context is freed when initialisation fails.\<close>

definition libusb_init ::
  "'d usbi_os_backend \<Rightarrow> ('d libusb_context \<Rightarrow> int \<times> 'd libusb_context) \<Rightarrow> ('d \<Rightarrow> 'd) \<Rightarrow> bool \<Rightarrow> bool \<Rightarrow> heap \<Rightarrow> 'd \<Rightarrow>
     int \<times> 'd libusb_context" where
  "libusb_init ops backend_init backend_exit pipe_ok pollfd_ok h os =
    (case backend_init (init_context h os) of
       (r, s) \<Rightarrow>
        if r \<noteq> 0 then (r, drop_devices ops s)
        else (case usbi_io_init (os_pipe ops) pipe_ok pollfd_ok s of
          (r, s) \<Rightarrow>
            if r < 0 then (r, drop_devices ops (s\<lparr>os_data := backend_exit (os_data s)\<rparr>)) else (0, s)))"

section \<open>The backend\<close>

text \<open>
  What a backend does with devices: \<open>C\<close> are the references it and the client hold, \<open>X\<close> those that are lost.  The
  parent of a device is set before it has children, and with it goes a reference to the parent.
\<close>

inductive backend_step ::
  "'d usbi_os_backend \<Rightarrow> nat multiset \<times> nat multiset \<times> 'd libusb_context \<Rightarrow>
     nat multiset \<times> nat multiset \<times> 'd libusb_context \<Rightarrow> bool" for ops where
  alloc: "usbi_alloc_device ops mutex_ok session_id s = (p, s') \<Longrightarrow>
    backend_step ops (C, X, s) (mset (opt_list p) + C, X, s')"
| set: "b \<in># C \<Longrightarrow> \<forall>d. d_refcnt (f d) = d_refcnt d \<and> d_parent_dev (f d) = d_parent_dev d \<Longrightarrow>
    backend_step ops (C, X, s) (C, X, update_device b f s)"
| sanitize: "b \<in># C \<Longrightarrow> usbi_sanitize_device ops b s = (r, s') \<Longrightarrow> backend_step ops (C, X, s) (C, X, s')"
| parent: "b \<in># C \<Longrightarrow> p \<noteq> b \<Longrightarrow> find_device s b = Some d \<Longrightarrow> d_parent_dev d = None \<Longrightarrow>
    b \<notin> Range (edges (us_devices s)) \<Longrightarrow>
    backend_step ops (add_mset p C, X, s) (C, X, update_device b (\<lambda>d. d\<lparr>d_parent_dev := Some p\<rparr>) s)"
| lookup: "usbi_get_device_by_session_id session_id s = (p, s') \<Longrightarrow>
    backend_step ops (C, X, s) (mset (opt_list p) + C, X, s')"
| get: "b \<in> set (usb_devs s) \<Longrightarrow> backend_step ops (C, X, s) (add_mset b C, X, libusb_ref_device b s)"
| put: "backend_step ops (add_mset b C, X, s) (C, X, libusb_unref_device ops (Some b) s)"
| connect: "b \<notin> set (usb_devs s) \<Longrightarrow> backend_step ops (add_mset b C, X, s) (C, X, usbi_connect_device ops b s)"
| disconnect: "b \<in> set (usb_devs s) \<Longrightarrow>
    backend_step ops (C, X, s) (C, lost s b + X, usbi_disconnect_device ops b s)"
| data: "backend_step ops (C, X, s) (C, X, s\<lparr>os_data := os\<rparr>)"

inductive_cases backend_stepE: "backend_step ops (C, X, s) (C', X', s')"

abbreviation backend_run ::
  "'d usbi_os_backend \<Rightarrow> nat multiset \<times> nat multiset \<times> 'd libusb_context \<Rightarrow>
     nat multiset \<times> nat multiset \<times> 'd libusb_context \<Rightarrow> bool" where
  "backend_run ops \<equiv> (backend_step ops)\<^sup>*\<^sup>*"

lemma add_held: "b \<in># C \<Longrightarrow> b \<in># held C X ms s"
  by (simp add: held_def)

text \<open>\<open>M\<close> are references that others hold.\<close>

lemma backend_step_inv:
  assumes "backend_step ops (C, X, s) (C', X', s')" and "ctx_inv ops L A (M + C) X ts s"
  shows "ctx_inv ops L A (M + C') X' ts s'"
  using assms(1)
proof (cases rule: backend_step.cases)
  case (alloc mutex_ok session_id p)
  then show ?thesis using ctx_alloc_device(1) [OF assms(2) alloc(3)] by (simp add: ac_simps)
next
  case (set b f)
  have "b \<in># held (M + C) X (ts @ hotplug_msgs s) s" using set(4) by (intro add_held) simp
  then show ?thesis using ctx_update(1) [OF assms(2)] set by simp
next
  case (sanitize b r)
  have "b \<in># held (M + C) X (ts @ hotplug_msgs s) s" using sanitize(3) by (intro add_held) simp
  then show ?thesis using ctx_sanitize [OF assms(2)] sanitize by simp
next
  case (parent b p d)
  have i: "ctx_inv ops L A (add_mset p (M + C')) X ts s" using assms(2) parent(1) by simp
  have "b \<in># held (add_mset p (M + C')) X (ts @ hotplug_msgs s) s" using parent by (intro add_held) simp
  then show ?thesis using ctx_set_parent [OF i] parent by simp
next
  case (lookup session_id p)
  then show ?thesis using ctx_by_session_id [OF assms(2) lookup(3)] by (simp add: ac_simps)
next
  case (get b)
  then have "b \<in># held (M + C) X (ts @ hotplug_msgs s) s" by (simp add: held_def)
  then show ?thesis using ctx_ref [OF assms(2)] get by simp
next
  case (put b)
  then show ?thesis using ctx_unref [of ops L A b "M + C'" X ts s] assms(2) by simp
next
  case (connect b)
  then show ?thesis using ctx_connect(1) [of ops L A b "M + C'" X ts s] assms(2) by simp
next
  case (disconnect b)
  then show ?thesis using ctx_disconnect(1) [OF assms(2)] by simp
next
  case (data os)
  then show ?thesis using assms(2) by (simp add: ctx_os)
qed

text \<open>Before \<^verbatim>\<open>usbi_io_init\<close> the backend raises no event.\<close>

definition no_events :: "'d libusb_context \<Rightarrow> 'd libusb_context \<Rightarrow> bool" where
  "no_events s s' \<longleftrightarrow> hotplug_ready s' = hotplug_ready s \<and> events.truncate s' = events.truncate s"

lemma no_events_refl [simp]: "no_events s s"
  by (simp add: no_events_def)

lemma no_events_trans: "no_events s s' \<Longrightarrow> no_events s' s'' \<Longrightarrow> no_events s s''"
  by (simp add: no_events_def)

lemma no_events_update: "no_events s (update_device b f s)"
  by (auto simp: no_events_def update_device_def fault_def events.truncate_def split: option.splits)

lemma no_events_frame: "frame ops s s' \<Longrightarrow> no_events s s'"
  using frameD(4,8) by (auto simp: no_events_def)

lemma backend_step_early:
  assumes "backend_step ops (C, X, s) (C', X', s')" and "ctx_inv ops L A (M + C) X ts s" and "\<not> hotplug_ready s"
  shows "no_events s s'"
  using assms(1)
proof (cases rule: backend_step.cases)
  case (alloc mutex_ok session_id p)
  then show ?thesis using ctx_resD(1) [OF assms(2)]
    by (auto simp: usbi_alloc_device_def alloc_def release_def no_events_def events.truncate_def Let_def
        split: option.splits prod.splits if_splits)
next
  case (sanitize b r)
  then have "\<exists>os f g. s' = update_device b g (update_device b f (s\<lparr>os_data := os\<rparr>)) \<or> s' = update_device b f (s\<lparr>os_data := os\<rparr>)"
    by (auto simp: usbi_sanitize_device_def Let_def split: prod.splits if_splits)
  then obtain os f g where s': "s' = update_device b g (update_device b f (s\<lparr>os_data := os\<rparr>)) \<or> s' = update_device b f (s\<lparr>os_data := os\<rparr>)"
    by blast
  have "no_events s (s\<lparr>os_data := os\<rparr>)" by (simp add: no_events_def events.truncate_def)
  then show ?thesis using s' no_events_trans no_events_update by blast
next
  case (lookup session_id p)
  then show ?thesis
    by (auto simp: usbi_get_device_by_session_id_def libusb_ref_device_def no_events_update split: list.splits)
next
  case (put b)
  have "frame ops s (libusb_unref_device ops (Some b) s)"
    using unref_device(3) [of ops L "blocks A (ts @ hotplug_msgs s) s" b "held (M + C') X (ts @ hotplug_msgs s) s" s]
      ctx_resD(2) [OF assms(2)] put(1) by (simp add: devices_inv_def)
  then show ?thesis using put(3) no_events_frame by blast
next
  case (connect b)
  let ?t = "update_device b (\<lambda>d. d\<lparr>d_attached := True\<rparr>) s"
  have "no_events s ?t" by (rule no_events_update)
  then show ?thesis using connect assms(3) by (simp add: usbi_connect_device_def Let_def no_events_def events.truncate_def)
next
  case (disconnect b)
  let ?t = "update_device b (\<lambda>d. d\<lparr>d_attached := False\<rparr>) s"
  have "no_events s ?t" by (rule no_events_update)
  moreover have "no_events ?t (unlink_device b ?t)" by (simp add: unlink_device_def fault_def no_events_def events.truncate_def)
  ultimately have "no_events s (unlink_device b ?t)" by (rule no_events_trans)
  then show ?thesis using disconnect assms(3) by (simp add: usbi_disconnect_device_def Let_def no_events_def)
next
  case (data os)
  then show ?thesis by (simp add: no_events_def events.truncate_def)
qed (simp_all add: no_events_update libusb_ref_device_def)

lemma init_context_inv:
  assumes "heap_ok h" and "has_hotplug ops" and "0 < os_pipe ops"
  shows "ctx_inv ops (live h) [] {#} {#} [] (init_context h os)"
  using assms by (simp add: ctx_inv_def ctx_res_def init_context_def devices_inv_def devices_ok_def counts_ok_def parents_def
      blocks_def held_def owned_Nil dying_def edges_def acyclic_def event_inv_def usbi_pending_events_def)

lemma backend_run_inv:
  assumes "(backend_step ops)\<^sup>*\<^sup>* c c'" and "ctx_inv ops L A (fst c) (fst (snd c)) [] (snd (snd c))"
    and "\<not> hotplug_ready (snd (snd c))"
  shows "ctx_inv ops L A (fst c') (fst (snd c')) [] (snd (snd c')) \<and> no_events (snd (snd c)) (snd (snd c'))"
  using assms(1)
proof (induction rule: rtranclp_induct)
  case base
  show ?case using assms(2) by simp
next
  case (step c' c'')
  obtain C X s C' X' s' where c: "c' = (C, X, s)" "c'' = (C', X', s')" by (metis surj_pair)
  have i: "ctx_inv ops L A ({#} + C) X [] s" using step.IH c(1) by simp
  have nr: "\<not> hotplug_ready s" using step.IH c(1) assms(3) by (simp add: no_events_def)
  show ?case
    using backend_step_inv [OF step.hyps(2) [unfolded c] i] backend_step_early [OF step.hyps(2) [unfolded c] i nr]
      step.IH c no_events_trans [of "snd (snd c)" s s'] by simp
qed

lemma io_init_inv:
  assumes "ctx_inv ops L A C X [] s" and "no_events (init_context h os) s"
    and "usbi_io_init (os_pipe ops) pipe_ok pollfd_ok s = (r, s')"
  shows "ctx_inv ops L A C X [] s'" and "hotplug_msgs s' = []" and "usb_devs s' = usb_devs s" and "open_devs s' = open_devs s"
    and "hotplug_cbs s' = hotplug_cbs s"
proof -
  have e: "event_flags s = 0" "device_close s = 0" "hotplug_msgs s = []" "completed_transfers s = []" "event_pipe s = 0"
    using assms(2) by (simp_all add: no_events_def events.truncate_def init_context_def)
  let ?t = "s\<lparr>hotplug_msgs := [], completed_transfers := [], hotplug_ready := True\<rparr>"
  have t: "ctx_inv ops L A C X [] ?t" "?t\<lparr>event_pipe := 0\<rparr> = ?t"
    using assms(1) e by (simp_all add: ctx_inv_def ctx_res_def devices_inv_def devices_ok_def blocks_def held_def event_inv_def
        usbi_pending_events_def)
  have more: "events.more (set_event_flag USBI_EVENT_POLLFDS_MODIFIED ?t) = events.more ?t"
    by (cases s) (simp add: set_event_flag_def)
  have f: "ctx_inv ops L A C X [] (usbi_fd_notification (os_pipe ops) ?t)"
    unfolding usbi_fd_notification_def by (rule ctx_raise [OF t(1)]) (use more in \<open>simp_all add: set_event_flag_def\<close>)
  note m = raise_event_more [of "set_event_flag USBI_EVENT_POLLFDS_MODIFIED" ?t "os_pipe ops", OF more, folded usbi_fd_notification_def]
  have h: "hotplug_msgs (usbi_fd_notification (os_pipe ops) ?t) = []" using m(2) by (simp add: set_event_flag_def)
  consider "s' = ?t" | "s' = usbi_fd_notification (os_pipe ops) ?t"
    using assms(3) t(2) by (auto simp: usbi_io_init_def Let_def split: if_splits)
  then show "ctx_inv ops L A C X [] s'" "hotplug_msgs s' = []" "usb_devs s' = usb_devs s" "open_devs s' = open_devs s"
    "hotplug_cbs s' = hotplug_cbs s"
    by (cases, use t(1) f h res_more(2-4) [OF m(1)] in simp_all)+
qed

section \<open>Sessions\<close>

text \<open>
  A session of a client with a context: the lists it holds, the references that it and the backend hold, those that are lost,
  and the context.  It uses devices that it holds, in a list, through a handle or by a reference.
\<close>

type_synonym lists = "(nat \<times> nat list) list"

definition refs :: "lists \<Rightarrow> nat multiset" where
  "refs Ls = mset (concat (map snd Ls))"

definition known :: "nat \<Rightarrow> lists \<Rightarrow> nat multiset \<Rightarrow> 'd libusb_context \<Rightarrow> bool" where
  "known b Ls C s \<longleftrightarrow> b \<in># C \<or> b \<in># refs Ls \<or> b \<in> (h_dev \<circ> snd) ` set (open_devs s)"

text \<open>
  What a client and a backend do with a context, the closing of handles apart.  Memory that the client asks for is a
  list without devices; a reference that its holder forgets is lost.
\<close>

inductive usb_step ::
  "'d usbi_os_backend \<Rightarrow> 'd client \<Rightarrow> lists \<times> nat multiset \<times> nat multiset \<times> 'd libusb_context \<Rightarrow>
     lists \<times> nat multiset \<times> nat multiset \<times> 'd libusb_context \<Rightarrow> bool"
  for ops call where
  backend: "backend_step ops (C, X, s) (C', X', s') \<Longrightarrow> usb_step ops call (Ls, C, X, s) (Ls, C', X', s')"
| allocate: "alloc s = (p, s') \<Longrightarrow> usb_step ops call (Ls, C, X, s) (map (\<lambda>b. (b, [])) (opt_list p) @ Ls, C, X, s')"
| discard: "(b, []) \<in> set Ls \<Longrightarrow> usb_step ops call (Ls, C, X, s) (remove1 (b, []) Ls, C, X, release b s)"
| ref: "known b Ls C s \<Longrightarrow> usb_step ops call (Ls, C, X, s) (Ls, add_mset b C, X, libusb_ref_device b s)"
| unref: "usb_step ops call (Ls, add_mset b C, X, s) (Ls, C, X, libusb_unref_device ops (Some b) s)"
| forget: "usb_step ops call (Ls, add_mset b C, X, s) (Ls, C, add_mset b X, s)"
| get_list: "libusb_get_device_list ops s = ((r, list), s') \<Longrightarrow>
    usb_step ops call (Ls, C, X, s) (opt_list list @ Ls, C, X, s')"
| free_list: "l \<in> set Ls \<Longrightarrow>
    usb_step ops call (Ls, C, X, s) (remove1 l Ls, C, X, libusb_free_device_list ops (Some l) True s)"
| open_dev: "known b Ls C s \<Longrightarrow> libusb_open ops mutex_ok b s = ((r, hp), s') \<Longrightarrow>
    usb_step ops call (Ls, C, X, s) (Ls, C, X, s')"
| open_vid_pid: "libusb_open_device_with_vid_pid ops mutex_ok vid pid s = (hp, s') \<Longrightarrow>
    usb_step ops call (Ls, C, X, s) (Ls, C, X, s')"
| claim: "libusb_claim_interface ops hb n s = Some (r, s') \<Longrightarrow> usb_step ops call (Ls, C, X, s) (Ls, C, X, s')"
| release_interface: "libusb_release_interface ops hb n s = Some (r, s') \<Longrightarrow> usb_step ops call (Ls, C, X, s) (Ls, C, X, s')"
| alt_setting: "libusb_set_interface_alt_setting ops hb n alt s = Some (r, s') \<Longrightarrow>
    usb_step ops call (Ls, C, X, s) (Ls, C, X, s')"
| register: "libusb_hotplug_register_callback ops call events flags vid pid cls fn ud s = (res, s') \<Longrightarrow>
    usb_step ops call (Ls, C, X, s) (Ls, C, X, s')"
| deregister: "usb_step ops call (Ls, C, X, s) (Ls, C, X, libusb_hotplug_deregister_callback ops handle s)"
| events: "handle_events ops call allocated poll_error s = Some (r, s') \<Longrightarrow> usb_step ops call (Ls, C, X, s) (Ls, C, X, s')"
| interrupt: "usb_step ops call (Ls, C, X, s) (Ls, C, X, libusb_interrupt_event_handler (os_pipe ops) s)"

inductive usb_session ::
  "'d usbi_os_backend \<Rightarrow> 'd client \<Rightarrow> heap \<Rightarrow> lists \<times> nat multiset \<times> nat multiset \<times> 'd libusb_context \<Rightarrow> bool"
  for ops call h where
  start: "backend_init (init_context h os) = (0, s) \<Longrightarrow>
    backend_run ops ({#}, {#}, init_context h os) (C, X, s) \<Longrightarrow>
    libusb_init ops backend_init backend_exit pipe_ok pollfd_ok h os = (0, s') \<Longrightarrow> usb_session ops call h ([], C, X, s')"
| step: "usb_session ops call h c \<Longrightarrow> usb_step ops call c c' \<Longrightarrow> usb_session ops call h c'"
| close: "usb_session ops call h (Ls, C, X, s) \<Longrightarrow> hb \<in> fst ` set (open_devs s) \<Longrightarrow>
    libusb_close ops handling_events (Some hb) s = Some s' \<Longrightarrow> usb_session ops call h (Ls, C, X, s')"

lemmas session_steps = usb_session.step [OF _ usb_step.backend] usb_session.step [OF _ usb_step.get_list]
  usb_session.step [OF _ usb_step.free_list] usb_session.step [OF _ usb_step.open_dev] usb_session.close

lemma refs_simps [simp]:
  "refs [] = {#}" "refs (l # Ls) = mset (snd l) + refs Ls"
  by (simp_all add: refs_def)

lemma refs_remove1: "l \<in> set Ls \<Longrightarrow> refs Ls = mset (snd l) + refs (remove1 l Ls)"
  by (induction Ls) (auto simp: ac_simps)

lemma ctx_perm: "ctx_inv ops L A C X ts s \<Longrightarrow> mset A' = mset A \<Longrightarrow> ctx_inv ops L A' C X ts s"
  using devices_perm [of ops L "blocks A (ts @ hotplug_msgs s) s" "held C X (ts @ hotplug_msgs s) s" s
      "blocks A' (ts @ hotplug_msgs s) s"]
  by (simp add: ctx_inv_def ctx_res_def blocks_def)

lemma known_held: "known b Ls C s \<Longrightarrow> b \<in># held (refs Ls + C) X ms s"
  by (auto simp: known_def held_def)

definition session_inv ::
  "'d usbi_os_backend \<Rightarrow> nat set \<Rightarrow> lists \<times> nat multiset \<times> nat multiset \<times> 'd libusb_context \<Rightarrow> bool" where
  "session_inv ops L c = (case c of (Ls, C, X, s) \<Rightarrow> ctx_inv ops L (map fst Ls) (refs Ls + C) X [] s)"

lemma session_inv_simp: "session_inv ops L (Ls, C, X, s) = ctx_inv ops L (map fst Ls) (refs Ls + C) X [] s"
  by (simp add: session_inv_def)

lemma ctx_forget:
  assumes "ctx_inv ops L A (add_mset b C) X ts s"
  shows "ctx_inv ops L A C (add_mset b X) ts s"
proof -
  have "msgs_ok (set (usb_devs s) \<union> set_mset (add_mset b X)) (ts @ hotplug_msgs s)"
    by (rule msgs_ok_mono [OF ctx_resD(3) [OF assms]]) auto
  then show ?thesis using assms unfolding ctx_inv_def ctx_res_def by simp
qed

lemma usb_step_inv:
  assumes "usb_step ops call c c'" and "session_inv ops L c" and "quiet ops"
  shows "session_inv ops L c'"
  using assms(1,2)
proof (cases rule: usb_step.cases)
  case (backend C X s C' X' s' Ls)
  then show ?thesis
    using backend_step_inv [OF backend(3), where L = L and A = "map fst Ls" and M = "refs Ls" and ts = "[]"] assms(2)
    by (simp add: session_inv_def)
next
  case (allocate s p s' Ls C X)
  have "refs (map (\<lambda>b. (b, [])) (opt_list p) @ Ls) = refs Ls" by (auto simp: refs_def opt_list_def split: option.splits)
  then show ?thesis
    using ctx_alloc [OF assms(2) [unfolded allocate(1) session_inv_simp] allocate(3)] allocate(2)
    by (simp add: session_inv_def comp_def)
next
  case (discard b Ls C X s)
  have "ctx_inv ops L (b # map fst (remove1 (b, []) Ls)) (refs Ls + C) X [] s"
  proof (rule ctx_perm)
    show "ctx_inv ops L (map fst Ls) (refs Ls + C) X [] s" using assms(2) discard(1) by (simp add: session_inv_def)
    have "mset Ls = add_mset (b, []) (mset (remove1 (b, []) Ls))" using discard(3) by simp
    then have "image_mset fst (mset Ls) = image_mset fst (add_mset (b, []) (mset (remove1 (b, []) Ls)))" by (rule arg_cong)
    then show "mset (b # map fst (remove1 (b, []) Ls)) = mset (map fst Ls)" by simp
  qed
  then show ?thesis using ctx_release refs_remove1 [OF discard(3)] discard(2) by (auto simp: session_inv_def)
next
  case (ref b Ls C s X)
  from ctx_ref [OF assms(2) [unfolded ref(1) session_inv_simp] known_held [OF ref(3)]] show ?thesis
    using ref(2) by (simp add: session_inv_def)
next
  case (unref Ls b C X s)
  then show ?thesis using ctx_unref [of ops L "map fst Ls" b "refs Ls + C" X "[]" s] assms(2) by (simp add: session_inv_def)
next
  case (forget Ls b C X s)
  then show ?thesis using ctx_forget [of ops L "map fst Ls" b "refs Ls + C" X "[]" s] assms(2) by (simp add: session_inv_def)
next
  case (get_list s r list s' Ls C X)
  from ctx_get_list [OF assms(2) [unfolded get_list(1) session_inv_simp] assms(3) get_list(3)] show ?thesis
    using get_list(2) by (auto simp: session_inv_def opt_list_def ac_simps)
next
  case (free_list l Ls C X s)
  have "ctx_inv ops L (fst l # map fst (remove1 l Ls)) (mset (snd l) + (refs (remove1 l Ls) + C)) X [] s"
  proof (rule ctx_perm)
    show "ctx_inv ops L (map fst Ls) (mset (snd l) + (refs (remove1 l Ls) + C)) X [] s"
      using free_list(1) assms(2) refs_remove1 [OF free_list(3)] by (simp add: session_inv_def ac_simps)
    have "mset Ls = add_mset l (mset (remove1 l Ls))" using free_list(3) by simp
    then have "image_mset fst (mset Ls) = image_mset fst (add_mset l (mset (remove1 l Ls)))" by (rule arg_cong)
    then show "mset (fst l # map fst (remove1 l Ls)) = mset (map fst Ls)" by simp
  qed
  from ctx_free_list [OF this] show ?thesis using free_list(2) by (simp add: session_inv_def)
next
  case (open_dev b Ls C s mutex_ok r hp s' X)
  from ctx_open(1) [OF assms(2) [unfolded open_dev(1) session_inv_simp] known_held [OF open_dev(3)] open_dev(4)] show ?thesis
    using open_dev(2) by (simp add: session_inv_def)
next
  case (open_vid_pid mutex_ok vid pid s hp s' Ls C X)
  from ctx_open_vid_pid [OF assms(2) [unfolded open_vid_pid(1) session_inv_simp] assms(3) open_vid_pid(3)] show ?thesis
    using open_vid_pid(2) by (simp add: session_inv_def)
next
  case (register events flags vid pid cls fn ud s res s' Ls C X)
  obtain r k where "res = (r, k)" by fastforce
  then show ?thesis
    using ctx_register [OF assms(2) [unfolded register(1) session_inv_simp] assms(3)] register(2,3)
    by (cases r) (auto simp: session_inv_def)
next
  case (events allocated poll_error s r s' Ls C X)
  have i: "ctx_inv ops L (map fst Ls) (refs Ls + C) X [] s" using events(1) assms(2) by (simp add: session_inv_def)
  from ctx_handle_events [OF i, of call allocated poll_error] show ?thesis using events(2,3) by (auto simp: session_inv_def)
next
  case (interrupt Ls C X s)
  let ?u = "set_event_flag USBI_EVENT_USER_INTERRUPT"
  have i: "ctx_inv ops L (map fst Ls) (refs Ls + C) X [] s" using interrupt(1) assms(2) by (simp add: session_inv_def)
  have "events.more (?u s) = events.more s" by (cases s) (simp add: set_event_flag_def)
  then have "ctx_inv ops L (map fst Ls) (refs Ls + C) X [] (raise_event (os_pipe ops) ?u s)"
    by (intro ctx_raise [OF i]) (simp_all add: set_event_flag_def)
  then show ?thesis using interrupt(2) by (simp add: session_inv_def libusb_interrupt_event_handler_def)
qed (use assms(2) in \<open>auto simp: session_inv_def intro: ctx_interfaces ctx_deregister\<close>)

lemma usb_session_inv:
  assumes "usb_session ops call h c" and "heap_ok h" and "quiet ops" and "0 < os_pipe ops"
  shows "session_inv ops (live h) c"
  using assms(1)
proof induction
  case (start backend_init os s C X backend_exit pipe_ok pollfd_ok s')
  have hp: "has_hotplug ops" using assms(3) by (simp add: quiet_def)
  have "ctx_inv ops (live h) [] C X [] s \<and> no_events (init_context h os) s"
  proof -
    have "\<not> hotplug_ready (init_context h os)" by (simp add: init_context_def)
    then show ?thesis
      using backend_run_inv [OF start(2), of "live h" "[]"] init_context_inv [OF assms(2) hp assms(4), of os] by simp
  qed
  note ci = conjunct1 [OF this] and ne = conjunct2 [OF this]
  obtain r t where io: "usbi_io_init (os_pipe ops) pipe_ok pollfd_ok s = (r, t)" by fastforce
  have "s' = t" using start(1,3) io by (auto simp: libusb_init_def split: if_splits)
  then show ?case using io_init_inv(1) [OF ci ne io] by (simp add: session_inv_def)
next
  case (step c c')
  show ?case by (rule usb_step_inv [OF step(2,3) assms(3)])
next
  case (close Ls C X s hb handling_events s')
  have i: "ctx_inv ops (live h) (map fst Ls) (refs Ls + C) X [] s" using close(4) by (simp add: session_inv_def)
  obtain hdl where "find_handle s hb = Some hdl"
    using close(2) unfolding find_handle_def by (metis map_of_eq_None_iff not_None_eq)
  from ctx_close [OF i this, of handling_events] show ?case using close(3) by (auto simp: session_inv_def)
qed

text \<open>The count of a device, in terms of the fields of the context.\<close>

lemma count_parents:
  assumes "dying ds = {}"
  shows "count (parents ds) b = length (filter (\<lambda>(c, e). d_parent_dev e = Some b) ds)"
  using assms
proof (induction ds)
  case (Cons x ds)
  obtain c e where x: "x = (c, e)" by fastforce
  have "dying ds = {}" "d_refcnt e \<noteq> 0" using Cons.prems by (auto simp: dying_def x)
  then show ?case using Cons.IH by (auto simp: parents_def parent_refs_def x opt_list_def split: option.splits)
qed (simp add: parents_def)

lemma usb_session_facts:
  assumes "usb_session ops call h (Ls, C, X, s)" and "heap_ok h" and "quiet ops" and "0 < os_pipe ops"
  shows "\<not> corrupt (us_heap s)"
    and "live (us_heap s) = live h \<union> fst ` set (us_devices s) \<union> fst ` set (open_devs s) \<union> fst ` set (hotplug_cbs s) \<union>
      fst ` set (hotplug_msgs s) \<union> fst ` set Ls"
    and "find_device s b = Some d \<Longrightarrow> d_refcnt d = int (count (mset (usb_devs s)) b + count (mset (left_refs (hotplug_msgs s))) b +
      count (mset (map (h_dev \<circ> snd) (open_devs s))) b + count (refs Ls) b + count C b + count X b +
      length (filter (\<lambda>(c, e). d_parent_dev e = Some b) (us_devices s)))"
    and "find_device s b = Some d \<Longrightarrow> 0 < d_refcnt d"
    and "known b Ls C s \<Longrightarrow> find_device s b \<noteq> None"
proof -
  have i: "ctx_inv ops (live h) (map fst Ls) (refs Ls + C) X [] s"
    using usb_session_inv [OF assms] by (simp add: session_inv_def)
  note d = ctx_resD(2) [OF i]
  have o: "owned (map fst (us_devices s) @ blocks (map fst Ls) (hotplug_msgs s) s) (us_heap s) (live h)"
    using d by (simp add: devices_inv_def devices_ok_def)
  show "\<not> corrupt (us_heap s)" using o by (rule ownedD)
  show "live (us_heap s) = live h \<union> fst ` set (us_devices s) \<union> fst ` set (open_devs s) \<union> fst ` set (hotplug_cbs s) \<union>
      fst ` set (hotplug_msgs s) \<union> fst ` set Ls"
    using ownedD(2) [OF o] by (auto simp: blocks_def)
  have ok: "counts_ok (held (refs Ls + C) X (hotplug_msgs s) s) (us_devices s)" and dy: "dying (us_devices s) = {}"
    using d by (simp_all add: devices_inv_def devices_ok_def)
  show "d_refcnt d = int (count (mset (usb_devs s)) b + count (mset (left_refs (hotplug_msgs s))) b +
      count (mset (map (h_dev \<circ> snd) (open_devs s))) b + count (refs Ls) b + count C b + count X b +
      length (filter (\<lambda>(c, e). d_parent_dev e = Some b) (us_devices s)))" and "0 < d_refcnt d"
    if "find_device s b = Some d"
  proof -
    have m: "(b, d) \<in> set (us_devices s)" using that by (auto simp: find_device_def intro: map_of_SomeD)
    then have c: "d_refcnt d = int (count (held (refs Ls + C) X (hotplug_msgs s) s + parents (us_devices s)) b)"
      using ok unfolding counts_ok_def by blast
    then show "d_refcnt d = int (count (mset (usb_devs s)) b + count (mset (left_refs (hotplug_msgs s))) b +
      count (mset (map (h_dev \<circ> snd) (open_devs s))) b + count (refs Ls) b + count C b + count X b +
      length (filter (\<lambda>(c, e). d_parent_dev e = Some b) (us_devices s)))"
      by (simp add: held_def count_parents [OF dy])
    have "d_refcnt d \<noteq> 0" using m dy by (auto simp: dying_def)
    then show "0 < d_refcnt d" unfolding c by simp
  qed
  show "find_device s b \<noteq> None" if "known b Ls C s"
  proof -
    have "b \<in># held (refs Ls + C) X ([] @ hotplug_msgs s) s" by (rule known_held [OF that])
    from held_found [OF i this] show ?thesis by (metis option.distinct(1))
  qed
qed

lemma usb_session_exit:
  assumes "usb_session ops call h ([], {#}, {#}, s)" and "heap_ok h" and "quiet ops" and "0 < os_pipe ops"
    and "open_devs s = []"
  shows "\<exists>s'. exit_devices ops call True None s = Some s' \<and> us_devices s' = [] \<and> live (us_heap s') = live h \<and>
    \<not> corrupt (us_heap s')"
proof -
  have "ctx_inv ops (live h) [] {#} {#} [] s" using usb_session_inv [OF assms(1-4)] by (simp add: session_inv_def)
  from ctx_exit [OF this assms(5), of call] show ?thesis by metis
qed

end
