(* ===== verification/Usb_Ports.thy ===== *)
theory Usb_Ports
  imports Usb_Session
begin

text \<open>
  Properties of single calls of libusb's core: port numbers as the way from the root, which callbacks are called,
  claimed interfaces as the bits of a word.
\<close>

section \<open>Port numbers\<close>

text \<open>The ports on the way from the root to a device: a device without a parent or port has none.\<close>

inductive port_path :: "'d libusb_context \<Rightarrow> nat option \<Rightarrow> byte list \<Rightarrow> bool" for s where
  root: "port_path s None []"
| no_port: "find_device s b = Some d \<Longrightarrow> d_port_number d = 0 \<Longrightarrow> port_path s (Some b) []"
| port: "find_device s b = Some d \<Longrightarrow> d_port_number d \<noteq> 0 \<Longrightarrow> port_path s (d_parent_dev d) ps \<Longrightarrow>
    port_path s (Some b) (ps @ [d_port_number d])"

lemma port_loop_path:
  "port_path s dev ps \<Longrightarrow> i \<le> length buf \<Longrightarrow>
   port_loop s i dev buf =
     (if length ps \<le> i then PortsFilled (i - length ps) (take (i - length ps) buf @ ps @ drop i buf)
      else PortOverflow (drop (length ps - i) ps @ drop i buf))"
proof (induction arbitrary: i buf rule: port_path.induct)
  case root
  then show ?case by (cases i) simp_all
next
  case (no_port b d)
  then show ?case by (cases i) simp_all
next
  case (port b d ps)
  show ?case
  proof (cases i)
    case 0
    then show ?thesis using port by simp
  next
    case (Suc j)
    have "drop j (buf[j := d_port_number d]) = d_port_number d # drop (Suc j) buf"
      using port.prems Suc by (simp add: drop_update_swap Cons_nth_drop_Suc [symmetric])
    then show ?thesis using port Suc port.IH [of j "buf[j := d_port_number d]"] by (simp add: Suc_diff_le)
  qed
qed

lemma port_path_exists:
  assumes "ctx_inv ops L A C X ts s" and "find_device s b = Some d"
  shows "\<exists>ps. port_path s (Some b) ps"
proof -
  let ?ds = "us_devices s"
  have d: "devices_inv ops L (blocks A (ts @ hotplug_msgs s) s) (held C X (ts @ hotplug_msgs s) s) s"
    by (rule ctx_resD(2) [OF assms(1)])
  then have ok: "counts_ok (held C X (ts @ hotplug_msgs s) s) ?ds" and dy: "dying ?ds = {}"
    by (simp_all add: devices_inv_def devices_ok_def)
  have "edges ?ds \<subseteq> fst ` set ?ds \<times> (\<lambda>(b, d). the (d_parent_dev d)) ` set ?ds" by (force simp: edges_def)
  then have "finite (edges ?ds)" by (rule finite_subset) simp
  then have wf: "wf ((edges ?ds)\<inverse>)" using ctx_resD(4) [OF assms(1)] by (rule finite_acyclic_wf_converse)
  have "\<forall>d. find_device s b = Some d \<longrightarrow> (\<exists>ps. port_path s (Some b) ps)" for b
  proof (rule wf_induct [OF wf, of _ b], intro allI impI)
    fix x d
    assume ih: "\<forall>y. (y, x) \<in> (edges ?ds)\<inverse> \<longrightarrow> (\<forall>d. find_device s y = Some d \<longrightarrow> (\<exists>ps. port_path s (Some y) ps))"
      and x: "find_device s x = Some d"
    have m: "(x, d) \<in> set ?ds" using x by (auto simp: find_device_def intro: map_of_SomeD)
    show "\<exists>ps. port_path s (Some x) ps"
    proof (cases "d_port_number d = 0")
      case True
      then show ?thesis using port_path.no_port [OF x] by blast
    next
      case False
      show ?thesis
      proof (cases "d_parent_dev d")
        case None
        then show ?thesis using port_path.port [OF x False] port_path.root by metis
      next
        case (Some p)
        have "d_refcnt d \<noteq> 0" using m dy by (auto simp: dying_def)
        then have "p \<in># parents ?ds" using m Some by (force simp: parents_def parent_refs_def opt_list_def)
        then have "p \<in> fst ` set ?ds" using ok by (auto simp: counts_ok_def)
        then obtain e where "find_device s p = Some e" unfolding find_device_def by (metis map_of_eq_None_iff option.exhaust)
        moreover have "(x, p) \<in> edges ?ds" using m Some by (auto simp: edges_def)
        ultimately obtain ps where "port_path s (Some p) ps" using ih by blast
        then show ?thesis using port_path.port [OF x False] Some by metis
      qed
    qed
  qed
  then show ?thesis using assms(2) by blast
qed

lemma get_port_numbers_path:
  assumes "port_path s (Some b) ps" and "0 < len" and "nat len \<le> length buf"
  shows "libusb_get_port_numbers s b buf len =
    Some (if length ps \<le> nat len
          then (int (length ps), ps @ drop (length ps) (take (nat len - length ps) buf @ ps @ drop (nat len) buf))
          else (LIBUSB_ERROR_OVERFLOW, drop (length ps - nat len) ps @ drop (nat len) buf))"
proof -
  have "take (length ps) (drop (nat len - length ps) (take (nat len - length ps) buf @ ps @ drop (nat len) buf)) = ps"
    if "length ps \<le> nat len" using that assms(3) by simp
  then show ?thesis
    using assms(2) port_loop_path [OF assms(1,3)] by (simp add: libusb_get_port_numbers_def Let_def)
qed

section \<open>Matching\<close>

text \<open>A client that records its calls, and deregisters a callback when \<open>ret\<close> says so.\<close>

definition recorder :: "(nat \<Rightarrow> int) \<Rightarrow> (nat \<times> nat \<times> byte \<times> nat) list client" where
  "recorder ret fn dev event ud log = ((ret fn, []), log @ [(fn, dev, event, ud)])"

definition called :: "libusb_device_descriptor \<Rightarrow> byte \<Rightarrow> nat \<times> libusb_hotplug_callback \<Rightarrow> bool" where
  "called desc event c \<longleftrightarrow> \<not> needs_free (snd c) \<and> callback_matches desc event (snd c)"

lemma match_loop_calls:
  assumes "distinct (map fst (hotplug_cbs s))" and "distinct (map fst cs)" and "set cs \<subseteq> set (hotplug_cbs s)"
    and "find_device s dev = Some d"
  shows "let s' = hotplug_match_loop ops (recorder ret) dev event (map fst cs) s; desc = d_device_descriptor d in
    os_data s' = os_data s @ map (\<lambda>(b, cb). (cb_fn cb, dev, event, cb_user_data cb)) (filter (called desc event) cs) \<and>
    hotplug_cbs s' = filter (\<lambda>c. \<not> (c \<in> set cs \<and> called desc event c \<and> ret (cb_fn (snd c)) \<noteq> 0)) (hotplug_cbs s)"
  using assms
proof (induction cs arbitrary: s)
  case (Cons c cs)
  obtain b cb where c: "c = (b, cb)" by fastforce
  let ?desc = "d_device_descriptor d"
  have m: "map_of (hotplug_cbs s) b = Some cb" using Cons.prems(1,3) c by simp
  have cs: "distinct (map fst cs)" "set cs \<subseteq> set (hotplug_cbs s)" using Cons.prems(2,3) by simp_all
  show ?case
  proof (cases "called ?desc event c")
    case False
    have "hotplug_match_loop ops (recorder ret) dev event (map fst (c # cs)) s =
        hotplug_match_loop ops (recorder ret) dev event (map fst cs) s"
      using False m c Cons.prems(4) by (auto simp: called_def usbi_hotplug_match_cb_def)
    moreover have "filter (\<lambda>x. \<not> (x \<in> set (c # cs) \<and> called ?desc event x \<and> ret (cb_fn (snd x)) \<noteq> 0)) (hotplug_cbs s) =
        filter (\<lambda>x. \<not> (x \<in> set cs \<and> called ?desc event x \<and> ret (cb_fn (snd x)) \<noteq> 0)) (hotplug_cbs s)"
      by (rule filter_cong) (use False in auto)
    ultimately show ?thesis using Cons.IH [OF Cons.prems(1) cs Cons.prems(4)] False by (simp add: Let_def)
  next
    case True
    define s1 where "s1 = s\<lparr>os_data := os_data s @ [(cb_fn cb, dev, event, cb_user_data cb)]\<rparr>"
    define s2 where "s2 = (if ret (cb_fn cb) \<noteq> 0 then unlink_callback b s1 else s1)"
    have eq: "hotplug_match_loop ops (recorder ret) dev event (map fst (c # cs)) s =
        hotplug_match_loop ops (recorder ret) dev event (map fst cs) s2"
      using True m c Cons.prems(4) by (auto simp: called_def usbi_hotplug_match_cb_def recorder_def s1_def s2_def)
    have h2: "hotplug_cbs s2 = filter (\<lambda>x. \<not> (x = c \<and> ret (cb_fn cb) \<noteq> 0)) (hotplug_cbs s)"
    proof -
      have "fst x \<noteq> b \<longleftrightarrow> x \<noteq> c" if "x \<in> set (hotplug_cbs s)" for x
        using that m c Cons.prems(1,3) by (metis fst_conv map_of_is_SomeI option.inject prod.collapse list.set_intros(1) subsetD)
      then have "filter (\<lambda>(x, cb). x \<noteq> b) (hotplug_cbs s) = filter (\<lambda>x. x \<noteq> c) (hotplug_cbs s)"
        by (intro filter_cong) (simp_all add: case_prod_unfold)
      then show ?thesis by (simp add: s2_def s1_def unlink_callback_def release_def)
    qed
    have "distinct (map fst (hotplug_cbs s2))" using Cons.prems(1) unfolding h2 by (simp add: distinct_map_filter)
    moreover have "c \<notin> set cs" using Cons.prems(2) c by force
    then have "set cs \<subseteq> set (hotplug_cbs s2)" using cs(2) unfolding h2 by auto
    moreover have "find_device s2 dev = Some d" using Cons.prems(4)
      by (simp add: s2_def s1_def unlink_callback_def release_def find_device_def)
    ultimately have ih: "let s' = hotplug_match_loop ops (recorder ret) dev event (map fst cs) s2 in
        os_data s' = os_data s2 @ map (\<lambda>(b, cb). (cb_fn cb, dev, event, cb_user_data cb)) (filter (called ?desc event) cs) \<and>
        hotplug_cbs s' = filter (\<lambda>x. \<not> (x \<in> set cs \<and> called ?desc event x \<and> ret (cb_fn (snd x)) \<noteq> 0)) (hotplug_cbs s2)"
      using Cons.IH [OF _ cs(1)] by (simp add: Let_def)
    have "os_data s2 = os_data s @ [(cb_fn cb, dev, event, cb_user_data cb)]"
      by (simp add: s2_def s1_def unlink_callback_def release_def)
    moreover have "filter (\<lambda>x. \<not> (x \<in> set cs \<and> called ?desc event x \<and> ret (cb_fn (snd x)) \<noteq> 0)) (hotplug_cbs s2) =
        filter (\<lambda>x. \<not> (x \<in> set (c # cs) \<and> called ?desc event x \<and> ret (cb_fn (snd x)) \<noteq> 0)) (hotplug_cbs s)"
      unfolding h2 filter_filter by (rule filter_cong) (use True c in auto)
    ultimately show ?thesis using ih True unfolding eq by (simp add: Let_def c)
  qed
qed simp

section \<open>Interfaces\<close>

lemma claim_bits:
  fixes c :: u64
  assumes "k < 32" and "c AND ucast (push_bit k 1 :: u32) = 0" and "c < 2 ^ 32"
  shows "(c OR ucast (push_bit k 1 :: u32)) AND ucast (push_bit k 1 :: u32) \<noteq> 0"
    and "(c OR ucast (push_bit k 1 :: u32)) AND ucast (NOT (push_bit k 1 :: u32)) = c"
proof -
  define B N where "B = (ucast (push_bit k 1 :: u32) :: u64)" and "N = (ucast (NOT (push_bit k 1 :: u32)) :: u64)"
  have u: "bit B m \<longleftrightarrow> m = k" for m unfolding B_def using assms(1) by (auto simp: bit_simps)
  have n: "bit N m \<longleftrightarrow> m < 32 \<and> m \<noteq> k" for m unfolding N_def using assms(1) by (auto simp: bit_simps)
  have cB: "c AND B = 0" using assms(2) by (simp only: B_def)
  have "bit ((c OR B) AND B) k" by (simp add: bit_and_iff bit_or_iff u)
  then have "(c OR B) AND B \<noteq> 0" by (metis bit_0_eq bot_apply bot_bool_def)
  then show "(c OR ucast (push_bit k 1 :: u32)) AND ucast (push_bit k 1 :: u32) \<noteq> 0" unfolding B_def .
  have nk: "\<not> bit c k"
  proof
    assume "bit c k"
    then have "bit (c AND B) k" by (simp add: bit_and_iff u)
    then show False using cB by simp
  qed
  have low: "m < 32" if "bit c m" for m
  proof (rule ccontr)
    assume "\<not> m < 32"
    moreover have "take_bit 32 c = c"
    proof -
      have "uint c < 2 ^ 32" using assms(3) by (simp add: word_less_def)
      then have "uint (take_bit 32 c) = uint c" by (simp add: unsigned_take_bit_eq take_bit_int_eq_self)
      then show ?thesis by (simp only: word_uint_eq_iff)
    qed
    ultimately show False using that by (metis bit_take_bit_iff)
  qed
  have "(c OR B) AND N = c" using nk low by (intro bit_eqI) (auto simp: bit_and_iff bit_or_iff u n)
  then show "(c OR ucast (push_bit k 1 :: u32)) AND ucast (NOT (push_bit k 1 :: u32)) = c" unfolding B_def N_def .
qed

lemma put_same:
  assumes "distinct (map fst (open_devs s))" and "find_handle s hb = Some hdl"
  shows "put_handle hb hdl s = s"
proof -
  have "(if x = hb then hdl else e) = e" if "(x, e) \<in> set (open_devs s)" for x e
    using assms(2) map_of_is_SomeI [OF assms(1) that] by (auto simp: find_handle_def)
  then have "map (\<lambda>(x, e). (x, if x = hb then hdl else e)) (open_devs s) = open_devs s" by (intro map_idI) auto
  then show ?thesis by (simp add: put_handle_def)
qed

lemma claim_release:
  assumes "distinct (map fst (open_devs s))" and "find_handle s hb = Some hdl" and "find_device s (h_dev hdl) = Some d" and "d_attached d"
    and "0 \<le> n" and "n < 32" and "h_claimed_interfaces hdl AND push_bit (nat n) 1 = 0" and "h_claimed_interfaces hdl < 2 ^ 32"
    and "os_claim_interface ops hb n (os_data s) = (0, os1)" and "os_release_interface ops hb n os1 = (0, os2)"
  shows "libusb_release_interface ops hb n s = Some (LIBUSB_ERROR_NOT_FOUND, s)"
    and "\<exists>s1. libusb_claim_interface ops hb n s = Some (0, s1) \<and> libusb_claim_interface ops hb n s1 = Some (0, s1) \<and>
      libusb_release_interface ops hb n s1 = Some (0, s\<lparr>os_data := os2\<rparr>)"
proof -
  let ?b = "push_bit (nat n) 1 :: u32"
  have k: "nat n < 32" and ib: "interface_bit n = Some ?b" and nn: "\<not> USB_MAXINTERFACES \<le> n"
    using assms(5,6) by (simp_all add: interface_bit_def USB_MAXINTERFACES_def)
  have u: "(push_bit (nat n) 1 :: u64) = ucast ?b" using k by (intro bit_eqI) (auto simp: bit_simps)
  let ?c = "h_claimed_interfaces hdl"
  have z: "?c AND ucast ?b = 0" using assms(7) unfolding u .
  note bits = claim_bits [OF k z assms(8)]
  show "libusb_release_interface ops hb n s = Some (LIBUSB_ERROR_NOT_FOUND, s)"
    using assms(2) ib nn z by (simp add: libusb_release_interface_def)
  let ?h1 = "hdl\<lparr>h_claimed_interfaces := ?c OR ucast ?b\<rparr>"
  let ?s1 = "put_handle hb ?h1 (s\<lparr>os_data := os1\<rparr>)"
  have c1: "libusb_claim_interface ops hb n s = Some (0, ?s1)"
    using assms(2-4,9) ib nn z by (simp add: libusb_claim_interface_def)
  have m: "map_of (open_devs ?s1) x = (if x = hb then Some ?h1 else map_of (open_devs s) x)" for x
  proof -
    have "hb \<in> fst ` set (open_devs s)" using assms(2) unfolding find_handle_def by (metis map_of_eq_None_iff not_None_eq)
    moreover have "map_of (map (\<lambda>(y, e). (y, if y = hb then h else e)) hs) x =
        (if x = hb then map_option (\<lambda>_. h) (map_of hs x) else map_of hs x)" for h :: libusb_device_handle and hs
      by (induction hs) auto
    ultimately show ?thesis using assms(2) by (simp add: put_handle_def find_handle_def)
  qed
  have f1: "find_handle ?s1 hb = Some ?h1" unfolding find_handle_def using m [of hb] by (simp only: if_True simp_thms)
  have d1: "find_device ?s1 (h_dev ?h1) = Some d" using assms(3) by (simp add: put_handle_def find_device_def)
  have "libusb_claim_interface ops hb n ?s1 = Some (0, ?s1)"
    using f1 d1 assms(4) ib nn bits(1) by (simp add: libusb_claim_interface_def)
  moreover have "libusb_release_interface ops hb n ?s1 = Some (0, put_handle hb (?h1\<lparr>h_claimed_interfaces := ?c\<rparr>) (?s1\<lparr>os_data := os2\<rparr>))"
    using f1 ib nn bits assms(10) by (simp add: libusb_release_interface_def put_handle_def)
  moreover have "put_handle hb (?h1\<lparr>h_claimed_interfaces := ?c\<rparr>) (?s1\<lparr>os_data := os2\<rparr>) = s\<lparr>os_data := os2\<rparr>"
  proof -
    have e: "?h1\<lparr>h_claimed_interfaces := ?c\<rparr> = hdl" by simp
    have "put_handle hb hdl (?s1\<lparr>os_data := os2\<rparr>) = put_handle hb hdl s\<lparr>os_data := os2\<rparr>"
      by (simp add: put_handle_def comp_def case_prod_unfold)
    then show ?thesis unfolding e put_same [OF assms(1,2)] .
  qed
  ultimately show "\<exists>s1. libusb_claim_interface ops hb n s = Some (0, s1) \<and> libusb_claim_interface ops hb n s1 = Some (0, s1) \<and>
      libusb_release_interface ops hb n s1 = Some (0, s\<lparr>os_data := os2\<rparr>)"
    using c1 by auto
qed

end
