(* ===== verification/Usb_Core_Theorems.thy ===== *)
theory Usb_Core_Theorems
  imports Usb_Ports
begin

text \<open>
  The properties of libusb's core: devices, lists, handles, events and hotplug callbacks, with an example session.
\<close>

section \<open>An example\<close>

text \<open>A hub is there at first; then a device is plugged into it, listed, opened, and unplugged while it is open.\<close>

definition demo_ops :: "unit usbi_os_backend" where
  "demo_ops = \<lparr>os_get_device_list = None, os_hotplug_poll = None, os_destroy_device = None,
     os_get_device_descriptor = \<lambda>b d. ((0, replicate 18 0, False), d), os_open = \<lambda>hb d. (0, d), os_close = \<lambda>hb d. d,
     os_claim_interface = \<lambda>hb n d. (0, d), os_release_interface = \<lambda>hb n d. (0, d),
     os_set_interface_altsetting = \<lambda>hb n a d. (0, d), os_pipe = 65536\<rparr>"

definition demo_client :: "unit client" where
  "demo_client fn dev event ud d = ((0, []), d)"

definition demo_usb_heap :: heap where
  "demo_usb_heap = \<lparr>next_block = 1, live = {}, oom = (\<lambda>n. False), corrupt = False\<rparr>"

definition demo_hub :: "unit libusb_context \<Rightarrow> unit libusb_context" where
  "demo_hub s = snd (usbi_alloc_device demo_ops True 7 s)"

definition demo_init :: "unit libusb_context" where
  "demo_init = snd (libusb_init demo_ops (\<lambda>s. (0, usbi_connect_device demo_ops 1 (demo_hub s))) id True True demo_usb_heap ())"

definition demo_child :: "unit libusb_context" where
  "demo_child = libusb_ref_device 1 (snd (usbi_alloc_device demo_ops True 8 demo_init))"

definition demo_port :: "unit libusb_context" where
  "demo_port = update_device 2 (\<lambda>d. d\<lparr>d_port_number := 4\<rparr>) (update_device 2 (\<lambda>d. d\<lparr>d_parent_dev := Some 1\<rparr>) demo_child)"

definition demo_plugged :: "unit libusb_context" where
  "demo_plugged = usbi_connect_device demo_ops 2 demo_port"

definition demo_listed :: "unit libusb_context" where
  "demo_listed = snd (libusb_get_device_list demo_ops demo_plugged)"

definition demo_opened :: "unit libusb_context" where
  "demo_opened = snd (libusb_open demo_ops True 2 demo_listed)"

definition demo_unplugged :: "unit libusb_context" where
  "demo_unplugged = usbi_disconnect_device demo_ops 2 demo_opened"

definition demo_closed :: "unit libusb_context" where
  "demo_closed = the (libusb_close demo_ops False (Some 6)
     (libusb_free_device_list demo_ops (Some (5, [2, 1])) True demo_unplugged))"

lemmas demo_defs = usbi_alloc_device_def init_context_def demo_usb_heap_def alloc_def malloc_def release_def Let_def
  has_hotplug_def demo_ops_def libusb_init_def usbi_connect_device_def update_device_def find_device_def put_device_def
  usbi_hotplug_notification_def usbi_io_init_def usbi_fd_notification_def raise_event_def set_event_flag_def
  usbi_signal_event_def usbi_pending_events_def USBI_EVENT_POLLFDS_MODIFIED_def add_hotplug_msg_def libusb_ref_device_def
  libusb_get_device_list_def discovered_devs_alloc_def discover_devices_def discovered_devs_append_def
  discovered_devs_free_def DISCOVERED_DEVICES_SIZE_STEP_def libusb_unref_device.simps(2) libusb_open_def unlink_device_def
  usbi_disconnect_device_def free_def libusb_free_device_list_def libusb_close_def close_begin_def close_end_def do_close_def
  find_handle_def clear_if_idle_def usbi_clear_event_def demo_hub_def demo_init_def demo_child_def demo_port_def
  demo_plugged_def demo_listed_def demo_opened_def demo_unplugged_def

lemmas case_congs = option.case_cong_weak prod.case_cong_weak list.case_cong_weak nat.case_cong_weak

lemma demo_assms: "heap_ok demo_usb_heap" "quiet demo_ops" "0 < os_pipe demo_ops"
  by (simp_all add: demo_usb_heap_def heap_ok_def demo_ops_def quiet_def has_hotplug_def)

lemma demo_opened_session:
  "usb_session demo_ops demo_client demo_usb_heap ([(5, [2, 1])], {#}, {#}, demo_opened)"
proof -
  let ?init = "init_context demo_usb_heap ()" and ?S = "usb_session demo_ops demo_client demo_usb_heap"
  let ?up = "usbi_connect_device demo_ops 1 (demo_hub ?init)"
  have "fst (usbi_alloc_device demo_ops True 7 ?init) = Some 1" by (simp add: demo_defs cong: case_congs)
  then have a: "usbi_alloc_device demo_ops True 7 ?init = (Some 1, demo_hub ?init)"
    by (metis demo_hub_def prod.collapse)
  have "backend_step demo_ops ({#}, {#}, ?init) ({#1#}, {#}, demo_hub ?init)"
    using backend_step.alloc [OF a, of "{#}" "{#}"] by (simp add: opt_list_def)
  moreover have "1 \<notin> set (usb_devs (demo_hub ?init))" by (simp add: demo_defs cong: case_congs)
  then have "backend_step demo_ops (add_mset 1 {#}, {#}, demo_hub ?init) ({#}, {#}, ?up)"
    by (rule backend_step.connect)
  ultimately have run: "backend_run demo_ops ({#}, {#}, ?init) ({#}, {#}, ?up)"
    by (meson converse_rtranclp_into_rtranclp rtranclp.rtrancl_refl)
  have "fst (libusb_init demo_ops (\<lambda>s. (0, usbi_connect_device demo_ops 1 (demo_hub s))) id True True demo_usb_heap ()) = 0"
    by (simp add: demo_defs cong: case_congs)
  then have "libusb_init demo_ops (\<lambda>s. (0, usbi_connect_device demo_ops 1 (demo_hub s))) id True True demo_usb_heap () = (0, demo_init)"
    by (metis demo_init_def prod.collapse)
  from usb_session.start [OF _ run this] have "?S ([], {#}, {#}, demo_init)" by simp
  moreover have "fst (usbi_alloc_device demo_ops True 8 demo_init) = Some 2" by (simp add: demo_defs cong: case_congs)
  then have "usbi_alloc_device demo_ops True 8 demo_init = (Some 2, snd (usbi_alloc_device demo_ops True 8 demo_init))"
    by (metis prod.collapse)
  from backend_step.alloc [OF this, of "{#}" "{#}"]
  have "backend_step demo_ops ({#}, {#}, demo_init) ({#2#}, {#}, snd (usbi_alloc_device demo_ops True 8 demo_init))"
    by (simp add: opt_list_def)
  ultimately have "?S ([], {#2#}, {#}, snd (usbi_alloc_device demo_ops True 8 demo_init))" by (rule session_steps(1))
  moreover have "1 \<in> set (usb_devs (snd (usbi_alloc_device demo_ops True 8 demo_init)))" by (simp add: demo_defs cong: case_congs)
  then have "backend_step demo_ops ({#2#}, {#}, snd (usbi_alloc_device demo_ops True 8 demo_init)) ({#1, 2#}, {#}, demo_child)"
    unfolding demo_child_def by (rule backend_step.get)
  ultimately have "?S ([], {#1, 2#}, {#}, demo_child)" by (rule session_steps(1))
  moreover obtain d where d: "find_device demo_child 2 = Some d" "d_parent_dev d = None"
  proof -
    have "map_option d_parent_dev (find_device demo_child 2) = Some None" by (simp add: demo_defs cong: case_congs)
    then show ?thesis using that by auto
  qed
  have "map (d_parent_dev \<circ> snd) (us_devices demo_child) = [None, None]" by (simp add: demo_defs cong: case_congs)
  then have "d_parent_dev e = None" if "(c, e) \<in> set (us_devices demo_child)" for c e
    using that by (auto simp: map_eq_Cons_conv)
  then have "edges (us_devices demo_child) = {}" by (auto simp: edges_def)
  then have "backend_step demo_ops (add_mset 1 {#2#}, {#}, demo_child)
      ({#2#}, {#}, update_device 2 (\<lambda>d. d\<lparr>d_parent_dev := Some 1\<rparr>) demo_child)"
    by (intro backend_step.parent [OF _ _ d]) simp_all
  ultimately have "?S ([], {#2#}, {#}, update_device 2 (\<lambda>d. d\<lparr>d_parent_dev := Some 1\<rparr>) demo_child)" by (rule session_steps(1))
  moreover have "backend_step demo_ops ({#2#}, {#}, update_device 2 (\<lambda>d. d\<lparr>d_parent_dev := Some 1\<rparr>) demo_child) ({#2#}, {#}, demo_port)"
    unfolding demo_port_def by (rule backend_step.set) simp_all
  ultimately have "?S ([], {#2#}, {#}, demo_port)" by (rule session_steps(1))
  moreover have "2 \<notin> set (usb_devs demo_port)" by (simp add: demo_defs cong: case_congs)
  then have "backend_step demo_ops (add_mset 2 {#}, {#}, demo_port) ({#}, {#}, demo_plugged)"
    unfolding demo_plugged_def by (rule backend_step.connect)
  ultimately have "?S ([], {#}, {#}, demo_plugged)" by (rule session_steps(1))
  moreover have "fst (libusb_get_device_list demo_ops demo_plugged) = (2, Some (5, [2, 1]))" by (simp add: demo_defs cong: case_congs)
  then have "libusb_get_device_list demo_ops demo_plugged = ((2, Some (5, [2, 1])), demo_listed)"
    by (metis demo_listed_def prod.collapse)
  ultimately have "?S (opt_list (Some (5, [2, 1])) @ [], {#}, {#}, demo_listed)" by (rule session_steps(2))
  then have "?S ([(5, [2, 1])], {#}, {#}, demo_listed)" by (simp add: opt_list_def)
  moreover have "fst (libusb_open demo_ops True 2 demo_listed) = (0, Some 6)" by (simp add: demo_defs cong: case_congs)
  then have "libusb_open demo_ops True 2 demo_listed = ((0, Some 6), demo_opened)" by (metis demo_opened_def prod.collapse)
  moreover have "known 2 [(5, [2, 1])] {#} demo_listed" by (simp add: known_def)
  ultimately show ?thesis using session_steps(4) by metis
qed

lemma demo_unplugged_session:
  "usb_session demo_ops demo_client demo_usb_heap ([(5, [2, 1])], {#}, {#}, demo_unplugged)"
proof -
  have "2 \<in> set (usb_devs demo_opened)" by (simp add: demo_defs cong: case_congs)
  from backend_step.disconnect [OF this, of demo_ops "{#}" "{#}"]
  have "backend_step demo_ops ({#}, {#}, demo_opened) ({#}, lost demo_opened 2, demo_unplugged)"
    by (simp add: demo_unplugged_def)
  moreover have "hotplug_ready demo_opened \<and> fst (alloc demo_opened) \<noteq> None" by (simp add: demo_defs cong: case_congs)
  then have "lost demo_opened 2 = {#}" by (simp add: lost_def)
  ultimately show ?thesis using session_steps(1) [OF demo_opened_session] by simp
qed

lemma demo_closed_session:
  "usb_session demo_ops demo_client demo_usb_heap ([], {#}, {#}, demo_closed)"
proof -
  let ?s = "libusb_free_device_list demo_ops (Some (5, [2, 1])) True demo_unplugged"
  have "usb_session demo_ops demo_client demo_usb_heap (remove1 (5, [2, 1]) [(5, [2, 1])], {#}, {#}, ?s)"
    by (rule session_steps(3) [OF demo_unplugged_session]) simp
  then have s: "usb_session demo_ops demo_client demo_usb_heap ([], {#}, {#}, ?s)" by simp
  have "libusb_close demo_ops False (Some 6) ?s \<noteq> None" by (simp add: demo_defs cong: case_congs)
  then have "libusb_close demo_ops False (Some 6) ?s = Some demo_closed" by (auto simp: demo_closed_def)
  moreover have "6 \<in> fst ` set (open_devs ?s)" by (simp add: demo_defs cong: case_congs)
  ultimately show ?thesis using usb_session.close [OF s] by blast
qed

section \<open>Sessions\<close>

text \<open>The holders of a reference that is not lost, and the children of a device.\<close>

definition holders :: "nat \<Rightarrow> lists \<Rightarrow> nat multiset \<Rightarrow> 'd libusb_context \<Rightarrow> nat" where
  "holders b Ls C s =
     count_list (usb_devs s) b + count_list (left_refs (hotplug_msgs s)) b +
     length (filter (\<lambda>(x, hdl). h_dev hdl = b) (open_devs s)) + count (refs Ls + C) b +
     length (filter (\<lambda>(c, e). d_parent_dev e = Some b) (us_devices s))"

lemma count_handles: "count (mset (map (h_dev \<circ> snd) hs)) b = length (filter (\<lambda>(x, hdl). h_dev hdl = b) hs)"
  by (induction hs) auto





section \<open>Events\<close>

text \<open>
  C26: whatever threads raise events, handle them and close devices, in any interleaving: while an event is pending the
  pipe is readable, so that no wake-up is lost; and no section reads the pipe while it is empty, which would block.
\<close>

theorem event_pipe_never_lost:
  assumes "event_reach cap (n, l, s)" and "0 < cap"
  shows "(usbi_pending_events s \<longrightarrow> 0 < event_pipe s) \<and>
    (l = Unlocked \<longrightarrow> update_pollfds allocated s \<noteq> None) \<and>
    (l = Closing \<longrightarrow> close_end s \<noteq> None) \<and>
    (l = Polling \<and> 0 < event_pipe s \<longrightarrow> next_completed 0 (snd (snd (take_events s))) \<noteq> None) \<and>
    (l = Completing \<longrightarrow> next_completed ret s \<noteq> None)"
proof -
  have i: "event_inv (n, l, s)" by (rule event_reach_inv [OF assms])
  have "close_end s \<noteq> None" if c: "l = Closing"
  proof -
    obtain m where "n = Suc m" using i c by (cases n) (simp_all add: event_inv_def)
    then show ?thesis using close_end_inv [of m s] i c by auto
  qed
  moreover have "next_completed 0 (snd (snd (take_events s))) \<noteq> None" if "0 < event_pipe s"
  proof -
    obtain d ms t where t: "take_events s = (d, ms, t)" by (metis surj_pair)
    then show ?thesis using next_completed_inv [of t n 0] take_events_keeps [OF t] i that by (auto simp: event_inv_def)
  qed
  ultimately show ?thesis
    using i update_pollfds_inv [of n s allocated] next_completed_inv [of s n ret] by (auto simp: event_inv_def)
qed

theorem event_pipe_never_lost_witness:
  "0 < event_pipe (libusb_interrupt_event_handler 1 (usbi_fd_notification 1 (events_init :: nat events)))"
proof -
  let ?s = "libusb_interrupt_event_handler 1 (usbi_fd_notification 1 (events_init :: nat events))"
  have "event_reach 1 (0, Unlocked, ?s)"
    using event_reach.step [OF event_reach.init event_step.interrupt] by blast
  from event_pipe_never_lost [OF this] show ?thesis
    by (simp add: usbi_pending_events_def libusb_interrupt_event_handler_def usbi_fd_notification_def raise_event_def
        set_event_flag_def Let_def usbi_signal_event_def events_init_def usb_consts)
qed

section \<open>Callbacks\<close>


definition demo_callbacks :: "(nat \<times> nat \<times> byte \<times> nat) list libusb_context" where
  "demo_callbacks = (init_context demo_usb_heap [])\<lparr>
     us_devices := [(1, \<lparr>d_refcnt = 1, d_bus_number = 0, d_port_number = 0, d_parent_dev = None, d_device_address = 0,
       d_num_configurations = 0, d_speed = 0, d_session_data = 0,
       d_device_descriptor = (device_of (replicate 18 0))\<lparr>dev_idVendor := 0x1d6b\<rparr>, d_attached = True\<rparr>)],
     hotplug_cbs := [(2, callback_of 1 0x1d6b (-1) (-1) 10 0 1), (3, callback_of 1 0x1234 (-1) (-1) 11 0 2),
       (4, callback_of 3 (-1) (-1) (-1) 12 5 3)]\<rparr>"


section \<open>Ports and interfaces\<close>

text \<open>
  C28: in a session every device has its way to the root, and \<^verbatim>\<open>libusb_get_port_numbers\<close> returns its ports: their number with
  the ports at the start of the array when they fit, \<^verbatim>\<open>LIBUSB_ERROR_OVERFLOW\<close> when they do not.
\<close>

theorem usb_session_port_numbers:
  assumes "usb_session ops call h (Ls, C, X, s)" and "heap_ok h" and "quiet ops" and "0 < os_pipe ops"
    and "known b Ls C s" and "0 < len" and "nat len \<le> length buf"
  shows "\<exists>ps rest. port_path s (Some b) ps \<and>
    libusb_get_port_numbers s b buf len =
      Some (if length ps \<le> nat len then (int (length ps), ps @ rest) else (LIBUSB_ERROR_OVERFLOW, rest))"
proof -
  have i: "ctx_inv ops (live h) (map fst Ls) (refs Ls + C) X [] s"
    using usb_session_inv [OF assms(1-4)] by (simp add: session_inv_def)
  obtain d where "find_device s b = Some d" using usb_session_facts(5) [OF assms(1-5)] by auto
  then obtain ps where ps: "port_path s (Some b) ps" using port_path_exists [OF i] by blast
  show ?thesis using get_port_numbers_path [OF ps assms(6,7)] ps by (cases "length ps \<le> nat len") auto
qed

theorem usb_session_port_numbers_witness:
  "\<exists>ps rest. port_path demo_unplugged (Some 2) ps \<and>
    libusb_get_port_numbers demo_unplugged 2 [0, 0, 0] 3 =
      Some (if length ps \<le> 3 then (int (length ps), ps @ rest) else (LIBUSB_ERROR_OVERFLOW, rest))"
  using usb_session_port_numbers [OF demo_unplugged_session demo_assms, of 2 3 "[0, 0, 0]"] by (simp add: known_def)

text \<open>
  Claiming an interface that is not claimed and releasing it restores the handle; a second claim succeeds without asking the
  backend, and an interface that is not claimed cannot be released.
\<close>

theorem claim_release_roundtrip:
  assumes "distinct (map fst (open_devs s))" and "find_handle s hb = Some hdl" and "find_device s (h_dev hdl) = Some d" and "d_attached d"
    and "0 \<le> n" and "n < 32" and "h_claimed_interfaces hdl AND push_bit (nat n) 1 = 0" and "h_claimed_interfaces hdl < 2 ^ 32"
    and "os_claim_interface ops hb n (os_data s) = (0, os1)" and "os_release_interface ops hb n os1 = (0, os2)"
  shows "libusb_release_interface ops hb n s = Some (LIBUSB_ERROR_NOT_FOUND, s) \<and>
    (\<exists>s1. libusb_claim_interface ops hb n s = Some (0, s1) \<and> libusb_claim_interface ops hb n s1 = Some (0, s1) \<and>
      libusb_release_interface ops hb n s1 = Some (0, s\<lparr>os_data := os2\<rparr>))"
  using claim_release [OF assms] by blast

theorem claim_release_roundtrip_witness:
  "\<exists>s1. libusb_claim_interface demo_ops 6 31 demo_opened = Some (0, s1) \<and>
    libusb_release_interface demo_ops 6 31 s1 = Some (0, demo_opened)"
proof -
  let ?hdl = "\<lparr>h_dev = 2, h_claimed_interfaces = 0, h_auto_detach_kernel_driver = 0\<rparr>"
  have h: "open_devs demo_opened = [(6, ?hdl)]" "find_device demo_opened 2 \<noteq> None"
    "map_option d_attached (find_device demo_opened 2) = Some True"
    by (simp_all add: demo_defs cong: case_congs)
  then obtain d where d: "find_device demo_opened 2 = Some d" "d_attached d" by auto
  have "distinct (map fst (open_devs demo_opened))" "find_handle demo_opened 6 = Some ?hdl" "find_device demo_opened (h_dev ?hdl) = Some d"
    using h(1) d(1) by (simp_all add: find_handle_def)
  from claim_release_roundtrip [OF this d(2), of 31 demo_ops "()" "()"] show ?thesis by (auto simp: demo_ops_def)
qed

end
