(* ===== verification/Usb_Transfers.thy ===== *)
theory Usb_Transfers
  imports Usb_Session
begin

text \<open>
  Asynchronous transfers, \<^verbatim>\<open>io.c\<close>: submission, the list of the transfers in flight with their timeouts, the timer,
  cancelling, completion and what becomes of the transfers of a device that disconnects or a handle that
  is closed.  Each operation is a whole critical section or a sequence of them as one thread runs it.
\<close>

section \<open>The data\<close>

definition USBI_TRANSFER_IN_FLIGHT :: byte where [usb_consts]: "USBI_TRANSFER_IN_FLIGHT = push_bit 0 1"
definition USBI_TRANSFER_CANCELLING :: byte where [usb_consts]: "USBI_TRANSFER_CANCELLING = push_bit 1 1"
definition USBI_TRANSFER_DEVICE_DISAPPEARED :: byte where [usb_consts]: "USBI_TRANSFER_DEVICE_DISAPPEARED = push_bit 2 1"
definition USBI_TRANSFER_OS_HANDLES_TIMEOUT :: byte where [usb_consts]: "USBI_TRANSFER_OS_HANDLES_TIMEOUT = push_bit 0 1"
definition USBI_TRANSFER_TIMEOUT_HANDLED :: byte where [usb_consts]: "USBI_TRANSFER_TIMEOUT_HANDLED = push_bit 1 1"
definition USBI_TRANSFER_TIMED_OUT :: byte where [usb_consts]: "USBI_TRANSFER_TIMED_OUT = push_bit 2 1"
definition LIBUSB_TRANSFER_COMPLETED :: int where [usb_consts]: "LIBUSB_TRANSFER_COMPLETED = 0"
definition LIBUSB_TRANSFER_ERROR :: int where [usb_consts]: "LIBUSB_TRANSFER_ERROR = 1"
definition LIBUSB_TRANSFER_TIMED_OUT :: int where [usb_consts]: "LIBUSB_TRANSFER_TIMED_OUT = 2"
definition LIBUSB_TRANSFER_CANCELLED :: int where [usb_consts]: "LIBUSB_TRANSFER_CANCELLED = 3"
definition LIBUSB_TRANSFER_NO_DEVICE :: int where [usb_consts]: "LIBUSB_TRANSFER_NO_DEVICE = 5"
definition LIBUSB_TRANSFER_SHORT_NOT_OK :: byte where [usb_consts]: "LIBUSB_TRANSFER_SHORT_NOT_OK = push_bit 0 1"
definition LIBUSB_TRANSFER_FREE_BUFFER :: byte where [usb_consts]: "LIBUSB_TRANSFER_FREE_BUFFER = push_bit 1 1"
definition LIBUSB_TRANSFER_FREE_TRANSFER :: byte where [usb_consts]: "LIBUSB_TRANSFER_FREE_TRANSFER = push_bit 2 1"
definition LIBUSB_TRANSFER_TYPE_CONTROL :: byte where [usb_consts]: "LIBUSB_TRANSFER_TYPE_CONTROL = 0"
definition LIBUSB_CONTROL_SETUP_SIZE :: int where [usb_consts]: "LIBUSB_CONTROL_SETUP_SIZE = 8"

text \<open>Seconds and microseconds; zero means no timeout.\<close>

type_synonym timeval = "int \<times> int"

definition timerisset :: "timeval \<Rightarrow> bool" where
  "timerisset tv \<longleftrightarrow> fst tv \<noteq> 0 \<or> snd tv \<noteq> 0"

text \<open>A \<^verbatim>\<open>libusb_transfer\<close> with the \<^verbatim>\<open>usbi_transfer\<close> in front of it, in one block.\<close>

record usbi_transfer =
  u_timeout :: timeval
  u_transferred :: int
  u_state_flags :: byte
  u_timeout_flags :: byte
  x_dev_handle :: "nat option"
  x_flags :: byte
  x_type :: byte
  x_timeout :: u32
  x_status :: int
  x_length :: int
  x_actual_length :: int
  x_buffer :: "nat option"

text \<open>
  The transfers of a context, by their blocks, and the list of those in flight.  The timer is \<open>None\<close> without
  \<^verbatim>\<open>timerfd\<close>; otherwise it is the time it is armed for, if any.
\<close>

record transfers =
  transfer :: "nat \<Rightarrow> usbi_transfer"
  flying_transfers :: "nat list"
  timerfd :: "timeval option option"

definition update_transfer :: "nat \<Rightarrow> (usbi_transfer \<Rightarrow> usbi_transfer) \<Rightarrow> transfers \<Rightarrow> transfers" where
  "update_transfer t f s = s\<lparr>transfer := (transfer s)(t := f (transfer s t))\<rparr>"

text \<open>What \<^verbatim>\<open>clock_gettime\<close> gives: its result, negative for an error, and seconds and nanoseconds.\<close>

type_synonym clock = "int \<times> int \<times> int"

section \<open>Timeouts\<close>

function normalize_timespec :: "int \<Rightarrow> int \<Rightarrow> int \<times> int" where
  "normalize_timespec sec nsec =
     (if nsec \<ge> 1000000000 then normalize_timespec (sec + 1) (nsec - 1000000000) else (sec, nsec))"
  by auto
termination by (relation "measure (\<lambda>(sec, nsec). nat nsec)") auto

declare normalize_timespec.simps [simp del]

definition TIMESPEC_TO_TIMEVAL :: "int \<times> int \<Rightarrow> timeval" where
  "TIMESPEC_TO_TIMEVAL ts = (fst ts, snd ts div 1000)"

definition calculate_timeout :: "clock \<Rightarrow> u32 \<Rightarrow> int + timeval" where
  "calculate_timeout clock timeout =
    (if timeout = 0 then Inr (0, 0)
     else case clock of
       (r, sec, nsec) \<Rightarrow>
         if r < 0 then Inl r
         else Inr (TIMESPEC_TO_TIMEVAL
           (normalize_timespec (sec + uint timeout div 1000) (nsec + uint timeout mod 1000 * 1000000))))"

definition later :: "timeval \<Rightarrow> timeval \<Rightarrow> bool" where
  "later a b \<longleftrightarrow> fst a > fst b \<or> fst a = fst b \<and> snd a > snd b"

text \<open>
  The place of a transfer with a timeout: before the first one that has none or a later one.  \<open>first\<close> says whether
  no transfer has been passed.
\<close>

primrec insert_loop :: "(nat \<Rightarrow> timeval) \<Rightarrow> timeval \<Rightarrow> nat \<Rightarrow> bool \<Rightarrow> nat list \<Rightarrow> nat list \<times> bool" where
  "insert_loop tos timeout t first [] = ([t], first)"
| "insert_loop tos timeout t first (cur # curs) =
    (if \<not> timerisset (tos cur) \<or> later (tos cur) timeout then (t # cur # curs, first)
     else (case insert_loop tos timeout t False curs of (ts, first) \<Rightarrow> (cur # ts, first)))"

definition timeouts :: "transfers \<Rightarrow> nat \<Rightarrow> timeval" where
  "timeouts s t = u_timeout (transfer s t)"

text \<open>\<open>settime_ok\<close> is whether \<^verbatim>\<open>timerfd_settime\<close> succeeds.\<close>

definition add_to_flying_list :: "clock \<Rightarrow> bool \<Rightarrow> nat \<Rightarrow> transfers \<Rightarrow> int \<times> transfers" where
  "add_to_flying_list clock settime_ok t s =
    (case calculate_timeout clock (x_timeout (transfer s t)) of
       Inl r \<Rightarrow> (r, s)
     | Inr tv \<Rightarrow>
        (let s = update_transfer t (\<lambda>u. u\<lparr>u_timeout := tv\<rparr>) s;
             fl = flying_transfers s;
             (fl', first) =
               (if fl = [] then ([t], True)
                else if \<not> timerisset tv then (fl @ [t], True)
                else insert_loop (timeouts s) tv t True fl)
         in if first \<and> timerfd s \<noteq> None \<and> timerisset tv then
              (if settime_ok then (0, s\<lparr>flying_transfers := fl', timerfd := Some (Some tv)\<rparr>)
               else (LIBUSB_ERROR_OTHER, s))
            else (0, s\<lparr>flying_transfers := fl'\<rparr>)))"

definition timeout_ignored :: "usbi_transfer \<Rightarrow> bool" where
  "timeout_ignored u \<longleftrightarrow> u_timeout_flags u AND (USBI_TRANSFER_TIMEOUT_HANDLED OR USBI_TRANSFER_OS_HANDLES_TIMEOUT) \<noteq> 0"

text \<open>What the timer is to be armed for: the first timeout that is not ignored.\<close>

primrec next_armed :: "(nat \<Rightarrow> usbi_transfer) \<Rightarrow> nat list \<Rightarrow> timeval option" where
  "next_armed tr [] = None"
| "next_armed tr (t # ts) =
    (if \<not> timerisset (u_timeout (tr t)) then None
     else if \<not> timeout_ignored (tr t) then Some (u_timeout (tr t))
     else next_armed tr ts)"

definition arm_timerfd_for_next_timeout :: "bool \<Rightarrow> transfers \<Rightarrow> int \<times> transfers" where
  "arm_timerfd_for_next_timeout settime_ok s =
    (if settime_ok then (0, s\<lparr>timerfd := Some (next_armed (transfer s) (flying_transfers s))\<rparr>)
     else (LIBUSB_ERROR_OTHER, s))"

text \<open>\<^verbatim>\<open>list_del\<close> of a transfer that is not in the list follows a null pointer, \<open>None\<close>.\<close>

definition remove_from_flying_list :: "bool \<Rightarrow> nat \<Rightarrow> transfers \<Rightarrow> (int \<times> transfers) option" where
  "remove_from_flying_list settime_ok t s =
    (if t \<notin> set (flying_transfers s) then None
     else
       let rearm_timerfd = (timerisset (timeouts s t) \<and> hd (flying_transfers s) = t);
           s = s\<lparr>flying_transfers := remove1 t (flying_transfers s)\<rparr>
       in Some (if timerfd s \<noteq> None \<and> rearm_timerfd then arm_timerfd_for_next_timeout settime_ok s else (0, s)))"

section \<open>Cancelling\<close>

text \<open>\<open>cancel\<close> is the backend's.\<close>

definition libusb_cancel_transfer :: "(nat \<Rightarrow> int) \<Rightarrow> nat \<Rightarrow> transfers \<Rightarrow> int \<times> transfers" where
  "libusb_cancel_transfer cancel t s =
    (let flags = u_state_flags (transfer s t) in
     if flags AND USBI_TRANSFER_IN_FLIGHT = 0 \<or> flags AND USBI_TRANSFER_CANCELLING \<noteq> 0
     then (LIBUSB_ERROR_NOT_FOUND, s)
     else
       let r = cancel t;
           flags = (if r < 0 \<and> r = LIBUSB_ERROR_NO_DEVICE then flags OR USBI_TRANSFER_DEVICE_DISAPPEARED else flags)
       in (r, update_transfer t (\<lambda>u. u\<lparr>u_state_flags := flags OR USBI_TRANSFER_CANCELLING\<rparr>) s))"

definition handle_timeout :: "(nat \<Rightarrow> int) \<Rightarrow> nat \<Rightarrow> transfers \<Rightarrow> transfers" where
  "handle_timeout cancel t s =
    (let s = update_transfer t (\<lambda>u. u\<lparr>u_timeout_flags := u_timeout_flags u OR USBI_TRANSFER_TIMEOUT_HANDLED\<rparr>) s;
         (r, s) = libusb_cancel_transfer cancel t s
     in if r = LIBUSB_SUCCESS
        then update_transfer t (\<lambda>u. u\<lparr>u_timeout_flags := u_timeout_flags u OR USBI_TRANSFER_TIMED_OUT\<rparr>) s else s)"

primrec timeouts_loop :: "(nat \<Rightarrow> int) \<Rightarrow> timeval \<Rightarrow> nat list \<Rightarrow> transfers \<Rightarrow> transfers" where
  "timeouts_loop cancel systime [] s = s"
| "timeouts_loop cancel systime (t # ts) s =
    (if \<not> timerisset (timeouts s t) then s
     else if timeout_ignored (transfer s t) then timeouts_loop cancel systime ts s
     else if later (timeouts s t) systime then s
     else timeouts_loop cancel systime ts (handle_timeout cancel t s))"

definition handle_timeouts_locked :: "(nat \<Rightarrow> int) \<Rightarrow> clock \<Rightarrow> transfers \<Rightarrow> int \<times> transfers" where
  "handle_timeouts_locked cancel clock s =
    (if flying_transfers s = [] then (0, s)
     else case clock of
       (r, ts) \<Rightarrow>
         if r < 0 then (r, s)
         else (0, timeouts_loop cancel (TIMESPEC_TO_TIMEVAL ts) (flying_transfers s) s))"

definition handle_timerfd_trigger :: "(nat \<Rightarrow> int) \<Rightarrow> clock \<Rightarrow> bool \<Rightarrow> transfers \<Rightarrow> int \<times> transfers" where
  "handle_timerfd_trigger cancel clock settime_ok s =
    (case handle_timeouts_locked cancel clock s of
       (r, s) \<Rightarrow> if r < 0 then (r, s) else arm_timerfd_for_next_timeout settime_ok s)"

section \<open>The next timeout\<close>

text \<open>Unlike \<open>next_armed\<close>, the loop looks at the flags first.\<close>

primrec next_timeout_loop :: "(nat \<Rightarrow> usbi_transfer) \<Rightarrow> nat list \<Rightarrow> timeval" where
  "next_timeout_loop tr [] = (0, 0)"
| "next_timeout_loop tr (t # ts) =
    (if timeout_ignored (tr t) then next_timeout_loop tr ts
     else if \<not> timerisset (u_timeout (tr t)) then (0, 0)
     else u_timeout (tr t))"

definition timersub :: "timeval \<Rightarrow> timeval \<Rightarrow> timeval" where
  "timersub a b =
    (let sec = fst a - fst b; usec = snd a - snd b
     in if usec < 0 then (sec - 1, usec + 1000000) else (sec, usec))"

definition libusb_get_next_timeout :: "clock \<Rightarrow> transfers \<Rightarrow> int \<times> timeval option" where
  "libusb_get_next_timeout clock s =
    (if timerfd s \<noteq> None then (0, None)
     else if flying_transfers s = [] then (0, None)
     else
       let next_timeout = next_timeout_loop (transfer s) (flying_transfers s) in
       if \<not> timerisset next_timeout then (0, None)
       else case clock of
         (r, ts) \<Rightarrow>
           if r < 0 then (0, None)
           else (let cur_tv = TIMESPEC_TO_TIMEVAL ts in
            if \<not> later next_timeout cur_tv then (1, Some (0, 0)) else (1, Some (timersub next_timeout cur_tv))))"

definition get_next_timeout :: "clock \<Rightarrow> transfers \<Rightarrow> timeval \<Rightarrow> int \<times> timeval option" where
  "get_next_timeout clock s tv =
    (case libusb_get_next_timeout clock s of
       (r, timeout) \<Rightarrow>
        (case timeout of
           Some timeout \<Rightarrow>
             if r \<noteq> 0 then
               (if \<not> timerisset timeout then (1, None) else (0, Some (if later tv timeout then timeout else tv)))
             else (0, Some tv)
         | None \<Rightarrow> (0, Some tv)))"

section \<open>Submission and completion\<close>

text \<open>A context with its transfers.\<close>

record 'd transfer_context =
  tc_ctx :: "'d libusb_context"
  tc_transfers :: transfers

text \<open>
  \<open>submit\<close> is the backend's: its result, and whether the operating system handles the timeout.  A transfer without a
  handle, or with one that is closed, is a null pointer or a dangling one: \<open>None\<close>.
\<close>

definition transfer_dev :: "'d transfer_context \<Rightarrow> nat \<Rightarrow> nat option" where
  "transfer_dev s t =
    (case x_dev_handle (transfer (tc_transfers s) t) of
       None \<Rightarrow> None
     | Some hb \<Rightarrow> map_option h_dev (find_handle (tc_ctx s) hb))"

definition libusb_submit_transfer ::
  "(nat \<Rightarrow> 'd \<Rightarrow> (int \<times> bool) \<times> 'd) \<Rightarrow> clock \<Rightarrow> bool \<Rightarrow> nat \<Rightarrow> 'd transfer_context \<Rightarrow> (int \<times> 'd transfer_context) option" where
  "libusb_submit_transfer submit clock settime_ok t s =
    (case transfer_dev s t of
       None \<Rightarrow> None
     | Some dev \<Rightarrow>
        if u_state_flags (transfer (tc_transfers s) t) AND USBI_TRANSFER_IN_FLIGHT \<noteq> 0 then Some (LIBUSB_ERROR_BUSY, s)
        else
          (case add_to_flying_list clock settime_ok t
              (update_transfer t (\<lambda>u. u\<lparr>u_transferred := 0, u_state_flags := 0, u_timeout_flags := 0\<rparr>) (tc_transfers s)) of
             (r, tr) \<Rightarrow>
              if r \<noteq> 0 then Some (r, s\<lparr>tc_transfers := tr\<rparr>)
              else
                (case submit t (os_data (tc_ctx s)) of
                   ((r, os_handles), os) \<Rightarrow>
                     let c = (tc_ctx s)\<lparr>os_data := os\<rparr>;
                         tr = (if os_handles
                           then update_transfer t (\<lambda>u. u\<lparr>u_timeout_flags := u_timeout_flags u OR USBI_TRANSFER_OS_HANDLES_TIMEOUT\<rparr>) tr
                           else tr)
                     in if r = LIBUSB_SUCCESS then
                          Some (r, \<lparr>tc_ctx = libusb_ref_device dev c,
                            tc_transfers = update_transfer t
                              (\<lambda>u. u\<lparr>u_state_flags := u_state_flags u OR USBI_TRANSFER_IN_FLIGHT\<rparr>) tr\<rparr>)
                        else
                          map_option (\<lambda>(_, tr). (r, \<lparr>tc_ctx = c, tc_transfers = tr\<rparr>)) (remove_from_flying_list settime_ok t tr))))"

definition libusb_alloc_transfer :: "'d transfer_context \<Rightarrow> nat option \<times> 'd transfer_context" where
  "libusb_alloc_transfer s =
    (case alloc (tc_ctx s) of
       (p, c) \<Rightarrow>
        (p, \<lparr>tc_ctx = c, tc_transfers =
           (case p of
              None \<Rightarrow> tc_transfers s
            | Some t \<Rightarrow> update_transfer t (\<lambda>_. \<lparr>u_timeout = (0, 0), u_transferred = 0, u_state_flags = 0, u_timeout_flags = 0,
                x_dev_handle = None, x_flags = 0, x_type = 0, x_timeout = 0, x_status = 0, x_length = 0, x_actual_length = 0,
                x_buffer = None\<rparr>) (tc_transfers s))\<rparr>))"

definition libusb_free_transfer :: "nat option \<Rightarrow> 'd transfer_context \<Rightarrow> 'd transfer_context" where
  "libusb_free_transfer transfer_p s =
    (case transfer_p of
       None \<Rightarrow> s
     | Some t \<Rightarrow>
        (let u = transfer (tc_transfers s) t;
             c = tc_ctx s;
             c = (if x_flags u AND LIBUSB_TRANSFER_FREE_BUFFER \<noteq> 0 then c\<lparr>us_heap := free (x_buffer u) (us_heap c)\<rparr> else c)
         in s\<lparr>tc_ctx := release t c\<rparr>))"

definition completion_status :: "usbi_transfer \<Rightarrow> int \<Rightarrow> int" where
  "completion_status u status =
    (if status = LIBUSB_TRANSFER_COMPLETED \<and> x_flags u AND LIBUSB_TRANSFER_SHORT_NOT_OK \<noteq> 0 then
       (let rqlen = (if x_type u = LIBUSB_TRANSFER_TYPE_CONTROL then x_length u - LIBUSB_CONTROL_SETUP_SIZE else x_length u)
        in if rqlen \<noteq> u_transferred u then LIBUSB_TRANSFER_ERROR else status)
     else status)"

text \<open>The part of a completion before the callback, and the part after it, which reads the device through the handle.\<close>

definition complete_begin :: "bool \<Rightarrow> nat \<Rightarrow> int \<Rightarrow> transfers \<Rightarrow> (int \<times> transfers) option" where
  "complete_begin settime_ok t status s =
    map_option (\<lambda>(r, s).
        (r, update_transfer t (\<lambda>u. u\<lparr>u_state_flags := u_state_flags u AND NOT USBI_TRANSFER_IN_FLIGHT,
           x_status := completion_status u status, x_actual_length := u_transferred u\<rparr>) s))
      (remove_from_flying_list settime_ok t s)"

definition complete_end ::
  "'d usbi_os_backend \<Rightarrow> nat \<Rightarrow> byte \<Rightarrow> nat \<Rightarrow> 'd transfer_context \<Rightarrow> 'd transfer_context option" where
  "complete_end ops hb flags t s =
    (let s = (if flags AND LIBUSB_TRANSFER_FREE_TRANSFER \<noteq> 0 then libusb_free_transfer (Some t) s else s) in
     case find_handle (tc_ctx s) hb of
       None \<Rightarrow> None
     | Some hdl \<Rightarrow> Some (s\<lparr>tc_ctx := libusb_unref_device ops (Some (h_dev hdl)) (tc_ctx s)\<rparr>))"

definition usbi_handle_transfer_completion ::
  "'d usbi_os_backend \<Rightarrow> (nat \<Rightarrow> 'd transfer_context \<Rightarrow> 'd transfer_context) \<Rightarrow> bool \<Rightarrow> nat \<Rightarrow> int \<Rightarrow> 'd transfer_context \<Rightarrow>
     (int \<times> 'd transfer_context) option" where
  "usbi_handle_transfer_completion ops callback settime_ok t status s =
    (case x_dev_handle (transfer (tc_transfers s) t) of
       None \<Rightarrow> None
     | Some hb \<Rightarrow>
        (case complete_begin settime_ok t status (tc_transfers s) of
           None \<Rightarrow> None
         | Some (r, tr) \<Rightarrow>
            map_option (\<lambda>s. (r, s))
              (complete_end ops hb (x_flags (transfer tr t)) t (callback t (s\<lparr>tc_transfers := tr\<rparr>)))))"

definition usbi_handle_transfer_cancellation ::
  "'d usbi_os_backend \<Rightarrow> (nat \<Rightarrow> 'd transfer_context \<Rightarrow> 'd transfer_context) \<Rightarrow> bool \<Rightarrow> nat \<Rightarrow> 'd transfer_context \<Rightarrow>
     (int \<times> 'd transfer_context) option" where
  "usbi_handle_transfer_cancellation ops callback settime_ok t s =
     usbi_handle_transfer_completion ops callback settime_ok t
       (if u_timeout_flags (transfer (tc_transfers s) t) AND USBI_TRANSFER_TIMED_OUT \<noteq> 0
        then LIBUSB_TRANSFER_TIMED_OUT else LIBUSB_TRANSFER_CANCELLED) s"

text \<open>The first part of \<^verbatim>\<open>do_close\<close>: the transfers of the handle are taken off the list and lose their handle.\<close>

definition close_transfers :: "nat \<Rightarrow> transfers \<Rightarrow> transfers" where
  "close_transfers hb s =
    (let mine = (\<lambda>t. x_dev_handle (transfer s t) = Some hb) in
     s\<lparr>flying_transfers := filter (\<lambda>t. \<not> mine t) (flying_transfers s),
       transfer := (\<lambda>t. if t \<in> set (flying_transfers s) \<and> mine t then (transfer s t)\<lparr>x_dev_handle := None\<rparr> else transfer s t)\<rparr>)"

definition close_handle ::
  "'d usbi_os_backend \<Rightarrow> bool \<Rightarrow> nat \<Rightarrow> 'd transfer_context \<Rightarrow> 'd transfer_context option" where
  "close_handle ops handling_events hb s =
    map_option (\<lambda>c. \<lparr>tc_ctx = c, tc_transfers = close_transfers hb (tc_transfers s)\<rparr>)
      (libusb_close ops handling_events (Some hb) (tc_ctx s))"

text \<open>
  The loop of \<^verbatim>\<open>usbi_handle_disconnect\<close> looks for a transfer in flight on the handle.  \<open>clear\<close> is the backend's
  \<^verbatim>\<open>clear_transfer_priv\<close>.
\<close>

definition to_cancel :: "nat \<Rightarrow> transfers \<Rightarrow> nat option" where
  "to_cancel hb s =
     find (\<lambda>t. x_dev_handle (transfer s t) = Some hb \<and> u_state_flags (transfer s t) AND USBI_TRANSFER_IN_FLIGHT \<noteq> 0)
       (flying_transfers s)"

partial_function (option) usbi_handle_disconnect ::
  "'d usbi_os_backend \<Rightarrow> (nat \<Rightarrow> 'd \<Rightarrow> 'd) \<Rightarrow> (nat \<Rightarrow> 'd transfer_context \<Rightarrow> 'd transfer_context) \<Rightarrow> bool \<Rightarrow> nat \<Rightarrow>
     'd transfer_context \<Rightarrow> 'd transfer_context option" where
  "usbi_handle_disconnect ops clear callback settime_ok hb s =
    (if find_handle (tc_ctx s) hb = None then None
     else case to_cancel hb (tc_transfers s) of
       None \<Rightarrow> Some s
     | Some t \<Rightarrow>
        Option.bind
          (usbi_handle_transfer_completion ops callback settime_ok t LIBUSB_TRANSFER_NO_DEVICE
            (s\<lparr>tc_ctx := (tc_ctx s)\<lparr>os_data := clear t (os_data (tc_ctx s))\<rparr>\<rparr>))
          (\<lambda>(r, s). usbi_handle_disconnect ops clear callback settime_ok hb s))"

end
