(* ===== verification/Usb_Timeouts.thy ===== *)
theory Usb_Timeouts
  imports Usb_Transfers
begin

text \<open>
  The list of the transfers in flight is a queue ordered by timeout: adding, removing, cancelling and expiry keep
  the order and the timer; what expires at a time is exactly what is due, and the time to wait is the time to the
  earliest timeout.
\<close>

section \<open>The order of timeouts\<close>

lemma normalize_timespec_eq: "0 \<le> nsec \<Longrightarrow> normalize_timespec sec nsec = (sec + nsec div 1000000000, nsec mod 1000000000)"
proof (induction sec nsec rule: normalize_timespec.induct)
  case (1 sec nsec)
  show ?case
  proof (cases "nsec \<ge> 1000000000")
    case True
    have "(nsec - 1000000000) div 1000000000 = nsec div 1000000000 - 1" "(nsec - 1000000000) mod 1000000000 = nsec mod 1000000000"
      by (simp_all add: minus_mod_self2)
    then show ?thesis using True "1.IH" [OF True] by (subst normalize_timespec.simps) simp
  next
    case False
    then show ?thesis using "1.prems" by (subst normalize_timespec.simps) simp
  qed
qed

text \<open>A timeout that is not set is the last of all.\<close>

definition before :: "timeval \<Rightarrow> timeval \<Rightarrow> bool" where
  "before a b \<longleftrightarrow> \<not> timerisset b \<or> timerisset a \<and> \<not> later a b"

definition sorted_flying :: "(nat \<Rightarrow> timeval) \<Rightarrow> nat list \<Rightarrow> bool" where
  "sorted_flying tos fl \<longleftrightarrow> sorted_wrt (\<lambda>a b. before (tos a) (tos b)) fl"

lemma before_refl [simp]: "before a a"
  by (auto simp: before_def later_def)

lemma before_trans: "before a b \<Longrightarrow> before b c \<Longrightarrow> before a c"
  by (auto simp: before_def later_def)

lemma sorted_Cons: "sorted_flying tos (t # ts) \<longleftrightarrow> (\<forall>u \<in> set ts. before (tos t) (tos u)) \<and> sorted_flying tos ts"
  by (simp add: sorted_flying_def)

lemma sorted_cong: "(\<And>t. t \<in> set fl \<Longrightarrow> tos t = tos' t) \<Longrightarrow> sorted_flying tos fl = sorted_flying tos' fl"
  by (induction fl) (auto simp: sorted_flying_def)

lemma insert_loop_mset: "mset (fst (insert_loop tos tv t first fl)) = add_mset t (mset fl)"
  by (induction fl arbitrary: first) (simp_all add: case_prod_unfold add_mset_commute)

lemma insert_loop_set: "set (fst (insert_loop tos tv t first fl)) = insert t (set fl)"
  using insert_loop_mset [of tos tv t first fl] by (metis set_mset_add_mset_insert set_mset_mset)

lemma insert_loop_first:
  "snd (insert_loop tos tv t first fl) \<longleftrightarrow> first \<and> (fl = [] \<or> \<not> timerisset (tos (hd fl)) \<or> later (tos (hd fl)) tv)"
  "fl \<noteq> [] \<Longrightarrow> fst (insert_loop tos tv t first fl) \<noteq> [] \<and>
     hd (fst (insert_loop tos tv t first fl)) = (if \<not> timerisset (tos (hd fl)) \<or> later (tos (hd fl)) tv then t else hd fl)"
proof -
  have f: "\<not> snd (insert_loop tos tv t False xs)" for xs by (induction xs) (simp_all add: case_prod_unfold)
  show "snd (insert_loop tos tv t first fl) \<longleftrightarrow> first \<and> (fl = [] \<or> \<not> timerisset (tos (hd fl)) \<or> later (tos (hd fl)) tv)"
    by (cases fl) (simp_all add: case_prod_unfold f)
  show "fl \<noteq> [] \<Longrightarrow> fst (insert_loop tos tv t first fl) \<noteq> [] \<and>
     hd (fst (insert_loop tos tv t first fl)) = (if \<not> timerisset (tos (hd fl)) \<or> later (tos (hd fl)) tv then t else hd fl)"
    by (cases fl) (simp_all add: case_prod_unfold)
qed

lemma insert_loop_sorted:
  assumes "timerisset tv" and "tos t = tv" and "sorted_flying tos fl"
  shows "sorted_flying tos (fst (insert_loop tos tv t first fl))"
  using assms(3)
proof (induction fl arbitrary: first)
  case Nil
  then show ?case by (simp add: sorted_flying_def)
next
  case (Cons cur curs)
  show ?case
  proof (cases "\<not> timerisset (tos cur) \<or> later (tos cur) tv")
    case True
    then have "before (tos t) (tos cur)" using assms(1,2) by (auto simp: before_def later_def)
    then show ?thesis using True Cons.prems before_trans by (auto simp: sorted_Cons)
  next
    case False
    then have "before (tos cur) (tos t)" using assms(2) by (auto simp: before_def)
    then show ?thesis
      using False Cons.IH [of False] Cons.prems insert_loop_set [of tos tv t False curs]
      by (auto simp: sorted_Cons case_prod_unfold)
  qed
qed

text \<open>Times in microseconds.\<close>

definition micros :: "timeval \<Rightarrow> int" where
  "micros tv = fst tv * 1000000 + snd tv"

definition normal :: "timeval \<Rightarrow> bool" where
  "normal tv \<longleftrightarrow> 0 \<le> snd tv \<and> snd tv < 1000000"

definition clock_ok :: "clock \<Rightarrow> bool" where
  "clock_ok c \<longleftrightarrow> (case c of (r, sec, nsec) \<Rightarrow> r \<le> 0 \<and> 0 \<le> sec \<and> 0 \<le> nsec \<and> nsec < 1000000000)"

lemma later_micros: "normal a \<Longrightarrow> normal b \<Longrightarrow> later a b \<longleftrightarrow> micros b < micros a"
  by (auto simp: later_def micros_def normal_def)

lemma timersub_micros: "normal a \<Longrightarrow> normal b \<Longrightarrow> micros (timersub a b) = micros a - micros b \<and> normal (timersub a b)"
  by (auto simp: timersub_def micros_def normal_def Let_def)

lemma normal_now: "clock_ok (r, ts) \<Longrightarrow> normal (TIMESPEC_TO_TIMEVAL ts)"
  by (auto simp: clock_ok_def TIMESPEC_TO_TIMEVAL_def normal_def split: prod.splits)

lemma calculate_timeout_micros:
  assumes "calculate_timeout (r, ts) timeout = Inr tv" and "clock_ok (r, ts)"
  shows "normal tv" and "timerisset tv \<longleftrightarrow> timeout \<noteq> 0"
    and "timeout \<noteq> 0 \<Longrightarrow> micros tv = micros (TIMESPEC_TO_TIMEVAL ts) + 1000 * uint timeout"
proof -
  obtain sec nsec where ts: "ts = (sec, nsec)" by fastforce
  have c: "0 \<le> sec" "0 \<le> nsec" "nsec < 1000000000" using assms(2) by (simp_all add: clock_ok_def ts)
  have "normal tv \<and> (timerisset tv \<longleftrightarrow> timeout \<noteq> 0) \<and>
      (timeout \<noteq> 0 \<longrightarrow> micros tv = micros (TIMESPEC_TO_TIMEVAL ts) + 1000 * uint timeout)"
  proof (cases "timeout = 0")
    case True
    then show ?thesis using assms(1) by (auto simp: calculate_timeout_def normal_def timerisset_def)
  next
    case False
    define m where "m = uint timeout"
    have m: "0 < m" using False by (simp add: m_def word_less_def [symmetric] word_gt_0 uint_0_iff order.strict_iff_order)
    let ?n = "nsec + m mod 1000 * 1000000"
    have n: "0 \<le> ?n" using c by simp
    have tv: "tv = (sec + m div 1000 + ?n div 1000000000, ?n mod 1000000000 div 1000)"
      using assms(1) False n by (auto simp: calculate_timeout_def ts m_def normalize_timespec_eq TIMESPEC_TO_TIMEVAL_def split: if_splits)
    have "0 \<le> ?n mod 1000000000" "?n mod 1000000000 < 1000000000" by simp_all
    then have "0 \<le> ?n mod 1000000000 div 1000" "?n mod 1000000000 div 1000 < 1000000" by linarith+
    then have "normal tv" by (simp add: tv normal_def)
    moreover have "micros tv = micros (TIMESPEC_TO_TIMEVAL ts) + 1000 * m"
    proof -
      have d: "(1000 * a + b) div 1000 = a + b div 1000" for a b :: int by simp
      have "?n div 1000 = (1000 * (1000000 * (?n div 1000000000)) + ?n mod 1000000000) div 1000"
        by (rule arg_cong [where f = "\<lambda>x. x div 1000"]) simp
      then have "?n div 1000 = 1000000 * (?n div 1000000000) + ?n mod 1000000000 div 1000" unfolding d .
      moreover have "?n div 1000 = 1000 * (m mod 1000) + nsec div 1000"
        using d [of "1000 * (m mod 1000)" nsec] by (simp add: algebra_simps)
      moreover have "m = 1000 * (m div 1000) + m mod 1000" by simp
      ultimately show ?thesis unfolding tv micros_def ts TIMESPEC_TO_TIMEVAL_def fst_conv snd_conv by (simp only: algebra_simps)
    qed
    ultimately show ?thesis using m c False by (auto simp: m_def timerisset_def micros_def ts TIMESPEC_TO_TIMEVAL_def)
  qed
  then show "normal tv" and "timerisset tv \<longleftrightarrow> timeout \<noteq> 0"
    and "timeout \<noteq> 0 \<Longrightarrow> micros tv = micros (TIMESPEC_TO_TIMEVAL ts) + 1000 * uint timeout" by blast+
qed

section \<open>The invariant of the list\<close>

text \<open>
  The list is sorted and without duplicates.  \<open>w\<close> says that \<^verbatim>\<open>timerfd_settime\<close> does not fail; then the timer fires no later
  than the first timeout in the list, unless that was handled already.
\<close>

definition timer_ok :: "transfers \<Rightarrow> bool" where
  "timer_ok s \<longleftrightarrow>
     (case timerfd s of
        None \<Rightarrow> True
      | Some armed \<Rightarrow>
          (case flying_transfers s of
             [] \<Rightarrow> True
           | t # ts \<Rightarrow> timerisset (timeouts s t) \<and> \<not> timeout_ignored (transfer s t) \<longrightarrow>
               (\<exists>tv. armed = Some tv \<and> \<not> later tv (timeouts s t))))"

definition flying_ok :: "bool \<Rightarrow> transfers \<Rightarrow> bool" where
  "flying_ok w s \<longleftrightarrow> sorted_flying (timeouts s) (flying_transfers s) \<and> distinct (flying_transfers s) \<and>
     (\<forall>t \<in> set (flying_transfers s). normal (timeouts s t)) \<and> (w \<longrightarrow> timer_ok s)"

lemma flying_okD:
  assumes "flying_ok w s"
  shows "sorted_flying (timeouts s) (flying_transfers s)" "distinct (flying_transfers s)"
    "t \<in> set (flying_transfers s) \<Longrightarrow> normal (timeouts s t)" "w \<Longrightarrow> timer_ok s"
  using assms by (simp_all add: flying_ok_def)

lemma update_keeps [simp]:
  "flying_transfers (update_transfer t f s) = flying_transfers s" "timerfd (update_transfer t f s) = timerfd s"
  "transfer (update_transfer t f s) = (transfer s)(t := f (transfer s t))"
  by (simp_all add: update_transfer_def)

lemma timeouts_keeps [simp]:
  "timeouts (s\<lparr>flying_transfers := fl\<rparr>) = timeouts s" "timeouts (s\<lparr>timerfd := x\<rparr>) = timeouts s"
  by (simp_all add: timeouts_def fun_eq_iff)

lemma timer_cong:
  assumes "timerfd s' = timerfd s" and "flying_transfers s' = flying_transfers s"
    and "\<And>t. t \<in> set (flying_transfers s) \<Longrightarrow> timeouts s' t = timeouts s t \<and>
      (timeout_ignored (transfer s t) \<longrightarrow> timeout_ignored (transfer s' t))"
  shows "timer_ok s \<Longrightarrow> timer_ok s'"
  using assms by (auto simp: timer_ok_def split: option.splits list.splits)

text \<open>Transfers change, but in the list they keep their timeouts and at most get flags to ignore them.\<close>

lemma flying_cong:
  assumes "flying_ok w s" and "timerfd s' = timerfd s" and "flying_transfers s' = flying_transfers s"
    and "\<And>t. t \<in> set (flying_transfers s) \<Longrightarrow> timeouts s' t = timeouts s t \<and>
      (timeout_ignored (transfer s t) \<longrightarrow> timeout_ignored (transfer s' t))"
  shows "flying_ok w s'"
  using assms timer_cong [OF assms(2-4)] sorted_cong [of "flying_transfers s" "timeouts s'" "timeouts s"]
  by (simp add: flying_ok_def)

lemma flying_ok_update:
  assumes "flying_ok w s" and "u_timeout (f (transfer s t)) = u_timeout (transfer s t)"
    and "timeout_ignored (transfer s t) \<Longrightarrow> timeout_ignored (f (transfer s t))"
  shows "flying_ok w (update_transfer t f s)"
  by (rule flying_cong [OF assms(1)]) (use assms(2,3) in \<open>auto simp: timeouts_def\<close>)

lemma flying_ok_absent:
  assumes "flying_ok w s" and "t \<notin> set (flying_transfers s)"
  shows "flying_ok w (update_transfer t f s)"
  by (rule flying_cong [OF assms(1)]) (use assms(2) in \<open>auto simp: timeouts_def\<close>)

lemma sorted_append_last: "sorted_flying tos fl \<Longrightarrow> \<not> timerisset (tos t) \<Longrightarrow> sorted_flying tos (fl @ [t])"
  by (auto simp: sorted_flying_def sorted_wrt_append before_def)

lemma sorted_remove1: "sorted_flying tos fl \<Longrightarrow> sorted_flying tos (remove1 t fl)"
  by (induction fl) (auto simp: sorted_flying_def dest: notin_set_remove1 in_set_remove1 [THEN iffD1, rotated] set_remove1_subset [THEN subsetD])

section \<open>Adding and removing\<close>

lemma add_to_flying:
  assumes "flying_ok w s" and "t \<notin> set (flying_transfers s)" and "clock_ok clock"
    and "add_to_flying_list clock settime_ok t s = (r, s')"
  shows "flying_ok w s'"
    and "r = 0 \<Longrightarrow> mset (flying_transfers s') = add_mset t (mset (flying_transfers s))"
    and "r \<noteq> 0 \<Longrightarrow> flying_transfers s' = flying_transfers s"
    and "\<exists>tv. transfer s' = (transfer s)(t := (transfer s t)\<lparr>u_timeout := tv\<rparr>)"
    and "timerfd s' = None \<longleftrightarrow> timerfd s = None"
proof -
  have "flying_ok w s' \<and> (r = 0 \<longrightarrow> mset (flying_transfers s') = add_mset t (mset (flying_transfers s))) \<and>
    (r \<noteq> 0 \<longrightarrow> flying_transfers s' = flying_transfers s) \<and> (\<exists>tv. transfer s' = (transfer s)(t := (transfer s t)\<lparr>u_timeout := tv\<rparr>)) \<and>
    (timerfd s' = None \<longleftrightarrow> timerfd s = None)"
  proof (cases "calculate_timeout clock (x_timeout (transfer s t))")
    case (Inl e)
    then have s': "s' = s" "r = e" using assms(4) by (simp_all add: add_to_flying_list_def)
    have "transfer s = (transfer s)(t := (transfer s t)\<lparr>u_timeout := u_timeout (transfer s t)\<rparr>)" by simp
    moreover have "e \<noteq> 0" using Inl by (auto simp: calculate_timeout_def split: if_splits prod.splits)
    ultimately show ?thesis using assms(1) s' by metis
  next
    case (Inr tv)
    define s1 where "s1 = update_transfer t (\<lambda>u. u\<lparr>u_timeout := tv\<rparr>) s"
    have ok1: "flying_ok w s1" unfolding s1_def by (rule flying_ok_absent [OF assms(1,2)])
    have tv: "timeouts s1 t = tv" by (simp add: s1_def timeouts_def)
    have nt: "normal tv" using calculate_timeout_micros(1) Inr assms(3) by (cases clock) auto
    let ?fl = "flying_transfers s1"
    define ins where "ins = (if ?fl = [] then ([t], True) else if \<not> timerisset tv then (?fl @ [t], True)
      else insert_loop (timeouts s1) tv t True ?fl)"
    obtain fl' first where fl': "ins = (fl', first)" by fastforce
    have so: "sorted_flying (timeouts s1) fl'"
      using flying_okD(1) [OF ok1] fl' insert_loop_sorted [of tv "timeouts s1" t ?fl True] sorted_append_last [of "timeouts s1" ?fl t] tv
      by (auto simp: ins_def sorted_flying_def split: if_splits)
    have ms: "mset fl' = add_mset t (mset ?fl)"
      using fl' insert_loop_mset [of "timeouts s1" tv t True ?fl] by (auto simp: ins_def split: if_splits)
    have di: "distinct fl'"
    proof -
      have "distinct (t # ?fl)" using flying_okD(2) [OF ok1] assms(2) by (simp add: s1_def)
      then show ?thesis using ms by (metis mset.simps(2) mset_eq_imp_distinct_iff)
    qed
    have no: "normal (timeouts s1 u)" if "u \<in> set fl'" for u
    proof -
      have "set fl' = insert t (set ?fl)" using ms by (metis set_mset_add_mset_insert set_mset_mset)
      then show ?thesis using that nt tv flying_okD(3) [OF ok1] by auto
    qed
    have hd: "fl' \<noteq> []" "timerisset tv \<Longrightarrow> hd fl' = (if first then t else hd ?fl)" "timerisset tv \<Longrightarrow> \<not> first \<Longrightarrow> ?fl \<noteq> []"
      using fl' insert_loop_first [where tos = "timeouts s1" and tv = tv and t = t and first = True and fl = ?fl]
      by (auto simp: ins_def split: if_splits)
    have tail: "\<not> timerisset tv \<Longrightarrow> ?fl \<noteq> [] \<Longrightarrow> hd fl' = hd ?fl" "\<not> timerisset tv \<Longrightarrow> ?fl = [] \<Longrightarrow> hd fl' = t"
      using fl' by (auto simp: ins_def split: if_splits)
    have eq: "(r, s') = (if first \<and> timerfd s1 \<noteq> None \<and> timerisset tv then
        (if settime_ok then (0, s1\<lparr>flying_transfers := fl', timerfd := Some (Some tv)\<rparr>) else (LIBUSB_ERROR_OTHER, s1))
        else (0, s1\<lparr>flying_transfers := fl'\<rparr>))"
      using assms(4) Inr fl' unfolding add_to_flying_list_def ins_def by (simp add: s1_def [symmetric] Let_def cong: if_cong)
    obtain x xs where x: "fl' = x # xs" using hd(1) by (cases fl') auto
    have t1: "transfer s1 = (transfer s)(t := (transfer s t)\<lparr>u_timeout := tv\<rparr>)" "flying_transfers s1 = flying_transfers s"
      "timerfd s1 = timerfd s" by (simp_all add: s1_def)
    have ex: "\<exists>tv. transfer s1 = (transfer s)(t := (transfer s t)\<lparr>u_timeout := tv\<rparr>)" using t1(1) by blast
    consider (armed) "first" "timerfd s1 \<noteq> None" "timerisset tv" "settime_ok" | (failed) "(r, s') = (LIBUSB_ERROR_OTHER, s1)"
      | (plain) "\<not> (first \<and> timerfd s1 \<noteq> None \<and> timerisset tv)" using eq by (auto split: if_splits)
    then show ?thesis
    proof cases
      case armed
      then have s': "r = 0" "s' = s1\<lparr>flying_transfers := fl', timerfd := Some (Some tv)\<rparr>" using eq by simp_all
      have "timer_ok s'" using hd(2) armed x tv by (simp add: timer_ok_def s' later_def)
      then have "flying_ok w s'" using so di no by (simp add: flying_ok_def s')
      then show ?thesis using ms ex t1 armed(2) by (simp add: s')
    next
      case failed
      then show ?thesis using ok1 ex t1 by (simp add: usb_consts)
    next
      case plain
      then have s': "r = 0" "s' = s1\<lparr>flying_transfers := fl'\<rparr>" using eq by auto
      have "timer_ok s'" if w: "w"
      proof (cases "timerfd s1")
        case None
        then show ?thesis by (simp add: timer_ok_def s')
      next
        case (Some armed)
        show ?thesis
        proof (cases ?fl)
          case Nil
          then have "x = t" "\<not> timerisset tv" using plain hd(2,3) tail x Some by auto
          then show ?thesis using x tv Some by (simp add: timer_ok_def s')
        next
          case (Cons y ys)
          have "x = y" using plain hd(2) tail(1) x Some Cons by (cases "timerisset tv") auto
          moreover have "timer_ok s1" using flying_okD(4) [OF ok1 w] .
          ultimately show ?thesis using Cons Some x by (simp add: timer_ok_def s')
        qed
      qed
      then have "flying_ok w s'" using so di no by (simp add: flying_ok_def s')
      then show ?thesis using ms ex t1 by (simp add: s')
    qed
  qed
  then show "flying_ok w s'"
    and "r = 0 \<Longrightarrow> mset (flying_transfers s') = add_mset t (mset (flying_transfers s))"
    and "r \<noteq> 0 \<Longrightarrow> flying_transfers s' = flying_transfers s"
    and "\<exists>tv. transfer s' = (transfer s)(t := (transfer s t)\<lparr>u_timeout := tv\<rparr>)"
    and "timerfd s' = None \<longleftrightarrow> timerfd s = None" by blast+
qed

lemma remove_from_flying:
  assumes "flying_ok w s" and "w \<longrightarrow> settime_ok" and "remove_from_flying_list settime_ok t s = Some (r, s')"
  shows "flying_ok w s'" and "t \<in> set (flying_transfers s)" and "flying_transfers s' = remove1 t (flying_transfers s)"
    and "transfer s' = transfer s" and "timerfd s' = None \<longleftrightarrow> timerfd s = None"
proof -
  let ?fl = "remove1 t (flying_transfers s)"
  define rearm where "rearm \<longleftrightarrow> timerisset (timeouts s t) \<and> hd (flying_transfers s) = t"
  have t: "t \<in> set (flying_transfers s)" using assms(3) by (auto simp: remove_from_flying_list_def split: if_splits)
  have c: "(r, s') = (if timerfd s \<noteq> None \<and> rearm then arm_timerfd_for_next_timeout settime_ok (s\<lparr>flying_transfers := ?fl\<rparr>)
      else (0, s\<lparr>flying_transfers := ?fl\<rparr>))"
    using assms(3) t by (simp add: remove_from_flying_list_def rearm_def Let_def cong: if_cong)
  have s': "flying_transfers s' = ?fl" "transfer s' = transfer s" "timerfd s' = None \<longleftrightarrow> timerfd s = None"
    using c by (auto simp: arm_timerfd_for_next_timeout_def split: if_splits)
  have to: "timeouts s' = timeouts s" using s'(2) by (simp add: timeouts_def fun_eq_iff)
  have "timer_ok s'" if w: "w"
  proof (cases "timerfd s \<noteq> None \<and> rearm")
    case True
    then have "timerfd s' = Some (next_armed (transfer s) ?fl)"
      using c w assms(2) by (simp add: arm_timerfd_for_next_timeout_def)
    then show ?thesis using s' to by (auto simp: timer_ok_def timeouts_def later_def split: list.splits)
  next
    case False
    then have eq: "s' = s\<lparr>flying_transfers := ?fl\<rparr>" using c by (simp split: if_splits)
    show ?thesis
    proof (cases "timerfd s")
      case None
      then show ?thesis by (simp add: timer_ok_def eq)
    next
      case (Some armed)
      obtain x xs where x: "flying_transfers s = x # xs" using t by (cases "flying_transfers s") auto
      show ?thesis
      proof (cases "x = t")
        case True
        then have "\<not> timerisset (timeouts s t)" using \<open>\<not> (timerfd s \<noteq> None \<and> rearm)\<close> Some x by (simp add: rearm_def)
        then have "\<forall>u \<in> set xs. \<not> timerisset (timeouts s u)"
          using flying_okD(1) [OF assms(1)] True by (auto simp: x sorted_Cons before_def)
        then show ?thesis using True Some by (auto simp: timer_ok_def eq x split: list.splits)
      next
        case False
        then show ?thesis using flying_okD(4) [OF assms(1) w] Some by (simp add: timer_ok_def eq x)
      qed
    qed
  qed
  then show "flying_ok w s'"
    using assms(1) s'(1) sorted_remove1 set_remove1_subset [of t "flying_transfers s"] distinct_remove1
    by (auto simp: flying_ok_def to)
  show "t \<in> set (flying_transfers s)" "flying_transfers s' = ?fl" "transfer s' = transfer s"
    "timerfd s' = None \<longleftrightarrow> timerfd s = None" using t s' by blast+
qed

lemma remove_from_flying_some: "t \<in> set (flying_transfers s) \<Longrightarrow> remove_from_flying_list settime_ok t s \<noteq> None"
  by (simp add: remove_from_flying_list_def Let_def)

section \<open>Flags\<close>

definition in_flight :: "usbi_transfer \<Rightarrow> bool" where
  "in_flight u \<longleftrightarrow> u_state_flags u AND USBI_TRANSFER_IN_FLIGHT \<noteq> 0"

lemma flag_or: "(a OR b) AND m = 0 \<longleftrightarrow> a AND m = 0 \<and> b AND m = (0 :: 'a::len word)"
  by (simp add: bit.conj_disj_distrib2 or_eq_0_iff)

lemma ignored_or [simp]: "timeout_ignored u \<Longrightarrow> timeout_ignored (u\<lparr>u_timeout_flags := u_timeout_flags u OR f\<rparr>)"
  by (auto simp: timeout_ignored_def flag_or)

lemma ignored_handled: "timeout_ignored (u\<lparr>u_timeout_flags := u_timeout_flags u OR USBI_TRANSFER_TIMEOUT_HANDLED\<rparr>)"
  by (simp add: timeout_ignored_def flag_or usb_consts)

text \<open>What cancelling and a timeout do with a transfer.\<close>

definition cancelled :: "int \<Rightarrow> usbi_transfer \<Rightarrow> usbi_transfer" where
  "cancelled r u =
    (if \<not> in_flight u \<or> u_state_flags u AND USBI_TRANSFER_CANCELLING \<noteq> 0 then u
     else u\<lparr>u_state_flags := (if r = LIBUSB_ERROR_NO_DEVICE then u_state_flags u OR USBI_TRANSFER_DEVICE_DISAPPEARED
       else u_state_flags u) OR USBI_TRANSFER_CANCELLING\<rparr>)"

definition timed_out :: "int \<Rightarrow> usbi_transfer \<Rightarrow> usbi_transfer" where
  "timed_out r u =
    (let u' = u\<lparr>u_timeout_flags := u_timeout_flags u OR USBI_TRANSFER_TIMEOUT_HANDLED\<rparr>
     in if in_flight u \<and> u_state_flags u AND USBI_TRANSFER_CANCELLING = 0 \<and> r = LIBUSB_SUCCESS
        then (cancelled r u')\<lparr>u_timeout_flags := u_timeout_flags u' OR USBI_TRANSFER_TIMED_OUT\<rparr> else cancelled r u')"

lemma update_id: "f (transfer s t) = transfer s t \<Longrightarrow> update_transfer t f s = s"
  by (simp add: update_transfer_def)

lemma update_update [simp]: "update_transfer t f (update_transfer t g s) = update_transfer t (\<lambda>u. f (g u)) s"
  by (simp add: update_transfer_def)

lemma update_cong: "f (transfer s t) = g (transfer s t) \<Longrightarrow> update_transfer t f s = update_transfer t g s"
  by (simp add: update_transfer_def)

lemma cancel_eq: "snd (libusb_cancel_transfer cancel t s) = update_transfer t (cancelled (cancel t)) s"
  and cancel_result: "fst (libusb_cancel_transfer cancel t s) = (if in_flight (transfer s t) \<and>
    u_state_flags (transfer s t) AND USBI_TRANSFER_CANCELLING = 0 then cancel t else LIBUSB_ERROR_NOT_FOUND)"
  by (auto simp: libusb_cancel_transfer_def cancelled_def in_flight_def Let_def usb_consts intro!: update_cong update_id [symmetric])

lemma handle_timeout_eq: "handle_timeout cancel t s = update_transfer t (timed_out (cancel t)) s"
proof -
  let ?h = "\<lambda>u. u\<lparr>u_timeout_flags := u_timeout_flags u OR USBI_TRANSFER_TIMEOUT_HANDLED\<rparr>"
  obtain r s1 where c: "libusb_cancel_transfer cancel t (update_transfer t ?h s) = (r, s1)" by fastforce
  have r: "r = (if in_flight (transfer s t) \<and> u_state_flags (transfer s t) AND USBI_TRANSFER_CANCELLING = 0
      then cancel t else LIBUSB_ERROR_NOT_FOUND)"
    using cancel_result [of cancel t "update_transfer t ?h s"] c by (simp add: in_flight_def)
  have s1: "s1 = update_transfer t (\<lambda>u. cancelled (cancel t) (?h u)) s"
    using cancel_eq [of cancel t "update_transfer t ?h s"] c by simp
  have "LIBUSB_ERROR_NOT_FOUND \<noteq> LIBUSB_SUCCESS" by (simp add: usb_consts)
  then show ?thesis using c r
    by (auto simp: handle_timeout_def s1 timed_out_def Let_def cancelled_def in_flight_def intro!: update_cong)
qed

lemma cancelled_keeps [simp]:
  "u_timeout (cancelled r u) = u_timeout u" "u_timeout_flags (cancelled r u) = u_timeout_flags u"
  "timeout_ignored (cancelled r u) = timeout_ignored u" "in_flight (cancelled r u) = in_flight u"
  "x_dev_handle (cancelled r u) = x_dev_handle u"
  by (auto simp: cancelled_def timeout_ignored_def in_flight_def flag_or)

lemma timed_out_keeps [simp]:
  "u_timeout (timed_out r u) = u_timeout u" "timeout_ignored (timed_out r u)" "in_flight (timed_out r u) = in_flight u"
  "x_dev_handle (timed_out r u) = x_dev_handle u"
  using ignored_handled [of u]
  by (auto simp: timed_out_def Let_def in_flight_def timeout_ignored_def flag_or cancelled_def)

section \<open>Expiry\<close>

definition expired :: "timeval \<Rightarrow> transfers \<Rightarrow> nat \<Rightarrow> bool" where
  "expired now s t \<longleftrightarrow> timerisset (timeouts s t) \<and> \<not> timeout_ignored (transfer s t) \<and> \<not> later (timeouts s t) now"

lemma later_trans: "later a c \<Longrightarrow> before a b \<Longrightarrow> timerisset b \<Longrightarrow> later b c"
  by (auto simp: later_def before_def)

lemma before_unset: "before a b \<Longrightarrow> \<not> timerisset a \<Longrightarrow> \<not> timerisset b"
  by (simp add: before_def)

lemma timeouts_update [simp]:
  "u_timeout (f (transfer s t)) = u_timeout (transfer s t) \<Longrightarrow> timeouts (update_transfer t f s) = timeouts s"
  by (simp add: timeouts_def fun_eq_iff)

lemma none_change:
  assumes "\<And>t. t \<in> A \<Longrightarrow> \<not> P t"
  shows "s\<lparr>transfer := (\<lambda>t. if t \<in> A \<and> P t then f t else transfer s t)\<rparr> = s"
proof -
  have "(\<lambda>t. if t \<in> A \<and> P t then f t else transfer s t) = transfer s"
    by (rule ext) (use assms in auto)
  then show ?thesis by simp
qed

text \<open>The list is sorted, so the loop may stop at the first timeout that has not expired.\<close>

lemma timeouts_loop_eq:
  "sorted_flying (timeouts s) fl \<Longrightarrow> distinct fl \<Longrightarrow> timeouts_loop cancel now fl s =
     s\<lparr>transfer := (\<lambda>t. if t \<in> set fl \<and> expired now s t then timed_out (cancel t) (transfer s t) else transfer s t)\<rparr>"
proof (induction fl arbitrary: s)
  case (Cons t ts)
  have so: "\<And>u. u \<in> set ts \<Longrightarrow> before (timeouts s t) (timeouts s u)" "sorted_flying (timeouts s) ts"
    using Cons.prems(1) by (simp_all add: sorted_Cons)
  have d: "t \<notin> set ts" "distinct ts" using Cons.prems(2) by simp_all
  consider (unset) "\<not> timerisset (timeouts s t)" | (ignored) "timerisset (timeouts s t)" "timeout_ignored (transfer s t)"
    | (later) "timerisset (timeouts s t)" "\<not> timeout_ignored (transfer s t)" "later (timeouts s t) now"
    | (expired) "timerisset (timeouts s t)" "\<not> timeout_ignored (transfer s t)" "\<not> later (timeouts s t) now" by blast
  then show ?case
  proof cases
    case unset
    then have "\<not> timerisset (timeouts s u)" if "u \<in> set (t # ts)" for u
      using that before_unset [OF so(1) [of u]] by (cases "u = t") simp_all
    then have "\<not> expired now s u" if "u \<in> set (t # ts)" for u using that unfolding expired_def by blast
    from none_change [where A = "set (t # ts)" and P = "expired now s", OF this, of "\<lambda>t. timed_out (cancel t) (transfer s t)" s]
    show ?thesis using unset by simp
  next
    case ignored
    then have "\<not> expired now s t" by (simp add: expired_def)
    then have "(u \<in> set (t # ts) \<and> expired now s u) = (u \<in> set ts \<and> expired now s u)" for u by auto
    then show ?thesis using ignored Cons.IH [OF so(2) d(2)] by simp
  next
    case later
    then have "\<not> expired now s u" if "u \<in> set (t # ts)" for u
      using that later_trans [OF later(3) so(1) [of u]] later(3) by (cases "u = t") (simp_all add: expired_def)
    from none_change [where A = "set (t # ts)" and P = "expired now s", OF this, of "\<lambda>t. timed_out (cancel t) (transfer s t)" s]
    show ?thesis using later by simp
  next
    case expired
    let ?s = "update_transfer t (timed_out (cancel t)) s"
    have to: "timeouts ?s = timeouts s" by simp
    have e: "expired now ?s u = expired now s u" if "u \<noteq> t" for u using that by (simp add: expired_def to)
    have t: "expired now s t" using expired by (simp add: expired_def)
    let ?G = "\<lambda>u. if u \<in> set ts \<and> expired now ?s u then timed_out (cancel u) (transfer ?s u) else transfer ?s u"
    let ?H = "\<lambda>u. if u \<in> set (t # ts) \<and> expired now s u then timed_out (cancel u) (transfer s u) else transfer s u"
    have "timeouts_loop cancel now ts ?s = ?s\<lparr>transfer := ?G\<rparr>" by (rule Cons.IH) (use so(2) d(2) to in simp_all)
    moreover have "?G = ?H"
    proof
      fix u
      show "?G u = ?H u" using d(1) t e [of u] by (cases "u = t") simp_all
    qed
    moreover have "?s\<lparr>transfer := ?H\<rparr> = s\<lparr>transfer := ?H\<rparr>" by (simp add: update_transfer_def)
    ultimately have "timeouts_loop cancel now ts ?s = s\<lparr>transfer := ?H\<rparr>" by metis
    then show ?thesis using expired by (simp add: handle_timeout_eq)
  qed
qed simp

lemma handle_timeouts_eq:
  assumes "flying_ok w s"
  shows "handle_timeouts_locked cancel (0, ts) s = (0, s\<lparr>transfer := (\<lambda>t.
    if t \<in> set (flying_transfers s) \<and> expired (TIMESPEC_TO_TIMEVAL ts) s t then timed_out (cancel t) (transfer s t)
    else transfer s t)\<rparr>)"
  using timeouts_loop_eq [OF flying_okD(1,2) [OF assms], of cancel "TIMESPEC_TO_TIMEVAL ts"]
  by (cases "flying_transfers s = []") (simp_all add: handle_timeouts_locked_def)

text \<open>Cancelling and timeouts change transfers in the list only as the invariant allows.\<close>

definition only_flags :: "transfers \<Rightarrow> transfers \<Rightarrow> bool" where
  "only_flags s s' \<longleftrightarrow> flying_transfers s' = flying_transfers s \<and>
     (\<forall>t. in_flight (transfer s' t) = in_flight (transfer s t) \<and> x_dev_handle (transfer s' t) = x_dev_handle (transfer s t))"

lemma cancel_flying:
  assumes "flying_ok w s" and "libusb_cancel_transfer cancel t s = (r, s')"
  shows "flying_ok w s' \<and> only_flags s s'"
proof -
  have s': "s' = update_transfer t (cancelled (cancel t)) s" using cancel_eq [of cancel t s] assms(2) by simp
  have "flying_ok w s'" unfolding s' by (rule flying_ok_update [OF assms(1)]) simp_all
  then show ?thesis by (simp add: only_flags_def s')
qed

lemma handle_timeouts_flying:
  assumes "flying_ok w s" and "clock_ok clock" and "handle_timeouts_locked cancel clock s = (r, s')"
  shows "flying_ok w s' \<and> only_flags s s' \<and> timerfd s' = timerfd s"
proof -
  obtain c ts where clock: "clock = (c, ts)" by (meson surj_pair)
  have "c \<le> 0" using assms(2) by (auto simp: clock_ok_def clock)
  consider "s' = s" | "s' = snd (handle_timeouts_locked cancel (0, ts) s)"
    using assms(3) \<open>c \<le> 0\<close> unfolding clock handle_timeouts_locked_def by (auto split: if_splits)
  then show ?thesis
  proof cases
    case 1
    then show ?thesis using assms(1) by (simp add: only_flags_def)
  next
    case 2
    then have s': "s' = s\<lparr>transfer := (\<lambda>t. if t \<in> set (flying_transfers s) \<and> expired (TIMESPEC_TO_TIMEVAL ts) s t
        then timed_out (cancel t) (transfer s t) else transfer s t)\<rparr>" using handle_timeouts_eq [OF assms(1)] by simp
    have "flying_ok w s'" by (rule flying_cong [OF assms(1)]) (auto simp: s' timeouts_def)
    then show ?thesis by (simp add: only_flags_def s')
  qed
qed

lemma arm_flying:
  assumes "flying_ok w s" and "w \<longrightarrow> settime_ok" and "arm_timerfd_for_next_timeout settime_ok s = (r, s')"
  shows "flying_ok w s' \<and> transfer s' = transfer s \<and> flying_transfers s' = flying_transfers s"
proof (cases settime_ok)
  case True
  then have s': "s' = s\<lparr>timerfd := Some (next_armed (transfer s) (flying_transfers s))\<rparr>"
    using assms(3) by (simp add: arm_timerfd_for_next_timeout_def)
  have "timer_ok s'" by (auto simp: timer_ok_def s' timeouts_def later_def split: list.splits)
  then show ?thesis using assms(1) by (simp add: flying_ok_def s')
next
  case False
  then show ?thesis using assms by (simp add: arm_timerfd_for_next_timeout_def)
qed

lemma timerfd_flying:
  assumes "flying_ok w s" and "w \<longrightarrow> settime_ok" and "clock_ok clock"
    and "handle_timerfd_trigger cancel clock settime_ok s = (r, s')"
  shows "flying_ok w s' \<and> only_flags s s'"
proof -
  obtain r0 s1 where h: "handle_timeouts_locked cancel clock s = (r0, s1)" by fastforce
  note i = handle_timeouts_flying [OF assms(1,3) h]
  show ?thesis
    using assms(4) h i arm_flying [of w s1 settime_ok r s'] assms(2)
    by (auto simp: handle_timerfd_trigger_def only_flags_def split: if_splits)
qed

section \<open>The next timeout\<close>

text \<open>The transfers whose timeouts libusb has to handle, and the earliest of their times in microseconds.\<close>

definition pending :: "transfers \<Rightarrow> nat set" where
  "pending s = {t \<in> set (flying_transfers s). timerisset (timeouts s t) \<and> \<not> timeout_ignored (transfer s t)}"

definition earliest :: "transfers \<Rightarrow> int" where
  "earliest s = Min ((\<lambda>t. micros (timeouts s t)) ` pending s)"

lemma next_timeout_loop_first:
  assumes "sorted_flying (\<lambda>t. u_timeout (tr t)) fl"
  shows "if \<forall>t \<in> set fl. \<not> timerisset (u_timeout (tr t)) \<or> timeout_ignored (tr t) then \<not> timerisset (next_timeout_loop tr fl)
    else \<exists>t \<in> set fl. timerisset (u_timeout (tr t)) \<and> \<not> timeout_ignored (tr t) \<and> next_timeout_loop tr fl = u_timeout (tr t) \<and>
      (\<forall>u \<in> set fl. timerisset (u_timeout (tr u)) \<and> \<not> timeout_ignored (tr u) \<longrightarrow> \<not> later (u_timeout (tr t)) (u_timeout (tr u)))"
  using assms
proof (induction fl)
  case Nil
  then show ?case by (simp add: timerisset_def)
next
  case (Cons t ts)
  have b: "before (u_timeout (tr t)) (u_timeout (tr u))" if "u \<in> set ts" for u using Cons.prems that by (simp add: sorted_Cons)
  have ih: "sorted_flying (\<lambda>t. u_timeout (tr t)) ts" using Cons.prems by (simp add: sorted_Cons)
  consider (ignored) "timeout_ignored (tr t)" | (unset) "\<not> timeout_ignored (tr t)" "\<not> timerisset (u_timeout (tr t))"
    | (first) "\<not> timeout_ignored (tr t)" "timerisset (u_timeout (tr t))" by blast
  then show ?case
  proof cases
    case ignored
    then show ?thesis using Cons.IH [OF ih] by (simp split: if_splits)
  next
    case unset
    then have "\<forall>u \<in> set (t # ts). \<not> timerisset (u_timeout (tr u))" using before_unset [OF b] by simp
    then show ?thesis using unset by (auto simp: timerisset_def)
  next
    case first
    then have "\<not> later (u_timeout (tr t)) (u_timeout (tr u))" if "u \<in> set (t # ts)" "timerisset (u_timeout (tr u))" for u
      using that b [of u] by (cases "u = t") (simp_all add: before_def later_def)
    then show ?thesis using first by auto
  qed
qed

lemma next_timeout_loop_earliest:
  assumes "flying_ok w s"
  shows "pending s = {} \<Longrightarrow> \<not> timerisset (next_timeout_loop (transfer s) (flying_transfers s))"
    and "pending s \<noteq> {} \<Longrightarrow> timerisset (next_timeout_loop (transfer s) (flying_transfers s)) \<and>
      normal (next_timeout_loop (transfer s) (flying_transfers s)) \<and>
      micros (next_timeout_loop (transfer s) (flying_transfers s)) = earliest s"
proof -
  have "sorted_flying (\<lambda>t. u_timeout (transfer s t)) (flying_transfers s)"
    using flying_okD(1) [OF assms] by (simp add: timeouts_def [abs_def])
  note f = next_timeout_loop_first [OF this]
  have p: "pending s = {} \<longleftrightarrow> (\<forall>t \<in> set (flying_transfers s). \<not> timerisset (u_timeout (transfer s t)) \<or> timeout_ignored (transfer s t))"
    by (auto simp: pending_def timeouts_def)
  show "\<not> timerisset (next_timeout_loop (transfer s) (flying_transfers s))" if "pending s = {}"
    using f that p by simp
  assume ne: "pending s \<noteq> {}"
  have "\<exists>t \<in> pending s. next_timeout_loop (transfer s) (flying_transfers s) = timeouts s t \<and>
      (\<forall>u \<in> pending s. \<not> later (timeouts s t) (timeouts s u))"
    using f [unfolded if_not_P [OF ne [unfolded p]]] by (auto simp: pending_def timeouts_def)
  then obtain t where t: "t \<in> pending s" "next_timeout_loop (transfer s) (flying_transfers s) = timeouts s t"
    "\<And>u. u \<in> pending s \<Longrightarrow> \<not> later (timeouts s t) (timeouts s u)" by blast
  have n: "normal (timeouts s u)" if "u \<in> pending s" for u using that flying_okD(3) [OF assms] by (simp add: pending_def)
  have "finite (pending s)" by (rule finite_subset [of _ "set (flying_transfers s)"]) (auto simp: pending_def)
  then have "earliest s = micros (timeouts s t)" unfolding earliest_def
    using t(1,3) n later_micros by (intro Min_eqI) (auto simp: not_less)
  then show "timerisset (next_timeout_loop (transfer s) (flying_transfers s)) \<and>
      normal (next_timeout_loop (transfer s) (flying_transfers s)) \<and>
      micros (next_timeout_loop (transfer s) (flying_transfers s)) = earliest s"
    using t n [OF t(1)] by (simp add: pending_def)
qed

lemma next_timeout_spec:
  assumes "flying_ok w s" and "timerfd s = None" and "clock_ok (0, ts)"
  shows "pending s = {} \<Longrightarrow> libusb_get_next_timeout (0, ts) s = (0, None)"
    and "pending s \<noteq> {} \<Longrightarrow> \<exists>d. libusb_get_next_timeout (0, ts) s = (1, Some d) \<and> normal d \<and>
      micros d = max 0 (earliest s - micros (TIMESPEC_TO_TIMEVAL ts))"
proof -
  note l = next_timeout_loop_earliest [OF assms(1)]
  let ?n = "next_timeout_loop (transfer s) (flying_transfers s)" and ?now = "TIMESPEC_TO_TIMEVAL ts"
  show "libusb_get_next_timeout (0, ts) s = (0, None)" if "pending s = {}"
    using l(1) [OF that] by (simp add: libusb_get_next_timeout_def Let_def)
  assume ne: "pending s \<noteq> {}"
  note l = l(2) [OF ne]
  have fl: "flying_transfers s \<noteq> []" using ne by (auto simp: pending_def)
  have now: "normal ?now" by (rule normal_now [OF assms(3)])
  show "\<exists>d. libusb_get_next_timeout (0, ts) s = (1, Some d) \<and> normal d \<and> micros d = max 0 (earliest s - micros ?now)"
  proof (cases "later ?n ?now")
    case True
    then have "micros ?now < earliest s" using later_micros [of ?n ?now] l now by simp
    then show ?thesis using True l fl assms(2) timersub_micros [of ?n ?now] now by (simp add: libusb_get_next_timeout_def Let_def)
  next
    case False
    then have "earliest s \<le> micros ?now" using later_micros [of ?n ?now] l now by simp
    moreover have "micros (0, 0) = 0" "normal (0, 0)" by (simp_all add: micros_def normal_def)
    ultimately show ?thesis using False l fl assms(2) by (simp add: libusb_get_next_timeout_def Let_def)
  qed
qed

lemma micros_zero: "normal d \<Longrightarrow> timerisset d \<longleftrightarrow> micros d \<noteq> 0"
proof -
  assume n: "normal d"
  have "fst d = 0 \<and> snd d = 0" if z: "micros d = 0"
  proof -
    have "fst d = 0" using n z unfolding normal_def micros_def by linarith
    then show ?thesis using z by (simp add: micros_def)
  qed
  then show ?thesis by (auto simp: timerisset_def micros_def)
qed

text \<open>How long to poll: never past the earliest timeout, nor past what the caller allows.\<close>

lemma get_next_timeout_spec:
  assumes "flying_ok w s" and "timerfd s = None" and "clock_ok (0, ts)" and "normal tv"
  shows "pending s = {} \<Longrightarrow> get_next_timeout (0, ts) s tv = (0, Some tv)"
    and "pending s \<noteq> {} \<Longrightarrow> earliest s \<le> micros (TIMESPEC_TO_TIMEVAL ts) \<Longrightarrow> get_next_timeout (0, ts) s tv = (1, None)"
    and "pending s \<noteq> {} \<Longrightarrow> micros (TIMESPEC_TO_TIMEVAL ts) < earliest s \<Longrightarrow> \<exists>out. get_next_timeout (0, ts) s tv = (0, Some out) \<and>
      micros out = min (micros tv) (earliest s - micros (TIMESPEC_TO_TIMEVAL ts))"
proof -
  note n = next_timeout_spec [OF assms(1-3)]
  show "get_next_timeout (0, ts) s tv = (0, Some tv)" if "pending s = {}"
    using n(1) [OF that] by (simp add: get_next_timeout_def)
  show "get_next_timeout (0, ts) s tv = (1, None)" if "pending s \<noteq> {}" "earliest s \<le> micros (TIMESPEC_TO_TIMEVAL ts)"
    using n(2) [OF that(1)] that(2) by (auto simp: get_next_timeout_def micros_zero)
  assume ne: "pending s \<noteq> {}" and lt: "micros (TIMESPEC_TO_TIMEVAL ts) < earliest s"
  obtain d where d: "libusb_get_next_timeout (0, ts) s = (1, Some d)" "normal d"
    "micros d = earliest s - micros (TIMESPEC_TO_TIMEVAL ts)"
    using n(2) [OF ne] lt by auto
  then have "timerisset d" using lt micros_zero by simp
  then show "\<exists>out. get_next_timeout (0, ts) s tv = (0, Some out) \<and>
      micros out = min (micros tv) (earliest s - micros (TIMESPEC_TO_TIMEVAL ts))"
    using d later_micros [OF assms(4) d(2)] by (simp add: get_next_timeout_def min_def)
qed

end
