(* ===== verification/Usb_Opened.thy ===== *)
theory Usb_Opened
  imports Usb_Session
begin

text \<open>
  What other holders may rely on while a session goes on: open handles stay open until they are closed, with their
  devices, and no step depends on the references and the memory that others hold.
\<close>

section \<open>Handles stay open\<close>

text \<open>No operation but \<^verbatim>\<open>libusb_close\<close> takes a handle off the list, and only \<^verbatim>\<open>libusb_open\<close> adds one.\<close>

lemma raise_keeps:
  fixes s :: "'d libusb_context"
  assumes "\<And>s. events.more (update s) = events.more s"
  shows "open_devs (raise_event cap update s) = open_devs s"
  by (rule res_more(2)) (rule raise_event_more(1), rule assms)

lemma open_devs_events [simp]:
  fixes s :: "'d libusb_context"
  shows "open_devs (add_hotplug_msg cap m s) = open_devs s" and "open_devs (signal_deregistered cap s) = open_devs s"
    and "open_devs (libusb_interrupt_event_handler cap s) = open_devs s"
proof -
  have f: "events.more (set_event_flag f s) = events.more s" for f and s :: "(nat \<times> libusb_hotplug_message, 'e) events_scheme"
    by (cases s) (simp add: set_event_flag_def)
  have m: "events.more (s\<lparr>hotplug_msgs := ms\<rparr>) = events.more s" for ms and s :: "(nat \<times> libusb_hotplug_message, 'e) events_scheme"
    by (cases s) simp
  show "open_devs (add_hotplug_msg cap m s) = open_devs s" unfolding add_hotplug_msg_def by (rule raise_keeps) (rule m)
  show "open_devs (signal_deregistered cap s) = open_devs s" unfolding signal_deregistered_def by (rule raise_keeps) (rule f)
  show "open_devs (libusb_interrupt_event_handler cap s) = open_devs s"
    unfolding libusb_interrupt_event_handler_def by (rule raise_keeps) (rule f)
qed

lemma open_devs_devices [simp]:
  "open_devs (fault s) = open_devs s" "open_devs (update_device b f s) = open_devs s"
  "open_devs (unlink_device b s) = open_devs s" "open_devs (release b s) = open_devs s"
  "open_devs (libusb_ref_device b s) = open_devs s" "open_devs (free_device b s) = open_devs s"
  "open_devs (snd (alloc s)) = open_devs s"
  by (simp_all add: fault_def update_device_def unlink_device_def release_def libusb_ref_device_def free_device_def alloc_def
      split: option.split prod.split)

lemma open_devs_connect [simp]:
  "open_devs (usbi_hotplug_notification ops b e s) = open_devs s" "open_devs (usbi_connect_device ops b s) = open_devs s"
  "open_devs (usbi_disconnect_device ops b s) = open_devs s"
proof -
  show n: "open_devs (usbi_hotplug_notification ops b e s) = open_devs s" for e s
    using alloc_keeps(5) [of s] by (auto simp: usbi_hotplug_notification_def split: prod.split option.split)
  show "open_devs (usbi_connect_device ops b s) = open_devs s" "open_devs (usbi_disconnect_device ops b s) = open_devs s"
    by (simp_all add: usbi_connect_device_def usbi_disconnect_device_def Let_def n)
qed

lemma open_devs_unref [simp]: "open_devs (libusb_unref_device ops p s) = open_devs s"
proof (induction ops p s rule: libusb_unref_device.induct)
  case (2 ops dev s)
  then show ?case by (auto simp: libusb_unref_device.simps(2) Let_def split: option.split)
qed simp

lemma open_devs_fold [simp]:
  "(\<And>x s. open_devs (f x s) = open_devs s) \<Longrightarrow> open_devs (fold f xs s) = open_devs s"
  by (induction xs arbitrary: s) simp_all

lemma open_devs_lists [simp]:
  "open_devs (discovered_devs_free ops dd s) = open_devs s" "open_devs (libusb_free_device_list ops l u s) = open_devs s"
  by (simp_all add: discovered_devs_free_def libusb_free_device_list_def split: option.split prod.split)

lemma open_devs_append: "open_devs (snd (discovered_devs_append ops dd b s)) = open_devs s"
  "open_devs (snd (append_devices ops bs dd s)) = open_devs s"
proof -
  show a: "open_devs (snd (discovered_devs_append ops dd b s)) = open_devs s" for dd b s
    by (auto simp: discovered_devs_append_def Let_def split: prod.split option.split)
  show "open_devs (snd (append_devices ops bs dd s)) = open_devs s"
  proof (induction bs arbitrary: dd s)
    case (Cons b bs)
    then show ?case using a [of dd b s] by (auto split: prod.split option.split)
  qed simp
qed

lemma open_devs_get_list:
  assumes "quiet ops" and "libusb_get_device_list ops s = (r, s')"
  shows "open_devs s' = open_devs s"
proof -
  obtain p s1 where a: "alloc s = (p, s1)" by fastforce
  have poll: "(case os_hotplug_poll ops of None \<Rightarrow> t | Some poll \<Rightarrow> poll t) = t" and n: "os_get_device_list ops = None" for t
    using assms(1) by (auto simp: quiet_def has_hotplug_def split: option.splits)
  have d: "open_devs (snd (discover_devices ops dd t)) = open_devs t" for dd t
    using open_devs_append(2) [of ops "usb_devs t" dd t] by (auto simp: discover_devices_def n poll split: prod.split option.split)
  have "open_devs (snd (libusb_get_device_list ops s)) = open_devs s"
  proof (cases p)
    case None
    then show ?thesis using a alloc_keeps(5) [OF a] by (simp add: libusb_get_device_list_def discovered_devs_alloc_def)
  next
    case (Some b)
    let ?dd = "\<lparr>dd_block = b, dd_capacity = DISCOVERED_DEVICES_SIZE_STEP, dd_devices = []\<rparr>"
    obtain r1 q t where t: "discover_devices ops ?dd s1 = ((r1, q), t)" by (metis surj_pair)
    have "open_devs t = open_devs s" using d [of ?dd s1] t alloc_keeps(5) [OF a] by simp
    moreover obtain x u where u: "alloc t = (x, u)" by fastforce
    moreover have "open_devs u = open_devs t" by (rule alloc_keeps(5) [OF u])
    ultimately show ?thesis using a Some t
      by (auto simp: libusb_get_device_list_def discovered_devs_alloc_def split: option.split)
  qed
  then show ?thesis using assms(2) by simp
qed

lemma open_devs_open:
  assumes "libusb_open ops mutex_ok b s = (r, s')"
  shows "open_devs s' = open_devs s \<or> (\<exists>x. open_devs s' = x # open_devs s)"
  using assms alloc_keeps(5) [of s] by (auto simp: libusb_open_def Let_def split: option.splits prod.splits if_splits)

lemma open_devs_open_vid_pid:
  assumes "quiet ops" and "libusb_open_device_with_vid_pid ops mutex_ok vid pid s = (r, s')"
  shows "open_devs s' = open_devs s \<or> (\<exists>x. open_devs s' = x # open_devs s)"
proof -
  obtain r1 l t where t: "libusb_get_device_list ops s = ((r1, l), t)" by (metis surj_pair)
  note g = open_devs_get_list [OF assms(1) t]
  show ?thesis using assms(2) t g open_devs_open [of ops mutex_ok _ t]
    by (fastforce simp: libusb_open_device_with_vid_pid_def split: option.splits prod.splits if_splits)
qed

lemma open_devs_callbacks [simp]:
  "open_devs (libusb_hotplug_deregister_callback ops handle s) = open_devs s"
  "open_devs (unlink_callback b s) = open_devs s"
  "open_devs (snd (usbi_hotplug_match_cb ops call b e cb s)) = open_devs s"
proof -
  show d: "open_devs (libusb_hotplug_deregister_callback ops handle s) = open_devs s" for handle s
    by (simp add: libusb_hotplug_deregister_callback_def Let_def)
  show "open_devs (unlink_callback b s) = open_devs s" by (simp add: unlink_callback_def)
  show "open_devs (snd (usbi_hotplug_match_cb ops call b e cb s)) = open_devs s"
    by (auto simp: usbi_hotplug_match_cb_def d split: option.split prod.split)
qed

lemma open_devs_enumerate [simp]: "open_devs (enumerate_devices ops call b devs s) = open_devs s"
  by (induction devs arbitrary: s) (auto split: option.split)

lemma open_devs_register:
  assumes "quiet ops" and "libusb_hotplug_register_callback ops call events flags vid pid cls fn ud s = (res, s')"
  shows "open_devs s' = open_devs s"
  using assms(2) alloc_keeps(5) [of s] open_devs_get_list [OF assms(1)]
  by (fastforce simp: libusb_hotplug_register_callback_def Let_def split: option.splits prod.splits if_splits)

definition handles_kept :: "'d libusb_context \<Rightarrow> 'd libusb_context \<Rightarrow> bool" where
  "handles_kept s s' \<longleftrightarrow>
     (\<forall>hb hdl. find_handle s hb = Some hdl \<longrightarrow> (\<exists>hdl'. find_handle s' hb = Some hdl' \<and> h_dev hdl' = h_dev hdl))"

lemma handles_kept_same: "open_devs s' = open_devs s \<Longrightarrow> handles_kept s s'"
  by (simp add: handles_kept_def find_handle_def)

lemma handles_kept_added:
  assumes "open_devs s' = open_devs s \<or> (\<exists>x. open_devs s' = x # open_devs s)" and "distinct (map fst (open_devs s'))"
  shows "handles_kept s s'"
proof -
  have "find_handle s' hb = find_handle s hb" if "find_handle s hb = Some hdl" for hb hdl
  proof -
    have "hb \<in> fst ` set (open_devs s)" using that map_of_SomeD by (force simp: find_handle_def)
    then have "fst x \<noteq> hb" if "open_devs s' = x # open_devs s" for x using that assms(2) by auto
    then show ?thesis using assms(1) by (auto simp: find_handle_def)
  qed
  then show ?thesis by (simp add: handles_kept_def)
qed

lemma handles_kept_put:
  assumes "find_handle s hb = Some hdl" and "h_dev hdl' = h_dev hdl"
  shows "handles_kept s (put_handle hb hdl' (s\<lparr>os_data := os\<rparr>))"
proof -
  have "map_of (map (\<lambda>(x, e). (x, if x = hb then hdl' else e)) hs) x =
      (if x = hb then map_option (\<lambda>_. hdl') (map_of hs x) else map_of hs x)" for x and hs :: "(nat \<times> libusb_device_handle) list"
    by (induction hs) auto
  then show ?thesis using assms by (auto simp: handles_kept_def find_handle_def put_handle_def)
qed

lemma handles_kept_interfaces:
  "libusb_claim_interface ops hb n s = Some (r, s') \<Longrightarrow> handles_kept s s'"
  "libusb_release_interface ops hb n s = Some (r, s') \<Longrightarrow> handles_kept s s'"
  "libusb_set_interface_alt_setting ops hb n alt s = Some (r, s') \<Longrightarrow> handles_kept s s'"
  by (auto simp: libusb_claim_interface_def libusb_release_interface_def libusb_set_interface_alt_setting_def
      split: if_splits option.splits prod.splits intro: handles_kept_same handles_kept_put)

lemma open_devs_session_id: "usbi_get_device_by_session_id session_id s = (p, s') \<Longrightarrow> open_devs s' = open_devs s"
  by (auto simp: usbi_get_device_by_session_id_def split: list.splits)

lemma open_devs_sanitize: "usbi_sanitize_device ops b s = (r, s') \<Longrightarrow> open_devs s' = open_devs s"
  by (auto simp: usbi_sanitize_device_def Let_def split: prod.splits if_splits)

lemma open_devs_alloc_device: "usbi_alloc_device ops mutex_ok session_id s = (p, s') \<Longrightarrow> open_devs s' = open_devs s"
  using alloc_keeps(5) [of s] by (auto simp: usbi_alloc_device_def Let_def split: prod.splits option.splits if_splits)

lemma open_devs_backend: "backend_step ops (C, X, s) (C', X', s') \<Longrightarrow> open_devs s' = open_devs s"
  by (erule backend_stepE) (auto dest: open_devs_session_id open_devs_sanitize open_devs_alloc_device)

lemma usb_step_handles:
  assumes "usb_step ops call (Ls, C, X, s) (Ls', C', X', s')" and "session_inv ops L (Ls, C, X, s)"
    and "session_inv ops L (Ls', C', X', s')" and "quiet ops"
  shows "handles_kept s s'"
proof -
  have d: "distinct (map fst (open_devs s'))"
    using res_distinct(1) [OF ctxD(1) [OF assms(3) [unfolded session_inv_simp]]] .
  show ?thesis using assms(1)
  proof (cases rule: usb_step.cases)
    case (open_dev b mutex_ok r hp)
    show ?thesis by (rule handles_kept_added [OF open_devs_open [OF open_dev(5)] d])
  next
    case (open_vid_pid mutex_ok vid pid hp)
    show ?thesis by (rule handles_kept_added [OF open_devs_open_vid_pid [OF assms(4) open_vid_pid(4)] d])
  next
    case (events allocated poll_error r)
    from ctx_handle_events [OF assms(2) [unfolded session_inv_simp], of call allocated poll_error] events(4) show ?thesis
      by (metis handles_kept_same option.inject prod.inject)
  qed (auto intro: handles_kept_same handles_kept_interfaces
      dest: open_devs_backend open_devs_get_list [OF assms(4)] open_devs_register [OF assms(4)] alloc_keeps(5))
qed

text \<open>Steps do not depend on references and memory that others hold.\<close>

lemma backend_step_more:
  assumes "backend_step ops (C, X, s) (C', X', s')"
  shows "backend_step ops (M + C, X, s) (M + C', X', s')"
  using assms
proof (cases rule: backend_step.cases)
  case (alloc mutex_ok session_id p)
  then show ?thesis using backend_step.alloc [OF alloc(3), of "M + C" X] by (simp add: ac_simps)
next
  case (set b f)
  then show ?thesis using backend_step.set [of b "M + C" f ops X s] by simp
next
  case (sanitize b r)
  then show ?thesis using backend_step.sanitize [of b "M + C" ops s r s' X] by simp
next
  case (parent b p d)
  then show ?thesis using backend_step.parent [of b "M + C'" p s d ops X] by simp
next
  case (lookup session_id p)
  then show ?thesis using backend_step.lookup [OF lookup(3), of ops "M + C" X] by (simp add: ac_simps)
next
  case (get b)
  then show ?thesis using backend_step.get [of b s ops "M + C" X] by simp
next
  case (put b)
  then show ?thesis using backend_step.put [of ops b "M + C'" X s] by simp
next
  case (connect b)
  then show ?thesis using backend_step.connect [of b s ops "M + C'" X] by simp
next
  case (disconnect b)
  then show ?thesis using backend_step.disconnect [of b s ops "M + C" X] by simp
next
  case (data os)
  then show ?thesis using backend_step.data [of ops "M + C" X s os] by simp
qed

lemma refs_more: "mset Ks = mset Ls + K \<Longrightarrow> b \<in># refs Ls \<Longrightarrow> b \<in># refs Ks"
proof -
  assume k: "mset Ks = mset Ls + K" and b: "b \<in># refs Ls"
  have "set_mset (mset Ks) = set_mset (mset Ls + K)" using k by (rule arg_cong)
  then have "set Ls \<subseteq> set Ks" by auto
  then show ?thesis using b by (auto simp: refs_def)
qed

lemma known_more: "known b Ls C s \<Longrightarrow> mset Ks = mset Ls + K \<Longrightarrow> known b Ks (M + C) s"
  using refs_more by (auto simp: known_def)

lemma mset_more_remove1: "mset Ks = mset Ls + K \<Longrightarrow> l \<in> set Ls \<Longrightarrow> l \<in> set Ks \<and> mset (remove1 l Ks) = mset (remove1 l Ls) + K"
  by (metis mset_remove1 mset_subset_eq_add_left mset_subset_eqD set_mset_mset subset_mset.diff_add_assoc2 insert_DiffM single_subset_iff)

lemma usb_step_more:
  assumes "usb_step ops call (Ls, C, X, s) (Ls', C', X', s')" and "mset Ks = mset Ls + K"
  shows "\<exists>Ks'. mset Ks' = mset Ls' + K \<and> usb_step ops call (Ks, M + C, X, s) (Ks', M + C', X', s')"
  using assms(1)
proof (cases rule: usb_step.cases)
  case backend
  then show ?thesis using usb_step.backend [OF backend_step_more] assms(2) by blast
next
  case (allocate p)
  then show ?thesis using usb_step.allocate [OF allocate(4), of ops call Ks "M + C" X] assms(2)
    by (intro exI [of _ "map (\<lambda>b. (b, [])) (opt_list p) @ Ks"]) simp
next
  case (discard b)
  then show ?thesis using usb_step.discard [of b Ks ops call "M + C" X s] mset_more_remove1 [OF assms(2), of "(b, [])"] by metis
next
  case (ref b)
  then show ?thesis using usb_step.ref [OF known_more [OF ref(5) assms(2)], of ops call M X] assms(2) by auto
next
  case (unref b)
  then show ?thesis using usb_step.unref [of ops call Ks b "M + C'" X s] assms(2) by auto
next
  case (forget b)
  then show ?thesis using usb_step.forget [of ops call Ks b "M + C'" X s] assms(2) by auto
next
  case (get_list r list)
  then show ?thesis using usb_step.get_list [OF get_list(4), of call Ks "M + C" X] assms(2)
    by (intro exI [of _ "opt_list list @ Ks"]) simp
next
  case (free_list l)
  then show ?thesis using usb_step.free_list [of l Ks ops call "M + C" X s] mset_more_remove1 [OF assms(2), of l] by metis
next
  case (open_dev b mutex_ok r hp)
  then show ?thesis using usb_step.open_dev [OF known_more [OF open_dev(4) assms(2)] open_dev(5)] assms(2) by auto
qed (use assms(2) in \<open>auto intro: usb_step.intros\<close>)

end
