(* ===== verification/Usb_Transfer_Session.thy ===== *)
theory Usb_Transfer_Session
  imports Usb_Timeouts Usb_Opened
begin

text \<open>
  Sessions with asynchronous transfers: any sequence of what the client, the backend and the event handling do with
  them, callbacks included.  Every session with transfers is a session without them in which their references are
  held, so all that holds of those holds of these.
\<close>

section \<open>Sessions with transfers\<close>

text \<open>
  The references of the transfers in flight, and of the one whose callback is running: that one is known by its
  block, its handle and its flags.
\<close>

type_synonym completing = "(nat \<times> nat \<times> byte) option"

definition handle_ref :: "'d libusb_context \<Rightarrow> nat \<Rightarrow> nat multiset" where
  "handle_ref c hb = (case find_handle c hb of None \<Rightarrow> {#} | Some hdl \<Rightarrow> {#h_dev hdl#})"

definition transfer_ref :: "'d libusb_context \<Rightarrow> transfers \<Rightarrow> nat \<Rightarrow> nat multiset" where
  "transfer_ref c tr t = (case x_dev_handle (transfer tr t) of None \<Rightarrow> {#} | Some hb \<Rightarrow> handle_ref c hb)"

definition flying_refs :: "'d libusb_context \<Rightarrow> transfers \<Rightarrow> nat multiset" where
  "flying_refs c tr = sum_mset (image_mset (transfer_ref c tr) (mset (flying_transfers tr)))"

definition completing_ref :: "'d libusb_context \<Rightarrow> completing \<Rightarrow> nat multiset" where
  "completing_ref c P = (case P of None \<Rightarrow> {#} | Some (t, hb, flags) \<Rightarrow> handle_ref c hb)"

text \<open>The memory of the client after the buffer of a transfer is freed with it.\<close>

definition freed_buffer :: "usbi_transfer \<Rightarrow> lists \<Rightarrow> lists option" where
  "freed_buffer u Ls =
    (if x_flags u AND LIBUSB_TRANSFER_FREE_BUFFER = 0 then Some Ls
     else case x_buffer u of
       None \<Rightarrow> Some Ls
     | Some b \<Rightarrow> if (b, []) \<in> set Ls then Some (remove1 (b, []) Ls) else None)"

text \<open>The fields of a transfer that libusb keeps for itself.\<close>

definition internal :: "usbi_transfer \<Rightarrow> timeval \<times> int \<times> byte \<times> byte" where
  "internal u = (u_timeout u, u_transferred u, u_state_flags u, u_timeout_flags u)"

text \<open>
  A session with transfers: \<open>T\<close> are the blocks of the transfers, \<open>Ls\<close>, \<open>C\<close> and \<open>X\<close> the lists and references of a session, and
  \<open>P\<close> the transfer whose callback is running: the callback is the steps from \<open>complete\<close> to \<open>finish\<close>, and no other event is
  handled in between.  The client changes a transfer that is not in flight (\<open>fill\<close>), frees none that is, and does not
  close the handle of the transfer whose callback is running.  Closing a handle loses the references of its transfers
  that are in flight.  \<open>w\<close> says that \<^verbatim>\<open>timerfd_settime\<close> does not fail, and that no such handle is closed, which would leave
  the timer as it is.
\<close>

inductive usb_transfers ::
  "'d usbi_os_backend \<Rightarrow> 'd client \<Rightarrow> heap \<Rightarrow> bool \<Rightarrow>
     nat list \<times> lists \<times> nat multiset \<times> nat multiset \<times> completing \<times> 'd transfer_context \<Rightarrow> bool"
  for ops call h w where
  start: "usb_session ops call h (Ls, C, X, c) \<Longrightarrow> flying_transfers tr = [] \<Longrightarrow>
    usb_transfers ops call h w ([], Ls, C, X, None, \<lparr>tc_ctx = c, tc_transfers = tr\<rparr>)"
| other: "usb_transfers ops call h w (T, Ls, C, X, P, s) \<Longrightarrow>
    usb_step ops call (Ls, C, X, tc_ctx s) (Ls', C', X', c') \<Longrightarrow>
    usb_transfers ops call h w (T, Ls', C', X', P, s\<lparr>tc_ctx := c'\<rparr>)"
| alloc: "usb_transfers ops call h w (T, Ls, C, X, P, s) \<Longrightarrow> libusb_alloc_transfer s = (p, s') \<Longrightarrow>
    usb_transfers ops call h w (opt_list p @ T, Ls, C, X, P, s')"
| fill: "usb_transfers ops call h w (T, Ls, C, X, P, s) \<Longrightarrow> t \<in> set T \<Longrightarrow> t \<notin> set (flying_transfers (tc_transfers s)) \<Longrightarrow>
    \<forall>u. internal (f u) = internal u \<Longrightarrow>
    usb_transfers ops call h w (T, Ls, C, X, P, s\<lparr>tc_transfers := update_transfer t f (tc_transfers s)\<rparr>)"
| submit: "usb_transfers ops call h w (T, Ls, C, X, P, s) \<Longrightarrow> t \<in> set T \<Longrightarrow> clock_ok clock \<Longrightarrow> w \<longrightarrow> settime_ok \<Longrightarrow>
    libusb_submit_transfer submit clock settime_ok t s = Some (r, s') \<Longrightarrow> usb_transfers ops call h w (T, Ls, C, X, P, s')"
| progress: "usb_transfers ops call h w (T, Ls, C, X, P, s) \<Longrightarrow>
    usb_transfers ops call h w (T, Ls, C, X, P, s\<lparr>tc_transfers := update_transfer t (\<lambda>u. u\<lparr>u_transferred := n\<rparr>) (tc_transfers s)\<rparr>)"
| cancel: "usb_transfers ops call h w (T, Ls, C, X, P, s) \<Longrightarrow> libusb_cancel_transfer cancel t (tc_transfers s) = (r, tr) \<Longrightarrow>
    usb_transfers ops call h w (T, Ls, C, X, P, s\<lparr>tc_transfers := tr\<rparr>)"
| timeouts: "usb_transfers ops call h w (T, Ls, C, X, P, s) \<Longrightarrow> clock_ok clock \<Longrightarrow>
    handle_timeouts_locked cancel clock (tc_transfers s) = (r, tr) \<Longrightarrow>
    usb_transfers ops call h w (T, Ls, C, X, P, s\<lparr>tc_transfers := tr\<rparr>)"
| timerfd: "usb_transfers ops call h w (T, Ls, C, X, P, s) \<Longrightarrow> timerfd (tc_transfers s) \<noteq> None \<Longrightarrow> clock_ok clock \<Longrightarrow>
    w \<longrightarrow> settime_ok \<Longrightarrow>
    handle_timerfd_trigger cancel clock settime_ok (tc_transfers s) = (r, tr) \<Longrightarrow>
    usb_transfers ops call h w (T, Ls, C, X, P, s\<lparr>tc_transfers := tr\<rparr>)"
| complete: "usb_transfers ops call h w (T, Ls, C, X, None, s) \<Longrightarrow> w \<longrightarrow> settime_ok \<Longrightarrow>
    x_dev_handle (transfer (tc_transfers s) t) = Some hb \<Longrightarrow> complete_begin settime_ok t status (tc_transfers s) = Some (r, tr) \<Longrightarrow>
    usb_transfers ops call h w (T, Ls, C, X, Some (t, hb, x_flags (transfer tr t)), s\<lparr>tc_transfers := tr\<rparr>)"
| finish: "usb_transfers ops call h w (T, Ls, C, X, Some (t, hb, flags), s) \<Longrightarrow>
    flags AND LIBUSB_TRANSFER_FREE_TRANSFER = 0 \<Longrightarrow> complete_end ops hb flags t s = Some s' \<Longrightarrow>
    usb_transfers ops call h w (T, Ls, C, X, None, s')"
| finish_free: "usb_transfers ops call h w (T, Ls, C, X, Some (t, hb, flags), s) \<Longrightarrow>
    flags AND LIBUSB_TRANSFER_FREE_TRANSFER \<noteq> 0 \<Longrightarrow> t \<in> set T \<Longrightarrow> t \<notin> set (flying_transfers (tc_transfers s)) \<Longrightarrow>
    freed_buffer (transfer (tc_transfers s) t) Ls = Some Ls' \<Longrightarrow> complete_end ops hb flags t s = Some s' \<Longrightarrow>
    usb_transfers ops call h w (remove1 t T, Ls', C, X, None, s')"
| free: "usb_transfers ops call h w (T, Ls, C, X, P, s) \<Longrightarrow> t \<in> set T \<Longrightarrow> t \<notin> set (flying_transfers (tc_transfers s)) \<Longrightarrow>
    freed_buffer (transfer (tc_transfers s) t) Ls = Some Ls' \<Longrightarrow>
    usb_transfers ops call h w (remove1 t T, Ls', C, X, P, libusb_free_transfer (Some t) s)"
| close: "usb_transfers ops call h w (T, Ls, C, X, P, s) \<Longrightarrow> hb \<in> fst ` set (open_devs (tc_ctx s)) \<Longrightarrow>
    \<forall>t flags. P \<noteq> Some (t, hb, flags) \<Longrightarrow>
    w \<longrightarrow> (\<forall>t \<in> set (flying_transfers (tc_transfers s)). x_dev_handle (transfer (tc_transfers s) t) \<noteq> Some hb) \<Longrightarrow>
    close_handle ops handling_events hb s = Some s' \<Longrightarrow>
    M = sum_mset (image_mset (transfer_ref (tc_ctx s) (tc_transfers s))
      (mset (filter (\<lambda>t. x_dev_handle (transfer (tc_transfers s) t) = Some hb) (flying_transfers (tc_transfers s))))) \<Longrightarrow>
    usb_transfers ops call h w (T, Ls, C, M + X, P, s')"

text \<open>
  Without the transfers it is a session in which their references are held, and their blocks lists without devices.
\<close>

definition is_session ::
  "'d usbi_os_backend \<Rightarrow> 'd client \<Rightarrow> heap \<Rightarrow> nat list \<Rightarrow> lists \<Rightarrow> nat multiset \<Rightarrow> nat multiset \<Rightarrow> 'd libusb_context \<Rightarrow> bool" where
  "is_session ops call h T Ls C X c \<longleftrightarrow>
     (\<exists>Ks. mset Ks = mset Ls + image_mset (\<lambda>t. (t, [])) (mset T) \<and> usb_session ops call h (Ks, C, X, c))"

definition flying_held :: "nat list \<Rightarrow> 'd libusb_context \<Rightarrow> transfers \<Rightarrow> bool" where
  "flying_held T c tr \<longleftrightarrow> (\<forall>t \<in> set (flying_transfers tr). t \<in> set T \<and> in_flight (transfer tr t) \<and>
     (\<exists>hb. x_dev_handle (transfer tr t) = Some hb \<and> find_handle c hb \<noteq> None))"

definition completing_held :: "'d libusb_context \<Rightarrow> completing \<Rightarrow> bool" where
  "completing_held c P \<longleftrightarrow> (\<forall>t hb flags. P = Some (t, hb, flags) \<longrightarrow> find_handle c hb \<noteq> None)"

definition transfers_inv ::
  "'d usbi_os_backend \<Rightarrow> 'd client \<Rightarrow> heap \<Rightarrow> bool \<Rightarrow>
     nat list \<times> lists \<times> nat multiset \<times> nat multiset \<times> completing \<times> 'd transfer_context \<Rightarrow> bool" where
  "transfers_inv ops call h w st \<longleftrightarrow> (case st of (T, Ls, C, X, P, s) \<Rightarrow>
     is_session ops call h T Ls (flying_refs (tc_ctx s) (tc_transfers s) + completing_ref (tc_ctx s) P + C) X (tc_ctx s) \<and>
     flying_ok w (tc_transfers s) \<and> flying_held T (tc_ctx s) (tc_transfers s) \<and> completing_held (tc_ctx s) P)"

section \<open>Lemmas\<close>

lemma is_session_step:
  assumes "is_session ops call h T Ls (M + C) X c" and "usb_step ops call (Ls, C, X, c) (Ls', C', X', c')"
  shows "is_session ops call h T Ls' (M + C') X' c'"
proof -
  obtain Ks where k: "mset Ks = mset Ls + image_mset (\<lambda>t. (t, [])) (mset T)" "usb_session ops call h (Ks, M + C, X, c)"
    using assms(1) by (auto simp: is_session_def)
  obtain Ks' where k': "mset Ks' = mset Ls' + image_mset (\<lambda>t. (t, [])) (mset T)"
    "usb_step ops call (Ks, M + C, X, c) (Ks', M + C', X', c')"
    using usb_step_more [OF assms(2) k(1)] by blast
  show ?thesis using usb_session.step [OF k(2) k'(2)] k'(1) by (auto simp: is_session_def)
qed

text \<open>The same with the blocks of the transfers among the lists.\<close>

lemma is_session_all:
  "is_session ops call h T Ls C X c \<longleftrightarrow> is_session ops call h [] (map (\<lambda>t. (t, [])) T @ Ls) C X c"
  by (simp add: is_session_def ac_simps)

lemma is_session_perm:
  "is_session ops call h T Ls C X c \<Longrightarrow> mset T' = mset T \<Longrightarrow> mset Ls' = mset Ls \<Longrightarrow> is_session ops call h T' Ls' C X c"
  by (simp add: is_session_def)

lemma is_session_inv:
  assumes "is_session ops call h T Ls C X c" and "heap_ok h" and "quiet ops" and "0 < os_pipe ops"
  shows "session_inv ops (live h) (map (\<lambda>t. (t, [])) T @ Ls, C, X, c)"
proof -
  obtain Ks where k: "mset Ks = mset Ls + image_mset (\<lambda>t. (t, [])) (mset T)" "usb_session ops call h (Ks, C, X, c)"
    using assms(1) by (auto simp: is_session_def)
  have i: "ctx_inv ops (live h) (map fst Ks) (refs Ks + C) X [] c"
    using usb_session_inv [OF k(2) assms(2-4)] by (simp add: session_inv_def)
  have r: "refs L = sum_mset (image_mset (mset \<circ> snd) (mset L))" for L :: lists by (induction L) (simp_all add: refs_def)
  have "mset (map (\<lambda>t. (t, [])) T @ Ls) = mset Ks" using k(1) by simp
  then have "refs (map (\<lambda>t. (t, [])) T @ Ls) = refs Ks" "mset (map fst (map (\<lambda>t. (t, [])) T @ Ls)) = mset (map fst Ks)"
    unfolding r by (metis, metis mset_map)
  then show ?thesis using ctx_perm [OF i] by (simp add: session_inv_def)
qed

lemma is_session_handles:
  assumes "is_session ops call h T Ls (M + C) X c" and "usb_step ops call (Ls, C, X, c) (Ls', C', X', c')"
    and "heap_ok h" and "quiet ops" and "0 < os_pipe ops"
  shows "handles_kept c c'"
proof -
  obtain Ks where k: "mset Ks = mset Ls + image_mset (\<lambda>t. (t, [])) (mset T)" "usb_session ops call h (Ks, M + C, X, c)"
    using assms(1) by (auto simp: is_session_def)
  obtain Ks' where k': "usb_step ops call (Ks, M + C, X, c) (Ks', M + C', X', c')"
    using usb_step_more [OF assms(2) k(1)] by blast
  have i: "session_inv ops (live h) (Ks, M + C, X, c)" by (rule usb_session_inv [OF k(2) assms(3-5)])
  show ?thesis by (rule usb_step_handles [OF k' i usb_step_inv [OF k' i assms(4)] assms(4)])
qed

lemma handle_ref_kept: "handles_kept c c' \<Longrightarrow> find_handle c hb \<noteq> None \<Longrightarrow> handle_ref c' hb = handle_ref c hb \<and> find_handle c' hb \<noteq> None"
proof -
  assume k: "handles_kept c c'" and "find_handle c hb \<noteq> None"
  then obtain hdl where h: "find_handle c hb = Some hdl" by auto
  then obtain hdl' where "find_handle c' hb = Some hdl'" "h_dev hdl' = h_dev hdl" using k by (auto simp: handles_kept_def)
  then show ?thesis using h by (simp add: handle_ref_def)
qed

lemma held_kept:
  assumes "handles_kept c c'"
  shows "flying_held T c tr \<Longrightarrow> flying_held T c' tr" and "flying_held T c tr \<Longrightarrow> flying_refs c' tr = flying_refs c tr"
    and "completing_held c P \<Longrightarrow> completing_held c' P" and "completing_held c P \<Longrightarrow> completing_ref c' P = completing_ref c P"
proof -
  note k = handle_ref_kept [OF assms]
  show "flying_held T c tr \<Longrightarrow> flying_held T c' tr" using k by (fastforce simp: flying_held_def)
  show "flying_refs c' tr = flying_refs c tr" if "flying_held T c tr"
    unfolding flying_refs_def
    by (rule arg_cong [where f = sum_mset], rule image_mset_cong)
      (use that k in \<open>auto simp: flying_held_def transfer_ref_def split: option.split\<close>)
  show "completing_held c P \<Longrightarrow> completing_held c' P" using k by (fastforce simp: completing_held_def)
  show "completing_held c P \<Longrightarrow> completing_ref c' P = completing_ref c P"
    using k by (auto simp: completing_held_def completing_ref_def split: option.split prod.split)
qed

text \<open>Changes to transfers that keep the list, the handles and what is in flight.\<close>

lemma flying_refs_cong:
  assumes "mset (flying_transfers tr') = mset (flying_transfers tr)"
    and "\<And>t. t \<in> set (flying_transfers tr) \<Longrightarrow> x_dev_handle (transfer tr' t) = x_dev_handle (transfer tr t)"
  shows "flying_refs c tr' = flying_refs c tr"
  unfolding flying_refs_def assms(1)
  by (rule arg_cong [where f = sum_mset], rule image_mset_cong) (use assms(2) in \<open>simp add: transfer_ref_def\<close>)

lemma flying_held_cong:
  assumes "set (flying_transfers tr') \<subseteq> set (flying_transfers tr)"
    and "\<And>t. t \<in> set (flying_transfers tr') \<Longrightarrow> x_dev_handle (transfer tr' t) = x_dev_handle (transfer tr t) \<and>
      in_flight (transfer tr' t) = in_flight (transfer tr t)"
  shows "flying_held T c tr \<Longrightarrow> flying_held T c tr'"
  using assms unfolding flying_held_def by (metis subset_iff)

lemma only_flags_cong:
  assumes "only_flags tr tr'"
  shows "flying_refs c tr' = flying_refs c tr" and "flying_held T c tr \<Longrightarrow> flying_held T c tr'"
  using assms flying_refs_cong [of tr' tr] flying_held_cong [of tr' tr] by (simp_all add: only_flags_def)

section \<open>Every step\<close>

lemma transfers_invD:
  assumes "transfers_inv ops call h w (T, Ls, C, X, P, s)"
  shows "is_session ops call h T Ls (flying_refs (tc_ctx s) (tc_transfers s) + completing_ref (tc_ctx s) P + C) X (tc_ctx s)"
    and "flying_ok w (tc_transfers s)" and "flying_held T (tc_ctx s) (tc_transfers s)" and "completing_held (tc_ctx s) P"
  using assms by (simp_all add: transfers_inv_def)

lemma transfers_invI:
  assumes "is_session ops call h T Ls (flying_refs (tc_ctx s) (tc_transfers s) + completing_ref (tc_ctx s) P + C) X (tc_ctx s)"
    and "flying_ok w (tc_transfers s)" and "flying_held T (tc_ctx s) (tc_transfers s)" and "completing_held (tc_ctx s) P"
  shows "transfers_inv ops call h w (T, Ls, C, X, P, s)"
  using assms by (simp add: transfers_inv_def)

lemma flags_step:
  assumes "transfers_inv ops call h w (T, Ls, C, X, P, s)" and "flying_ok w tr" and "only_flags (tc_transfers s) tr"
  shows "transfers_inv ops call h w (T, Ls, C, X, P, s\<lparr>tc_transfers := tr\<rparr>)"
  by (rule transfers_invI)
    (use transfers_invD [OF assms(1)] assms(2) only_flags_cong(1) [OF assms(3), of "tc_ctx s"] only_flags_cong(2) [OF assms(3)] in simp_all)

lemma other_step:
  assumes "transfers_inv ops call h w (T, Ls, C, X, P, s)" and "usb_step ops call (Ls, C, X, tc_ctx s) (Ls', C', X', c')"
    and "heap_ok h" and "quiet ops" and "0 < os_pipe ops"
  shows "transfers_inv ops call h w (T, Ls', C', X', P, s\<lparr>tc_ctx := c'\<rparr>)"
proof -
  note i = transfers_invD [OF assms(1)]
  note k = held_kept [OF is_session_handles [OF i(1) assms(2-5)]]
  show ?thesis
    by (rule transfers_invI) (use is_session_step [OF i(1) assms(2)] i k in simp_all)
qed

lemma session_distinct: "session_inv ops L (Ls, C, X, s) \<Longrightarrow> distinct (map fst Ls)"
proof -
  assume "session_inv ops L (Ls, C, X, s)"
  then have "owned (map fst (us_devices s) @ blocks (map fst Ls) (hotplug_msgs s) s) (us_heap s) L"
    using ctx_resD(2) [of ops L "map fst Ls" "refs Ls + C" X "[]" s] by (simp add: session_inv_def devices_inv_def devices_ok_def)
  then show ?thesis by (simp add: owned_def blocks_def)
qed

lemma alloc_step:
  assumes "transfers_inv ops call h w (T, Ls, C, X, P, s)" and "libusb_alloc_transfer s = (p, s')"
    and "heap_ok h" and "quiet ops" and "0 < os_pipe ops"
  shows "transfers_inv ops call h w (opt_list p @ T, Ls, C, X, P, s')"
proof -
  note i = transfers_invD [OF assms(1)]
  obtain q c where a: "alloc (tc_ctx s) = (q, c)" by fastforce
  have p: "p = q" "tc_ctx s' = c" using assms(2) a by (auto simp: libusb_alloc_transfer_def)
  have st: "usb_step ops call (Ls, C, X, tc_ctx s) (map (\<lambda>b. (b, [])) (opt_list q) @ Ls, C, X, c)" by (rule usb_step.allocate [OF a])
  have se: "is_session ops call h (opt_list p @ T) Ls (flying_refs (tc_ctx s) (tc_transfers s) + completing_ref (tc_ctx s) P + C) X c"
    using is_session_step [OF i(1) st] p(1) by (simp add: is_session_def ac_simps)
  note k = held_kept [OF is_session_handles [OF i(1) st assms(3-5)]]
  have fresh: "t \<notin> set (flying_transfers (tc_transfers s))" if t: "p = Some t" for t
  proof
    assume "t \<in> set (flying_transfers (tc_transfers s))"
    then have "t \<in> set T" using i(3) by (auto simp: flying_held_def)
    moreover have "session_inv ops (live h) (map (\<lambda>t. (t, [])) (opt_list p @ T) @ Ls,
        flying_refs (tc_ctx s) (tc_transfers s) + completing_ref (tc_ctx s) P + C, X, c)"
      by (rule is_session_inv [OF se assms(3-5)])
    note session_distinct [OF this]
    ultimately show False using t by (auto simp: opt_list_def comp_def)
  qed
  show ?thesis
  proof (cases p)
    case None
    then have "tc_transfers s' = tc_transfers s" using assms(2) a p(1) by (auto simp: libusb_alloc_transfer_def)
    then show ?thesis using None se i k p(2) by (intro transfers_invI) (simp_all add: opt_list_def)
  next
    case (Some t)
    then obtain u where tr: "tc_transfers s' = update_transfer t (\<lambda>_. u) (tc_transfers s)"
      using assms(2) a p(1) by (auto simp: libusb_alloc_transfer_def)
    note n = fresh [OF Some]
    have "flying_refs c (tc_transfers s') = flying_refs c (tc_transfers s)"
      by (rule flying_refs_cong) (use n in \<open>auto simp: tr\<close>)
    moreover have "flying_held (opt_list p @ T) c (tc_transfers s')"
      using k(1) [OF i(3)] n by (auto simp: flying_held_def tr)
    ultimately show ?thesis
      using se i k p(2) flying_ok_absent [OF i(2) n] by (intro transfers_invI) (simp_all add: tr)
  qed
qed

lemma fill_step:
  assumes "transfers_inv ops call h w (T, Ls, C, X, P, s)" and "t \<notin> set (flying_transfers (tc_transfers s))"
  shows "transfers_inv ops call h w (T, Ls, C, X, P, s\<lparr>tc_transfers := update_transfer t f (tc_transfers s)\<rparr>)"
proof -
  note i = transfers_invD [OF assms(1)]
  have "flying_refs (tc_ctx s) (update_transfer t f (tc_transfers s)) = flying_refs (tc_ctx s) (tc_transfers s)"
    by (rule flying_refs_cong) (use assms(2) in auto)
  moreover have "flying_held T (tc_ctx s) (update_transfer t f (tc_transfers s))"
    by (rule flying_held_cong [OF _ _ i(3)]) (use assms(2) in auto)
  ultimately show ?thesis using i flying_ok_absent [OF i(2) assms(2)] by (intro transfers_invI) simp_all
qed

lemma flying_refs_add:
  assumes "mset (flying_transfers tr') = add_mset t (mset (flying_transfers tr))"
    and "\<And>u. u \<in> set (flying_transfers tr) \<Longrightarrow> x_dev_handle (transfer tr' u) = x_dev_handle (transfer tr u)"
  shows "flying_refs c tr' = transfer_ref c tr' t + flying_refs c tr"
proof -
  have "image_mset (transfer_ref c tr') (mset (flying_transfers tr)) = image_mset (transfer_ref c tr) (mset (flying_transfers tr))"
    by (rule image_mset_cong) (use assms(2) in \<open>simp add: transfer_ref_def\<close>)
  then show ?thesis unfolding flying_refs_def assms(1) by simp
qed

text \<open>The reference that a submitted transfer takes is that of its handle's device.\<close>

lemma submit_step:
  assumes "transfers_inv ops call h w (T, Ls, C, X, P, s)" and "t \<in> set T" and "clock_ok clock" and "w \<longrightarrow> settime_ok"
    and "libusb_submit_transfer submit clock settime_ok t s = Some (r, s')"
    and "heap_ok h" and "quiet ops" and "0 < os_pipe ops"
  shows "transfers_inv ops call h w (T, Ls, C, X, P, s')"
proof -
  note i = transfers_invD [OF assms(1)]
  let ?tr = "tc_transfers s" and ?c = "tc_ctx s"
  let ?zero = "update_transfer t (\<lambda>u. u\<lparr>u_transferred := 0, u_state_flags := 0, u_timeout_flags := 0\<rparr>) ?tr"
  obtain dev where dev: "transfer_dev s t = Some dev" using assms(5) by (auto simp: libusb_submit_transfer_def split: option.splits)
  then obtain hb hdl where hb: "x_dev_handle (transfer ?tr t) = Some hb" "find_handle ?c hb = Some hdl" "dev = h_dev hdl"
    by (auto simp: transfer_dev_def split: option.splits)
  show ?thesis
  proof (cases "in_flight (transfer ?tr t)")
    case True
    then have "s' = s" using assms(5) dev by (simp add: libusb_submit_transfer_def in_flight_def)
    then show ?thesis using assms(1) by simp
  next
    case False
    then have n: "t \<notin> set (flying_transfers ?tr)" using i(3) unfolding flying_held_def by blast
    obtain r1 tr1 where a: "add_to_flying_list clock settime_ok t ?zero = (r1, tr1)" by fastforce
    note ok0 = flying_ok_absent [OF i(2) n]
    note f = add_to_flying [OF ok0 _ assms(3) a]
    have n0: "t \<notin> set (flying_transfers ?zero)" using n by simp
    note f = f [OF n0]
    have x1: "x_dev_handle (transfer tr1 u) = x_dev_handle (transfer ?tr u)" for u using f(4) by (auto simp: fun_upd_def)
    have fl1: "in_flight (transfer tr1 u) = in_flight (transfer ?tr u)" if "u \<noteq> t" for u
      using f(4) that by (auto simp: fun_upd_def)
    have undone: "transfers_inv ops call h w (T, Ls, C, X, P, \<lparr>tc_ctx = c', tc_transfers = tr'\<rparr>)"
      if "is_session ops call h T Ls (flying_refs ?c ?tr + completing_ref ?c P + C) X c'" "handles_kept ?c c'" "flying_ok w tr'"
        "mset (flying_transfers tr') = mset (flying_transfers ?tr)"
        "\<And>u. u \<noteq> t \<Longrightarrow> x_dev_handle (transfer tr' u) = x_dev_handle (transfer ?tr u) \<and> in_flight (transfer tr' u) = in_flight (transfer ?tr u)"
      for c' tr'
    proof -
      have st: "set (flying_transfers tr') = set (flying_transfers ?tr)" using that(4) by (metis set_mset_mset)
      have r: "flying_refs c' tr' = flying_refs c' ?tr" by (rule flying_refs_cong [OF that(4)]) (use n that(5) in metis)
      note k = held_kept [OF that(2)]
      have "flying_held T c' tr'" by (rule flying_held_cong [OF _ _ k(1) [OF i(3)]]) (use n that(5) st in \<open>auto, metis+\<close>)
      then show ?thesis using that(1,3) k i r by (intro transfers_invI) simp_all
    qed
    show ?thesis
    proof (cases "r1 = 0")
      case False
      then have "s' = \<lparr>tc_ctx = ?c, tc_transfers = tr1\<rparr>"
        using assms(5) dev \<open>\<not> in_flight (transfer ?tr t)\<close> a by (cases s) (auto simp: libusb_submit_transfer_def in_flight_def)
      moreover have "handles_kept ?c ?c" by (rule handles_kept_same) simp
      ultimately show ?thesis using undone [OF i(1) _ f(1)] f(3) False x1 fl1 by simp
    next
      case r1: True
      obtain r2 osh os where sub: "submit t (os_data ?c) = ((r2, osh), os)" by (metis surj_pair)
      let ?c1 = "?c\<lparr>os_data := os\<rparr>"
      define tr2 where "tr2 = (if osh
        then update_transfer t (\<lambda>u. u\<lparr>u_timeout_flags := u_timeout_flags u OR USBI_TRANSFER_OS_HANDLES_TIMEOUT\<rparr>) tr1 else tr1)"
      have ok2: "flying_ok w tr2" using f(1) flying_ok_update [OF f(1)] by (simp add: tr2_def)
      have fl2: "flying_transfers tr2 = flying_transfers tr1" "x_dev_handle (transfer tr2 u) = x_dev_handle (transfer ?tr u)"
        "u \<noteq> t \<Longrightarrow> in_flight (transfer tr2 u) = in_flight (transfer ?tr u)" for u
        using x1 fl1 by (simp_all add: tr2_def)
      have m2: "mset (flying_transfers tr2) = add_mset t (mset (flying_transfers ?tr))" using f(2) [OF r1] fl2(1) by simp
      have eq: "Some (r, s') = (if r2 = LIBUSB_SUCCESS then
          Some (r2, \<lparr>tc_ctx = libusb_ref_device dev ?c1, tc_transfers = update_transfer t
            (\<lambda>u. u\<lparr>u_state_flags := u_state_flags u OR USBI_TRANSFER_IN_FLIGHT\<rparr>) tr2\<rparr>)
          else map_option (\<lambda>(_, tr). (r2, \<lparr>tc_ctx = ?c1, tc_transfers = tr\<rparr>)) (remove_from_flying_list settime_ok t tr2))"
        using assms(5) dev False a r1 sub unfolding libusb_submit_transfer_def tr2_def in_flight_def by (simp add: Let_def cong: if_cong)
      have st1: "usb_step ops call (Ls, C, X, ?c) (Ls, C, X, ?c1)" by (rule usb_step.backend) (rule backend_step.data)
      note se1 = is_session_step [OF i(1) st1]
      have k1: "handles_kept ?c ?c1" by (rule handles_kept_same) simp
      show ?thesis
      proof (cases "r2 = LIBUSB_SUCCESS")
        case False
        then obtain r3 tr3 where tr3: "remove_from_flying_list settime_ok t tr2 = Some (r3, tr3)" "s' = \<lparr>tc_ctx = ?c1, tc_transfers = tr3\<rparr>"
          using eq by (cases "remove_from_flying_list settime_ok t tr2") auto
        note rm = remove_from_flying [OF ok2 assms(4) tr3(1)]
        show ?thesis unfolding tr3(2)
          by (rule undone [OF se1 k1 rm(1)]) (use rm m2 fl2 in simp_all)
      next
        case True
        let ?tr3 = "update_transfer t (\<lambda>u. u\<lparr>u_state_flags := u_state_flags u OR USBI_TRANSFER_IN_FLIGHT\<rparr>) tr2"
        let ?c2 = "libusb_ref_device dev ?c1"
        have s': "s' = \<lparr>tc_ctx = ?c2, tc_transfers = ?tr3\<rparr>" using eq True by simp
        have "(hb, hdl) \<in> set (open_devs ?c1)" using hb(2) by (auto simp: find_handle_def dest: map_of_SomeD)
        then have "known dev Ls C ?c1" using hb(3) by (force simp: known_def)
        then have st2: "usb_step ops call (Ls, C, X, ?c1) (Ls, add_mset dev C, X, ?c2)" by (rule usb_step.ref)
        note se2 = is_session_step [OF se1 st2]
        have k2: "handles_kept ?c ?c2" by (rule handles_kept_same) simp
        note k = held_kept [OF k2]
        have "transfer_ref ?c2 ?tr3 t = {#dev#}"
        proof -
          have "find_handle ?c2 hb = Some hdl" using hb(2) by (simp add: find_handle_def)
          then show ?thesis using fl2(2) [of t] hb by (simp add: transfer_ref_def handle_ref_def)
        qed
        moreover have "flying_refs ?c2 ?tr3 = transfer_ref ?c2 ?tr3 t + flying_refs ?c2 ?tr"
          by (rule flying_refs_add) (use m2 fl2(2) in simp_all)
        ultimately have refs: "flying_refs ?c2 ?tr3 = add_mset dev (flying_refs ?c ?tr)" using k(2) [OF i(3)] by simp
        have ok3: "flying_ok w ?tr3" by (rule flying_ok_update [OF ok2]) (simp_all add: timeout_ignored_def)
        have "set (flying_transfers tr2) = insert t (set (flying_transfers ?tr))" using m2 by (metis set_mset_add_mset_insert set_mset_mset)
        moreover have "in_flight (u\<lparr>u_state_flags := u_state_flags u OR USBI_TRANSFER_IN_FLIGHT\<rparr>)" for u
          by (simp add: in_flight_def flag_or) (simp add: usb_consts)
        moreover have "find_handle ?c2 hb \<noteq> None" using hb(2) by (simp add: find_handle_def)
        ultimately have "flying_held T ?c2 ?tr3"
          using k(1) [OF i(3)] assms(2) fl2(2,3) hb(1) n unfolding flying_held_def by auto
        then show ?thesis
          unfolding s' using se2 k i ok3 refs by (intro transfers_invI) simp_all
      qed
    qed
  qed
qed

lemma flying_refs_remove:
  assumes "flying_transfers tr' = remove1 t (flying_transfers tr)" and "t \<in> set (flying_transfers tr)"
    and "\<And>u. x_dev_handle (transfer tr' u) = x_dev_handle (transfer tr u)"
  shows "flying_refs c tr = transfer_ref c tr t + flying_refs c tr'"
  by (rule flying_refs_add) (use assms in simp_all)

lemma complete_step:
  assumes "transfers_inv ops call h w (T, Ls, C, X, None, s)" and "w \<longrightarrow> settime_ok"
    and "x_dev_handle (transfer (tc_transfers s) t) = Some hb"
    and "complete_begin settime_ok t status (tc_transfers s) = Some (r, tr)"
  shows "transfers_inv ops call h w (T, Ls, C, X, Some (t, hb, flags), s\<lparr>tc_transfers := tr\<rparr>)"
proof -
  note i = transfers_invD [OF assms(1)]
  let ?tr = "tc_transfers s" and ?c = "tc_ctx s"
  obtain tr1 where rm: "remove_from_flying_list settime_ok t ?tr = Some (r, tr1)"
    and tr: "tr = update_transfer t (\<lambda>u. u\<lparr>u_state_flags := u_state_flags u AND NOT USBI_TRANSFER_IN_FLIGHT,
       x_status := completion_status u status, x_actual_length := u_transferred u\<rparr>) tr1"
    using assms(4) by (auto simp: complete_begin_def)
  note m = remove_from_flying [OF i(2) assms(2) rm]
  have n: "t \<notin> set (flying_transfers tr1)" using m(3) flying_okD(2) [OF i(2)] by simp
  have x: "x_dev_handle (transfer tr u) = x_dev_handle (transfer ?tr u)" for u by (simp add: tr m(4))
  have "flying_refs ?c ?tr = transfer_ref ?c ?tr t + flying_refs ?c tr"
    by (rule flying_refs_remove) (use m(2,3) x in \<open>simp_all add: tr\<close>)
  moreover have "transfer_ref ?c ?tr t = completing_ref ?c (Some (t, hb, flags))"
    using assms(3) by (simp add: transfer_ref_def completing_ref_def)
  moreover have "flying_held T ?c tr"
  proof (rule flying_held_cong [OF _ _ i(3)])
    show "set (flying_transfers tr) \<subseteq> set (flying_transfers ?tr)" using m(3) set_remove1_subset by (simp add: tr)
    show "x_dev_handle (transfer tr u) = x_dev_handle (transfer ?tr u) \<and> in_flight (transfer tr u) = in_flight (transfer ?tr u)"
      if "u \<in> set (flying_transfers tr)" for u using that n m(4) by (auto simp: tr)
  qed
  moreover have "completing_held ?c (Some (t, hb, flags))" using i(3) m(2) assms(3) by (auto simp: completing_held_def flying_held_def)
  moreover have "flying_ok w tr" unfolding tr by (rule flying_ok_absent [OF m(1) n])
  moreover have "completing_ref ?c None = {#}" by (simp add: completing_ref_def)
  ultimately show ?thesis using i(1) by (intro transfers_invI) (simp_all add: ac_simps)
qed

text \<open>Giving up the reference of the transfer whose callback has run.\<close>

lemma drop_ref:
  assumes "is_session ops call h T Ls (flying_refs c tr + completing_ref c (Some (t, hb, flags)) + C) X c"
    and "flying_held T c tr" and "completing_held c (Some (t, hb, flags))" and "find_handle c hb = Some hdl"
  shows "is_session ops call h T Ls (flying_refs (libusb_unref_device ops (Some (h_dev hdl)) c) tr + C) X
      (libusb_unref_device ops (Some (h_dev hdl)) c)"
    and "flying_held T (libusb_unref_device ops (Some (h_dev hdl)) c) tr"
proof -
  let ?c = "libusb_unref_device ops (Some (h_dev hdl)) c"
  have st: "usb_step ops call (Ls, add_mset (h_dev hdl) C, X, c) (Ls, C, X, ?c)" by (rule usb_step.unref)
  have "completing_ref c (Some (t, hb, flags)) = {#h_dev hdl#}" using assms(4) by (simp add: completing_ref_def handle_ref_def)
  then have "is_session ops call h T Ls (flying_refs c tr + add_mset (h_dev hdl) C) X c" using assms(1) by simp
  note se = is_session_step [OF this st]
  have "handles_kept c ?c" by (rule handles_kept_same) simp
  note k = held_kept [OF this]
  show "is_session ops call h T Ls (flying_refs ?c tr + C) X ?c" using se k(2) [OF assms(2)] by simp
  show "flying_held T ?c tr" by (rule k(1) [OF assms(2)])
qed

lemma finish_step:
  assumes "transfers_inv ops call h w (T, Ls, C, X, Some (t, hb, flags), s)"
    and "flags AND LIBUSB_TRANSFER_FREE_TRANSFER = 0" and "complete_end ops hb flags t s = Some s'"
  shows "transfers_inv ops call h w (T, Ls, C, X, None, s')"
proof -
  note i = transfers_invD [OF assms(1)]
  obtain hdl where "find_handle (tc_ctx s) hb = Some hdl"
    and s': "s' = s\<lparr>tc_ctx := libusb_unref_device ops (Some (h_dev hdl)) (tc_ctx s)\<rparr>"
    using assms(2,3) by (auto simp: complete_end_def split: option.splits)
  note d = drop_ref [OF i(1,3,4) this(1)]
  show ?thesis unfolding s'
    by (rule transfers_invI) (use d i(2) in \<open>simp_all add: completing_ref_def completing_held_def\<close>)
qed

lemma is_session_discard:
  assumes "is_session ops call h T Ls C X c" and "(b, []) \<in> set Ls"
  shows "is_session ops call h T (remove1 (b, []) Ls) C X (release b c)"
  using is_session_step [of ops call h T Ls C "{#}" X c "remove1 (b, []) Ls" "{#}" X "release b c"]
    usb_step.discard [OF assms(2), of ops call "{#}" X c] assms(1) by simp

text \<open>Freeing a transfer, and the buffer with it when its flags say so.\<close>

lemma free_transfer_session:
  assumes "is_session ops call h T Ls C X (tc_ctx s)" and "t \<in> set T"
    and "freed_buffer (transfer (tc_transfers s) t) Ls = Some Ls'"
  shows "is_session ops call h (remove1 t T) Ls' C X (tc_ctx (libusb_free_transfer (Some t) s))"
    and "open_devs (tc_ctx (libusb_free_transfer (Some t) s)) = open_devs (tc_ctx s)"
    and "tc_transfers (libusb_free_transfer (Some t) s) = tc_transfers s"
proof -
  let ?u = "transfer (tc_transfers s) t"
  define c1 where "c1 = (if x_flags ?u AND LIBUSB_TRANSFER_FREE_BUFFER \<noteq> 0
    then (tc_ctx s)\<lparr>us_heap := free (x_buffer ?u) (us_heap (tc_ctx s))\<rparr> else tc_ctx s)"
  have c1: "is_session ops call h T Ls' C X c1 \<and> open_devs c1 = open_devs (tc_ctx s)"
  proof (cases "x_flags ?u AND LIBUSB_TRANSFER_FREE_BUFFER = 0")
    case True
    then show ?thesis using assms(1,3) by (simp add: c1_def freed_buffer_def)
  next
    case False
    show ?thesis
    proof (cases "x_buffer ?u")
      case None
      then show ?thesis using assms(1,3) False by (simp add: c1_def freed_buffer_def free_def)
    next
      case (Some b)
      then have b: "(b, []) \<in> set Ls" "Ls' = remove1 (b, []) Ls" using assms(3) False by (auto simp: freed_buffer_def split: if_splits)
      have "c1 = release b (tc_ctx s)" using False Some by (simp add: c1_def release_def)
      then show ?thesis using is_session_discard [OF assms(1) b(1)] b(2) by simp
    qed
  qed
  have f: "tc_ctx (libusb_free_transfer (Some t) s) = release t c1" "tc_transfers (libusb_free_transfer (Some t) s) = tc_transfers s"
    by (simp_all add: libusb_free_transfer_def c1_def Let_def)
  have "is_session ops call h [] (map (\<lambda>t. (t, [])) T @ Ls') C X c1" using c1 is_session_all by blast
  from is_session_discard [OF this, of t]
  have r: "is_session ops call h [] (remove1 (t, []) (map (\<lambda>t. (t, [])) T @ Ls')) C X (release t c1)" using assms(2) by auto
  have "mset T = add_mset t (mset (remove1 t T))" using assms(2) by simp
  then have "image_mset (\<lambda>t. (t, [] :: nat list)) (mset T) = image_mset (\<lambda>t. (t, [])) (add_mset t (mset (remove1 t T)))" by (rule arg_cong)
  then have "mset (map (\<lambda>t. (t, [])) (remove1 t T) @ Ls') = mset (remove1 (t, []) (map (\<lambda>t. (t, [])) T @ Ls'))" by simp
  from is_session_perm [OF r refl this] show "is_session ops call h (remove1 t T) Ls' C X (tc_ctx (libusb_free_transfer (Some t) s))"
    unfolding f(1) using is_session_all by blast
  show "open_devs (tc_ctx (libusb_free_transfer (Some t) s)) = open_devs (tc_ctx s)" using c1 by (simp add: f(1))
  show "tc_transfers (libusb_free_transfer (Some t) s) = tc_transfers s" by (rule f(2))
qed

lemma free_step:
  assumes "transfers_inv ops call h w (T, Ls, C, X, P, s)" and "t \<in> set T" and "t \<notin> set (flying_transfers (tc_transfers s))"
    and "freed_buffer (transfer (tc_transfers s) t) Ls = Some Ls'"
  shows "transfers_inv ops call h w (remove1 t T, Ls', C, X, P, libusb_free_transfer (Some t) s)"
proof -
  note i = transfers_invD [OF assms(1)]
  note f = free_transfer_session [OF i(1) assms(2,4)]
  note k = held_kept [OF handles_kept_same [OF f(2)]]
  have "flying_held (remove1 t T) (tc_ctx (libusb_free_transfer (Some t) s)) (tc_transfers s)"
    using k(1) [OF i(3)] assms(3) unfolding flying_held_def by (metis in_set_remove1)
  then show ?thesis using f i k by (intro transfers_invI) simp_all
qed

lemma finish_free_step:
  assumes "transfers_inv ops call h w (T, Ls, C, X, Some (t, hb, flags), s)"
    and "flags AND LIBUSB_TRANSFER_FREE_TRANSFER \<noteq> 0" and "t \<in> set T" and "t \<notin> set (flying_transfers (tc_transfers s))"
    and "freed_buffer (transfer (tc_transfers s) t) Ls = Some Ls'" and "complete_end ops hb flags t s = Some s'"
  shows "transfers_inv ops call h w (remove1 t T, Ls', C, X, None, s')"
proof -
  let ?s = "libusb_free_transfer (Some t) s"
  note i = transfers_invD [OF free_step [OF assms(1,3-5)]]
  obtain hdl where "find_handle (tc_ctx ?s) hb = Some hdl"
    and s': "s' = ?s\<lparr>tc_ctx := libusb_unref_device ops (Some (h_dev hdl)) (tc_ctx ?s)\<rparr>"
    using assms(2,6) by (auto simp: complete_end_def Let_def split: option.splits)
  note d = drop_ref [OF i(1,3,4) this(1)]
  show ?thesis unfolding s'
    by (rule transfers_invI) (use d i(2) in \<open>simp_all add: completing_ref_def completing_held_def\<close>)
qed

section \<open>Closing a handle\<close>

lemma open_devs_close:
  assumes "libusb_close ops handling_events (Some hb) c = Some c'" and "find_handle c hb = Some hdl"
  shows "open_devs c' = filter (\<lambda>(x, e). x \<noteq> hb) (open_devs c)"
proof -
  have d: "open_devs (do_close ops hb x) = filter (\<lambda>(x, e). x \<noteq> hb) (open_devs x)" if "find_handle x hb = Some hdl" for x
    using that by (simp add: do_close_def Let_def)
  have b: "open_devs (close_begin cap x) = open_devs x" for cap and x :: "'a libusb_context"
  proof -
    have "events.more (y\<lparr>device_close := device_close y + 1\<rparr>) = events.more y" for y :: "'a libusb_context" by (cases y) simp
    then show ?thesis unfolding close_begin_def by (rule raise_keeps)
  qed
  have e: "open_devs y = open_devs x" if "close_end x = Some y" for x y :: "'a libusb_context"
  proof -
    have "events.more y = events.more (x\<lparr>device_close := device_close x - 1\<rparr>)"
      using that clear_if_idle_more(1) unfolding close_end_def by blast
    then have "open_devs y = open_devs (x\<lparr>device_close := device_close x - 1\<rparr>)" by (rule res_more(2))
    then show ?thesis by simp
  qed
  have "find_handle (close_begin (os_pipe ops) c) hb = Some hdl" using assms(2) b by (simp add: find_handle_def)
  then show ?thesis using assms d e b by (auto simp: libusb_close_def split: if_splits)
qed

lemma close_step:
  assumes "transfers_inv ops call h w (T, Ls, C, X, P, s)" and "hb \<in> fst ` set (open_devs (tc_ctx s))"
    and "\<forall>t flags. P \<noteq> Some (t, hb, flags)" and "close_handle ops handling_events hb s = Some s'"
    and "w \<longrightarrow> (\<forall>t \<in> set (flying_transfers (tc_transfers s)). x_dev_handle (transfer (tc_transfers s) t) \<noteq> Some hb)"
    and "M = sum_mset (image_mset (transfer_ref (tc_ctx s) (tc_transfers s))
      (mset (filter (\<lambda>t. x_dev_handle (transfer (tc_transfers s) t) = Some hb) (flying_transfers (tc_transfers s)))))"
  shows "transfers_inv ops call h w (T, Ls, C, M + X, P, s')"
proof -
  note i = transfers_invD [OF assms(1)]
  let ?tr = "tc_transfers s" and ?c = "tc_ctx s" and ?mine = "\<lambda>t. x_dev_handle (transfer (tc_transfers s) t) = Some hb"
  let ?tr1 = "close_transfers hb ?tr"
  obtain c where c: "libusb_close ops handling_events (Some hb) ?c = Some c" "s' = \<lparr>tc_ctx = c, tc_transfers = ?tr1\<rparr>"
    using assms(4) by (auto simp: close_handle_def)
  obtain hdl where hdl: "find_handle ?c hb = Some hdl"
    using assms(2) unfolding find_handle_def by (metis map_of_eq_None_iff not_None_eq)
  note o = open_devs_close [OF c(1) hdl]
  have fc: "find_handle c x = find_handle ?c x" if "x \<noteq> hb" for x
  proof -
    have "map_of (filter (\<lambda>(x, e). x \<noteq> hb) hs) x = map_of hs x" for hs :: "(nat \<times> libusb_device_handle) list"
      using that by (induction hs) auto
    then show ?thesis by (simp add: find_handle_def o)
  qed
  have ft: "flying_transfers ?tr1 = filter (\<lambda>t. \<not> ?mine t) (flying_transfers ?tr)"
    "\<And>u. u \<in> set (flying_transfers ?tr1) \<Longrightarrow> transfer ?tr1 u = transfer ?tr u" "timerfd ?tr1 = timerfd ?tr"
    by (simp_all add: close_transfers_def Let_def)
  have refs: "flying_refs ?c ?tr = M + flying_refs c ?tr1"
  proof -
    have "mset (flying_transfers ?tr) = mset (filter ?mine (flying_transfers ?tr)) + mset (flying_transfers ?tr1)"
      unfolding ft(1) by simp
    then have "flying_refs ?c ?tr = M + sum_mset (image_mset (transfer_ref ?c ?tr) (mset (flying_transfers ?tr1)))"
      unfolding flying_refs_def assms(6) by (metis image_mset_union sum_mset.union)
    moreover have "image_mset (transfer_ref ?c ?tr) (mset (flying_transfers ?tr1)) =
        image_mset (transfer_ref c ?tr1) (mset (flying_transfers ?tr1))"
    proof (rule image_mset_cong)
      fix t assume t: "t \<in># mset (flying_transfers ?tr1)"
      then have "\<not> ?mine t" by (simp add: ft(1))
      then show "transfer_ref ?c ?tr t = transfer_ref c ?tr1 t"
        using t ft(2) [of t] fc by (auto simp: transfer_ref_def handle_ref_def split: option.split)
    qed
    ultimately show ?thesis by (simp add: flying_refs_def)
  qed
  have pc: "completing_ref c P = completing_ref ?c P" "completing_held c P"
    using i(4) fc assms(3) by (auto simp: completing_ref_def completing_held_def handle_ref_def split: option.split)
  have forget: "is_session ops call h T Ls D (N + Y) ?c" if "is_session ops call h T Ls (N + D) Y ?c" for N D Y
    using that
  proof (induction N arbitrary: Y)
    case (add b N)
    have "usb_step ops call (Ls, add_mset b D, Y, ?c) (Ls, D, add_mset b Y, ?c)" by (rule usb_step.forget)
    moreover have "is_session ops call h T Ls (N + add_mset b D) Y ?c" using add.prems by simp
    ultimately have "is_session ops call h T Ls (N + D) (add_mset b Y) ?c" using is_session_step by blast
    from add.IH [OF this] show ?case by simp
  qed simp
  have "is_session ops call h T Ls (flying_refs c ?tr1 + completing_ref c P + C) (M + X) ?c"
    by (rule forget) (use i(1) in \<open>simp add: refs pc(1) ac_simps\<close>)
  then obtain Ks where ks: "mset Ks = mset Ls + image_mset (\<lambda>t. (t, [])) (mset T)"
    "usb_session ops call h (Ks, flying_refs c ?tr1 + completing_ref c P + C, M + X, ?c)" by (auto simp: is_session_def)
  have se: "is_session ops call h T Ls (flying_refs c ?tr1 + completing_ref c P + C) (M + X) c"
    using usb_session.close [OF ks(2) assms(2) c(1)] ks(1) by (auto simp: is_session_def)
  have held: "flying_held T c ?tr1"
  proof -
    have "t \<in> set T \<and> in_flight (transfer ?tr1 t) \<and> (\<exists>x. x_dev_handle (transfer ?tr1 t) = Some x \<and> find_handle c x \<noteq> None)"
      if t: "t \<in> set (flying_transfers ?tr1)" for t
    proof -
      have "t \<in> set (flying_transfers ?tr)" "\<not> ?mine t" using t by (simp_all add: ft(1))
      then show ?thesis using i(3) ft(2) [OF t] fc unfolding flying_held_def by metis
    qed
    then show ?thesis by (simp add: flying_held_def)
  qed
  have ok: "flying_ok w ?tr1"
  proof -
    have to: "timeouts ?tr1 = timeouts ?tr" "\<And>u. timeout_ignored (transfer ?tr1 u) = timeout_ignored (transfer ?tr u)"
      by (auto simp: close_transfers_def Let_def timeouts_def timeout_ignored_def)
    have "sorted_flying (timeouts ?tr) (filter (\<lambda>t. \<not> ?mine t) (flying_transfers ?tr))"
      using flying_okD(1) [OF i(2)] by (simp add: sorted_flying_def sorted_wrt_filter)
    moreover have "timer_ok ?tr1" if w: w
    proof -
      have f: "flying_transfers ?tr1 = flying_transfers ?tr" using assms(5) w unfolding ft(1) by (simp add: filter_id_conv)
      show ?thesis using flying_okD(4) [OF i(2) w] unfolding timer_ok_def ft(3) to f .
    qed
    ultimately show ?thesis using flying_okD(2,3) [OF i(2)] unfolding flying_ok_def to by (simp add: ft(1))
  qed
  show ?thesis unfolding c(2)
    by (rule transfers_invI) (use se ok held pc(2) in simp_all)
qed

lemma usb_transfers_inv:
  assumes "usb_transfers ops call h w st" and "heap_ok h" and "quiet ops" and "0 < os_pipe ops"
  shows "transfers_inv ops call h w st"
  using assms(1)
proof induction
  case (start Ls C X c tr)
  have "flying_ok w tr" using start(2) by (auto simp: flying_ok_def sorted_flying_def timer_ok_def split: option.split)
  then show ?case using start by (intro transfers_invI)
      (auto simp: is_session_def flying_refs_def completing_ref_def flying_held_def completing_held_def)
next
  case (other T Ls C X P s Ls' C' X' c')
  show ?case by (rule other_step [OF other(3,2) assms(2-4)])
next
  case (alloc T Ls C X P s p s')
  show ?case by (rule alloc_step [OF alloc(3,2) assms(2-4)])
next
  case (fill T Ls C X P s t f)
  show ?case by (rule fill_step [OF fill(5,3)])
next
  case (submit T Ls C X P s t clock settime_ok submit r s')
  show ?case by (rule submit_step [OF submit(6,2-5) assms(2-4)])
next
  case (progress T Ls C X P s t n)
  have "flying_ok w (update_transfer t (\<lambda>u. u\<lparr>u_transferred := n\<rparr>) (tc_transfers s))"
    by (rule flying_ok_update [OF transfers_invD(2) [OF progress(2)]]) (simp_all add: timeout_ignored_def)
  then show ?case by (rule flags_step [OF progress(2)]) (auto simp: only_flags_def in_flight_def)
next
  case (cancel T Ls C X P s cancel t r tr)
  show ?case using flags_step [OF cancel(3)] cancel_flying [OF transfers_invD(2) [OF cancel(3)] cancel(2)] by blast
next
  case (timeouts T Ls C X P s clock cancel r tr)
  show ?case using flags_step [OF timeouts(4)] handle_timeouts_flying [OF transfers_invD(2) [OF timeouts(4)] timeouts(2,3)] by blast
next
  case (timerfd T Ls C X P s clock settime_ok cancel r tr)
  show ?case using flags_step [OF timerfd(6)] timerfd_flying [OF transfers_invD(2) [OF timerfd(6)] timerfd(4,3,5)] by blast
next
  case (complete T Ls C X s settime_ok t hb status r tr)
  show ?case by (rule complete_step [OF complete(5,2-4)])
next
  case (finish T Ls C X t hb flags s s')
  show ?case by (rule finish_step [OF finish(4,2,3)])
next
  case (finish_free T Ls C X t hb flags s Ls' s')
  show ?case by (rule finish_free_step [OF finish_free(7,2-6)])
next
  case (free T Ls C X P s t Ls')
  show ?case by (rule free_step [OF free(5,2-4)])
next
  case (close T Ls C X P s hb handling_events s' M)
  show ?case by (rule close_step [OF close(7,2,3,5,4,6)])
qed

section \<open>A device that disconnects\<close>

text \<open>A callback that submits no transfer and leaves the handles open.\<close>

definition calm_callback :: "(nat \<Rightarrow> 'd transfer_context \<Rightarrow> 'd transfer_context) \<Rightarrow> bool" where
  "calm_callback callback \<longleftrightarrow> (\<forall>t s. open_devs (tc_ctx (callback t s)) = open_devs (tc_ctx s) \<and>
     length (flying_transfers (tc_transfers (callback t s))) \<le> length (flying_transfers (tc_transfers s)))"

lemma calm_callbackD:
  assumes "calm_callback callback"
  shows "open_devs (tc_ctx (callback t s)) = open_devs (tc_ctx s)"
    and "length (flying_transfers (tc_transfers (callback t s))) \<le> length (flying_transfers (tc_transfers s))"
  using assms by (simp_all add: calm_callback_def)

lemma free_transfer_keeps:
  "open_devs (tc_ctx (libusb_free_transfer p s)) = open_devs (tc_ctx s)"
  "tc_transfers (libusb_free_transfer p s) = tc_transfers s"
  by (simp_all add: libusb_free_transfer_def Let_def split: option.split)

lemma completion_returns:
  assumes "calm_callback callback" and "t \<in> set (flying_transfers (tc_transfers s))"
    and "x_dev_handle (transfer (tc_transfers s) t) = Some hb" and "find_handle (tc_ctx s) hb \<noteq> None"
  shows "\<exists>r s'. usbi_handle_transfer_completion ops callback settime_ok t status s = Some (r, s') \<and>
    open_devs (tc_ctx s') = open_devs (tc_ctx s) \<and>
    length (flying_transfers (tc_transfers s')) < length (flying_transfers (tc_transfers s))"
proof -
  let ?tr = "tc_transfers s"
  obtain r tr1 where rm: "remove_from_flying_list settime_ok t ?tr = Some (r, tr1)"
    using remove_from_flying_some [OF assms(2), of settime_ok] by auto
  have fl: "flying_transfers tr1 = remove1 t (flying_transfers ?tr)"
    using rm assms(2) by (auto simp: remove_from_flying_list_def Let_def arm_timerfd_for_next_timeout_def split: if_splits)
  obtain tr where tr: "complete_begin settime_ok t status ?tr = Some (r, tr)" "flying_transfers tr = flying_transfers tr1"
    using rm by (simp add: complete_begin_def)
  let ?s1 = "callback t (s\<lparr>tc_transfers := tr\<rparr>)"
  have c: "open_devs (tc_ctx ?s1) = open_devs (tc_ctx s)"
    "length (flying_transfers (tc_transfers ?s1)) \<le> length (flying_transfers tr)"
    using calm_callbackD [OF assms(1), of t "s\<lparr>tc_transfers := tr\<rparr>"] by simp_all
  have l: "length (flying_transfers tr) < length (flying_transfers ?tr)"
    using tr(2) fl assms(2) length_pos_if_in_set [OF assms(2)] by (simp add: length_remove1)
  define s2 where "s2 = (if x_flags (transfer tr t) AND LIBUSB_TRANSFER_FREE_TRANSFER \<noteq> 0 then libusb_free_transfer (Some t) ?s1 else ?s1)"
  have s2: "open_devs (tc_ctx s2) = open_devs (tc_ctx s)" "tc_transfers s2 = tc_transfers ?s1"
    using c(1) by (simp_all add: s2_def free_transfer_keeps)
  then obtain hdl where h: "find_handle (tc_ctx s2) hb = Some hdl" using assms(4) by (auto simp: find_handle_def)
  have e: "complete_end ops hb (x_flags (transfer tr t)) t ?s1 =
      Some (s2\<lparr>tc_ctx := libusb_unref_device ops (Some (h_dev hdl)) (tc_ctx s2)\<rparr>)"
    using h by (simp add: complete_end_def s2_def Let_def cong: if_cong)
  show ?thesis
    unfolding usbi_handle_transfer_completion_def assms(3) option.case tr(1) prod.case e option.map
    using s2 c(2) l by auto
qed

lemma handle_disconnect_returns:
  assumes "calm_callback callback" and "find_handle (tc_ctx s) hb \<noteq> None"
  shows "\<exists>s'. usbi_handle_disconnect ops clear callback settime_ok hb s = Some s' \<and> to_cancel hb (tc_transfers s') = None"
  using assms(2)
proof (induction "length (flying_transfers (tc_transfers s))" arbitrary: s rule: less_induct)
  case less
  show ?case
  proof (cases "to_cancel hb (tc_transfers s)")
    case None
    then show ?thesis using less.prems by (subst usbi_handle_disconnect.simps) auto
  next
    case (Some t)
    then have t: "t \<in> set (flying_transfers (tc_transfers s))" "x_dev_handle (transfer (tc_transfers s) t) = Some hb"
      by (auto simp: to_cancel_def find_Some_iff)
    let ?s = "s\<lparr>tc_ctx := (tc_ctx s)\<lparr>os_data := clear t (os_data (tc_ctx s))\<rparr>\<rparr>"
    have "find_handle (tc_ctx ?s) hb \<noteq> None" using less.prems by (simp add: find_handle_def)
    then obtain r s' where s': "usbi_handle_transfer_completion ops callback settime_ok t LIBUSB_TRANSFER_NO_DEVICE ?s = Some (r, s')"
      "open_devs (tc_ctx s') = open_devs (tc_ctx s)"
      "length (flying_transfers (tc_transfers s')) < length (flying_transfers (tc_transfers s))"
      using completion_returns [OF assms(1), of t ?s hb ops settime_ok LIBUSB_TRANSFER_NO_DEVICE] t by auto
    have "find_handle (tc_ctx s') hb \<noteq> None" using less.prems s'(2) by (simp add: find_handle_def)
    from less.hyps [OF s'(3) this] show ?thesis
      using Some less.prems s'(1) by (subst usbi_handle_disconnect.simps) auto
  qed
qed

end
