(* ===== verification/Usb_Transfer_Theorems.thy ===== *)
theory Usb_Transfer_Theorems
  imports Usb_Transfer_Session Usb_Core_Theorems
begin

text \<open>
  The properties of asynchronous transfers: their references and blocks, the list of those in flight, timeouts,
  disconnection and the closing of handles, with an example that goes on where that of \<^verbatim>\<open>Usb_Core_Theorems\<close> stops.
\<close>

section \<open>An example\<close>

text \<open>
  In the session of \<^verbatim>\<open>Usb_Core_Theorems\<close> the client allocates a transfer, fills it in for the handle it has open, and
  submits it with a timeout of 1.5 seconds, 100.6 seconds after the clock started.
\<close>

definition blank_transfer :: usbi_transfer where
  "blank_transfer = \<lparr>u_timeout = (0, 0), u_transferred = 0, u_state_flags = 0, u_timeout_flags = 0, x_dev_handle = None,
     x_flags = 0, x_type = 0, x_timeout = 0, x_status = 0, x_length = 0, x_actual_length = 0, x_buffer = None\<rparr>"

definition demo_blank :: "timeval option option \<Rightarrow> unit transfer_context" where
  "demo_blank tf = \<lparr>tc_ctx = demo_opened,
     tc_transfers = \<lparr>transfer = (\<lambda>_. blank_transfer), flying_transfers = [], timerfd = tf\<rparr>\<rparr>"

definition demo_allocated :: "timeval option option \<Rightarrow> unit transfer_context" where
  "demo_allocated tf = snd (libusb_alloc_transfer (demo_blank tf))"

definition demo_filled :: "timeval option option \<Rightarrow> unit transfer_context" where
  "demo_filled tf = (demo_allocated tf)\<lparr>tc_transfers :=
     update_transfer 7 (\<lambda>u. u\<lparr>x_dev_handle := Some 6, x_timeout := 1500\<rparr>) (tc_transfers (demo_allocated tf))\<rparr>"

definition demo_submitted :: "timeval option option \<Rightarrow> unit transfer_context" where
  "demo_submitted tf =
     snd (the (libusb_submit_transfer (\<lambda>t os. ((0, False), os)) (0, 100, 600000000) True 7 (demo_filled tf)))"

lemma demo_alloc: "fst (alloc demo_opened) = Some 7" "open_devs demo_opened = [(6, \<lparr>h_dev = 2, h_claimed_interfaces = 0, h_auto_detach_kernel_driver = 0\<rparr>)]"
  by (simp_all add: demo_defs cong: case_congs)

lemma demo_allocated: "libusb_alloc_transfer (demo_blank tf) = (Some 7, demo_allocated tf)"
  "tc_ctx (demo_allocated tf) = snd (alloc demo_opened)"
  "flying_transfers (tc_transfers (demo_allocated tf)) = []" "timerfd (tc_transfers (demo_allocated tf)) = tf"
  "transfer (tc_transfers (demo_allocated tf)) 7 = blank_transfer"
proof -
  obtain c where a: "alloc demo_opened = (Some 7, c)" using demo_alloc(1) by (metis prod.collapse)
  show "libusb_alloc_transfer (demo_blank tf) = (Some 7, demo_allocated tf)"
    "tc_ctx (demo_allocated tf) = snd (alloc demo_opened)"
    "flying_transfers (tc_transfers (demo_allocated tf)) = []" "timerfd (tc_transfers (demo_allocated tf)) = tf"
    "transfer (tc_transfers (demo_allocated tf)) 7 = blank_transfer"
    by (simp_all add: libusb_alloc_transfer_def demo_blank_def demo_allocated_def a blank_transfer_def)
qed

lemma demo_timeout: "calculate_timeout (0, 100, 600000000) 1500 = Inr (102, 100000)"
  by (simp add: calculate_timeout_def normalize_timespec_eq TIMESPEC_TO_TIMEVAL_def)

definition demo_transfer :: usbi_transfer where
  "demo_transfer = blank_transfer\<lparr>u_timeout := (102, 100000), u_state_flags := 1, x_dev_handle := Some 6, x_timeout := 1500\<rparr>"

lemma demo_filled:
  "tc_ctx (demo_filled tf) = snd (alloc demo_opened)" "flying_transfers (tc_transfers (demo_filled tf)) = []"
  "timerfd (tc_transfers (demo_filled tf)) = tf"
  "transfer (tc_transfers (demo_filled tf)) 7 = blank_transfer\<lparr>x_dev_handle := Some 6, x_timeout := 1500\<rparr>"
  by (simp_all add: demo_filled_def demo_allocated)

lemma demo_submit:
  "libusb_submit_transfer (\<lambda>t os. ((0, False), os)) (0, 100, 600000000) True 7 (demo_filled tf) = Some (0, demo_submitted tf)"
  "flying_transfers (tc_transfers (demo_submitted tf)) = [7]" "transfer (tc_transfers (demo_submitted tf)) 7 = demo_transfer"
  "timerfd (tc_transfers (demo_submitted tf)) = (if tf = None then None else Some (Some (102, 100000)))"
  "open_devs (tc_ctx (demo_submitted tf)) = open_devs demo_opened"
proof -
  let ?submit = "libusb_submit_transfer (\<lambda>t os. ((0, False), os)) (0, 100, 600000000) True 7 (demo_filled tf)"
  have d: "transfer_dev (demo_filled tf) 7 = Some 2"
    by (simp add: transfer_dev_def demo_filled find_handle_def demo_alloc)
  have s: "\<exists>tr. ?submit = Some (0, \<lparr>tc_ctx = libusb_ref_device 2 ((tc_ctx (demo_filled tf))\<lparr>os_data := os_data (tc_ctx (demo_filled tf))\<rparr>),
      tc_transfers = tr\<rparr>) \<and> flying_transfers tr = [7] \<and> transfer tr 7 = demo_transfer \<and>
      timerfd tr = (if tf = None then None else Some (Some (102, 100000)))"
    unfolding libusb_submit_transfer_def d
    by (simp add: demo_filled add_to_flying_list_def demo_timeout demo_transfer_def blank_transfer_def timerisset_def usb_consts)
  then obtain tr where tr: "?submit = Some (0, \<lparr>tc_ctx = libusb_ref_device 2 ((tc_ctx (demo_filled tf))\<lparr>os_data := os_data (tc_ctx (demo_filled tf))\<rparr>),
      tc_transfers = tr\<rparr>)" "flying_transfers tr = [7]" "transfer tr 7 = demo_transfer"
      "timerfd tr = (if tf = None then None else Some (Some (102, 100000)))" by blast
  show "?submit = Some (0, demo_submitted tf)" unfolding demo_submitted_def tr(1) by simp
  show "flying_transfers (tc_transfers (demo_submitted tf)) = [7]" "transfer (tc_transfers (demo_submitted tf)) 7 = demo_transfer"
    "timerfd (tc_transfers (demo_submitted tf)) = (if tf = None then None else Some (Some (102, 100000)))"
    "open_devs (tc_ctx (demo_submitted tf)) = open_devs demo_opened"
    unfolding demo_submitted_def tr(1) using tr(2-4) by (simp_all add: demo_filled)
qed

lemma demo_transfers:
  "usb_transfers demo_ops demo_client demo_usb_heap True ([7], [(5, [2, 1])], {#}, {#}, None, demo_submitted tf)"
proof -
  let ?R = "usb_transfers demo_ops demo_client demo_usb_heap True"
  have "?R ([], [(5, [2, 1])], {#}, {#}, None, demo_blank tf)"
    using usb_transfers.start [OF demo_opened_session] by (simp add: demo_blank_def)
  from usb_transfers.alloc [OF this demo_allocated(1)]
  have "?R ([7], [(5, [2, 1])], {#}, {#}, None, demo_allocated tf)" by (simp add: opt_list_def)
  from usb_transfers.fill [OF this, of 7 "\<lambda>u. u\<lparr>x_dev_handle := Some 6, x_timeout := 1500\<rparr>"]
  have "?R ([7], [(5, [2, 1])], {#}, {#}, None, demo_filled tf)" by (simp add: demo_allocated internal_def demo_filled_def)
  from usb_transfers.submit [OF this _ _ _ demo_submit(1)] show ?thesis by (simp add: clock_ok_def)
qed

section \<open>Sessions\<close>

text \<open>
  C29: a session with transfers is a session without them in which each transfer in flight, and the one whose callback
  is running, holds a reference to the device of its handle and each transfer a block; so every theorem on sessions,
  on counts, memory and freed devices, holds while transfers are submitted, cancelled, time out and complete.
\<close>

theorem usb_transfers_refine_session:
  assumes "usb_transfers ops call h w (T, Ls, C, X, P, s)" and "heap_ok h" and "quiet ops" and "0 < os_pipe ops"
  shows "\<exists>Ks. mset Ks = mset Ls + image_mset (\<lambda>t. (t, [])) (mset T) \<and>
    usb_session ops call h (Ks, flying_refs (tc_ctx s) (tc_transfers s) + completing_ref (tc_ctx s) P + C, X, tc_ctx s)"
  using transfers_invD(1) [OF usb_transfers_inv [OF assms]] by (simp add: is_session_def)

theorem usb_transfers_refine_session_witness:
  "\<exists>Ks. mset Ks = {#(7, []), (5, [2, 1])#} \<and> usb_session demo_ops demo_client demo_usb_heap (Ks, {#2#}, {#}, tc_ctx (demo_submitted None))"
proof -
  have "flying_refs (tc_ctx (demo_submitted None)) (tc_transfers (demo_submitted None)) = {#2#}"
    by (simp add: flying_refs_def demo_submit transfer_ref_def handle_ref_def find_handle_def demo_transfer_def demo_alloc)
  then show ?thesis using usb_transfers_refine_session [OF demo_transfers demo_assms, of None] by (simp add: completing_ref_def)
qed



section \<open>Timeouts\<close>



text \<open>
  C32: handling timeouts cancels exactly the transfers in flight whose timeout has passed and is not handled yet, whatever
  their place in the list, and changes nothing else; after it none of those is pending.
\<close>

theorem timeouts_cancel_exactly_expired:
  assumes "usb_transfers ops call h w (T, Ls, C, X, P, s)" and "heap_ok h" and "quiet ops" and "0 < os_pipe ops"
  shows "let tr = tc_transfers s; now = TIMESPEC_TO_TIMEVAL ts; tr' = snd (handle_timeouts_locked cancel (0, ts) tr) in
    handle_timeouts_locked cancel (0, ts) tr = (0, tr') \<and>
    flying_transfers tr' = flying_transfers tr \<and> timerfd tr' = timerfd tr \<and>
    (\<forall>t. transfer tr' t = (if t \<in> set (flying_transfers tr) \<and> expired now tr t
       then timed_out (cancel t) (transfer tr t) else transfer tr t)) \<and>
    pending tr' = {t \<in> pending tr. later (timeouts tr t) now}"
proof -
  let ?tr = "tc_transfers s" and ?now = "TIMESPEC_TO_TIMEVAL ts"
  note f = transfers_invD(2) [OF usb_transfers_inv [OF assms]]
  note h = handle_timeouts_eq [OF f, of cancel ts]
  have "pending (snd (handle_timeouts_locked cancel (0, ts) ?tr)) = {t \<in> pending ?tr. later (timeouts ?tr t) ?now}"
    by (auto simp: h pending_def timeouts_def expired_def split: if_splits)
  then show ?thesis by (simp add: h Let_def)
qed

theorem timeouts_cancel_exactly_expired_witness:
  "pending (snd (handle_timeouts_locked (\<lambda>t. 0) (0, 103, 0) (tc_transfers (demo_submitted None)))) = {} \<and>
   transfer (snd (handle_timeouts_locked (\<lambda>t. 0) (0, 103, 0) (tc_transfers (demo_submitted None)))) 7 = timed_out 0 demo_transfer"
proof -
  have "expired (103, 0) (tc_transfers (demo_submitted None)) 7"
    by (simp add: expired_def demo_submit timeouts_def demo_transfer_def blank_transfer_def timerisset_def timeout_ignored_def later_def)
  moreover have "pending (tc_transfers (demo_submitted None)) \<subseteq> {7}" by (auto simp: pending_def demo_submit)
  ultimately show ?thesis
    using timeouts_cancel_exactly_expired [OF demo_transfers demo_assms, of None "(103, 0)" "\<lambda>t. 0"]
    by (auto simp: Let_def demo_submit TIMESPEC_TO_TIMEVAL_def expired_def)
qed

section \<open>Disconnection and closing\<close>

text \<open>
  C33: when a device disconnects, \<^verbatim>\<open>usbi_handle_disconnect\<close> returns, and no transfer is left in flight on its handle,
  as long as the callbacks submit no transfer and leave the handle open.
\<close>

theorem disconnect_completes_transfers:
  assumes "calm_callback callback" and "find_handle (tc_ctx s) hb \<noteq> None"
  shows "\<exists>s'. usbi_handle_disconnect ops clear callback settime_ok hb s = Some s' \<and>
    (\<forall>t \<in> set (flying_transfers (tc_transfers s')).
       \<not> (x_dev_handle (transfer (tc_transfers s') t) = Some hb \<and> in_flight (transfer (tc_transfers s') t)))"
  using handle_disconnect_returns [OF assms, of ops clear settime_ok] by (auto simp: to_cancel_def find_None_iff in_flight_def)

theorem disconnect_completes_transfers_witness:
  "\<exists>s'. usbi_handle_disconnect demo_ops (\<lambda>t d. d) (\<lambda>t s. s) True 6 (demo_submitted None) = Some s'"
proof -
  have "calm_callback (\<lambda>t s. s :: unit transfer_context)" by (simp add: calm_callback_def)
  moreover have "find_handle (tc_ctx (demo_submitted None)) 6 \<noteq> None" by (simp add: find_handle_def demo_submit demo_alloc)
  ultimately show ?thesis using disconnect_completes_transfers by blast
qed

text \<open>
  C34: closing a handle takes its transfers off the list but leaves them marked as in flight: the client cannot submit them
  again, whatever handle it gives them, and a completion that arrives later follows a null pointer.
\<close>

theorem close_leaves_transfers_busy:
  assumes "close_handle ops handling_events hb s = Some s'" and "t \<in> set (flying_transfers (tc_transfers s))"
    and "x_dev_handle (transfer (tc_transfers s) t) = Some hb" and "in_flight (transfer (tc_transfers s) t)"
    and "find_handle (tc_ctx s') hb' \<noteq> None"
  shows "t \<notin> set (flying_transfers (tc_transfers s')) \<and>
    usbi_handle_transfer_completion ops callback settime_ok t status s' = None \<and>
    (let s'' = s'\<lparr>tc_transfers := update_transfer t (\<lambda>u. u\<lparr>x_dev_handle := Some hb'\<rparr>) (tc_transfers s')\<rparr> in
     libusb_submit_transfer submit clock settime_ok t s'' = Some (LIBUSB_ERROR_BUSY, s''))"
proof -
  have s': "tc_transfers s' = close_transfers hb (tc_transfers s)" using assms(1) by (auto simp: close_handle_def)
  have t: "transfer (tc_transfers s') t = (transfer (tc_transfers s) t)\<lparr>x_dev_handle := None\<rparr>"
    "t \<notin> set (flying_transfers (tc_transfers s'))"
    using assms(2,3) by (simp_all add: s' close_transfers_def Let_def)
  show ?thesis using t assms(4,5)
    by (auto simp: usbi_handle_transfer_completion_def libusb_submit_transfer_def transfer_dev_def in_flight_def Let_def)
qed

definition demo_two_handles :: "unit transfer_context" where
  "demo_two_handles = (demo_submitted None)\<lparr>tc_ctx := (tc_ctx (demo_submitted None))\<lparr>open_devs :=
     (8, \<lparr>h_dev = 2, h_claimed_interfaces = 0, h_auto_detach_kernel_driver = 0\<rparr>) # open_devs demo_opened\<rparr>\<rparr>"

theorem close_leaves_transfers_busy_witness:
  "\<exists>s'. close_handle demo_ops True 6 demo_two_handles = Some s' \<and> flying_transfers (tc_transfers s') = [] \<and>
     (let s'' = s'\<lparr>tc_transfers := update_transfer 7 (\<lambda>u. u\<lparr>x_dev_handle := Some 8\<rparr>) (tc_transfers s')\<rparr> in
      libusb_submit_transfer (\<lambda>t os. ((0, False), os)) (0, 0, 0) True 7 s'' = Some (LIBUSB_ERROR_BUSY, s''))"
proof -
  have f: "find_handle (tc_ctx demo_two_handles) 6 = Some \<lparr>h_dev = 2, h_claimed_interfaces = 0, h_auto_detach_kernel_driver = 0\<rparr>"
    by (simp add: demo_two_handles_def find_handle_def demo_alloc)
  have tr: "tc_transfers demo_two_handles = tc_transfers (demo_submitted None)" by (simp add: demo_two_handles_def)
  obtain c where c: "libusb_close demo_ops True (Some 6) (tc_ctx demo_two_handles) = Some c" by (simp add: libusb_close_def)
  define s' where "s' = \<lparr>tc_ctx = c, tc_transfers = close_transfers 6 (tc_transfers (demo_submitted None))\<rparr>"
  have s': "close_handle demo_ops True 6 demo_two_handles = Some s'" "tc_ctx s' = c"
    "tc_transfers s' = close_transfers 6 (tc_transfers (demo_submitted None))"
    using c by (simp_all add: close_handle_def tr s'_def)
  have "find_handle (tc_ctx s') 8 \<noteq> None"
    using open_devs_close [OF c f] by (simp add: s'(2) find_handle_def demo_two_handles_def demo_alloc)
  moreover have "in_flight demo_transfer" by (simp add: in_flight_def demo_transfer_def usb_consts)
  moreover have "flying_transfers (tc_transfers s') = []"
    by (simp add: s'(3) close_transfers_def Let_def demo_submit demo_transfer_def)
  moreover have "7 \<in> set (flying_transfers (tc_transfers demo_two_handles))"
    "x_dev_handle (transfer (tc_transfers demo_two_handles) 7) = Some 6" "transfer (tc_transfers demo_two_handles) 7 = demo_transfer"
    by (simp_all add: tr demo_submit demo_transfer_def)
  ultimately have "flying_transfers (tc_transfers s') = [] \<and>
      (let s'' = s'\<lparr>tc_transfers := update_transfer 7 (\<lambda>u. u\<lparr>x_dev_handle := Some 8\<rparr>) (tc_transfers s')\<rparr> in
       libusb_submit_transfer (\<lambda>t os. ((0, False), os)) (0, 0, 0) True 7 s'' = Some (LIBUSB_ERROR_BUSY, s''))"
    using close_leaves_transfers_busy [OF s'(1), of 7 8 "\<lambda>t s. s" True 0 "\<lambda>t os. ((0, False), os)" "(0, 0, 0)"] by simp
  then show ?thesis using s'(1) by blast
qed

end
