(* ===== verification/Usbfs_Urbs.thy ===== *)
theory Usbfs_Urbs
  imports Usb_Transfers "HOL-Library.Signed_Division"
begin

text \<open>
  The Linux backend of libusb, \<^verbatim>\<open>os/linux_usbfs.c\<close>: how a transfer is split into the requests (URBs) of usbfs, and what is
  done as the kernel gives them back.  The state is one transfer with what the kernel holds of it; the results
  of the kernel are arguments.
\<close>

section \<open>The data\<close>

definition ENOENT :: int where [usb_consts]: "ENOENT = 2"
definition ENODEV :: int where [usb_consts]: "ENODEV = 19"
definition EINVAL :: int where [usb_consts]: "EINVAL = 22"
definition EXDEV :: int where [usb_consts]: "EXDEV = 18"
definition EPIPE :: int where [usb_consts]: "EPIPE = 32"
definition ETIME :: int where [usb_consts]: "ETIME = 62"
definition ENOSR :: int where [usb_consts]: "ENOSR = 63"
definition ECOMM :: int where [usb_consts]: "ECOMM = 70"
definition EPROTO :: int where [usb_consts]: "EPROTO = 71"
definition EOVERFLOW :: int where [usb_consts]: "EOVERFLOW = 75"
definition EILSEQ :: int where [usb_consts]: "EILSEQ = 84"
definition EMSGSIZE :: int where [usb_consts]: "EMSGSIZE = 90"
definition ECONNRESET :: int where [usb_consts]: "ECONNRESET = 104"
definition ESHUTDOWN :: int where [usb_consts]: "ESHUTDOWN = 108"
definition EREMOTEIO :: int where [usb_consts]: "EREMOTEIO = 121"

definition USBFS_URB_SHORT_NOT_OK :: u32 where [usb_consts]: "USBFS_URB_SHORT_NOT_OK = 0x01"
definition USBFS_URB_ISO_ASAP :: u32 where [usb_consts]: "USBFS_URB_ISO_ASAP = 0x02"
definition USBFS_URB_BULK_CONTINUATION :: u32 where [usb_consts]: "USBFS_URB_BULK_CONTINUATION = 0x04"
definition USBFS_URB_ZERO_PACKET :: u32 where [usb_consts]: "USBFS_URB_ZERO_PACKET = 0x40"
definition USBFS_URB_TYPE_ISO :: byte where [usb_consts]: "USBFS_URB_TYPE_ISO = 0"
definition USBFS_URB_TYPE_INTERRUPT :: byte where [usb_consts]: "USBFS_URB_TYPE_INTERRUPT = 1"
definition USBFS_URB_TYPE_CONTROL :: byte where [usb_consts]: "USBFS_URB_TYPE_CONTROL = 2"
definition USBFS_URB_TYPE_BULK :: byte where [usb_consts]: "USBFS_URB_TYPE_BULK = 3"
definition USBFS_CAP_ZERO_PACKET :: u32 where [usb_consts]: "USBFS_CAP_ZERO_PACKET = 0x01"
definition USBFS_CAP_BULK_CONTINUATION :: u32 where [usb_consts]: "USBFS_CAP_BULK_CONTINUATION = 0x02"
definition USBFS_CAP_NO_PACKET_SIZE_LIM :: u32 where [usb_consts]: "USBFS_CAP_NO_PACKET_SIZE_LIM = 0x04"
definition USBFS_CAP_BULK_SCATTER_GATHER :: u32 where [usb_consts]: "USBFS_CAP_BULK_SCATTER_GATHER = 0x08"
definition MAX_BULK_BUFFER_LENGTH :: int where [usb_consts]: "MAX_BULK_BUFFER_LENGTH = 16384"
definition MAX_CTRL_BUFFER_LENGTH :: int where [usb_consts]: "MAX_CTRL_BUFFER_LENGTH = 4096"
definition MAX_ISO_PACKETS_PER_URB :: int where [usb_consts]: "MAX_ISO_PACKETS_PER_URB = 128"

definition LIBUSB_TRANSFER_STALL :: int where [usb_consts]: "LIBUSB_TRANSFER_STALL = 4"
definition LIBUSB_TRANSFER_OVERFLOW :: int where [usb_consts]: "LIBUSB_TRANSFER_OVERFLOW = 6"
definition LIBUSB_TRANSFER_ADD_ZERO_PACKET :: byte where [usb_consts]: "LIBUSB_TRANSFER_ADD_ZERO_PACKET = push_bit 3 1"
definition LIBUSB_TRANSFER_TYPE_ISOCHRONOUS :: byte where [usb_consts]: "LIBUSB_TRANSFER_TYPE_ISOCHRONOUS = 1"
definition LIBUSB_TRANSFER_TYPE_BULK :: byte where [usb_consts]: "LIBUSB_TRANSFER_TYPE_BULK = 2"
definition LIBUSB_TRANSFER_TYPE_INTERRUPT :: byte where [usb_consts]: "LIBUSB_TRANSFER_TYPE_INTERRUPT = 3"
definition LIBUSB_TRANSFER_TYPE_BULK_STREAM :: byte where [usb_consts]: "LIBUSB_TRANSFER_TYPE_BULK_STREAM = 4"
definition LIBUSB_ENDPOINT_DIR_MASK :: byte where [usb_consts]: "LIBUSB_ENDPOINT_DIR_MASK = 0x80"
definition LIBUSB_ENDPOINT_OUT :: byte where [usb_consts]: "LIBUSB_ENDPOINT_OUT = 0x00"

datatype reap_action = NORMAL | SUBMIT_FAILED | CANCELLED | COMPLETED_EARLY | ERROR

text \<open>The status of a packet is unsigned in C and compared with negative numbers; here it is the number that is meant.\<close>

record usbfs_iso_packet_desc =
  iso_length :: u32
  iso_actual_length :: u32
  iso_status :: int

text \<open>
  A URB.  \<open>urb_buffer\<close> is the offset in the buffer of the transfer.  \<open>number_of_packets\<close> and \<open>stream_id\<close> share their
  place in C; a URB uses one of them.
\<close>

record usbfs_urb =
  urb_type :: byte
  urb_endpoint :: byte
  urb_status :: int
  urb_flags :: u32
  urb_buffer :: int
  urb_buffer_length :: int
  urb_actual_length :: int
  number_of_packets :: int
  stream_id :: u32
  iso_frame_desc :: "usbfs_iso_packet_desc list"

definition calloc_urb :: "usbfs_iso_packet_desc list \<Rightarrow> usbfs_urb" where
  "calloc_urb frames = \<lparr>urb_type = 0, urb_endpoint = 0, urb_status = 0, urb_flags = 0, urb_buffer = 0,
     urb_buffer_length = 0, urb_actual_length = 0, number_of_packets = 0, stream_id = 0, iso_frame_desc = frames\<rparr>"

text \<open>
  The union of \<^verbatim>\<open>urbs\<close> and \<^verbatim>\<open>iso_urbs\<close>, with the blocks: an array of URBs, or an array of pointers to URBs, each in a
  block of its own.
\<close>

datatype urb_array = NoUrbs | Urbs nat "usbfs_urb list" | IsoUrbs nat "(nat \<times> usbfs_urb) option list"

record libusb_iso_packet_descriptor =
  ip_length :: u32
  ip_actual_length :: u32
  ip_status :: int

text \<open>
  A transfer, its private part for Linux, and its environment: the bytes of its buffer, the heap, the URBs that the
  kernel holds in the order of submission, by index, and those it was told to discard.
\<close>

record linux_transfer = usbi_transfer +
  x_endpoint :: byte
  x_stream_id :: u32
  num_iso_packets :: int
  iso_packet_desc :: "libusb_iso_packet_descriptor list"
  tp_urbs :: urb_array
  tp_reap_action :: reap_action
  tp_num_urbs :: int
  tp_num_retired :: int
  tp_reap_status :: int
  tp_iso_packet_offset :: int
  x_data :: "byte list"
  x_heap :: heap
  k_queue :: "nat list"
  k_discarded :: "nat list"

text \<open>
  What a handler does last: it waits for more URBs (it returns 0), reports the end of the transfer to
  \<^verbatim>\<open>usbi_handle_transfer_completion\<close> or \<^verbatim>\<open>usbi_handle_transfer_cancellation\<close>, returns an error, or has used a block
  that is not there or written outside the buffer.
\<close>

datatype reaped = Waiting | Completion int | Cancellation | Reap_Error int | Fault

definition is_out :: "linux_transfer \<Rightarrow> bool" where
  "is_out s \<longleftrightarrow> x_endpoint s AND LIBUSB_ENDPOINT_DIR_MASK = LIBUSB_ENDPOINT_OUT"

section \<open>Discarding\<close>

text \<open>\<open>dis\<close> is the error number of \<^verbatim>\<open>IOCTL_USBFS_DISCARDURB\<close> for each URB, 0 without an error.\<close>

primrec discard_loop :: "(nat \<Rightarrow> int) \<Rightarrow> nat \<Rightarrow> nat list \<Rightarrow> int \<Rightarrow> linux_transfer \<Rightarrow> int \<times> linux_transfer" where
  "discard_loop dis last_plus_one [] ret s = (ret, s)"
| "discard_loop dis last_plus_one (i # is) ret s =
    (if dis i = 0 then discard_loop dis last_plus_one is ret (s\<lparr>k_discarded := k_discarded s @ [i]\<rparr>)
     else discard_loop dis last_plus_one is
       (if dis i = EINVAL then (if Suc i = last_plus_one then LIBUSB_ERROR_NOT_FOUND else ret)
        else if dis i = ENODEV then LIBUSB_ERROR_NO_DEVICE else LIBUSB_ERROR_OTHER) s)"

definition discard_urbs :: "(nat \<Rightarrow> int) \<Rightarrow> nat \<Rightarrow> nat \<Rightarrow> linux_transfer \<Rightarrow> int \<times> linux_transfer" where
  "discard_urbs dis first last_plus_one s = discard_loop dis last_plus_one (rev [first..<last_plus_one]) 0 s"

primrec iso_blocks :: "(nat \<times> usbfs_urb) option list \<Rightarrow> nat list" where
  "iso_blocks [] = []"
| "iso_blocks (p # ps) = (case p of None \<Rightarrow> [] | Some (b, u) \<Rightarrow> b # iso_blocks ps)"

definition free_iso_urbs :: "linux_transfer \<Rightarrow> linux_transfer" where
  "free_iso_urbs s =
    (case tp_urbs s of
       IsoUrbs b ps \<Rightarrow> s\<lparr>x_heap := free (Some b) (free_list (iso_blocks ps) (x_heap s)), tp_urbs := NoUrbs\<rparr>
     | _ \<Rightarrow> s)"

definition free_urbs :: "linux_transfer \<Rightarrow> linux_transfer" where
  "free_urbs s = (case tp_urbs s of Urbs b us \<Rightarrow> s\<lparr>x_heap := free (Some b) (x_heap s), tp_urbs := NoUrbs\<rparr> | _ \<Rightarrow> s)"

section \<open>Submission\<close>

text \<open>The length of the pieces, and whether the kernel links them.\<close>

definition bulk_buffer :: "u32 \<Rightarrow> int \<Rightarrow> int \<times> bool" where
  "bulk_buffer caps len =
    (if caps AND USBFS_CAP_BULK_SCATTER_GATHER \<noteq> 0 then (if len \<noteq> 0 then len else 1, False)
     else if caps AND USBFS_CAP_BULK_CONTINUATION \<noteq> 0 then (MAX_BULK_BUFFER_LENGTH, True)
     else if caps AND USBFS_CAP_NO_PACKET_SIZE_LIM \<noteq> 0 then (if len \<noteq> 0 then len else 1, False)
     else (MAX_BULK_BUFFER_LENGTH, False))"

text \<open>The number of URBs, and whether the last is shorter than the others.\<close>

definition bulk_num_urbs :: "int \<Rightarrow> int \<Rightarrow> int \<times> bool" where
  "bulk_num_urbs len bulk_buffer_len =
    (if len = 0 then (1, False)
     else if len smod bulk_buffer_len > 0 then (len sdiv bulk_buffer_len + 1, True)
     else (len sdiv bulk_buffer_len, False))"

definition bulk_urb :: "u32 \<Rightarrow> linux_transfer \<Rightarrow> nat \<Rightarrow> usbfs_urb \<Rightarrow> usbfs_urb" where
  "bulk_urb caps s i urb =
    (let (bulk_buffer_len, use_bulk_continuation) = bulk_buffer caps (x_length s);
         (num_urbs, last_urb_partial) = bulk_num_urbs (x_length s) bulk_buffer_len;
         urb =
          (if x_type s = LIBUSB_TRANSFER_TYPE_BULK then urb\<lparr>urb_type := USBFS_URB_TYPE_BULK, stream_id := 0\<rparr>
           else if x_type s = LIBUSB_TRANSFER_TYPE_BULK_STREAM then
             urb\<lparr>urb_type := USBFS_URB_TYPE_BULK, stream_id := x_stream_id s\<rparr>
           else if x_type s = LIBUSB_TRANSFER_TYPE_INTERRUPT then urb\<lparr>urb_type := USBFS_URB_TYPE_INTERRUPT\<rparr>
           else urb)
     in urb\<lparr>urb_endpoint := x_endpoint s, urb_buffer := int i * bulk_buffer_len,
          urb_buffer_length :=
            (if int i = num_urbs - 1 \<and> last_urb_partial then x_length s smod bulk_buffer_len
             else if x_length s = 0 then 0 else bulk_buffer_len),
          urb_flags :=
            (if use_bulk_continuation \<and> \<not> is_out s \<and> int i < num_urbs - 1 then USBFS_URB_SHORT_NOT_OK else urb_flags urb) OR
            (if i > 0 \<and> use_bulk_continuation then USBFS_URB_BULK_CONTINUATION else 0) OR
            (if is_out s \<and> int i = num_urbs - 1 \<and> x_flags s AND LIBUSB_TRANSFER_ADD_ZERO_PACKET \<noteq> 0
             then USBFS_URB_ZERO_PACKET else 0)\<rparr>)"

definition update_urb :: "nat \<Rightarrow> (usbfs_urb \<Rightarrow> usbfs_urb) \<Rightarrow> linux_transfer \<Rightarrow> linux_transfer" where
  "update_urb i f s = (case tp_urbs s of Urbs b us \<Rightarrow> s\<lparr>tp_urbs := Urbs b (us[i := f (us ! i)])\<rparr> | _ \<Rightarrow> s)"

text \<open>\<open>sub\<close> is the error number of \<^verbatim>\<open>IOCTL_USBFS_SUBMITURB\<close> for each URB, 0 without an error.\<close>

primrec bulk_submit_loop ::
  "u32 \<Rightarrow> (nat \<Rightarrow> int) \<Rightarrow> (nat \<Rightarrow> int) \<Rightarrow> int \<Rightarrow> nat list \<Rightarrow> linux_transfer \<Rightarrow> int \<times> linux_transfer" where
  "bulk_submit_loop caps sub dis num_urbs [] s = (0, s)"
| "bulk_submit_loop caps sub dis num_urbs (i # is) s =
    (let s = update_urb i (bulk_urb caps s i) s in
     if sub i = 0 then bulk_submit_loop caps sub dis num_urbs is (s\<lparr>k_queue := k_queue s @ [i]\<rparr>)
     else
       let r = (if sub i = ENODEV then LIBUSB_ERROR_NO_DEVICE else LIBUSB_ERROR_IO) in
       if i = 0 then (r, free_urbs s)
       else
         let s = s\<lparr>tp_reap_action := (if sub i = EREMOTEIO then COMPLETED_EARLY else SUBMIT_FAILED),
                   tp_num_retired := tp_num_retired s + (num_urbs - int i)\<rparr>
         in if tp_reap_action s = COMPLETED_EARLY then (0, s) else (0, snd (discard_urbs dis 0 i s)))"

definition submit_bulk_transfer ::
  "u32 \<Rightarrow> (nat \<Rightarrow> int) \<Rightarrow> (nat \<Rightarrow> int) \<Rightarrow> linux_transfer \<Rightarrow> int \<times> linux_transfer" where
  "submit_bulk_transfer caps sub dis s =
    (if is_out s \<and> x_flags s AND LIBUSB_TRANSFER_ADD_ZERO_PACKET \<noteq> 0 \<and> caps AND USBFS_CAP_ZERO_PACKET = 0
     then (LIBUSB_ERROR_NOT_SUPPORTED, s)
     else
       let num_urbs = fst (bulk_num_urbs (x_length s) (fst (bulk_buffer caps (x_length s)))) in
       if num_urbs < 0 then (LIBUSB_ERROR_NO_MEM, s)
       else case malloc (x_heap s) of
         (None, h) \<Rightarrow> (LIBUSB_ERROR_NO_MEM, s\<lparr>x_heap := h\<rparr>)
       | (Some b, h) \<Rightarrow>
          bulk_submit_loop caps sub dis num_urbs [0..<nat num_urbs]
            (s\<lparr>x_heap := h, tp_urbs := Urbs b (replicate (nat num_urbs) (calloc_urb [])), tp_num_urbs := num_urbs,
               tp_num_retired := 0, tp_reap_action := NORMAL, tp_reap_status := LIBUSB_TRANSFER_COMPLETED\<rparr>))"

text \<open>
  Isochronous transfers.  The packet descriptors are as many as \<^verbatim>\<open>num_iso_packets\<close> says.  Their lengths are summed in
  an unsigned int; \<open>None\<close> is a packet that is too long.
\<close>

primrec iso_total :: "u32 \<Rightarrow> libusb_iso_packet_descriptor list \<Rightarrow> u32 \<Rightarrow> u32 option" where
  "iso_total max_iso_packet_len [] total_len = Some total_len"
| "iso_total max_iso_packet_len (d # ds) total_len =
    (if ip_length d > max_iso_packet_len then None else iso_total max_iso_packet_len ds (total_len + ip_length d))"

definition iso_urb :: "byte \<Rightarrow> int \<Rightarrow> libusb_iso_packet_descriptor list \<Rightarrow> usbfs_urb" where
  "iso_urb endpoint buf ds =
     (calloc_urb (map (\<lambda>d. \<lparr>iso_length = ip_length d, iso_actual_length = 0, iso_status = 0\<rparr>) ds))
       \<lparr>urb_buffer_length := sint (sum_list (map ip_length ds)), urb_type := USBFS_URB_TYPE_ISO,
        urb_flags := USBFS_URB_ISO_ASAP, urb_endpoint := endpoint, number_of_packets := int (length ds), urb_buffer := buf\<rparr>"

definition set_iso_urb :: "nat \<Rightarrow> nat \<times> usbfs_urb \<Rightarrow> linux_transfer \<Rightarrow> linux_transfer" where
  "set_iso_urb i bu s = (case tp_urbs s of IsoUrbs b ps \<Rightarrow> s\<lparr>tp_urbs := IsoUrbs b (ps[i := Some bu])\<rparr> | _ \<Rightarrow> s)"

text \<open>\<open>ds\<close> are the packets that have no URB yet, \<open>buf\<close> is where the next one begins.\<close>

primrec iso_alloc_loop ::
  "nat list \<Rightarrow> libusb_iso_packet_descriptor list \<Rightarrow> int \<Rightarrow> linux_transfer \<Rightarrow> int \<times> linux_transfer" where
  "iso_alloc_loop [] ds buf s = (0, s)"
| "iso_alloc_loop (i # is) ds buf s =
    (case malloc (x_heap s) of
       (None, h) \<Rightarrow> (LIBUSB_ERROR_NO_MEM, free_iso_urbs (s\<lparr>x_heap := h\<rparr>))
     | (Some b, h) \<Rightarrow>
        (let n = nat (min (int (length ds)) MAX_ISO_PACKETS_PER_URB);
             urb = iso_urb (x_endpoint s) buf (take n ds)
         in iso_alloc_loop is (drop n ds) (buf + urb_buffer_length urb) (set_iso_urb i (b, urb) (s\<lparr>x_heap := h\<rparr>))))"

primrec iso_submit_loop ::
  "(nat \<Rightarrow> int) \<Rightarrow> (nat \<Rightarrow> int) \<Rightarrow> int \<Rightarrow> nat list \<Rightarrow> linux_transfer \<Rightarrow> int \<times> linux_transfer" where
  "iso_submit_loop sub dis num_urbs [] s = (0, s)"
| "iso_submit_loop sub dis num_urbs (i # is) s =
    (if sub i = 0 then iso_submit_loop sub dis num_urbs is (s\<lparr>k_queue := k_queue s @ [i]\<rparr>)
     else
       let r = (if sub i = ENODEV then LIBUSB_ERROR_NO_DEVICE
                else if sub i = EINVAL \<or> sub i = EMSGSIZE then LIBUSB_ERROR_INVALID_PARAM else LIBUSB_ERROR_IO) in
       if i = 0 then (r, free_iso_urbs s)
       else (0, snd (discard_urbs dis 0 i (s\<lparr>tp_reap_action := SUBMIT_FAILED, tp_num_retired := num_urbs - int i\<rparr>))))"

definition submit_iso_transfer ::
  "u32 \<Rightarrow> (nat \<Rightarrow> int) \<Rightarrow> (nat \<Rightarrow> int) \<Rightarrow> linux_transfer \<Rightarrow> int \<times> linux_transfer" where
  "submit_iso_transfer max_iso_packet_len sub dis s =
    (let num_packets = num_iso_packets s; ds = take (nat num_packets) (iso_packet_desc s) in
     if num_packets < 1 then (LIBUSB_ERROR_INVALID_PARAM, s)
     else case iso_total max_iso_packet_len ds 0 of
       None \<Rightarrow> (LIBUSB_ERROR_INVALID_PARAM, s)
     | Some total_len \<Rightarrow>
        if x_length s < sint total_len then (LIBUSB_ERROR_INVALID_PARAM, s)
        else
          (let num_urbs = (num_packets + (MAX_ISO_PACKETS_PER_URB - 1)) div MAX_ISO_PACKETS_PER_URB in
           case malloc (x_heap s) of
             (None, h) \<Rightarrow> (LIBUSB_ERROR_NO_MEM, s\<lparr>x_heap := h\<rparr>)
           | (Some b, h) \<Rightarrow>
              (case iso_alloc_loop [0..<nat num_urbs] ds 0
                (s\<lparr>x_heap := h, tp_urbs := IsoUrbs b (replicate (nat num_urbs) None), tp_num_urbs := num_urbs,
                   tp_num_retired := 0, tp_reap_action := NORMAL, tp_iso_packet_offset := 0\<rparr>) of
                 (r, s) \<Rightarrow> if r \<noteq> 0 then (r, s) else iso_submit_loop sub dis num_urbs [0..<nat num_urbs] s)))"

text \<open>\<^verbatim>\<open>LIBUSB_CONTROL_SETUP_SIZE\<close> is a \<^verbatim>\<open>sizeof\<close>, so that the lengths are compared as \<^verbatim>\<open>size_t\<close>.\<close>

definition submit_control_transfer :: "(nat \<Rightarrow> int) \<Rightarrow> linux_transfer \<Rightarrow> int \<times> linux_transfer" where
  "submit_control_transfer sub s =
    (if (word_of_int (x_length s - LIBUSB_CONTROL_SETUP_SIZE) :: u64) > word_of_int MAX_CTRL_BUFFER_LENGTH
     then (LIBUSB_ERROR_INVALID_PARAM, s)
     else case malloc (x_heap s) of
       (None, h) \<Rightarrow> (LIBUSB_ERROR_NO_MEM, s\<lparr>x_heap := h\<rparr>)
     | (Some b, h) \<Rightarrow>
        (let urb = (calloc_urb [])\<lparr>urb_type := USBFS_URB_TYPE_CONTROL, urb_endpoint := x_endpoint s,
               urb_buffer_length := x_length s\<rparr>;
             s = s\<lparr>x_heap := h, tp_urbs := Urbs b [urb], tp_num_urbs := 1, tp_reap_action := NORMAL\<rparr>
         in if sub 0 = 0 then (0, s\<lparr>k_queue := k_queue s @ [0]\<rparr>)
            else (if sub 0 = ENODEV then LIBUSB_ERROR_NO_DEVICE else LIBUSB_ERROR_IO, free_urbs s)))"

definition op_submit_transfer ::
  "u32 \<Rightarrow> u32 \<Rightarrow> (nat \<Rightarrow> int) \<Rightarrow> (nat \<Rightarrow> int) \<Rightarrow> linux_transfer \<Rightarrow> int \<times> linux_transfer" where
  "op_submit_transfer caps max_iso_packet_len sub dis s =
    (if x_type s = LIBUSB_TRANSFER_TYPE_CONTROL then submit_control_transfer sub s
     else if x_type s = LIBUSB_TRANSFER_TYPE_BULK \<or> x_type s = LIBUSB_TRANSFER_TYPE_BULK_STREAM
     then submit_bulk_transfer caps sub dis s
     else if x_type s = LIBUSB_TRANSFER_TYPE_INTERRUPT then submit_bulk_transfer caps sub dis s
     else if x_type s = LIBUSB_TRANSFER_TYPE_ISOCHRONOUS then submit_iso_transfer max_iso_packet_len sub dis s
     else (LIBUSB_ERROR_INVALID_PARAM, s))"

definition op_cancel_transfer :: "(nat \<Rightarrow> int) \<Rightarrow> linux_transfer \<Rightarrow> int \<times> linux_transfer" where
  "op_cancel_transfer dis s =
    (if tp_urbs s = NoUrbs then (LIBUSB_ERROR_NOT_FOUND, s)
     else case discard_urbs dis 0 (nat (tp_num_urbs s)) s of
       (r, s) \<Rightarrow>
         if r \<noteq> 0 then (r, s)
         else if (x_type s = LIBUSB_TRANSFER_TYPE_BULK \<or> x_type s = LIBUSB_TRANSFER_TYPE_BULK_STREAM) \<and>
           tp_reap_action s = ERROR
         then (0, s)
         else (0, s\<lparr>tp_reap_action := CANCELLED\<rparr>))"

definition op_clear_transfer_priv :: "linux_transfer \<Rightarrow> linux_transfer" where
  "op_clear_transfer_priv s =
    (if x_type s \<in> {LIBUSB_TRANSFER_TYPE_CONTROL, LIBUSB_TRANSFER_TYPE_BULK, LIBUSB_TRANSFER_TYPE_BULK_STREAM,
        LIBUSB_TRANSFER_TYPE_INTERRUPT} then free_urbs s
     else if x_type s = LIBUSB_TRANSFER_TYPE_ISOCHRONOUS then free_iso_urbs s
     else s)"

section \<open>Completion of bulk and interrupt URBs\<close>

text \<open>The data of a URB that comes back after the transfer was given up is moved behind what has arrived.\<close>

definition bulk_surplus :: "usbfs_urb \<Rightarrow> linux_transfer \<Rightarrow> linux_transfer option" where
  "bulk_surplus urb s =
    (if urb_actual_length urb > 0 then
       map_option (\<lambda>d. s\<lparr>x_data := d, u_transferred := u_transferred s + urb_actual_length urb\<rparr>)
         (if urb_buffer urb \<noteq> u_transferred s then
            (case buf_read (x_data s) (nat (urb_buffer urb)) (nat (urb_actual_length urb)) of
               None \<Rightarrow> None
             | Some moved \<Rightarrow> buf_write (x_data s) (nat (u_transferred s)) moved)
          else Some (x_data s))
     else Some s)"

text \<open>The outcome of the \<^verbatim>\<open>switch\<close> on the status: \<^verbatim>\<open>break\<close>, or a jump to one of the labels.\<close>

datatype bulk_next = Break | Cancel_Remaining | Completed

definition bulk_status :: "int \<Rightarrow> linux_transfer \<Rightarrow> bulk_next \<times> linux_transfer" where
  "bulk_status status s =
    (let report = (\<lambda>st. if tp_reap_status s = LIBUSB_TRANSFER_COMPLETED then s\<lparr>tp_reap_status := st\<rparr> else s) in
     if status \<in> {0, - EREMOTEIO, - ENOENT, - ECONNRESET} then (Break, s)
     else if status \<in> {- ENODEV, - ESHUTDOWN} then (Cancel_Remaining, s\<lparr>tp_reap_status := LIBUSB_TRANSFER_NO_DEVICE\<rparr>)
     else if status = - EPIPE then (Cancel_Remaining, report LIBUSB_TRANSFER_STALL)
     else if status = - EOVERFLOW then (Completed, report LIBUSB_TRANSFER_OVERFLOW)
     else (Cancel_Remaining, s\<lparr>tp_reap_action := ERROR\<rparr>))"

definition bulk_completed :: "linux_transfer \<Rightarrow> reaped \<times> linux_transfer" where
  "bulk_completed s =
    (if tp_reap_action s = CANCELLED then Cancellation else Completion (tp_reap_status s), free_urbs s)"

definition cancel_remaining :: "(nat \<Rightarrow> int) \<Rightarrow> nat \<Rightarrow> linux_transfer \<Rightarrow> reaped \<times> linux_transfer" where
  "cancel_remaining dis urb_idx s =
    (let s = (if tp_reap_action s = ERROR \<and> tp_reap_status s = LIBUSB_TRANSFER_COMPLETED
              then s\<lparr>tp_reap_status := LIBUSB_TRANSFER_ERROR\<rparr> else s)
     in if tp_num_retired s = tp_num_urbs s then bulk_completed s
        else (Waiting, snd (discard_urbs dis (Suc urb_idx) (nat (tp_num_urbs s)) s)))"

definition bulk_abnormal :: "usbfs_urb \<Rightarrow> linux_transfer \<Rightarrow> reaped \<times> linux_transfer" where
  "bulk_abnormal urb s =
    (case bulk_surplus urb s of
       None \<Rightarrow> (Fault, s)
     | Some s \<Rightarrow>
        if tp_num_retired s = tp_num_urbs s then
          bulk_completed
            (if tp_reap_action s \<noteq> COMPLETED_EARLY \<and> tp_reap_status s = LIBUSB_TRANSFER_COMPLETED
             then s\<lparr>tp_reap_status := LIBUSB_TRANSFER_ERROR\<rparr> else s)
        else (Waiting, s))"

definition bulk_normal :: "(nat \<Rightarrow> int) \<Rightarrow> nat \<Rightarrow> usbfs_urb \<Rightarrow> linux_transfer \<Rightarrow> reaped \<times> linux_transfer" where
  "bulk_normal dis urb_idx urb s =
    (case bulk_status (urb_status urb) (s\<lparr>u_transferred := u_transferred s + urb_actual_length urb\<rparr>) of
       (Break, s) \<Rightarrow>
         if int urb_idx = tp_num_urbs s - 1 then bulk_completed s
         else if urb_actual_length urb < urb_buffer_length urb then
           cancel_remaining dis urb_idx
             (if tp_reap_action s = NORMAL then s\<lparr>tp_reap_action := COMPLETED_EARLY\<rparr> else s)
         else (Waiting, s)
     | (Cancel_Remaining, s) \<Rightarrow> cancel_remaining dis urb_idx s
     | (Completed, s) \<Rightarrow> bulk_completed s)"

definition handle_bulk_completion :: "(nat \<Rightarrow> int) \<Rightarrow> nat \<Rightarrow> linux_transfer \<Rightarrow> reaped \<times> linux_transfer" where
  "handle_bulk_completion dis urb_idx s =
    (case tp_urbs s of
       Urbs b us \<Rightarrow>
         if urb_idx < length us then
           (let s = s\<lparr>tp_num_retired := tp_num_retired s + 1\<rparr> in
            if tp_reap_action s \<noteq> NORMAL then bulk_abnormal (us ! urb_idx) s
            else bulk_normal dis urb_idx (us ! urb_idx) s)
         else (Fault, s)
     | _ \<Rightarrow> (Fault, s))"

section \<open>Completion of isochronous and control URBs\<close>

definition iso_packet_status :: "int \<Rightarrow> int" where
  "iso_packet_status status =
    (if status \<in> {0, - ENOENT, - ECONNRESET} then LIBUSB_TRANSFER_COMPLETED
     else if status \<in> {- ENODEV, - ESHUTDOWN} then LIBUSB_TRANSFER_NO_DEVICE
     else if status = - EPIPE then LIBUSB_TRANSFER_STALL
     else if status = - EOVERFLOW then LIBUSB_TRANSFER_OVERFLOW
     else LIBUSB_TRANSFER_ERROR)"

primrec iso_copy :: "usbfs_iso_packet_desc list \<Rightarrow> linux_transfer \<Rightarrow> linux_transfer option" where
  "iso_copy [] s = Some s"
| "iso_copy (f # fs) s =
    (let i = nat (tp_iso_packet_offset s) in
     if i < length (iso_packet_desc s) then
       iso_copy fs (s\<lparr>tp_iso_packet_offset := tp_iso_packet_offset s + 1,
         iso_packet_desc := (iso_packet_desc s)[i := (iso_packet_desc s ! i)
           \<lparr>ip_status := iso_packet_status (iso_status f), ip_actual_length := iso_actual_length f\<rparr>]\<rparr>)
     else None)"

definition iso_urb_status :: "int \<Rightarrow> int" where
  "iso_urb_status status =
    (if status \<in> {0, - ENOENT, - ECONNRESET} then LIBUSB_TRANSFER_COMPLETED
     else if status = - ESHUTDOWN then LIBUSB_TRANSFER_NO_DEVICE else LIBUSB_TRANSFER_ERROR)"

text \<open>The URB is one of those of the transfer; otherwise it is not found.\<close>

definition handle_iso_completion :: "nat \<Rightarrow> linux_transfer \<Rightarrow> reaped \<times> linux_transfer" where
  "handle_iso_completion i s =
    (case tp_urbs s of
       IsoUrbs b ps \<Rightarrow>
        (case (if i < nat (tp_num_urbs s) \<and> i < length ps then ps ! i else None) of
           None \<Rightarrow> (Reap_Error LIBUSB_ERROR_NOT_FOUND, s)
         | Some (b, urb) \<Rightarrow>
            (case iso_copy (iso_frame_desc urb) s of
               None \<Rightarrow> (Fault, s)
             | Some s \<Rightarrow>
                (let s = s\<lparr>tp_num_retired := tp_num_retired s + 1\<rparr> in
                 if tp_reap_action s \<noteq> NORMAL then
                   (if tp_num_retired s = tp_num_urbs s then
                      (if tp_reap_action s = CANCELLED then Cancellation else Completion LIBUSB_TRANSFER_ERROR, free_iso_urbs s)
                    else (Waiting, s))
                 else if int (Suc i) = tp_num_urbs s then (Completion (iso_urb_status (urb_status urb)), free_iso_urbs s)
                 else (Waiting, s))))
     | _ \<Rightarrow> (Fault, s))"

definition control_status :: "int \<Rightarrow> int" where
  "control_status status =
    (if status = 0 then LIBUSB_TRANSFER_COMPLETED
     else if status = - ENOENT then LIBUSB_TRANSFER_CANCELLED
     else if status \<in> {- ENODEV, - ESHUTDOWN} then LIBUSB_TRANSFER_NO_DEVICE
     else if status = - EPIPE then LIBUSB_TRANSFER_STALL
     else if status = - EOVERFLOW then LIBUSB_TRANSFER_OVERFLOW
     else LIBUSB_TRANSFER_ERROR)"

definition handle_control_completion :: "nat \<Rightarrow> linux_transfer \<Rightarrow> reaped \<times> linux_transfer" where
  "handle_control_completion i s =
    (case tp_urbs s of
       Urbs b us \<Rightarrow>
         if i < length us then
           (let s = s\<lparr>u_transferred := u_transferred s + urb_actual_length (us ! i)\<rparr> in
            (if tp_reap_action s = CANCELLED then Cancellation else Completion (control_status (urb_status (us ! i))), free_urbs s))
         else (Fault, s)
     | _ \<Rightarrow> (Fault, s))"

definition reap_urb :: "(nat \<Rightarrow> int) \<Rightarrow> nat \<Rightarrow> linux_transfer \<Rightarrow> reaped \<times> linux_transfer" where
  "reap_urb dis i s =
    (if x_type s = LIBUSB_TRANSFER_TYPE_ISOCHRONOUS then handle_iso_completion i s
     else if x_type s \<in> {LIBUSB_TRANSFER_TYPE_BULK, LIBUSB_TRANSFER_TYPE_BULK_STREAM, LIBUSB_TRANSFER_TYPE_INTERRUPT}
     then handle_bulk_completion dis i s
     else if x_type s = LIBUSB_TRANSFER_TYPE_CONTROL then handle_control_completion i s
     else (Reap_Error LIBUSB_ERROR_OTHER, s))"

section \<open>Packets in the buffer\<close>

definition libusb_get_iso_packet_buffer :: "linux_transfer \<Rightarrow> u32 \<Rightarrow> nat option" where
  "libusb_get_iso_packet_buffer s packet =
    (if packet > 0x7fffffff then None
     else if int (unat packet) \<ge> num_iso_packets s then None
     else Some (sum_list (map (unat \<circ> ip_length) (take (unat packet) (iso_packet_desc s)))))"

text \<open>The offset is computed in an int; \<open>None\<close> is its overflow, which C leaves undefined.\<close>

definition libusb_get_iso_packet_buffer_simple :: "linux_transfer \<Rightarrow> u32 \<Rightarrow> int option option" where
  "libusb_get_iso_packet_buffer_simple s packet =
    (if packet > 0x7fffffff then Some None
     else if int (unat packet) \<ge> num_iso_packets s then Some None
     else
       (let offset = sint (ip_length (iso_packet_desc s ! 0)) * int (unat packet)
        in if - (2 ^ 31) \<le> offset \<and> offset < 2 ^ 31 then Some (Some offset) else None))"

definition libusb_set_iso_packet_lengths :: "u32 \<Rightarrow> linux_transfer \<Rightarrow> linux_transfer" where
  "libusb_set_iso_packet_lengths len s =
    s\<lparr>iso_packet_desc :=
      map (\<lambda>d. d\<lparr>ip_length := len\<rparr>) (take (nat (num_iso_packets s)) (iso_packet_desc s)) @
      drop (nat (num_iso_packets s)) (iso_packet_desc s)\<rparr>"

end
