(* ===== verification/Usbfs_Bulk.thy ===== *)
theory Usbfs_Bulk
  imports Usbfs_Urbs
begin

text \<open>
  The operations of \<^verbatim>\<open>linux_usbfs.c\<close> on bulk transfers, one by one: how a transfer is cut into URBs, what a submission leaves
  behind, and what a URB that comes back changes.
\<close>

section \<open>Pieces\<close>

lemma sdiv_smod_nonneg: "0 \<le> a \<Longrightarrow> 0 < b \<Longrightarrow> a sdiv b = a div b \<and> a smod b = a mod b" for a b :: int
  by (simp add: signed_divide_int_def signed_modulo_int_def sgn_if minus_div_mult_eq_mod)

lemma bulk_buffer_pos: "0 \<le> len \<Longrightarrow> 0 < fst (bulk_buffer caps len)"
  by (simp add: bulk_buffer_def MAX_BULK_BUFFER_LENGTH_def)

definition bulk_count :: "u32 \<Rightarrow> int \<Rightarrow> int" where
  "bulk_count caps len = fst (bulk_num_urbs len (fst (bulk_buffer caps len)))"

lemma bulk_count_bounds:
  fixes caps :: u32
  assumes "0 \<le> len"
  defines "L \<equiv> fst (bulk_buffer caps len)"
  shows "1 \<le> bulk_count caps len" and "len \<le> bulk_count caps len * L" and "0 < len \<Longrightarrow> (bulk_count caps len - 1) * L < len"
    and "len = 0 \<Longrightarrow> bulk_count caps len = 1"
proof -
  have L: "0 < L" using assms bulk_buffer_pos by simp
  note d = sdiv_smod_nonneg [OF assms(1) L]
  have e: "len = len div L * L + len mod L" "0 \<le> len mod L" "len mod L < L" using L by simp_all
  have n: "bulk_count caps len = (if len = 0 then 1 else if len mod L > 0 then len div L + 1 else len div L)"
    using d by (simp add: bulk_count_def bulk_num_urbs_def L_def)
  have q: "0 \<le> len div L" using L assms by (simp add: pos_imp_zdiv_nonneg_iff)
  show "len = 0 \<Longrightarrow> bulk_count caps len = 1" using n by simp
  have p: "0 < len \<Longrightarrow> len mod L = 0 \<Longrightarrow> 1 \<le> len div L"
    using e(1) q by (cases "len div L = 0") auto
  show "1 \<le> bulk_count caps len" using n p q assms(1) e(2) by (auto simp: le_less)
  show "len \<le> bulk_count caps len * L" 
    unfolding n using e L by (simp only: distrib_right split: if_split) linarith
  show "0 < len \<Longrightarrow> (bulk_count caps len - 1) * L < len" 
    unfolding n using e L by (simp only: left_diff_distrib distrib_right split: if_split) linarith
qed

lemma bulk_urb_layout:
  fixes caps :: u32 and s :: linux_transfer
  assumes "0 \<le> x_length s" "int i < bulk_count caps (x_length s)"
  defines "L \<equiv> fst (bulk_buffer caps (x_length s))"
  shows "urb_buffer (bulk_urb caps s i u) = int i * L"
    and "urb_buffer_length (bulk_urb caps s i u) = min L (x_length s - int i * L)"
proof -
  show "urb_buffer (bulk_urb caps s i u) = int i * L"
    by (simp add: bulk_urb_def L_def case_prod_beta Let_def)
  have L: "0 < L" using assms bulk_buffer_pos by simp
  note b = bulk_count_bounds [OF assms(1), of caps, folded L_def]
  note d = sdiv_smod_nonneg [OF assms(1) L]
  have n: "bulk_count caps (x_length s) = (if x_length s = 0 then 1 else if x_length s mod L > 0 then x_length s div L + 1 else x_length s div L)"
    using d by (simp add: bulk_count_def bulk_num_urbs_def L_def)
  have bl: "urb_buffer_length (bulk_urb caps s i u) =
      (if int i = bulk_count caps (x_length s) - 1 \<and> x_length s \<noteq> 0 \<and> x_length s mod L > 0 then x_length s mod L
       else if x_length s = 0 then 0 else L)"
    using d by (simp add: bulk_urb_def L_def case_prod_beta Let_def bulk_count_def bulk_num_urbs_def)
  consider "x_length s = 0" | "0 < x_length s" "int i = bulk_count caps (x_length s) - 1" "x_length s mod L > 0"
    | "0 < x_length s" "int i = bulk_count caps (x_length s) - 1" "x_length s mod L = 0"
    | "0 < x_length s" "int i + 1 \<le> bulk_count caps (x_length s) - 1"
    using assms(1,2) L by (smt (verit) pos_mod_sign)
  then show "urb_buffer_length (bulk_urb caps s i u) = min L (x_length s - int i * L)"
  proof cases
    case 1
    then show ?thesis using bl n assms(2) L by simp
  next
    case 2
    then have "int i = x_length s div L" using n by simp
    then have "x_length s - int i * L = x_length s mod L" by (simp add: minus_div_mult_eq_mod)
    moreover have "x_length s mod L < L" using L by simp
    ultimately show ?thesis using bl 2 by simp
  next
    case 3
    then have "int i + 1 = x_length s div L" using n by simp
    then have "(int i + 1) * L + x_length s mod L = x_length s" by simp
    then have "x_length s - int i * L = x_length s mod L + L" unfolding distrib_right by linarith
    then show ?thesis using bl 3 by simp
  next
    case 4
    then have "(int i + 1) * L \<le> (bulk_count caps (x_length s) - 1) * L" using L by (simp add: mult_right_mono)
    then have "L \<le> x_length s - int i * L" using b(3) 4 by (simp add: algebra_simps)
    then show ?thesis using bl 4 by simp
  qed
qed

section \<open>Submission\<close>

lemma discard_loop_frame: "\<exists>ds. snd (discard_loop dis l is ret s) = s\<lparr>k_discarded := ds\<rparr>"
proof (induction "is" arbitrary: ret s)
  case Nil
  show ?case by (rule exI [of _ "k_discarded s"]) simp
next
  case (Cons i "is")
  show ?case
    using Cons [of _ "s\<lparr>k_discarded := k_discarded s @ [i]\<rparr>"] Cons [of _ s] by auto
qed

lemma discard_frame: "\<exists>ds. snd (discard_urbs dis a l s) = s\<lparr>k_discarded := ds\<rparr>"
  by (simp add: discard_urbs_def discard_loop_frame)

lemma bulk_urb_cong:
  "x_length s' = x_length s \<Longrightarrow> x_type s' = x_type s \<Longrightarrow> x_stream_id s' = x_stream_id s \<Longrightarrow> x_endpoint s' = x_endpoint s \<Longrightarrow>
     x_flags s' = x_flags s \<Longrightarrow> bulk_urb caps s' i u = bulk_urb caps s i u"
  by (simp add: bulk_urb_def is_out_def case_prod_beta)

text \<open>The part of a transfer that its URBs do not change.\<close>

definition static :: "linux_transfer \<Rightarrow> int \<times> byte \<times> byte \<times> byte \<times> u32 \<times> int" where
  "static s = (x_length s, x_type s, x_endpoint s, x_flags s, x_stream_id s, tp_num_urbs s)"

lemma staticD: "static s' = static s \<Longrightarrow> x_length s' = x_length s \<and> x_type s' = x_type s \<and> x_endpoint s' = x_endpoint s \<and>
    tp_num_urbs s' = tp_num_urbs s \<and> bulk_urb caps s' = bulk_urb caps s \<and> is_out s' = is_out s"
  by (auto simp: static_def is_out_def intro!: ext bulk_urb_cong)

lemma static_simps [simp]:
  "static (s\<lparr>u_transferred := tr\<rparr>) = static s" "static (s\<lparr>tp_urbs := ub\<rparr>) = static s"
  "static (s\<lparr>tp_reap_action := a\<rparr>) = static s" "static (s\<lparr>tp_num_retired := n\<rparr>) = static s"
  "static (s\<lparr>tp_reap_status := n\<rparr>) = static s" "static (s\<lparr>x_data := d\<rparr>) = static s"
  "static (s\<lparr>x_heap := h\<rparr>) = static s" "static (s\<lparr>k_queue := q\<rparr>) = static s" "static (s\<lparr>k_discarded := q\<rparr>) = static s"
  by (simp_all add: static_def)

lemma discard_simps [simp]:
  fixes s :: linux_transfer and dis :: "nat \<Rightarrow> int" and a l :: nat
  defines "s' \<equiv> snd (discard_urbs dis a l s)"
  shows "static s' = static s" "tp_urbs s' = tp_urbs s" "tp_reap_action s' = tp_reap_action s"
    "tp_num_retired s' = tp_num_retired s" "tp_reap_status s' = tp_reap_status s" "x_data s' = x_data s" "x_heap s' = x_heap s"
    "k_queue s' = k_queue s" "u_transferred s' = u_transferred s" "tp_num_urbs s' = tp_num_urbs s" "x_type s' = x_type s"
  using discard_frame [of dis a l s] by (auto simp: s'_def)

lemma free_urbs_simps [simp]:
  "static (free_urbs s) = static s" "k_queue (free_urbs s) = k_queue s" "u_transferred (free_urbs s) = u_transferred s"
  "x_data (free_urbs s) = x_data s" "tp_reap_action (free_urbs s) = tp_reap_action s"
  "tp_num_retired (free_urbs s) = tp_num_retired s"
  by (simp_all add: free_urbs_def split: urb_array.split)

lemma free_urbs_Urbs: "tp_urbs s = Urbs b us \<Longrightarrow> tp_urbs (free_urbs s) = NoUrbs \<and> x_heap (free_urbs s) = free (Some b) (x_heap s)"
  by (simp add: free_urbs_def)

text \<open>The state after a submission of \<open>n\<close> URBs of which the kernel took \<open>m\<close>.\<close>

definition submitted_bulk :: "u32 \<Rightarrow> nat \<Rightarrow> nat \<Rightarrow> nat \<Rightarrow> linux_transfer \<Rightarrow> linux_transfer \<Rightarrow> bool" where
  "submitted_bulk caps b n m s s' \<longleftrightarrow> static s' = static s \<and> x_data s' = x_data s \<and> x_heap s' = x_heap s \<and>
     u_transferred s' = u_transferred s \<and> tp_reap_status s' = tp_reap_status s \<and>
     m \<le> n \<and> (m = 0 \<longrightarrow> n = 0) \<and> k_queue s' = [0..<m] \<and> tp_num_retired s' = int (n - m) \<and>
     (tp_reap_action s' = NORMAL \<longleftrightarrow> m = n) \<and> tp_reap_action s' \<noteq> CANCELLED \<and>
     (\<exists>us. tp_urbs s' = Urbs b us \<and> length us = n \<and> (\<forall>i < m. us ! i = bulk_urb caps s i (calloc_urb [])))"

lemma bulk_submit_loop_result:
  assumes "bulk_submit_loop caps sub dis (int n) [j..<n] s = (r, s')"
    and "tp_urbs s = Urbs b us" "length us = n" "k_queue s = [0..<j]" "tp_reap_action s = NORMAL" "tp_num_retired s = 0"
    and "\<forall>i < n. us ! i = (if i < j then bulk_urb caps s i (calloc_urb []) else calloc_urb [])" "j \<le> n"
  shows "if r = 0 then \<exists>m. submitted_bulk caps b n m s s'
     else r < 0 \<and> tp_urbs s' = NoUrbs \<and> k_queue s' = [] \<and> x_heap s' = free (Some b) (x_heap s)"
  using assms
proof (induction "n - j" arbitrary: j s us)
  case 0
  then have j: "j = n" by simp
  have "s' = s" "r = 0" using 0(2) by (simp_all add: j)
  then have "submitted_bulk caps b n n s s'" using 0(3-8) unfolding submitted_bulk_def j by simp
  then show ?case using \<open>r = 0\<close> by auto
next
  case (Suc x)
  then have j: "j < n" "[j..<n] = j # [Suc j..<n]" by (simp_all add: upt_conv_Cons)
  define us1 where "us1 = us[j := bulk_urb caps s j (us ! j)]"
  define s1 where "s1 = s\<lparr>tp_urbs := Urbs b us1\<rparr>"
  have u: "update_urb j (bulk_urb caps s j) s = s1" using Suc.prems by (simp add: update_urb_def s1_def us1_def)
  have b: "bulk_urb caps s1 = bulk_urb caps s" by (intro ext bulk_urb_cong) (simp_all add: s1_def)
  have us1: "length us1 = n" "\<forall>i < n. us1 ! i = (if i < Suc j then bulk_urb caps s i (calloc_urb []) else calloc_urb [])"
    using Suc.prems j by (auto simp: us1_def nth_list_update)
  have loop: "bulk_submit_loop caps sub dis (int n) (j # [Suc j..<n]) s = (r, s')" using Suc.prems(1) unfolding j(2) .
  show ?case
  proof (cases "sub j = 0")
    case True
    let ?s2 = "s1\<lparr>k_queue := k_queue s1 @ [j]\<rparr>"
    have b2: "bulk_urb caps ?s2 = bulk_urb caps s" unfolding b [symmetric] by (intro ext bulk_urb_cong) simp_all
    have "bulk_submit_loop caps sub dis (int n) [Suc j..<n] ?s2 = (r, s')"
      using loop True by (simp add: u)
    then have "if r = 0 then \<exists>m. submitted_bulk caps b n m ?s2 s'
      else r < 0 \<and> tp_urbs s' = NoUrbs \<and> k_queue s' = [] \<and> x_heap s' = free (Some b) (x_heap ?s2)"
    proof (rule Suc.hyps(1) [rotated])
      show "\<forall>i < n. us1 ! i = (if i < Suc j then bulk_urb caps ?s2 i (calloc_urb []) else calloc_urb [])"
        unfolding b2 by (rule us1)
    qed (use Suc.hyps(2) Suc.prems(4-6) us1(1) j in \<open>simp_all add: s1_def\<close>)
    moreover have "submitted_bulk caps b n m ?s2 s' \<Longrightarrow> submitted_bulk caps b n m s s'" for m
      unfolding submitted_bulk_def b2 by (simp add: s1_def)
    ultimately show ?thesis by (auto simp: s1_def split: if_splits)
  next
    case False
    show ?thesis
    proof (cases "j = 0")
      case True
      then show ?thesis using False loop Suc.prems(4) u [unfolded True]
        by (auto simp: Let_def free_urbs_def s1_def usb_consts split: if_splits)
    next
      case j0: False
      let ?s2 = "s1\<lparr>tp_reap_action := (if sub j = EREMOTEIO then COMPLETED_EARLY else SUBMIT_FAILED),
        tp_num_retired := tp_num_retired s1 + (int n - int j)\<rparr>"
      have "r = 0" "s' = ?s2 \<or> s' = snd (discard_urbs dis 0 j ?s2)"
        using loop False j0 by (simp_all add: u Let_def split: if_splits)
      then have "submitted_bulk caps b n j s s'"
        using us1 j j0 Suc.prems(4,6) unfolding submitted_bulk_def
        by (auto simp: s1_def of_nat_diff split: if_splits)
      then show ?thesis using \<open>r = 0\<close> by auto
    qed
  qed
qed

section \<open>Completion\<close>

lemma bulk_surplus_moves:
  assumes "0 \<le> u_transferred s" "u_transferred s \<le> urb_buffer u" "0 \<le> urb_actual_length u"
    and "urb_buffer u + urb_actual_length u \<le> int (length (x_data s))"
  shows "\<exists>D. bulk_surplus u s = Some (s\<lparr>x_data := D, u_transferred := u_transferred s + urb_actual_length u\<rparr>) \<and>
    length D = length (x_data s) \<and>
    take (nat (u_transferred s + urb_actual_length u)) D =
      take (nat (u_transferred s)) (x_data s) @ take (nat (urb_actual_length u)) (drop (nat (urb_buffer u)) (x_data s))"
proof -
  let ?T = "nat (u_transferred s)" and ?L = "nat (urb_actual_length u)" and ?o = "nat (urb_buffer u)" and ?d = "x_data s"
  have n: "nat (u_transferred s + urb_actual_length u) = ?T + ?L" using assms by (simp add: nat_add_distrib)
  have r: "?T \<le> ?o" "?o + ?L \<le> length ?d" using assms by linarith+
  consider "urb_actual_length u = 0" | "0 < urb_actual_length u" "urb_buffer u = u_transferred s"
    | "0 < urb_actual_length u" "urb_buffer u \<noteq> u_transferred s" using assms by linarith
  then show ?thesis
  proof cases
    case 1
    then have "bulk_surplus u s = Some (s\<lparr>x_data := ?d, u_transferred := u_transferred s + urb_actual_length u\<rparr>)"
      by (simp add: bulk_surplus_def)
    then show ?thesis using 1 by (intro exI [of _ ?d]) simp
  next
    case 2
    then have "bulk_surplus u s = Some (s\<lparr>x_data := ?d, u_transferred := u_transferred s + urb_actual_length u\<rparr>)"
      by (simp add: bulk_surplus_def)
    then show ?thesis using 2 unfolding n by (intro exI [of _ ?d]) (simp only: take_add simp_thms)
  next
    case 3
    let ?m = "take ?L (drop ?o ?d)"
    let ?D = "take ?T ?d @ ?m @ drop (?T + ?L) ?d"
    have "length ?m = ?L" using r by simp
    then have "bulk_surplus u s = Some (s\<lparr>x_data := ?D, u_transferred := u_transferred s + urb_actual_length u\<rparr>)"
      using 3 r by (simp add: bulk_surplus_def buf_read_def buf_write_def)
    then show ?thesis unfolding n using r by (intro exI [of _ ?D]) simp
  qed
qed

text \<open>An endpoint that stops: the kernel has no more data for it.\<close>

definition halting :: "int \<Rightarrow> bool" where
  "halting status \<longleftrightarrow> status \<in> {- ENODEV, - ESHUTDOWN, - EPIPE}"

text \<open>
  What a URB that comes back changes; \<open>fin\<close> says that it is the last one that the kernel holds.
\<close>

definition after_bulk :: "bool \<Rightarrow> reaped \<Rightarrow> linux_transfer \<Rightarrow> linux_transfer \<Rightarrow> bool" where
  "after_bulk fin r s s' \<longleftrightarrow> (r = Waiting \<longleftrightarrow> \<not> fin) \<and> r \<noteq> Fault \<and> (\<forall>e. r \<noteq> Reap_Error e) \<and>
     static s' = static s \<and> k_queue s' = k_queue s \<and>
     tp_urbs s' = (if fin then NoUrbs else tp_urbs s) \<and>
     x_heap s' = (if fin then x_heap (free_urbs s) else x_heap s)"

lemma bulk_completed_after:
  assumes "tp_urbs s = Urbs b us" "bulk_completed s = (r, s')"
  shows "after_bulk True r s s' \<and> x_data s' = x_data s \<and> u_transferred s' = u_transferred s"
  using assms by (auto simp: bulk_completed_def after_bulk_def free_urbs_Urbs split: if_splits)

lemma cancel_remaining_after:
  assumes "tp_urbs s = Urbs b us" "cancel_remaining dis i s = (r, s')"
  shows "after_bulk (tp_num_retired s = tp_num_urbs s) r s s' \<and> x_data s' = x_data s \<and> u_transferred s' = u_transferred s \<and>
    tp_num_retired s' = tp_num_retired s \<and> tp_reap_action s' = tp_reap_action s"
  using assms by (auto simp: cancel_remaining_def bulk_completed_def after_bulk_def free_urbs_Urbs Let_def split: if_splits)

lemma bulk_status_frame:
  assumes "bulk_status status s = (v, s')"
  shows "static s' = static s \<and> tp_urbs s' = tp_urbs s \<and> tp_num_retired s' = tp_num_retired s \<and> x_data s' = x_data s \<and>
    x_heap s' = x_heap s \<and> k_queue s' = k_queue s \<and> u_transferred s' = u_transferred s \<and>
    (v = Completed \<longleftrightarrow> status = - EOVERFLOW) \<and>
    (tp_reap_action s' = NORMAL \<longrightarrow> tp_reap_action s = NORMAL \<and> (v = Cancel_Remaining \<longrightarrow> halting status))"
  using assms by (auto simp: bulk_status_def Let_def halting_def usb_consts split: if_splits)

lemma static_num_urbs: "static s' = static s \<Longrightarrow> tp_num_urbs s' = tp_num_urbs s"
  by (simp add: static_def)

lemma after_bulk_trans:
  "after_bulk fin r s1 s' \<Longrightarrow> static s1 = static s \<Longrightarrow> tp_urbs s1 = tp_urbs s \<Longrightarrow> k_queue s1 = k_queue s \<Longrightarrow> x_heap s1 = x_heap s \<Longrightarrow>
     after_bulk fin r s s'"
  by (simp add: after_bulk_def free_urbs_def split: urb_array.split)

lemma bulk_normal_after:
  assumes "tp_urbs s = Urbs b us" "bulk_normal dis i u s = (r, s')"
    and "tp_num_retired s = int i + 1" "int i < tp_num_urbs s" "urb_status u = - EOVERFLOW \<Longrightarrow> int i = tp_num_urbs s - 1"
  shows "after_bulk (int i + 1 = tp_num_urbs s) r s s' \<and> (r = Waiting \<longrightarrow> tp_num_retired s' = tp_num_retired s) \<and>
    u_transferred s' = u_transferred s + urb_actual_length u \<and> x_data s' = x_data s \<and>
    (tp_reap_action s' = NORMAL \<longrightarrow> halting (urb_status u) \<or> r \<noteq> Waiting \<or> urb_buffer_length u \<le> urb_actual_length u)"
proof -
  obtain v s1 where v: "bulk_status (urb_status u) (s\<lparr>u_transferred := u_transferred s + urb_actual_length u\<rparr>) = (v, s1)"
    by (rule prod.exhaust)
  note f = bulk_status_frame [OF v]
  have n: "tp_num_urbs s1 = tp_num_urbs s" using f static_num_urbs [of s1 s] by simp
  have U: "tp_urbs s1 = Urbs b us" using f assms(1) by simp
  note t = after_bulk_trans [of _ r s1 s' s]
  have fin: ?thesis if "bulk_completed s1 = (r, s')" "int i + 1 = tp_num_urbs s"
  proof -
    note b = bulk_completed_after [OF U that(1)]
    have "after_bulk True r s s'" using t b f by simp
    moreover have "r \<noteq> Waiting" using calculation by (simp add: after_bulk_def)
    ultimately show ?thesis using b f that by simp
  qed
  show ?thesis
  proof (cases v)
    case Completed
    then have "bulk_completed s1 = (r, s')" "int i + 1 = tp_num_urbs s" using assms(2,5) v f by (auto simp: bulk_normal_def)
    then show ?thesis using fin by blast
  next
    case Cancel_Remaining
    then have "cancel_remaining dis i s1 = (r, s')" using assms(2) v by (simp add: bulk_normal_def)
    note c = cancel_remaining_after [OF U this]
    have e: "(tp_num_retired s1 = tp_num_urbs s1) = (int i + 1 = tp_num_urbs s)" using f assms(3) n by simp
    show ?thesis using c t [of "int i + 1 = tp_num_urbs s"] f Cancel_Remaining unfolding e by simp
  next
    case Break
    consider "int i = tp_num_urbs s - 1" "bulk_completed s1 = (r, s')"
      | "int i \<noteq> tp_num_urbs s - 1" "urb_actual_length u < urb_buffer_length u"
        "cancel_remaining dis i (if tp_reap_action s1 = NORMAL then s1\<lparr>tp_reap_action := COMPLETED_EARLY\<rparr> else s1) = (r, s')"
      | "int i \<noteq> tp_num_urbs s - 1" "urb_buffer_length u \<le> urb_actual_length u" "r = Waiting" "s' = s1"
      using assms(2) Break v by (auto simp: bulk_normal_def n split: if_splits)
    then show ?thesis
    proof cases
      case 1
      then show ?thesis using fin by simp
    next
      case 2
      let ?s2 = "if tp_reap_action s1 = NORMAL then s1\<lparr>tp_reap_action := COMPLETED_EARLY\<rparr> else s1"
      have "tp_urbs ?s2 = Urbs b us" using U by simp
      note c = cancel_remaining_after [OF this 2(3)]
      have e: "(tp_num_retired ?s2 = tp_num_urbs ?s2) = (int i + 1 = tp_num_urbs s)" using f assms(3) n by simp
      have "static ?s2 = static s" "tp_urbs ?s2 = tp_urbs s" "k_queue ?s2 = k_queue s" "x_heap ?s2 = x_heap s"
        "x_data ?s2 = x_data s" "u_transferred ?s2 = u_transferred s + urb_actual_length u" "tp_num_retired ?s2 = tp_num_retired s"
        "tp_reap_action ?s2 \<noteq> NORMAL" using f by simp_all
      then show ?thesis using c after_bulk_trans [of _ r ?s2 s' s] unfolding e by simp
    next
      case 3
      then show ?thesis using f by (simp add: after_bulk_def)
    qed
  qed
qed

lemma bulk_abnormal_after:
  assumes "tp_urbs s = Urbs b us" "bulk_abnormal u s = (r, s')" "tp_reap_action s \<noteq> NORMAL"
    and "0 \<le> u_transferred s" "u_transferred s \<le> urb_buffer u" "0 \<le> urb_actual_length u"
    "urb_buffer u + urb_actual_length u \<le> int (length (x_data s))"
  shows "after_bulk (tp_num_retired s = tp_num_urbs s) r s s' \<and> tp_num_retired s' = tp_num_retired s \<and>
    u_transferred s' = u_transferred s + urb_actual_length u \<and> length (x_data s') = length (x_data s) \<and>
    take (nat (u_transferred s + urb_actual_length u)) (x_data s') =
      take (nat (u_transferred s)) (x_data s) @ take (nat (urb_actual_length u)) (drop (nat (urb_buffer u)) (x_data s)) \<and>
    tp_reap_action s' \<noteq> NORMAL"
proof -
  from bulk_surplus_moves [OF assms(4-7)] obtain D where
    D: "bulk_surplus u s = Some (s\<lparr>x_data := D, u_transferred := u_transferred s + urb_actual_length u\<rparr>)"
    "length D = length (x_data s)"
    "take (nat (u_transferred s + urb_actual_length u)) D =
      take (nat (u_transferred s)) (x_data s) @ take (nat (urb_actual_length u)) (drop (nat (urb_buffer u)) (x_data s))" by blast
  show ?thesis
    using assms(1-3) D by (auto simp: bulk_abnormal_def bulk_completed_def after_bulk_def free_urbs_Urbs split: if_splits)
qed

lemma handle_bulk_after:
  assumes U: "tp_urbs s = Urbs b us" "i < length us" and h: "handle_bulk_completion dis i s = (r, s')"
    and m: "tp_num_retired s = int i + (tp_num_urbs s - int m)" "i < m" "int m \<le> tp_num_urbs s"
    and N: "tp_reap_action s = NORMAL \<Longrightarrow> int m = tp_num_urbs s"
    and O: "urb_status (us ! i) = - EOVERFLOW \<Longrightarrow> int i = tp_num_urbs s - 1"
    and R: "0 \<le> u_transferred s" "u_transferred s \<le> urb_buffer (us ! i)" "0 \<le> urb_actual_length (us ! i)"
    "urb_buffer (us ! i) + urb_actual_length (us ! i) \<le> int (length (x_data s))"
  shows "after_bulk (Suc i = m) r s s'" "r = Waiting \<Longrightarrow> tp_num_retired s' = tp_num_retired s + 1"
    "u_transferred s' = u_transferred s + urb_actual_length (us ! i)" "length (x_data s') = length (x_data s)"
    "tp_reap_action s = NORMAL \<Longrightarrow> x_data s' = x_data s"
    "tp_reap_action s \<noteq> NORMAL \<Longrightarrow> take (nat (u_transferred s + urb_actual_length (us ! i))) (x_data s') =
      take (nat (u_transferred s)) (x_data s) @
      take (nat (urb_actual_length (us ! i))) (drop (nat (urb_buffer (us ! i))) (x_data s))"
    "tp_reap_action s' = NORMAL \<Longrightarrow> tp_reap_action s = NORMAL \<and>
      (halting (urb_status (us ! i)) \<or> r \<noteq> Waiting \<or> urb_buffer_length (us ! i) \<le> urb_actual_length (us ! i))"
proof -
  let ?s = "s\<lparr>tp_num_retired := tp_num_retired s + 1\<rparr>" and ?u = "us ! i"
  have U1: "tp_urbs ?s = Urbs b us" using U by simp
  have fin: "(tp_num_retired ?s = tp_num_urbs ?s) = (Suc i = m)" using m by auto
  have "after_bulk (Suc i = m) r s s' \<and> (r = Waiting \<longrightarrow> tp_num_retired s' = tp_num_retired s + 1) \<and>
    u_transferred s' = u_transferred s + urb_actual_length ?u \<and> length (x_data s') = length (x_data s) \<and>
    (tp_reap_action s = NORMAL \<longrightarrow> x_data s' = x_data s) \<and>
    (tp_reap_action s \<noteq> NORMAL \<longrightarrow> take (nat (u_transferred s + urb_actual_length ?u)) (x_data s') =
      take (nat (u_transferred s)) (x_data s) @ take (nat (urb_actual_length ?u)) (drop (nat (urb_buffer ?u)) (x_data s))) \<and>
    (tp_reap_action s' = NORMAL \<longrightarrow> tp_reap_action s = NORMAL \<and>
      (halting (urb_status ?u) \<or> r \<noteq> Waiting \<or> urb_buffer_length ?u \<le> urb_actual_length ?u))"
  proof (cases "tp_reap_action s = NORMAL")
    case True
    then have "bulk_normal dis i ?u ?s = (r, s')" using h U by (simp add: handle_bulk_completion_def Let_def)
    moreover have "tp_num_retired ?s = int i + 1" "int i < tp_num_urbs ?s" "(int i + 1 = tp_num_urbs ?s) = (Suc i = m)"
      using m N True by auto
    ultimately show ?thesis using bulk_normal_after [OF U1, of dis i ?u r s'] O True after_bulk_trans [of _ r ?s s' s] by simp
  next
    case False
    then have "bulk_abnormal ?u ?s = (r, s')" using h U by (simp add: handle_bulk_completion_def Let_def)
    note a = bulk_abnormal_after [OF U1 this]
    have "after_bulk (Suc i = m) r s s'" using a False R after_bulk_trans [of _ r ?s s' s] fin by simp
    then show ?thesis using a False R by simp
  qed
  then show "after_bulk (Suc i = m) r s s'" "r = Waiting \<Longrightarrow> tp_num_retired s' = tp_num_retired s + 1"
    "u_transferred s' = u_transferred s + urb_actual_length (us ! i)" "length (x_data s') = length (x_data s)"
    "tp_reap_action s = NORMAL \<Longrightarrow> x_data s' = x_data s"
    "tp_reap_action s \<noteq> NORMAL \<Longrightarrow> take (nat (u_transferred s + urb_actual_length (us ! i))) (x_data s') =
      take (nat (u_transferred s)) (x_data s) @
      take (nat (urb_actual_length (us ! i))) (drop (nat (urb_buffer (us ! i))) (x_data s))"
    "tp_reap_action s' = NORMAL \<Longrightarrow> tp_reap_action s = NORMAL \<and>
      (halting (urb_status (us ! i)) \<or> r \<noteq> Waiting \<or> urb_buffer_length (us ! i) \<le> urb_actual_length (us ! i))" by blast+
qed

section \<open>The pieces of a submitted transfer\<close>

lemma submit_bulk_result:
  assumes sub: "submit_bulk_transfer caps sub dis s = (0, s')" and len: "0 \<le> x_length s" and q: "k_queue s = []"
  defines "n \<equiv> nat (bulk_count caps (x_length s))"
  shows "\<exists>b h m us. malloc (x_heap s) = (Some b, h) \<and> tp_urbs s' = Urbs b us \<and> length us = n \<and> 0 < m \<and> m \<le> n \<and>
    k_queue s' = [0..<m] \<and> (\<forall>i < m. us ! i = bulk_urb caps s i (calloc_urb [])) \<and> tp_num_urbs s' = int n \<and>
    tp_num_retired s' = int (n - m) \<and> (tp_reap_action s' = NORMAL \<longleftrightarrow> m = n) \<and> x_data s' = x_data s \<and> x_heap s' = h \<and>
    u_transferred s' = u_transferred s \<and> x_length s' = x_length s \<and> x_type s' = x_type s"
proof -
  have n: "1 \<le> bulk_count caps (x_length s)" using bulk_count_bounds(1) len by blast
  then have n': "int n = bulk_count caps (x_length s)" by (simp add: n_def)
  obtain p h where m: "malloc (x_heap s) = (p, h)" by (rule prod.exhaust)
  let ?s1 = "\<lambda>b. s\<lparr>x_heap := h, tp_urbs := Urbs b (replicate n (calloc_urb [])), tp_num_urbs := int n,
         tp_num_retired := 0, tp_reap_action := NORMAL, tp_reap_status := LIBUSB_TRANSFER_COMPLETED\<rparr>"
  obtain b where p: "p = Some b" and loop: "bulk_submit_loop caps sub dis (int n) [0..<n] (?s1 b) = (0, s')"
    using sub m n unfolding n'
    by (auto simp: submit_bulk_transfer_def Let_def bulk_count_def [symmetric] n_def LIBUSB_ERROR_NOT_SUPPORTED_def LIBUSB_ERROR_NO_MEM_def
        split: if_splits option.splits)
  have "\<exists>m. submitted_bulk caps b n m (?s1 b) s'"
    using bulk_submit_loop_result [OF loop, of b "replicate n (calloc_urb [])"] q by simp
  then obtain k where k: "submitted_bulk caps b n k (?s1 b) s'" ..
  have c: "bulk_urb caps (?s1 b) = bulk_urb caps s" by (intro ext bulk_urb_cong) simp_all
  obtain us where us: "tp_urbs s' = Urbs b us" "length us = n" "\<forall>i < k. us ! i = bulk_urb caps s i (calloc_urb [])"
    using k unfolding submitted_bulk_def c by blast
  have st: "static s' = static (?s1 b)" using k by (simp add: submitted_bulk_def)
  have f: "x_length s' = x_length s" "x_type s' = x_type s" "tp_num_urbs s' = int n" using staticD [OF st] by simp_all
  have g: "x_data s' = x_data s" "x_heap s' = h" "u_transferred s' = u_transferred s" "k \<le> n" "k_queue s' = [0..<k]"
    "tp_num_retired s' = int (n - k)" "tp_reap_action s' = NORMAL \<longleftrightarrow> k = n"
    using k by (simp_all add: submitted_bulk_def)
  have "0 < k" using k n' n by (auto simp: submitted_bulk_def)
  then show ?thesis using m p us f g by blast
qed

lemma bulk_urb_flags:
  assumes "0 \<le> x_length s" "int i < bulk_count caps (x_length s)"
  defines "u \<equiv> bulk_urb caps s i (calloc_urb [])"
  shows "urb_flags u AND USBFS_URB_BULK_CONTINUATION \<noteq> 0 \<longleftrightarrow> snd (bulk_buffer caps (x_length s)) \<and> 0 < i"
    and "urb_flags u AND USBFS_URB_SHORT_NOT_OK \<noteq> 0 \<longleftrightarrow>
      snd (bulk_buffer caps (x_length s)) \<and> \<not> is_out s \<and> int i < bulk_count caps (x_length s) - 1"
proof -
  have f: "urb_flags u = (if snd (bulk_buffer caps (x_length s)) \<and> \<not> is_out s \<and> int i < bulk_count caps (x_length s) - 1
        then USBFS_URB_SHORT_NOT_OK else 0) OR (if 0 < i \<and> snd (bulk_buffer caps (x_length s)) then USBFS_URB_BULK_CONTINUATION else 0) OR
      (if is_out s \<and> int i = bulk_count caps (x_length s) - 1 \<and> x_flags s AND LIBUSB_TRANSFER_ADD_ZERO_PACKET \<noteq> 0
       then USBFS_URB_ZERO_PACKET else 0)"
    by (simp add: u_def bulk_urb_def Let_def case_prod_beta bulk_count_def calloc_urb_def)
  show "urb_flags u AND USBFS_URB_BULK_CONTINUATION \<noteq> 0 \<longleftrightarrow> snd (bulk_buffer caps (x_length s)) \<and> 0 < i"
    "urb_flags u AND USBFS_URB_SHORT_NOT_OK \<noteq> 0 \<longleftrightarrow>
      snd (bulk_buffer caps (x_length s)) \<and> \<not> is_out s \<and> int i < bulk_count caps (x_length s) - 1"
    unfolding f by (auto simp: usb_consts)
qed

text \<open>The pieces of a buffer of \<open>len\<close> bytes, each \<open>L\<close> long but the last.\<close>

lemma pieces_sum:
  fixes L len :: int
  assumes "\<forall>j < m. int j * L \<le> len" "0 \<le> len" "i \<le> m"
  shows "sum_list (map (\<lambda>j. min L (len - int j * L)) [0..<i]) = min (int i * L) len"
  using assms(3)
proof (induction i)
  case (Suc i)
  then have "int i * L \<le> len" using assms(1) by simp
  then show ?case using Suc by (simp add: min_def algebra_simps)
qed (simp add: assms(2) min_def)

lemma map_take_nth: "i \<le> length us \<Longrightarrow> map f (take i us) = map (\<lambda>j. f (us ! j)) [0..<i]"
  by (rule nth_equalityI) simp_all

lemma bulk_urbs_tile:
  assumes len: "0 \<le> x_length s" and n: "int (length us) = bulk_count caps (x_length s)" "m \<le> length us"
    and us: "\<forall>i < m. us ! i = bulk_urb caps s i (calloc_urb [])" and i: "i \<le> m"
  shows "sum_list (map urb_buffer_length (take i us)) = min (int i * fst (bulk_buffer caps (x_length s))) (x_length s)"
    and "i < m \<Longrightarrow> int i * fst (bulk_buffer caps (x_length s)) \<le> x_length s"
    and "i < m \<Longrightarrow> 0 < x_length s \<Longrightarrow> int i * fst (bulk_buffer caps (x_length s)) < x_length s"
proof -
  let ?L = "fst (bulk_buffer caps (x_length s))"
  have L: "0 < ?L" using bulk_buffer_pos len .
  note b = bulk_count_bounds [OF len, of caps]
  have pos: "int j * ?L < x_length s" if "j < m" "0 < x_length s" for j
  proof -
    have "int j * ?L \<le> (bulk_count caps (x_length s) - 1) * ?L" using that(1) n L by (intro mult_right_mono) simp_all
    then show ?thesis using b(3) that(2) by simp
  qed
  have le: "int j * ?L \<le> x_length s" if "j < m" for j
  proof (cases "x_length s = 0")
    case True
    then have "j = 0" using b(4) n that by linarith
    then show ?thesis using len by simp
  qed (use pos [OF that] len in simp)
  show "i < m \<Longrightarrow> int i * ?L \<le> x_length s" "i < m \<Longrightarrow> 0 < x_length s \<Longrightarrow> int i * ?L < x_length s" using le pos by simp_all
  have "map urb_buffer_length (take i us) = map (\<lambda>j. min ?L (x_length s - int j * ?L)) [0..<i]"
    using i n us len by (auto simp: map_take_nth bulk_urb_layout)
  then show "sum_list (map urb_buffer_length (take i us)) = min (int i * ?L) (x_length s)"
    using pieces_sum [of m ?L "x_length s" i] le len i by simp
qed

end
