(* ===== verification/Usbfs_Runs.thy ===== *)
theory Usbfs_Runs
  imports Usbfs_Bulk
begin

text \<open>
  Bulk transfers from submission to their report: the step relation, and the invariants on the URBs and the heap, on the
  data and on the status.
\<close>

section \<open>Runs\<close>

text \<open>
  What the kernel does when it gives a URB back: it sets the status and the length, and for a transfer to the host it
  stores the data.  When the array was freed there is nothing left that it can do this to.
\<close>

definition usbfs_reap :: "nat \<Rightarrow> int \<Rightarrow> byte list \<Rightarrow> linux_transfer \<Rightarrow> linux_transfer option" where
  "usbfs_reap i status data s =
    (case tp_urbs s of
       Urbs b us \<Rightarrow>
         if i < length us \<and> int (length data) \<le> urb_buffer_length (us ! i) then
           map_option (\<lambda>d. s\<lparr>tp_urbs := Urbs b (us[i := (us ! i)\<lparr>urb_status := status, urb_actual_length := int (length data)\<rparr>]),
               x_data := d, k_queue := tl (k_queue s)\<rparr>)
             (if is_out s then Some (x_data s) else buf_write (x_data s) (nat (urb_buffer (us ! i))) data)
         else None
     | _ \<Rightarrow> Some (s\<lparr>k_queue := tl (k_queue s)\<rparr>))"

definition bulk_type :: "byte \<Rightarrow> bool" where
  "bulk_type ty \<longleftrightarrow> ty \<in> {LIBUSB_TRANSFER_TYPE_BULK, LIBUSB_TRANSFER_TYPE_BULK_STREAM, LIBUSB_TRANSFER_TYPE_INTERRUPT}"

text \<open>
  The life of a bulk or interrupt transfer: it is submitted, with a buffer as long as it says; the kernel gives the URBs
  back in the order in which it took them, each with a status and at most as much data as was asked for; the transfer
  may be cancelled in between, any number of times.  \<open>w\<close> says that an overflow is only reported for the last
  URB, as the code supposes.  A state has what the kernel returned, what was reported, and the transfer.
\<close>

inductive bulk_run ::
  "u32 \<Rightarrow> bool \<Rightarrow> heap \<Rightarrow> (int \<times> byte list) list \<times> reaped list \<times> linux_transfer \<Rightarrow> bool" for caps w h where
  submit: "k_queue s0 = [] \<Longrightarrow> x_heap s0 = h \<Longrightarrow> u_transferred s0 = 0 \<Longrightarrow> 0 \<le> x_length s0 \<Longrightarrow>
    x_length s0 \<le> int (length (x_data s0)) \<Longrightarrow> bulk_type (x_type s0) \<Longrightarrow>
    op_submit_transfer caps mx sub dis s0 = (0, s) \<Longrightarrow> bulk_run caps w h ([], [], s)"
| reap: "bulk_run caps w h (es, rs, s) \<Longrightarrow> k_queue s = i # q \<Longrightarrow> usbfs_reap i status data s = Some s1 \<Longrightarrow>
    w \<longrightarrow> status = - EOVERFLOW \<longrightarrow> int i = tp_num_urbs s - 1 \<Longrightarrow> reap_urb dis i s1 = (r, s') \<Longrightarrow>
    bulk_run caps w h (es @ [(status, data)], rs @ (if r = Waiting then [] else [r]), s')"
| cancel: "bulk_run caps w h (es, rs, s) \<Longrightarrow> op_cancel_transfer dis s = (r, s') \<Longrightarrow> bulk_run caps w h (es, rs, s')"

definition bulk_open :: "u32 \<Rightarrow> heap \<Rightarrow> nat \<Rightarrow> linux_transfer \<Rightarrow> bool" where
  "bulk_open caps h k s \<longleftrightarrow> (\<exists>b us m. tp_urbs s = Urbs b us \<and> int (length us) = tp_num_urbs s \<and> k < m \<and> int m \<le> tp_num_urbs s \<and>
     k_queue s = [k..<m] \<and> tp_num_retired s = int k + (tp_num_urbs s - int m) \<and>
     (tp_reap_action s = NORMAL \<longrightarrow> int m = tp_num_urbs s) \<and>
     (\<forall>i. k \<le> i \<and> i < m \<longrightarrow> urb_buffer (us ! i) = int i * fst (bulk_buffer caps (x_length s)) \<and>
        urb_buffer_length (us ! i) = min (fst (bulk_buffer caps (x_length s))) (x_length s - int i * fst (bulk_buffer caps (x_length s)))) \<and>
     u_transferred s \<le> int k * fst (bulk_buffer caps (x_length s)) \<and>
     heap_ok (x_heap s) \<and> b \<notin> live h \<and> live (x_heap s) = insert b (live h))"

definition bulk_closed :: "heap \<Rightarrow> linux_transfer \<Rightarrow> bool" where
  "bulk_closed h s \<longleftrightarrow> tp_urbs s = NoUrbs \<and> k_queue s = [] \<and> heap_ok (x_heap s) \<and> live (x_heap s) = live h"

definition bulk_inv :: "u32 \<Rightarrow> heap \<Rightarrow> (int \<times> byte list) list \<times> reaped list \<times> linux_transfer \<Rightarrow> bool" where
  "bulk_inv caps h st \<longleftrightarrow> (case st of (es, rs, s) \<Rightarrow>
     0 \<le> x_length s \<and> x_length s \<le> int (length (x_data s)) \<and> bulk_type (x_type s) \<and>
     tp_num_urbs s = bulk_count caps (x_length s) \<and>
     u_transferred s = int (length (concat (map snd es))) \<and>
     (if rs = [] then bulk_open caps h (length es) s
      else bulk_closed h s \<and> (\<exists>r. rs = [r] \<and> r \<noteq> Waiting \<and> r \<noteq> Fault \<and> (\<forall>e. r \<noteq> Reap_Error e))))"

lemma bulk_inv_submit:
  assumes h: "heap_ok h" and s0: "x_heap s0 = h" "k_queue s0 = []" "u_transferred s0 = 0" "0 \<le> x_length s0"
    "x_length s0 \<le> int (length (x_data s0))" "bulk_type (x_type s0)" and op: "op_submit_transfer caps mx sub dis s0 = (0, s)"
  shows "bulk_inv caps h ([], [], s) \<and> (int (length (k_queue s)) = tp_num_urbs s \<longrightarrow> tp_reap_action s = NORMAL)"
proof -
  let ?n = "bulk_count caps (x_length s0)"
  have n: "1 \<le> ?n" using bulk_count_bounds(1) s0(4) by blast
  have sub: "submit_bulk_transfer caps sub dis s0 = (0, s)"
    using op s0(6) by (auto simp: op_submit_transfer_def bulk_type_def usb_consts split: if_splits)
  obtain b h' m us where r: "malloc (x_heap s0) = (Some b, h')" "tp_urbs s = Urbs b us" "length us = nat ?n" "0 < m" "m \<le> nat ?n"
    "k_queue s = [0..<m]" "\<forall>i < m. us ! i = bulk_urb caps s0 i (calloc_urb [])" "tp_num_urbs s = int (nat ?n)"
    "tp_num_retired s = int (nat ?n - m)" "tp_reap_action s = NORMAL \<longleftrightarrow> m = nat ?n" "x_data s = x_data s0" "x_heap s = h'"
    "u_transferred s = u_transferred s0" "x_length s = x_length s0" "x_type s = x_type s0"
    using submit_bulk_result [OF sub s0(4,2)] by blast
  have st: "x_length s = x_length s0" "x_type s = x_type s0" "tp_num_urbs s = ?n" using r n by simp_all
  have lay: "urb_buffer (us ! i) = int i * fst (bulk_buffer caps (x_length s)) \<and>
      urb_buffer_length (us ! i) = min (fst (bulk_buffer caps (x_length s))) (x_length s - int i * fst (bulk_buffer caps (x_length s)))"
    if "i < m" for i
    using bulk_urb_layout [of s0 i caps "calloc_urb []"] r(5,7) that s0(4) n by (simp add: st)
  have hp: "heap_ok h'" "b \<notin> live h" "live h' = insert b (live h)"
    using malloc_cases [of h "Some b" h'] h r(1) s0(1) by auto
  have "bulk_open caps h 0 s"
    unfolding bulk_open_def
  proof (intro exI conjI)
    show "tp_urbs s = Urbs b us" by (rule r(2))
    show "int (length us) = tp_num_urbs s" "int m \<le> tp_num_urbs s" using r(3,5) n st(3) by simp_all
    show "0 < m" "k_queue s = [0..<m]" using r(4,6) by simp_all
    show "tp_num_retired s = int 0 + (tp_num_urbs s - int m)" using r(5,9) n st(3) by (simp add: of_nat_diff)
    show "tp_reap_action s = NORMAL \<longrightarrow> int m = tp_num_urbs s" using r(10) n st(3) by simp
    show "\<forall>i. 0 \<le> i \<and> i < m \<longrightarrow> urb_buffer (us ! i) = int i * fst (bulk_buffer caps (x_length s)) \<and>
      urb_buffer_length (us ! i) = min (fst (bulk_buffer caps (x_length s))) (x_length s - int i * fst (bulk_buffer caps (x_length s)))"
      using lay by blast
    show "u_transferred s \<le> int 0 * fst (bulk_buffer caps (x_length s))" using r(13) s0(3) by simp
    show "heap_ok (x_heap s)" "b \<notin> live h" "live (x_heap s) = insert b (live h)" using r(12) hp by simp_all
  qed
  then show ?thesis using r(6,10,11,13) st s0 n by (auto simp: bulk_inv_def)
qed

section \<open>Steps\<close>

lemma upt_Cons_eq: "[k..<m] = i # q \<Longrightarrow> i = k \<and> k < m \<and> q = [Suc k..<m]"
  by (cases "k < m") (auto simp: upt_conv_Cons)

lemma usbfs_reap_Urbs:
  assumes "usbfs_reap i status data s = Some s1" "tp_urbs s = Urbs b us" "i < length us" "k_queue s = i # q"
  shows "\<exists>d. s1 = s\<lparr>tp_urbs := Urbs b (us[i := (us ! i)\<lparr>urb_status := status, urb_actual_length := int (length data)\<rparr>]),
        x_data := d, k_queue := q\<rparr> \<and>
      (if is_out s then Some (x_data s) else buf_write (x_data s) (nat (urb_buffer (us ! i))) data) = Some d \<and>
      int (length data) \<le> urb_buffer_length (us ! i)"
  using assms by (auto simp: usbfs_reap_def split: if_splits)

text \<open>One URB that comes back, from the state before the kernel fills it in.\<close>

lemma bulk_reap_step:
  assumes inv: "bulk_inv caps h (es, rs, s)" and q: "k_queue s = i # q" and k: "usbfs_reap i status data s = Some s1"
    and ov: "status = - EOVERFLOW \<longrightarrow> int i = tp_num_urbs s - 1" and r: "reap_urb dis i s1 = (r, s')"
  shows "bulk_inv caps h (es @ [(status, data)], rs @ (if r = Waiting then [] else [r]), s')" "rs = []" "static s' = static s" "k_queue s' = q"
    "int (length data) \<le> fst (bulk_buffer caps (x_length s))"
    "\<not> is_out s \<Longrightarrow> tp_reap_action s = NORMAL \<Longrightarrow>
       buf_write (x_data s) (length es * nat (fst (bulk_buffer caps (x_length s)))) data = Some (x_data s')"
    "\<not> is_out s \<Longrightarrow> tp_reap_action s \<noteq> NORMAL \<Longrightarrow>
       take (nat (u_transferred s')) (x_data s') = take (nat (u_transferred s)) (x_data s) @ data"
    "tp_reap_action s' = NORMAL \<Longrightarrow> tp_reap_action s = NORMAL \<and>
       (halting status \<or> r \<noteq> Waiting \<or> int (length data) = fst (bulk_buffer caps (x_length s)))"
proof -
  let ?L = "fst (bulk_buffer caps (x_length s))" and ?len = "x_length s" and ?k = "length es"
  show rs: "rs = []" using inv q by (auto simp: bulk_inv_def bulk_closed_def split: if_splits)
  have I: "0 \<le> ?len" "?len \<le> int (length (x_data s))" "bulk_type (x_type s)" "tp_num_urbs s = bulk_count caps ?len"
    "u_transferred s = int (length (concat (map snd es)))" "bulk_open caps h ?k s"
    using inv rs by (simp_all add: bulk_inv_def)
  have L: "0 < ?L" using bulk_buffer_pos I(1) by blast
  from I(6) obtain b us m where O: "tp_urbs s = Urbs b us" "int (length us) = tp_num_urbs s" "?k < m" "int m \<le> tp_num_urbs s"
    "k_queue s = [?k..<m]" "tp_num_retired s = int ?k + (tp_num_urbs s - int m)" "tp_reap_action s = NORMAL \<longrightarrow> int m = tp_num_urbs s"
    "\<forall>i. ?k \<le> i \<and> i < m \<longrightarrow> urb_buffer (us ! i) = int i * ?L \<and> urb_buffer_length (us ! i) = min ?L (?len - int i * ?L)"
    "u_transferred s \<le> int ?k * ?L" "heap_ok (x_heap s)" "b \<notin> live h" "live (x_heap s) = insert b (live h)"
    unfolding bulk_open_def by blast
  have i: "i = ?k" "q = [Suc ?k..<m]" using upt_Cons_eq [of ?k m i q] O(5) q by simp_all
  have ik: "i < length us" using i O(2-4) by linarith
  define u where "u = (us ! i)\<lparr>urb_status := status, urb_actual_length := int (length data)\<rparr>"
  have u: "urb_buffer u = int ?k * ?L" "urb_buffer_length u = min ?L (?len - int ?k * ?L)" "urb_actual_length u = int (length data)"
    "urb_status u = status" using O(3,8) i by (simp_all add: u_def)
  obtain d where d: "(if is_out s then Some (x_data s) else buf_write (x_data s) (nat (urb_buffer (us ! i))) data) = Some d"
    and s1: "s1 = s\<lparr>tp_urbs := Urbs b (us[i := u]), x_data := d, k_queue := q\<rparr>" and dl: "int (length data) \<le> urb_buffer_length (us ! i)"
    using usbfs_reap_Urbs [OF k O(1) ik q] unfolding u_def by blast
  have dlen: "length d = length (x_data s)" using d buf_write_length by (auto split: if_splits)
  have ub: "urb_buffer_length (us ! i) = urb_buffer_length u" by (simp add: u_def)
  show data: "int (length data) \<le> ?L" using dl ub u(2) by simp
  have h: "handle_bulk_completion dis i s1 = (r, s')"
    using r I(3) by (simp add: reap_urb_def s1 bulk_type_def) (auto simp: usb_consts)
  have A: "tp_urbs s1 = Urbs b (us[i := u])" "i < length (us[i := u])" "tp_num_retired s1 = int i + (tp_num_urbs s1 - int m)" "i < m"
    "int m \<le> tp_num_urbs s1" "tp_reap_action s1 = NORMAL \<Longrightarrow> int m = tp_num_urbs s1"
    "urb_status (us[i := u] ! i) = - EOVERFLOW \<Longrightarrow> int i = tp_num_urbs s1 - 1"
    "0 \<le> u_transferred s1" "u_transferred s1 \<le> urb_buffer (us[i := u] ! i)" "0 \<le> urb_actual_length (us[i := u] ! i)"
    "urb_buffer (us[i := u] ! i) + urb_actual_length (us[i := u] ! i) \<le> int (length (x_data s1))"
    using O i ik u ov I(2,5) dl ub dlen by (simp_all add: s1)
  note HA = handle_bulk_after [OF A(1,2) h A(3-11), unfolded nth_list_update_eq [OF ik]]
  have H: "after_bulk (Suc i = m) r s1 s'" "r = Waiting \<Longrightarrow> tp_num_retired s' = tp_num_retired s1 + 1"
    "u_transferred s' = u_transferred s1 + int (length data)" "length (x_data s') = length (x_data s1)"
    "tp_reap_action s1 = NORMAL \<Longrightarrow> x_data s' = x_data s1"
    "tp_reap_action s1 \<noteq> NORMAL \<Longrightarrow> take (nat (u_transferred s1 + int (length data))) (x_data s') =
      take (nat (u_transferred s1)) (x_data s1) @ take (length data) (drop (nat (int ?k * ?L)) (x_data s1))"
    "tp_reap_action s' = NORMAL \<Longrightarrow> tp_reap_action s1 = NORMAL \<and>
      (halting status \<or> r \<noteq> Waiting \<or> min ?L (?len - int ?k * ?L) \<le> int (length data))"
    using HA(1) HA(2) HA(3) HA(4) HA(5) HA(6) HA(7) by (simp_all add: u)
  have st: "static s' = static s1" using H(1) by (simp add: after_bulk_def)
  then show st': "static s' = static s" by (simp add: s1)
  show "k_queue s' = q" using H(1) by (simp add: after_bulk_def s1)
  note sD = staticD [OF st']
  have tr: "u_transferred s' = int (length (concat (map snd (es @ [(status, data)]))))"
    using H(3) I(5) by (simp add: s1)
  show "bulk_inv caps h (es @ [(status, data)], rs @ (if r = Waiting then [] else [r]), s')"
  proof (cases "Suc i = m")
    case True
    have f: "heap_ok (free (Some b) (x_heap s))" "live (free (Some b) (x_heap s)) = live h"
      using O(10-12) by (auto simp: free_def heap_ok_def)
    have "bulk_closed h s'" using H(1) True f i by (simp add: after_bulk_def bulk_closed_def s1 free_urbs_def)
    then show ?thesis using H(1,4) True I tr sD rs by (simp add: bulk_inv_def after_bulk_def s1 dlen)
  next
    case False
    then have w: "r = Waiting" "tp_urbs s' = Urbs b (us[i := u])" "x_heap s' = x_heap s" "k_queue s' = q"
      using H(1) by (simp_all add: after_bulk_def s1)
    have "bulk_open caps h (Suc ?k) s'"
      unfolding bulk_open_def
    proof (intro exI conjI)
      show "tp_reap_action s' = NORMAL \<longrightarrow> int m = tp_num_urbs s'" using H(7) O(7) sD by (simp add: s1)
      show "\<forall>j. Suc ?k \<le> j \<and> j < m \<longrightarrow> urb_buffer (us[i := u] ! j) = int j * fst (bulk_buffer caps (x_length s')) \<and>
        urb_buffer_length (us[i := u] ! j) = min (fst (bulk_buffer caps (x_length s'))) (x_length s' - int j * fst (bulk_buffer caps (x_length s')))"
        using O(8) i sD by simp
      show "u_transferred s' \<le> int (Suc ?k) * fst (bulk_buffer caps (x_length s'))"
        using H(3) O(9) data sD by (simp add: s1 algebra_simps)
    qed (use w O False i sD H(2) in \<open>simp_all add: s1\<close>)
    then show ?thesis using w I H(4) tr sD rs by (simp add: bulk_inv_def s1 dlen)
  qed
  have off: "nat (int ?k * ?L) = ?k * nat ?L" using L by (simp add: nat_mult_distrib)
  show "buf_write (x_data s) (?k * nat ?L) data = Some (x_data s')" if "\<not> is_out s" "tp_reap_action s = NORMAL"
    using d that H(5) u(1) off by (simp add: s1 u_def)
  show "take (nat (u_transferred s')) (x_data s') = take (nat (u_transferred s)) (x_data s) @ data"
    if "\<not> is_out s" "tp_reap_action s \<noteq> NORMAL"
  proof -
    have w: "buf_write (x_data s) (?k * nat ?L) data = Some d" using d that u(1) off by (simp add: u_def)
    have "nat (u_transferred s) \<le> ?k * nat ?L" using O(9) off by (metis nat_mono)
    then have "take (nat (u_transferred s)) d = take (nat (u_transferred s)) (x_data s)"
      "take (length data) (drop (?k * nat ?L) d) = data" using w by (auto simp: buf_write_def split: if_splits)
    then show ?thesis using H(3,6) that off by (simp add: s1)
  qed
  show "tp_reap_action s = NORMAL \<and> (halting status \<or> r \<noteq> Waiting \<or> int (length data) = ?L)" if "tp_reap_action s' = NORMAL"
  proof -
    from H(7) [OF that] have N: "tp_reap_action s = NORMAL" "halting status \<or> r \<noteq> Waiting \<or> min ?L (?len - int ?k * ?L) \<le> int (length data)"
      by (simp_all add: s1)
    show ?thesis
    proof (cases "r = Waiting")
      case True
      then have "Suc ?k < m" using H(1) i O(3) by (auto simp: after_bulk_def)
      then have "(int ?k + 1) * ?L \<le> (bulk_count caps ?len - 1) * ?L" using O(4) I(4) L by (intro mult_right_mono) linarith+
      moreover have "(bulk_count caps ?len - 1) * ?L < ?len"
        using bulk_count_bounds(3,4) [OF I(1), of caps] I(1) \<open>Suc ?k < m\<close> O(4) I(4) by (cases "?len = 0") auto
      ultimately have "min ?L (?len - int ?k * ?L) = ?L" by (simp add: algebra_simps)
      then show ?thesis using N data by auto
    qed (use N in simp)
  qed
qed

lemma op_cancel_frame:
  assumes "op_cancel_transfer dis s = (r, s')"
  shows "static s' = static s \<and> tp_urbs s' = tp_urbs s \<and> k_queue s' = k_queue s \<and> u_transferred s' = u_transferred s \<and>
    x_data s' = x_data s \<and> x_heap s' = x_heap s \<and> tp_num_retired s' = tp_num_retired s \<and> tp_reap_status s' = tp_reap_status s \<and>
    (tp_reap_action s' = tp_reap_action s \<or> tp_reap_action s' = CANCELLED)"
proof -
  obtain r1 s1 where d: "discard_urbs dis 0 (nat (tp_num_urbs s)) s = (r1, s1)" by (rule prod.exhaust)
  note f = discard_simps [of dis 0 "nat (tp_num_urbs s)" s, unfolded d snd_conv]
  have "(tp_urbs s = NoUrbs \<and> s' = s) \<or> s' = s1 \<or> s' = s1\<lparr>tp_reap_action := CANCELLED\<rparr>"
    using assms d by (auto simp: op_cancel_transfer_def split: if_splits)
  then show ?thesis using f by auto
qed

lemma bulk_cancel_step:
  assumes "bulk_inv caps h (es, rs, s)" "op_cancel_transfer dis s = (r, s')"
  shows "bulk_inv caps h (es, rs, s')"
proof -
  note f = op_cancel_frame [OF assms(2)]
  note sD = staticD [of s' s]
  have "bulk_open caps h (length es) s \<Longrightarrow> bulk_open caps h (length es) s'"
    unfolding bulk_open_def using f sD by (elim exE) (intro exI, auto)
  moreover have "bulk_closed h s \<Longrightarrow> bulk_closed h s'" using f by (simp add: bulk_closed_def)
  ultimately show ?thesis using assms(1) f sD by (simp add: bulk_inv_def split: if_splits)
qed

section \<open>Invariants of the runs\<close>

text \<open>After the endpoint stopped there is no more data.\<close>

primrec halt_ok :: "(int \<times> byte list) list \<Rightarrow> bool" where
  "halt_ok [] = True"
| "halt_ok (e # es) \<longleftrightarrow> (halting (fst e) \<longrightarrow> concat (map snd es) = []) \<and> halt_ok es"

lemma halt_ok_snoc: "halt_ok (es @ [e]) \<longleftrightarrow> halt_ok es \<and> ((\<exists>f \<in> set es. halting (fst f)) \<longrightarrow> snd e = [])"
  by (induction es) auto

lemma buf_write_take: "buf_write buf off data = Some buf' \<Longrightarrow> take (off + length data) buf' = take off buf @ data"
  by (auto simp: buf_write_def split: if_splits)

lemma bulk_run_inv: "bulk_run caps True h st \<Longrightarrow> heap_ok h \<Longrightarrow> bulk_inv caps h st"
proof (induction rule: bulk_run.induct)
  case (submit s0 mx sub dis s)
  then show ?case using bulk_inv_submit by blast
next
  case (reap es rs s i q status data s1 dis r s')
  then show ?case using bulk_reap_step(1) by blast
next
  case (cancel es rs s dis r s')
  then show ?case using bulk_cancel_step by blast
qed

lemma bulk_run_data:
  assumes "bulk_run caps True h (es, rs, s)" "heap_ok h" "\<not> is_out s" "halt_ok es"
  shows "take (nat (u_transferred s)) (x_data s) = concat (map snd es) \<and>
    (rs = [] \<and> tp_reap_action s = NORMAL \<and> (\<forall>e \<in> set es. \<not> halting (fst e)) \<longrightarrow>
       u_transferred s = int (length es) * fst (bulk_buffer caps (x_length s)))"
  using assms
proof (induction "(es, rs, s)" arbitrary: es rs s rule: bulk_run.induct)
  case (submit s0 mx sub dis s)
  then have "bulk_inv caps h ([], [], s)" using bulk_inv_submit by blast
  then show ?case by (simp add: bulk_inv_def)
next
  case (reap es rs s i q status data s1 dis r s')
  let ?L = "fst (bulk_buffer caps (x_length s))"
  have inv: "bulk_inv caps h (es, rs, s)" using bulk_run_inv reap by blast
  note st = bulk_reap_step [OF inv reap(3,4) _ reap(6)]
  have ov: "status = - EOVERFLOW \<longrightarrow> int i = tp_num_urbs s - 1" using reap(5) by simp
  note st = st [OF ov]
  have s: "is_out s' = is_out s" "x_length s' = x_length s" using staticD [OF st(3)] by auto
  have IH: "take (nat (u_transferred s)) (x_data s) = concat (map snd es)"
    "rs = [] \<and> tp_reap_action s = NORMAL \<and> (\<forall>e \<in> set es. \<not> halting (fst e)) \<Longrightarrow> u_transferred s = int (length es) * ?L"
    using reap s by (auto simp: halt_ok_snoc)
  have tr: "u_transferred s = int (length (concat (map snd es)))" "u_transferred s' = u_transferred s + int (length data)"
    using inv st(1) by (auto simp: bulk_inv_def)
  have L: "0 < ?L" using bulk_buffer_pos inv by (auto simp: bulk_inv_def)
  have data: "take (nat (u_transferred s')) (x_data s') = concat (map snd es) @ data"
  proof (cases "tp_reap_action s = NORMAL")
    case True
    then have w: "buf_write (x_data s) (length es * nat ?L) data = Some (x_data s')" using st(6) reap s by simp
    have n: "nat (u_transferred s') = nat (u_transferred s) + length data" using tr by simp
    show ?thesis
    proof (cases "\<exists>f \<in> set es. halting (fst f)")
      case True
      then have "data = []" using reap(9) by (simp add: halt_ok_snoc)
      then show ?thesis using w IH(1) tr by (auto simp: buf_write_def split: if_splits)
    next
      case False
      then have "u_transferred s = int (length es) * ?L" using IH(2) True st(2) by blast
      then have "nat (u_transferred s) = length es * nat ?L" using L by (simp add: nat_mult_distrib)
      then show ?thesis using buf_write_take [OF w] IH(1) unfolding n by simp
    qed
  next
    case False
    then show ?thesis using st(7) reap s IH(1) by simp
  qed
  have "u_transferred s' = int (length (es @ [(status, data)])) * ?L"
    if "rs @ (if r = Waiting then [] else [r]) = [] \<and> tp_reap_action s' = NORMAL \<and> (\<forall>e \<in> set (es @ [(status, data)]). \<not> halting (fst e))"
  proof -
    have "tp_reap_action s = NORMAL" "int (length data) = ?L" "rs = []" using st(8) that by (auto split: if_splits)
    then show ?thesis using IH(2) that tr by (simp add: distrib_right)
  qed
  then show ?case using data s by simp
next
  case (cancel es rs s dis r s')
  note f = op_cancel_frame [OF cancel(3)]
  have "is_out s' = is_out s" "x_length s' = x_length s" using staticD [of s' s] f by auto
  then show ?case using cancel(2,4-) f by auto
qed

lemma bulk_open_queue: "bulk_open caps h k s \<Longrightarrow> k_queue s \<noteq> []"
  unfolding bulk_open_def by (metis upt_conv_Cons list.discI)

lemma usbfs_reap_returns:
  assumes "bulk_inv caps h (es, rs, s)" "k_queue s = i # q"
    and "data = [] \<or> int (length data) \<le> min (fst (bulk_buffer caps (x_length s)))
      (x_length s - int (length es) * fst (bulk_buffer caps (x_length s)))"
  shows "\<exists>s1. usbfs_reap i status data s = Some s1"
proof -
  have "bulk_open caps h (length es) s" using assms(1,2) by (auto simp: bulk_inv_def bulk_closed_def split: if_splits)
  then obtain b us m where o: "tp_urbs s = Urbs b us" "int (length us) = tp_num_urbs s" "int m \<le> tp_num_urbs s" "k_queue s = [length es..<m]"
    "\<forall>i. length es \<le> i \<and> i < m \<longrightarrow> urb_buffer (us ! i) = int i * fst (bulk_buffer caps (x_length s)) \<and>
      urb_buffer_length (us ! i) = min (fst (bulk_buffer caps (x_length s))) (x_length s - int i * fst (bulk_buffer caps (x_length s)))"
    unfolding bulk_open_def by blast
  let ?L = "fst (bulk_buffer caps (x_length s))"
  have i: "i = length es" "i < m" using upt_Cons_eq [of "length es" m i q] o(4) assms(2) by auto
  have I: "0 \<le> x_length s" "x_length s \<le> int (length (x_data s))" "tp_num_urbs s = bulk_count caps (x_length s)"
    using assms(1) by (auto simp: bulk_inv_def)
  have L: "0 < ?L" using bulk_buffer_pos I by blast
  have "int i * ?L \<le> (bulk_count caps (x_length s) - 1) * ?L" using i o(3) I(3) L by (intro mult_right_mono) linarith+
  then have off: "int i * ?L \<le> x_length s" using bulk_count_bounds(3,4) [OF I(1), of caps] I(1)
    by (cases "x_length s = 0") auto
  have u: "urb_buffer (us ! i) = int i * ?L" "urb_buffer_length (us ! i) = min ?L (x_length s - int i * ?L)" using o(5) i by auto
  have len: "int (length data) \<le> urb_buffer_length (us ! i)" using assms(3) u(2) off L i(1) by auto
  then have "int i * ?L + int (length data) \<le> int (length (x_data s))" using u off I(2) by simp
  moreover have "0 \<le> int i * ?L" using L by simp
  ultimately have "nat (urb_buffer (us ! i)) + length data \<le> length (x_data s)" unfolding u(1) by linarith
  then show ?thesis using o(1,2,3) i len by (simp add: usbfs_reap_def buf_write_def)
qed

text \<open>Whatever the kernel returns, within what was asked for, is a step of the run.\<close>

lemma bulk_run_step:
  assumes run: "bulk_run caps True h (es, rs, s)" "heap_ok h" and q: "k_queue s = i # q"
    and len: "data = [] \<or> int (length data) \<le> min (fst (bulk_buffer caps (x_length s)))
      (x_length s - int (length es) * fst (bulk_buffer caps (x_length s)))"
    and ov: "status = - EOVERFLOW \<longrightarrow> int i = tp_num_urbs s - 1"
  shows "\<exists>rs' s'. bulk_run caps True h (es @ [(status, data)], rs', s') \<and> k_queue s' = q \<and> static s' = static s"
proof -
  have inv: "bulk_inv caps h (es, rs, s)" using bulk_run_inv run by blast
  obtain s1 where s1: "usbfs_reap i status data s = Some s1" using usbfs_reap_returns [OF inv q len] by blast
  obtain r s' where r: "reap_urb (\<lambda>_. 0) i s1 = (r, s')" by (rule prod.exhaust)
  have "bulk_run caps True h (es @ [(status, data)], rs @ (if r = Waiting then [] else [r]), s')"
    using bulk_run.reap [OF run(1) q s1 _ r] ov by simp
  then show ?thesis using bulk_reap_step(3,4) [OF inv q s1 ov r] by blast
qed

lemma bulk_run_finishes:
  assumes "bulk_run caps True h (es, rs, s)" "heap_ok h"
  shows "\<exists>es' r s'. bulk_run caps True h (es @ es', [r], s') \<and> length es' = length (k_queue s)"
  using assms
proof (induction "k_queue s" arbitrary: es rs s)
  case Nil
  then obtain r where "rs = [r]" using bulk_run_inv [OF Nil(2,3)] bulk_open_queue [of caps h "length es" s]
    by (auto simp: bulk_inv_def split: if_splits)
  then show ?case using Nil by (intro exI [of _ "[]"]) auto
next
  case (Cons i q)
  obtain rs' s' where run: "bulk_run caps True h (es @ [(0, [])], rs', s')" and q: "k_queue s' = q"
    using bulk_run_step [OF Cons.prems Cons.hyps(2) [symmetric], of "[]" 0] by (auto simp: EOVERFLOW_def)
  obtain es' r' s'' where "bulk_run caps True h ((es @ [(0, [])]) @ es', [r'], s'')" "length es' = length q"
    using Cons.hyps(1) [OF q [symmetric] run Cons.prems(2)] unfolding q by blast
  moreover have "length (k_queue s) = Suc (length q)" using Cons.hyps(2) [symmetric] by simp
  ultimately show ?case by (intro exI [of _ "(0, []) # es'"] exI) auto
qed

section \<open>The status that is reported\<close>

definition urb_error :: "int \<Rightarrow> bool" where
  "urb_error status \<longleftrightarrow> status \<notin> {0, - EREMOTEIO, - ENOENT, - ECONNRESET}"

text \<open>The first URB that failed or was short, if any, was short without an error.\<close>

definition ends_well :: "int \<Rightarrow> (int \<times> byte list) list \<Rightarrow> bool" where
  "ends_well L es \<longleftrightarrow>
     (case find (\<lambda>(st, data). urb_error st \<or> int (length data) < L) es of None \<Rightarrow> True | Some (st, data) \<Rightarrow> \<not> urb_error st)"

lemma find_append: "find P (xs @ ys) = (case find P xs of None \<Rightarrow> find P ys | Some x \<Rightarrow> Some x)"
  by (induction xs) auto

lemma ends_well_snoc:
  "ends_well L es \<Longrightarrow> \<not> urb_error st \<Longrightarrow> ends_well L (es @ [(st, data)])"
  "ends_well L es \<Longrightarrow> find (\<lambda>(st, data). urb_error st \<or> int (length data) < L) es \<noteq> None \<Longrightarrow> ends_well L (es @ [e])"
  by (auto simp: ends_well_def find_append split: option.splits)

text \<open>The status and the action that a URB leaves behind.\<close>

lemma bulk_status_report:
  assumes "bulk_status status s = (v, s')" "tp_reap_action s = NORMAL"
  shows "(tp_reap_action s' = NORMAL \<or> tp_reap_action s' = ERROR) \<and> (v = Break \<longleftrightarrow> \<not> urb_error status) \<and> (v = Break \<longrightarrow> s' = s) \<and>
    (tp_reap_action s' = NORMAL \<and> urb_error status \<longrightarrow> tp_reap_status s' \<noteq> LIBUSB_TRANSFER_COMPLETED)"
  using assms by (auto simp: bulk_status_def Let_def urb_error_def usb_consts split: if_splits)

lemma cancel_remaining_report:
  assumes "cancel_remaining dis i s = (r, s')"
  shows "tp_reap_action s' = tp_reap_action s \<and>
    (tp_reap_status s' = LIBUSB_TRANSFER_COMPLETED \<longrightarrow> tp_reap_status s = LIBUSB_TRANSFER_COMPLETED \<and> tp_reap_action s \<noteq> ERROR) \<and>
    (\<forall>st. r = Completion st \<longrightarrow> st = tp_reap_status s' \<and> tp_reap_action s' \<noteq> CANCELLED)"
  using assms
  by (auto simp: cancel_remaining_def bulk_completed_def Let_def free_urbs_def usb_consts split: if_splits urb_array.splits)

lemma handle_bulk_report:
  assumes h: "handle_bulk_completion dis i s = (r, s')" and U: "tp_urbs s = Urbs b us" "i < length us"
  defines "u \<equiv> us ! i"
  shows "tp_reap_status s' = LIBUSB_TRANSFER_COMPLETED \<Longrightarrow> tp_reap_action s = NORMAL \<Longrightarrow>
      tp_reap_status s = LIBUSB_TRANSFER_COMPLETED \<and> \<not> urb_error (urb_status u)"
    and "r = Completion st \<Longrightarrow> st = tp_reap_status s' \<and> tp_reap_action s' \<noteq> CANCELLED"
    and "r = Completion st \<Longrightarrow> tp_reap_action s \<noteq> NORMAL \<Longrightarrow> st = LIBUSB_TRANSFER_COMPLETED \<Longrightarrow> tp_reap_action s = COMPLETED_EARLY"
    and "tp_reap_action s \<noteq> NORMAL \<Longrightarrow> tp_reap_action s' = tp_reap_action s"
    and "tp_reap_action s \<noteq> NORMAL \<Longrightarrow> tp_reap_status s' = LIBUSB_TRANSFER_COMPLETED \<Longrightarrow> tp_reap_status s = LIBUSB_TRANSFER_COMPLETED"
    and "tp_reap_action s = NORMAL \<Longrightarrow> tp_reap_action s' \<in> {NORMAL, COMPLETED_EARLY, ERROR} \<and>
      (tp_reap_action s' = COMPLETED_EARLY \<longrightarrow> urb_actual_length u < urb_buffer_length u)"
proof -
  let ?s = "s\<lparr>tp_num_retired := tp_num_retired s + 1\<rparr>"
  have N: "tp_reap_action s = NORMAL \<Longrightarrow> bulk_normal dis i u ?s = (r, s')"
    and A: "tp_reap_action s \<noteq> NORMAL \<Longrightarrow> bulk_abnormal u ?s = (r, s')"
    using h U by (simp_all add: handle_bulk_completion_def Let_def u_def)
  obtain v s1 where v: "bulk_status (urb_status u) (?s\<lparr>u_transferred := u_transferred ?s + urb_actual_length u\<rparr>) = (v, s1)"
    by (rule prod.exhaust)
  have comp: "tp_reap_action s' = tp_reap_action t \<and> tp_reap_status s' = tp_reap_status t \<and>
      (\<forall>st. r = Completion st \<longrightarrow> st = tp_reap_status s' \<and> tp_reap_action s' \<noteq> CANCELLED)"
    if "bulk_completed t = (r, s')" for t
    using that by (auto simp: bulk_completed_def free_urbs_def split: if_splits urb_array.splits)
  have N': "(tp_reap_status s' = LIBUSB_TRANSFER_COMPLETED \<longrightarrow> tp_reap_status s = LIBUSB_TRANSFER_COMPLETED \<and> \<not> urb_error (urb_status u)) \<and>
      (\<forall>st. r = Completion st \<longrightarrow> st = tp_reap_status s' \<and> tp_reap_action s' \<noteq> CANCELLED) \<and>
      tp_reap_action s' \<in> {NORMAL, COMPLETED_EARLY, ERROR} \<and>
      (tp_reap_action s' = COMPLETED_EARLY \<longrightarrow> urb_actual_length u < urb_buffer_length u)"
    if n: "tp_reap_action s = NORMAL"
  proof -
    have n1: "tp_reap_action (?s\<lparr>u_transferred := u_transferred ?s + urb_actual_length u\<rparr>) = NORMAL" using n by simp
    note b = bulk_status_report [OF v n1]
    show ?thesis
    proof (cases v)
      case Completed
      then have c: "bulk_completed s1 = (r, s')" using N [OF n] v by (simp add: bulk_normal_def)
      have "urb_status u = - EOVERFLOW" using bulk_status_frame [OF v] Completed by blast
      then have "tp_reap_action s1 = NORMAL" using v n by (auto simp: bulk_status_def Let_def usb_consts split: if_splits)
      then show ?thesis using comp [OF c] b Completed by auto
    next
      case Cancel_Remaining
      then have c: "cancel_remaining dis i s1 = (r, s')" using N [OF n] v by (simp add: bulk_normal_def)
      note cr = cancel_remaining_report [OF c]
      have "urb_error (urb_status u)" using b Cancel_Remaining by blast
      then have "tp_reap_status s' \<noteq> LIBUSB_TRANSFER_COMPLETED" "tp_reap_action s' = NORMAL \<or> tp_reap_action s' = ERROR"
        using cr b by (blast, metis)
      moreover have "\<forall>st. r = Completion st \<longrightarrow> st = tp_reap_status s' \<and> tp_reap_action s' \<noteq> CANCELLED" using cr by blast
      ultimately show ?thesis by auto
    next
      case Break
      then have e: "\<not> urb_error (urb_status u)" "s1 = ?s\<lparr>u_transferred := u_transferred ?s + urb_actual_length u\<rparr>" using b by auto
      have n2: "tp_reap_action s1 = NORMAL" using e n by simp
      have nb: "(if int i = tp_num_urbs s1 - 1 then bulk_completed s1
         else if urb_actual_length u < urb_buffer_length u then
           cancel_remaining dis i (if tp_reap_action s1 = NORMAL then s1\<lparr>tp_reap_action := COMPLETED_EARLY\<rparr> else s1)
         else (Waiting, s1)) = (r, s')"
        using N [OF n] v Break by (simp only: bulk_normal_def prod.case bulk_next.case)
      have st: "tp_reap_status s1 = tp_reap_status s" using e(2) by simp
      consider "bulk_completed s1 = (r, s')"
        | "urb_actual_length u < urb_buffer_length u" "cancel_remaining dis i (s1\<lparr>tp_reap_action := COMPLETED_EARLY\<rparr>) = (r, s')"
        | "r = Waiting" "s' = s1"
      proof (cases "int i = tp_num_urbs s1 - 1")
        case True
        then show thesis using nb that(1) by simp
      next
        case False
        then show thesis using nb n2 that(2,3) by (cases "urb_actual_length u < urb_buffer_length u") simp_all
      qed
      then show ?thesis
      proof cases
        case 1
        then show ?thesis using comp [OF 1] e(1) n2 st by auto
      next
        case 2
        then show ?thesis using cancel_remaining_report [OF 2(2)] e(1) 2(1) st by simp
      next
        case 3
        then show ?thesis using e(1) n2 st by simp
      qed
    qed
  qed
  show "tp_reap_status s' = LIBUSB_TRANSFER_COMPLETED \<Longrightarrow> tp_reap_action s = NORMAL \<Longrightarrow>
      tp_reap_status s = LIBUSB_TRANSFER_COMPLETED \<and> \<not> urb_error (urb_status u)" using N' by blast
  show "tp_reap_action s = NORMAL \<Longrightarrow> tp_reap_action s' \<in> {NORMAL, COMPLETED_EARLY, ERROR} \<and>
      (tp_reap_action s' = COMPLETED_EARLY \<longrightarrow> urb_actual_length u < urb_buffer_length u)" using N' by blast
  have S: "tp_reap_action t = tp_reap_action ?s \<and> tp_reap_status t = tp_reap_status ?s" if "bulk_surplus u ?s = Some t" for t
    using that by (auto simp: bulk_surplus_def split: if_splits option.splits)
  have A': "(\<forall>st. r = Completion st \<longrightarrow> st = tp_reap_status s' \<and> tp_reap_action s' \<noteq> CANCELLED) \<and>
      (\<forall>st. r = Completion st \<and> st = LIBUSB_TRANSFER_COMPLETED \<longrightarrow> tp_reap_action s = COMPLETED_EARLY) \<and>
      tp_reap_action s' = tp_reap_action s \<and>
      (tp_reap_status s' = LIBUSB_TRANSFER_COMPLETED \<longrightarrow> tp_reap_status s = LIBUSB_TRANSFER_COMPLETED)"
    if "tp_reap_action s \<noteq> NORMAL"
  proof (cases "bulk_surplus u ?s")
    case None
    then show ?thesis using A [OF that] by (auto simp: bulk_abnormal_def)
  next
    case (Some t)
    note c = S [OF this]
    show ?thesis
    proof (cases "tp_num_retired t = tp_num_urbs t")
      case True
      then have d: "bulk_completed (if tp_reap_action t \<noteq> COMPLETED_EARLY \<and> tp_reap_status t = LIBUSB_TRANSFER_COMPLETED
             then t\<lparr>tp_reap_status := LIBUSB_TRANSFER_ERROR\<rparr> else t) = (r, s')"
        using A [OF that] Some by (simp add: bulk_abnormal_def)
      define t' where "t' = (if tp_reap_action t \<noteq> COMPLETED_EARLY \<and> tp_reap_status t = LIBUSB_TRANSFER_COMPLETED
             then t\<lparr>tp_reap_status := LIBUSB_TRANSFER_ERROR\<rparr> else t)"
      note d = d [folded t'_def]
      have t': "tp_reap_action t' = tp_reap_action t"
        "tp_reap_status t' = LIBUSB_TRANSFER_COMPLETED \<longrightarrow> tp_reap_status t = LIBUSB_TRANSFER_COMPLETED \<and> tp_reap_action t = COMPLETED_EARLY"
        by (auto simp: t'_def LIBUSB_TRANSFER_ERROR_def LIBUSB_TRANSFER_COMPLETED_def)
      have a: "tp_reap_action s' = tp_reap_action t'" "tp_reap_status s' = tp_reap_status t'" using comp [OF d] by blast+
      have f: "tp_reap_action s' = tp_reap_action s"
        "tp_reap_status s' = LIBUSB_TRANSFER_COMPLETED \<longrightarrow> tp_reap_status s = LIBUSB_TRANSFER_COMPLETED \<and> tp_reap_action s = COMPLETED_EARLY"
        unfolding a using t' c by simp_all
      have g: "st = tp_reap_status s' \<and> tp_reap_action s' \<noteq> CANCELLED" if "r = Completion st" for st
        using comp [OF d] that by blast
      show ?thesis
      proof (intro conjI allI impI)
        show "tp_reap_action s = COMPLETED_EARLY" if "r = Completion st \<and> st = LIBUSB_TRANSFER_COMPLETED" for st
          using g [of st] f(2) that by simp
      qed (use f g in simp_all)
    next
      case False
      then have "r = Waiting" "s' = t" using A [OF that] Some by (simp_all add: bulk_abnormal_def)
      then show ?thesis using c by simp
    qed
  qed
  show "r = Completion st \<Longrightarrow> st = tp_reap_status s' \<and> tp_reap_action s' \<noteq> CANCELLED" using N' A' by (cases "tp_reap_action s = NORMAL") blast+
  show "r = Completion st \<Longrightarrow> tp_reap_action s \<noteq> NORMAL \<Longrightarrow> st = LIBUSB_TRANSFER_COMPLETED \<Longrightarrow> tp_reap_action s = COMPLETED_EARLY"
    "tp_reap_action s \<noteq> NORMAL \<Longrightarrow> tp_reap_action s' = tp_reap_action s"
    "tp_reap_action s \<noteq> NORMAL \<Longrightarrow> tp_reap_status s' = LIBUSB_TRANSFER_COMPLETED \<Longrightarrow> tp_reap_status s = LIBUSB_TRANSFER_COMPLETED"
    using A' by blast+
qed

text \<open>The status while URBs are outstanding, when the kernel has taken all of them.\<close>

definition report_inv :: "u32 \<Rightarrow> (int \<times> byte list) list \<times> reaped list \<times> linux_transfer \<Rightarrow> bool" where
  "report_inv caps st \<longleftrightarrow> (case st of (es, rs, s) \<Rightarrow>
     let L = fst (bulk_buffer caps (x_length s)) in
     (rs = [] \<and> int (length es + length (k_queue s)) = tp_num_urbs s \<longrightarrow>
        (tp_reap_action s = NORMAL \<and> tp_reap_status s = LIBUSB_TRANSFER_COMPLETED \<longrightarrow>
           (\<forall>(st, data) \<in> set es. \<not> urb_error st \<and> int (length data) = L)) \<and>
        (tp_reap_action s = COMPLETED_EARLY \<and> tp_reap_status s = LIBUSB_TRANSFER_COMPLETED \<longrightarrow>
           ends_well L es \<and> find (\<lambda>(st, data). urb_error st \<or> int (length data) < L) es \<noteq> None)) \<and>
     (rs = [Completion LIBUSB_TRANSFER_COMPLETED] \<and> int (length es) = tp_num_urbs s \<longrightarrow> ends_well L es))"

lemma ends_well_full: "(\<forall>(st, data) \<in> set es. \<not> urb_error st \<and> int (length data) = L) \<Longrightarrow>
    ends_well L es \<and> find (\<lambda>(st, data). urb_error st \<or> int (length data) < L) es = None"
proof -
  assume "\<forall>(st, data) \<in> set es. \<not> urb_error st \<and> int (length data) = L"
  then have "find (\<lambda>(st, data). urb_error st \<or> int (length data) < L) es = None" by (auto simp: find_None_iff)
  then show ?thesis by (simp add: ends_well_def)
qed

lemma bulk_reap_report:
  assumes inv: "bulk_inv caps h (es, rs, s)" and q: "k_queue s = i # q" and k: "usbfs_reap i status data s = Some s1"
    and r: "reap_urb dis i s1 = (r, s')"
  shows "tp_reap_status s' = LIBUSB_TRANSFER_COMPLETED \<Longrightarrow> tp_reap_action s = NORMAL \<Longrightarrow>
      tp_reap_status s = LIBUSB_TRANSFER_COMPLETED \<and> \<not> urb_error status"
    and "r = Completion st \<Longrightarrow> st = tp_reap_status s' \<and> tp_reap_action s' \<noteq> CANCELLED"
    and "r = Completion st \<Longrightarrow> tp_reap_action s \<noteq> NORMAL \<Longrightarrow> st = LIBUSB_TRANSFER_COMPLETED \<Longrightarrow> tp_reap_action s = COMPLETED_EARLY"
    and "tp_reap_action s \<noteq> NORMAL \<Longrightarrow> tp_reap_action s' = tp_reap_action s"
    and "tp_reap_action s \<noteq> NORMAL \<Longrightarrow> tp_reap_status s' = LIBUSB_TRANSFER_COMPLETED \<Longrightarrow> tp_reap_status s = LIBUSB_TRANSFER_COMPLETED"
    and "tp_reap_action s = NORMAL \<Longrightarrow> tp_reap_action s' = COMPLETED_EARLY \<Longrightarrow> int (length data) < fst (bulk_buffer caps (x_length s))"
proof -
  have o: "bulk_open caps h (length es) s" using inv q by (auto simp: bulk_inv_def bulk_closed_def split: if_splits)
  obtain b us m where O: "tp_urbs s = Urbs b us" "int (length us) = tp_num_urbs s" "int m \<le> tp_num_urbs s" "k_queue s = [length es..<m]"
    "\<forall>i. length es \<le> i \<and> i < m \<longrightarrow> urb_buffer (us ! i) = int i * fst (bulk_buffer caps (x_length s)) \<and>
      urb_buffer_length (us ! i) = min (fst (bulk_buffer caps (x_length s))) (x_length s - int i * fst (bulk_buffer caps (x_length s)))"
    using o unfolding bulk_open_def by blast
  have i: "i = length es" "i < m" using upt_Cons_eq [of "length es" m i q] O(4) q by auto
  have ik: "i < length us" using i O(2,3) by linarith
  define u where "u = (us ! i)\<lparr>urb_status := status, urb_actual_length := int (length data)\<rparr>"
  obtain d where s1: "s1 = s\<lparr>tp_urbs := Urbs b (us[i := u]), x_data := d, k_queue := q\<rparr>"
    using usbfs_reap_Urbs [OF k O(1) ik q] unfolding u_def by blast
  have "bulk_type (x_type s)" using inv by (simp add: bulk_inv_def)
  then have h: "handle_bulk_completion dis i s1 = (r, s')"
    using r by (simp add: reap_urb_def s1 bulk_type_def) (auto simp: usb_consts)
  have U: "tp_urbs s1 = Urbs b (us[i := u])" "i < length (us[i := u])" using ik by (simp_all add: s1)
  have e: "us[i := u] ! i = u" "urb_status u = status" "urb_actual_length u = int (length data)"
    "tp_reap_status s1 = tp_reap_status s" "tp_reap_action s1 = tp_reap_action s" using ik by (simp_all add: u_def s1)
  have bl: "urb_buffer_length u \<le> fst (bulk_buffer caps (x_length s))" using O(5) i by (simp add: u_def)
  note H = handle_bulk_report [OF h U, unfolded e]
  show "tp_reap_status s' = LIBUSB_TRANSFER_COMPLETED \<Longrightarrow> tp_reap_action s = NORMAL \<Longrightarrow>
      tp_reap_status s = LIBUSB_TRANSFER_COMPLETED \<and> \<not> urb_error status" by (rule H(1))
  show "r = Completion st \<Longrightarrow> st = tp_reap_status s' \<and> tp_reap_action s' \<noteq> CANCELLED" by (rule H(2))
  show "r = Completion st \<Longrightarrow> tp_reap_action s \<noteq> NORMAL \<Longrightarrow> st = LIBUSB_TRANSFER_COMPLETED \<Longrightarrow> tp_reap_action s = COMPLETED_EARLY"
    by (rule H(3))
  show "tp_reap_action s \<noteq> NORMAL \<Longrightarrow> tp_reap_action s' = tp_reap_action s" by (rule H(4))
  show "tp_reap_action s \<noteq> NORMAL \<Longrightarrow> tp_reap_status s' = LIBUSB_TRANSFER_COMPLETED \<Longrightarrow> tp_reap_status s = LIBUSB_TRANSFER_COMPLETED"
    by (rule H(5))
  show "tp_reap_action s = NORMAL \<Longrightarrow> tp_reap_action s' = COMPLETED_EARLY \<Longrightarrow> int (length data) < fst (bulk_buffer caps (x_length s))"
    using H(6) bl by simp
qed

lemma report_inv_step:
  assumes inv: "bulk_inv caps h (es, rs, s)" and IH: "report_inv caps (es, rs, s)" and q: "k_queue s = i # q"
    and k: "usbfs_reap i status data s = Some s1"
    and ov: "status = - EOVERFLOW \<longrightarrow> int i = tp_num_urbs s - 1" and r: "reap_urb dis i s1 = (r, s')"
  shows "report_inv caps (es @ [(status, data)], rs @ (if r = Waiting then [] else [r]), s')"
proof -
  let ?L = "fst (bulk_buffer caps (x_length s))" and ?P = "\<lambda>(st, data). urb_error st \<or> int (length data) < fst (bulk_buffer caps (x_length s))"
  note st = bulk_reap_step [OF inv q k ov r]
  note rp = bulk_reap_report [OF inv q k r]
  have sD: "x_length s' = x_length s" "tp_num_urbs s' = tp_num_urbs s" using staticD [OF st(3)] by simp_all
  have full: "\<forall>(st, data) \<in> set es. \<not> urb_error st \<and> int (length data) = ?L"
    if "int (Suc (length es + length q)) = tp_num_urbs s" "tp_reap_action s = NORMAL" "tp_reap_status s = LIBUSB_TRANSFER_COMPLETED"
    using IH st(2) q that by (auto simp: report_inv_def Let_def)
  have early: "ends_well ?L es" "find ?P es \<noteq> None"
    if "int (Suc (length es + length q)) = tp_num_urbs s" "tp_reap_action s = COMPLETED_EARLY" "tp_reap_status s = LIBUSB_TRANSFER_COMPLETED"
    using IH st(2) q that by (auto simp: report_inv_def Let_def)
  have he: "halting status \<Longrightarrow> urb_error status" by (auto simp: halting_def urb_error_def usb_consts)
  have end_ok: "ends_well ?L (es @ [(status, data)])"
    if "int (Suc (length es + length q)) = tp_num_urbs s" "tp_reap_status s' = LIBUSB_TRANSFER_COMPLETED"
      "tp_reap_action s = NORMAL \<or> tp_reap_action s = COMPLETED_EARLY"
    using that(3)
  proof
    assume n: "tp_reap_action s = NORMAL"
    note e = rp(1) [OF that(2) n]
    show ?thesis using ends_well_snoc(1) ends_well_full [OF full [OF that(1) n]] e by blast
  next
    assume c: "tp_reap_action s = COMPLETED_EARLY"
    then have "tp_reap_status s = LIBUSB_TRANSFER_COMPLETED" using rp(5) that(2) by simp
    then show ?thesis using ends_well_snoc(2) early that(1) c by blast
  qed
  show ?thesis
  proof (cases "r = Waiting")
    case True
    have 1: "\<forall>(st, data) \<in> set (es @ [(status, data)]). \<not> urb_error st \<and> int (length data) = ?L"
      if "int (Suc (length es + length q)) = tp_num_urbs s" "tp_reap_action s' = NORMAL" "tp_reap_status s' = LIBUSB_TRANSFER_COMPLETED"
    proof -
      have n: "tp_reap_action s = NORMAL" "halting status \<or> int (length data) = ?L" using st(8) [OF that(2)] True by simp_all
      show ?thesis using full [OF that(1) n(1)] rp(1) [OF that(3) n(1)] n(2) he by auto
    qed
    have 2: "ends_well ?L (es @ [(status, data)]) \<and> find ?P (es @ [(status, data)]) \<noteq> None"
      if "int (Suc (length es + length q)) = tp_num_urbs s" "tp_reap_action s' = COMPLETED_EARLY" "tp_reap_status s' = LIBUSB_TRANSFER_COMPLETED"
    proof (cases "tp_reap_action s = NORMAL")
      case True
      then show ?thesis using end_ok that rp(6) by (simp add: find_append split: option.split)
    next
      case False
      then have c: "tp_reap_action s = COMPLETED_EARLY" using rp(4) that(2) by simp
      moreover have "tp_reap_status s = LIBUSB_TRANSFER_COMPLETED" using rp(5) that(3) False by simp
      ultimately show ?thesis using early(2) [OF that(1)] end_ok that by (auto simp: find_append)
    qed
    show ?thesis using True st(2,4) sD 1 2 by (simp add: report_inv_def Let_def)
  next
    case False
    have "q = []" using st(1,4) False by (auto simp: bulk_inv_def bulk_closed_def split: if_splits)
    moreover have "tp_reap_status s' = LIBUSB_TRANSFER_COMPLETED \<and> (tp_reap_action s = NORMAL \<or> tp_reap_action s = COMPLETED_EARLY)"
      if "r = Completion LIBUSB_TRANSFER_COMPLETED" using rp(2) [OF that] rp(3) [OF that] by auto
    ultimately show ?thesis using False st(2) sD end_ok by (auto simp: report_inv_def Let_def)
  qed
qed

lemma report_inv_run: "bulk_run caps True h st \<Longrightarrow> heap_ok h \<Longrightarrow> report_inv caps st"
proof (induction rule: bulk_run.induct)
  case (submit s0 mx sub dis s)
  then have "int (length (k_queue s)) = tp_num_urbs s \<longrightarrow> tp_reap_action s = NORMAL" using bulk_inv_submit by blast
  then show ?case by (auto simp: report_inv_def Let_def)
next
  case (reap es rs s i q status data s1 dis r s')
  have "bulk_inv caps h (es, rs, s)" using bulk_run_inv reap.hyps(1) reap.prems by blast
  then show ?case using report_inv_step reap by blast
next
  case (cancel es rs s dis r s')
  note f = op_cancel_frame [OF cancel(2)]
  have "x_length s' = x_length s" "tp_num_urbs s' = tp_num_urbs s" using staticD [of s' s] f by auto
  then show ?case using cancel(3,4) f by (auto simp: report_inv_def Let_def)
qed

end
