(* ===== verification/Usbfs_Iso.thy ===== *)
theory Usbfs_Iso
  imports Usbfs_Runs
begin

text \<open>
  Isochronous transfers of the Linux backend: how the packets are cut into URBs of at most 128, where their data is, who
  owns the blocks, and the results of the packets from submission to report.
\<close>

section \<open>Packets and their URBs\<close>

text \<open>The packets of a URB, and the bytes before it.\<close>

definition iso_chunk :: "nat \<Rightarrow> 'a list \<Rightarrow> 'a list" where
  "iso_chunk i ds = take 128 (drop (128 * i) ds)"

definition iso_bytes :: "libusb_iso_packet_descriptor list \<Rightarrow> nat" where
  "iso_bytes ds = sum_list (map (unat \<circ> ip_length) ds)"

lemma iso_bytes_append [simp]: "iso_bytes (xs @ ys) = iso_bytes xs + iso_bytes ys"
  by (simp add: iso_bytes_def)

lemma iso_bytes_le: "iso_bytes (take n ds) \<le> iso_bytes ds"
  using iso_bytes_append [of "take n ds" "drop n ds"] by simp

lemma word_sum_list: "sum_list (map ip_length ds) = word_of_nat (iso_bytes ds)"
  by (induction ds) (simp_all add: iso_bytes_def)

lemma sint_of_nat_small: "n < 2 ^ 31 \<Longrightarrow> sint (word_of_nat n :: u32) = int n"
  by (simp add: signed_of_nat signed_take_bit_int_eq_self)

lemma iso_total_some: "iso_total mx ds t = Some t' \<Longrightarrow> t' = t + word_of_nat (iso_bytes ds) \<and> (\<forall>d \<in> set ds. ip_length d \<le> mx)"
proof (induction ds arbitrary: t)
  case (Cons d ds)
  then have "iso_total mx ds (t + ip_length d) = Some t'" "ip_length d \<le> mx" by (auto split: if_splits)
  with Cons.IH [of "t + ip_length d"] show ?case by (simp add: iso_bytes_def add.assoc)
qed (simp add: iso_bytes_def)

lemma iso_urb_fields:
  "urb_buffer (iso_urb ep buf ds) = buf" "urb_buffer_length (iso_urb ep buf ds) = sint (sum_list (map ip_length ds))"
  "number_of_packets (iso_urb ep buf ds) = int (length ds)" "map iso_length (iso_frame_desc (iso_urb ep buf ds)) = map ip_length ds"
  "length (iso_frame_desc (iso_urb ep buf ds)) = length ds"
  by (simp_all add: iso_urb_def calloc_urb_def comp_def)

primrec iso_offset :: "libusb_iso_packet_descriptor list \<Rightarrow> nat \<Rightarrow> int" where
  "iso_offset ds 0 = 0"
| "iso_offset ds (Suc i) = iso_offset ds i + sint (sum_list (map ip_length (iso_chunk i ds)))"

lemma iso_offset_bytes: "iso_bytes ds < 2 ^ 31 \<Longrightarrow> iso_offset ds i = int (iso_bytes (take (128 * i) ds))"
proof (induction i)
  case 0
  then show ?case by (simp add: iso_bytes_def)
next
  case (Suc i)
  have t: "take (128 * Suc i) ds = take (128 * i) ds @ iso_chunk i ds"
    by (simp add: iso_chunk_def take_add [symmetric] add.commute)
  have "iso_bytes (iso_chunk i ds) < 2 ^ 31"
    using Suc.prems iso_bytes_le [of "128 * Suc i" ds] unfolding t by simp
  then have "sint (sum_list (map ip_length (iso_chunk i ds))) = int (iso_bytes (iso_chunk i ds))"
    by (simp add: word_sum_list sint_of_nat_small)
  then show ?case using Suc unfolding t by simp
qed

section \<open>Allocation\<close>

lemma iso_blocks_snoc: "iso_blocks (map Some bus @ replicate n None) = map fst bus"
  by (induction bus) (auto simp: case_prod_beta, cases n, simp_all)

text \<open>The URBs of the packets \<open>ds\<close>, in the blocks \<open>bs\<close>.\<close>

definition iso_urbs_of :: "byte \<Rightarrow> libusb_iso_packet_descriptor list \<Rightarrow> nat list \<Rightarrow> (nat \<times> usbfs_urb) list" where
  "iso_urbs_of ep ds bs = map (\<lambda>i. (bs ! i, iso_urb ep (iso_offset ds i) (iso_chunk i ds))) [0..<length bs]"

lemma iso_urbs_of_snoc:
  "iso_urbs_of ep ds (bs @ [b]) = iso_urbs_of ep ds bs @ [(b, iso_urb ep (iso_offset ds (length bs)) (iso_chunk (length bs) ds))]"
  by (simp add: iso_urbs_of_def nth_append)

lemma iso_urbs_of_blocks [simp]: "map fst (iso_urbs_of ep ds bs) = bs" "length (iso_urbs_of ep ds bs) = length bs"
  by (simp_all add: iso_urbs_of_def comp_def map_nth)

lemma iso_alloc_loop_result:
  assumes "iso_alloc_loop [j..<n] (drop (128 * j) ds) (iso_offset ds j) s = (r, s')" "j \<le> n"
    and "tp_urbs s = IsoUrbs b (map Some (iso_urbs_of (x_endpoint s) ds bs) @ replicate (n - j) None)" "length bs = j"
    and "owned (b # bs) (x_heap s) A"
  shows "if r = 0 then \<exists>bs' h. length bs' = n \<and>
      s' = s\<lparr>tp_urbs := IsoUrbs b (map Some (iso_urbs_of (x_endpoint s) ds bs')), x_heap := h\<rparr> \<and> owned (b # bs') h A
    else r = LIBUSB_ERROR_NO_MEM \<and> (\<exists>h. s' = s\<lparr>tp_urbs := NoUrbs, x_heap := h\<rparr> \<and> owned [] h A)"
  using assms
proof (induction "n - j" arbitrary: j s bs)
  case 0
  then have j: "j = n" by simp
  have "s = s\<lparr>tp_urbs := IsoUrbs b (map Some (iso_urbs_of (x_endpoint s) ds bs)), x_heap := x_heap s\<rparr>"
    by (rule linux_transfer.equality) (simp_all add: 0(4) j)
  then have "s' = s\<lparr>tp_urbs := IsoUrbs b (map Some (iso_urbs_of (x_endpoint s) ds bs)), x_heap := x_heap s\<rparr>" "r = 0"
    using 0(2) by (simp_all add: j)
  moreover have "length bs = n" "owned (b # bs) (x_heap s) A" using 0(5,6) j by simp_all
  ultimately show ?case by (simp only: if_True simp_thms) blast
next
  case (Suc x)
  then have j: "j < n" "[j..<n] = j # [Suc j..<n]" "n - j = Suc (n - Suc j)" by (simp_all add: upt_conv_Cons)
  obtain p h' where m: "malloc (x_heap s) = (p, h')" by (rule prod.exhaust)
  note o = owned_malloc [OF m Suc.prems(5)]
  show ?case
  proof (cases p)
    case None
    have "owned (bs @ [b]) h' A" using o None by (simp add: opt_list_def owned_perm)
    then have "owned [] (free (Some b) (free_list bs h')) A" using owned_free_list owned_free_front by blast
    moreover have "r = LIBUSB_ERROR_NO_MEM" "s' = s\<lparr>tp_urbs := NoUrbs, x_heap := free (Some b) (free_list bs h')\<rparr>"
      using Suc.prems(1) m None Suc.prems(3)
      by (auto simp: j(2) free_iso_urbs_def iso_blocks_snoc intro!: linux_transfer.equality)
    ultimately show ?thesis by (auto simp: LIBUSB_ERROR_NO_MEM_def)
  next
    case (Some b')
    let ?ds = "drop (128 * j) ds"
    let ?n = "nat (min (int (length ?ds)) MAX_ISO_PACKETS_PER_URB)"
    have c: "take ?n ?ds = iso_chunk j ds" "drop ?n ?ds = drop (128 * Suc j) ds"
      by (simp_all add: iso_chunk_def MAX_ISO_PACKETS_PER_URB_def min_def add.commute)
    let ?u = "iso_urb (x_endpoint s) (iso_offset ds j) (iso_chunk j ds)"
    let ?s = "s\<lparr>x_heap := h', tp_urbs := IsoUrbs b (map Some (iso_urbs_of (x_endpoint s) ds (bs @ [b'])) @ replicate (n - Suc j) None)\<rparr>"
    have up: "set_iso_urb j (b', ?u) (s\<lparr>x_heap := h'\<rparr>) = ?s"
      using Suc.prems(3,4) by (simp add: set_iso_urb_def j(3) iso_urbs_of_snoc list_update_append)
    have "iso_alloc_loop [Suc j..<n] (drop (128 * Suc j) ds) (iso_offset ds (Suc j)) ?s = (r, s')"
      using Suc.prems(1) m Some c up unfolding j(2) by (simp add: Let_def iso_urb_fields)
    then have "if r = 0 then \<exists>bs' h. length bs' = n \<and>
      s' = ?s\<lparr>tp_urbs := IsoUrbs b (map Some (iso_urbs_of (x_endpoint ?s) ds bs')), x_heap := h\<rparr> \<and> owned (b # bs') h A
      else r = LIBUSB_ERROR_NO_MEM \<and> (\<exists>h. s' = ?s\<lparr>tp_urbs := NoUrbs, x_heap := h\<rparr> \<and> owned [] h A)"
    proof (rule Suc.hyps(1) [rotated])
      show "owned (b # bs @ [b']) (x_heap ?s) A" using o Some by (simp add: opt_list_def owned_perm)
    qed (use Suc.hyps(2) Suc.prems(4) j in simp_all)
    then show ?thesis by (cases "r = 0") auto
  qed
qed

section \<open>Submission\<close>

text \<open>What the submission of the URBs, and a URB that comes back, leave alone.\<close>

definition iso_static :: "linux_transfer \<Rightarrow> byte \<times> byte \<times> int \<times> int \<times> int" where
  "iso_static s = (x_type s, x_endpoint s, x_length s, num_iso_packets s, tp_num_urbs s)"

lemma iso_static_simps [simp]:
  "iso_static (s\<lparr>tp_urbs := ub\<rparr>) = iso_static s" "iso_static (s\<lparr>tp_reap_action := a\<rparr>) = iso_static s"
  "iso_static (s\<lparr>tp_num_retired := n\<rparr>) = iso_static s" "iso_static (s\<lparr>x_heap := h\<rparr>) = iso_static s"
  "iso_static (s\<lparr>k_queue := q\<rparr>) = iso_static s" "iso_static (s\<lparr>k_discarded := q\<rparr>) = iso_static s"
  "iso_static (s\<lparr>iso_packet_desc := ds\<rparr>) = iso_static s" "iso_static (s\<lparr>tp_iso_packet_offset := n\<rparr>) = iso_static s"
  by (simp_all add: iso_static_def)

lemma iso_staticD: "iso_static s' = iso_static s \<Longrightarrow> x_type s' = x_type s \<and> x_endpoint s' = x_endpoint s \<and> x_length s' = x_length s \<and>
    num_iso_packets s' = num_iso_packets s \<and> tp_num_urbs s' = tp_num_urbs s"
  by (simp add: iso_static_def)

lemma discard_iso [simp]:
  fixes s :: linux_transfer and dis :: "nat \<Rightarrow> int" and a l :: nat
  defines "s' \<equiv> snd (discard_urbs dis a l s)"
  shows "iso_static s' = iso_static s" "iso_packet_desc s' = iso_packet_desc s" "tp_iso_packet_offset s' = tp_iso_packet_offset s"
  using discard_frame [of dis a l s] by (auto simp: s'_def)

lemma free_iso_owned:
  assumes "tp_urbs s = IsoUrbs b (map Some bus)" "owned (b # map fst bus) (x_heap s) A"
  shows "owned [] (x_heap (free_iso_urbs s)) A"
proof -
  have "owned (map fst bus @ [b]) (x_heap s) A" using assms(2) by (simp add: owned_perm)
  then show ?thesis
    using assms(1) iso_blocks_snoc [of bus 0] owned_free_list owned_free_front by (simp add: free_iso_urbs_def)
qed

lemma free_iso_simps [simp]:
  "iso_static (free_iso_urbs s) = iso_static s" "k_queue (free_iso_urbs s) = k_queue s"
  "iso_packet_desc (free_iso_urbs s) = iso_packet_desc s" "tp_reap_action (free_iso_urbs s) = tp_reap_action s"
  "tp_urbs s = IsoUrbs b ps \<Longrightarrow> tp_urbs (free_iso_urbs s) = NoUrbs"
  by (simp_all add: free_iso_urbs_def split: urb_array.split)

definition submitted_iso :: "nat \<Rightarrow> nat \<Rightarrow> linux_transfer \<Rightarrow> linux_transfer \<Rightarrow> bool" where
  "submitted_iso n m s s' \<longleftrightarrow> iso_static s' = iso_static s \<and> iso_packet_desc s' = iso_packet_desc s \<and>
     tp_iso_packet_offset s' = tp_iso_packet_offset s \<and> tp_urbs s' = tp_urbs s \<and> x_heap s' = x_heap s \<and>
     m \<le> n \<and> (m = 0 \<longrightarrow> n = 0) \<and> k_queue s' = [0..<m] \<and> tp_num_retired s' = int (n - m) \<and>
     (tp_reap_action s' = NORMAL \<longleftrightarrow> m = n)"

lemma iso_submit_loop_result:
  assumes "iso_submit_loop sub dis (int n) [j..<n] s = (r, s')" "j \<le> n"
    and "k_queue s = [0..<j]" "tp_reap_action s = NORMAL" "tp_num_retired s = 0"
    and "tp_urbs s = IsoUrbs b (map Some bus)" "owned (b # map fst bus) (x_heap s) A"
  shows "if r = 0 then \<exists>m. submitted_iso n m s s' else r < 0 \<and> tp_urbs s' = NoUrbs \<and> k_queue s' = [] \<and> owned [] (x_heap s') A"
  using assms
proof (induction "n - j" arbitrary: j s)
  case 0
  then have j: "j = n" by simp
  have "s' = s" "r = 0" using 0(2) by (simp_all add: j)
  then have "submitted_iso n n s s'" using 0(4-6) unfolding submitted_iso_def j by simp
  then show ?case using \<open>r = 0\<close> by auto
next
  case (Suc x)
  then have j: "j < n" "[j..<n] = j # [Suc j..<n]" by (simp_all add: upt_conv_Cons)
  have loop: "iso_submit_loop sub dis (int n) (j # [Suc j..<n]) s = (r, s')" using Suc.prems(1) unfolding j(2) .
  show ?case
  proof (cases "sub j = 0")
    case True
    let ?s = "s\<lparr>k_queue := k_queue s @ [j]\<rparr>"
    have "iso_submit_loop sub dis (int n) [Suc j..<n] ?s = (r, s')" using loop True by simp
    then have "if r = 0 then \<exists>m. submitted_iso n m ?s s'
      else r < 0 \<and> tp_urbs s' = NoUrbs \<and> k_queue s' = [] \<and> owned [] (x_heap s') A"
      by (rule Suc.hyps(1) [rotated]) (use Suc.hyps(2) Suc.prems(3-7) j in simp_all)
    moreover have "submitted_iso n m ?s s' \<Longrightarrow> submitted_iso n m s s'" for m by (simp add: submitted_iso_def)
    ultimately show ?thesis by (auto split: if_splits)
  next
    case False
    show ?thesis
    proof (cases "j = 0")
      case True
      then have "r = (if sub 0 = ENODEV then LIBUSB_ERROR_NO_DEVICE
          else if sub 0 = EINVAL \<or> sub 0 = EMSGSIZE then LIBUSB_ERROR_INVALID_PARAM else LIBUSB_ERROR_IO)" "s' = free_iso_urbs s"
        using False loop by (simp_all add: Let_def)
      then show ?thesis using free_iso_owned [OF Suc.prems(6,7)] Suc.prems(3,6) True
        by (simp add: LIBUSB_ERROR_NO_DEVICE_def LIBUSB_ERROR_INVALID_PARAM_def LIBUSB_ERROR_IO_def)
    next
      case j0: False
      then have "r = 0" "s' = snd (discard_urbs dis 0 j (s\<lparr>tp_reap_action := SUBMIT_FAILED, tp_num_retired := int n - int j\<rparr>))"
        using loop False by (simp_all add: Let_def)
      then have "submitted_iso n j s s'" using j j0 Suc.prems(3) by (simp add: submitted_iso_def of_nat_diff)
      then show ?thesis using \<open>r = 0\<close> by auto
    qed
  qed
qed

text \<open>The packets of a transfer, and how many URBs they need.\<close>

definition iso_packets :: "linux_transfer \<Rightarrow> libusb_iso_packet_descriptor list" where
  "iso_packets s = take (nat (num_iso_packets s)) (iso_packet_desc s)"

definition iso_count :: "linux_transfer \<Rightarrow> nat" where
  "iso_count s = (nat (num_iso_packets s) + 127) div 128"

lemma submit_iso_result:
  assumes "submit_iso_transfer mx sub dis s = (r, s')" and "num_iso_packets s \<le> int (length (iso_packet_desc s))"
    and "owned [] (x_heap s) A" "k_queue s = []" "tp_urbs s = NoUrbs"
  shows "if r = 0 then \<exists>b bs m. length bs = iso_count s \<and> 0 < m \<and> m \<le> iso_count s \<and>
      tp_urbs s' = IsoUrbs b (map Some (iso_urbs_of (x_endpoint s) (iso_packets s) bs)) \<and> k_queue s' = [0..<m] \<and>
      tp_num_urbs s' = int (iso_count s) \<and> tp_num_retired s' = int (iso_count s - m) \<and>
      (tp_reap_action s' = NORMAL \<longleftrightarrow> m = iso_count s) \<and> tp_iso_packet_offset s' = 0 \<and> iso_packet_desc s' = iso_packet_desc s \<and>
      x_type s' = x_type s \<and> x_length s' = x_length s \<and> x_endpoint s' = x_endpoint s \<and> num_iso_packets s' = num_iso_packets s \<and>
      owned (b # bs) (x_heap s') A \<and> 1 \<le> num_iso_packets s \<and>
      sint (word_of_nat (iso_bytes (iso_packets s)) :: u32) \<le> x_length s \<and> (\<forall>d \<in> set (iso_packets s). ip_length d \<le> mx)
    else r < 0 \<and> tp_urbs s' = NoUrbs \<and> k_queue s' = [] \<and> owned [] (x_heap s') A"
proof -
  let ?ds = "iso_packets s" and ?n = "iso_count s"
  have n: "nat ((num_iso_packets s + (MAX_ISO_PACKETS_PER_URB - 1)) div MAX_ISO_PACKETS_PER_URB) = ?n"
    "(num_iso_packets s + (MAX_ISO_PACKETS_PER_URB - 1)) div MAX_ISO_PACKETS_PER_URB = int ?n" if "1 \<le> num_iso_packets s"
    using that by (simp_all add: iso_count_def MAX_ISO_PACKETS_PER_URB_def nat_div_distrib nat_add_distrib zdiv_int)
  have e: "LIBUSB_ERROR_INVALID_PARAM < 0" "LIBUSB_ERROR_NO_MEM < 0" by (simp_all add: usb_consts)
  consider "r = LIBUSB_ERROR_INVALID_PARAM" "s' = s"
    | total h where "1 \<le> num_iso_packets s" "iso_total mx ?ds 0 = Some total" "sint total \<le> x_length s"
      "malloc (x_heap s) = (None, h)" "r = LIBUSB_ERROR_NO_MEM" "s' = s\<lparr>x_heap := h\<rparr>"
    | total b h where "1 \<le> num_iso_packets s" "iso_total mx ?ds 0 = Some total" "sint total \<le> x_length s"
      "malloc (x_heap s) = (Some b, h)"
  proof (cases "1 \<le> num_iso_packets s \<and> (\<exists>total. iso_total mx ?ds 0 = Some total \<and> sint total \<le> x_length s)")
    case False
    have "submit_iso_transfer mx sub dis s = (LIBUSB_ERROR_INVALID_PARAM, s)"
    proof (cases "iso_total mx ?ds 0")
      case None
      then show ?thesis by (simp add: submit_iso_transfer_def iso_packets_def Let_def)
    next
      case (Some total)
      then have "num_iso_packets s < 1 \<or> x_length s < sint total" using False by auto
      then show ?thesis using Some by (elim disjE) (simp_all add: submit_iso_transfer_def iso_packets_def Let_def)
    qed
    then show thesis using that(1) assms(1) by simp
  next
    case True
    then obtain total where t: "1 \<le> num_iso_packets s" "iso_total mx ?ds 0 = Some total" "sint total \<le> x_length s" by blast
    obtain p h where m: "malloc (x_heap s) = (p, h)" by (rule prod.exhaust)
    show thesis
    proof (cases p)
      case None
      then have "submit_iso_transfer mx sub dis s = (LIBUSB_ERROR_NO_MEM, s\<lparr>x_heap := h\<rparr>)"
        using t m by (simp add: submit_iso_transfer_def iso_packets_def Let_def)
      then show thesis using that(2) [OF t] m None assms(1) by simp
    next
      case (Some b)
      then show thesis using that(3) [OF t] m by simp
    qed
  qed
  then show ?thesis
  proof cases
    case 1
    then show ?thesis using e assms by simp
  next
    case 2
    then show ?thesis using e assms owned_malloc [OF 2(4) assms(3)] by (simp add: opt_list_def)
  next
    case 3
    let ?s1 = "s\<lparr>x_heap := h, tp_urbs := IsoUrbs b (replicate ?n None), tp_num_urbs := int ?n,
       tp_num_retired := 0, tp_reap_action := NORMAL, tp_iso_packet_offset := 0\<rparr>"
    obtain r1 s2 where a: "iso_alloc_loop [0..<?n] ?ds 0 ?s1 = (r1, s2)" by (rule prod.exhaust)
    have run: "(if r1 \<noteq> 0 then (r1, s2) else iso_submit_loop sub dis (int ?n) [0..<?n] s2) = (r, s')"
      using assms(1) 3 a n [OF 3(1)] by (simp add: submit_iso_transfer_def iso_packets_def [symmetric] Let_def split: if_splits)
    have o: "owned [b] h A" using owned_malloc [OF 3(4) assms(3)] by (simp add: opt_list_def)
    note al = iso_alloc_loop_result [of 0 ?n ?ds ?s1 r1 s2 b "[]" A]
    have al: "if r1 = 0 then \<exists>bs' h. length bs' = ?n \<and>
      s2 = ?s1\<lparr>tp_urbs := IsoUrbs b (map Some (iso_urbs_of (x_endpoint ?s1) ?ds bs')), x_heap := h\<rparr> \<and> owned (b # bs') h A
    else r1 = LIBUSB_ERROR_NO_MEM \<and> (\<exists>h. s2 = ?s1\<lparr>tp_urbs := NoUrbs, x_heap := h\<rparr> \<and> owned [] h A)"
      by (rule al) (use a o in \<open>simp_all add: iso_urbs_of_def\<close>)
    show ?thesis
    proof (cases "r1 = 0")
      case False
      then show ?thesis using al run assms(4) e by auto
    next
      case True
      then obtain bs h' where b: "length bs = ?n"
        "s2 = ?s1\<lparr>tp_urbs := IsoUrbs b (map Some (iso_urbs_of (x_endpoint s) ?ds bs)), x_heap := h'\<rparr>" "owned (b # bs) h' A"
        using al by auto
      have loop: "iso_submit_loop sub dis (int ?n) [0..<?n] s2 = (r, s')" using run True by simp
      have lr: "if r = 0 then \<exists>m. submitted_iso ?n m s2 s' else r < 0 \<and> tp_urbs s' = NoUrbs \<and> k_queue s' = [] \<and> owned [] (x_heap s') A"
        by (rule iso_submit_loop_result [OF loop, of b "iso_urbs_of (x_endpoint s) ?ds bs" A]) (use b assms(4) in simp_all)
      have "?n \<noteq> 0" using 3(1) by (simp add: iso_count_def)
      show ?thesis
      proof (cases "r = 0")
        case False
        then show ?thesis using lr by simp
      next
        case True
        then obtain m where m: "submitted_iso ?n m s2 s'" using lr by auto
        have st: "iso_static s' = iso_static s2" using m by (simp add: submitted_iso_def)
        have f: "x_type s' = x_type s" "x_length s' = x_length s" "x_endpoint s' = x_endpoint s" "num_iso_packets s' = num_iso_packets s"
          "tp_num_urbs s' = int ?n" using iso_staticD [OF st] b(2) by simp_all
        have t: "sint (word_of_nat (iso_bytes ?ds) :: u32) \<le> x_length s" "\<forall>d \<in> set ?ds. ip_length d \<le> mx"
          using iso_total_some [OF 3(2)] 3(3) by simp_all
        show ?thesis unfolding True if_P [OF refl]
        proof (intro exI conjI)
          show "length bs = iso_count s" by (rule b(1))
          show "owned (b # bs) (x_heap s') A" using m b by (simp add: submitted_iso_def)
          show "tp_urbs s' = IsoUrbs b (map Some (iso_urbs_of (x_endpoint s) (iso_packets s) bs))" using m b by (simp add: submitted_iso_def)
        qed (use m b(2) f t 3(1) \<open>?n \<noteq> 0\<close> in \<open>simp_all add: submitted_iso_def\<close>)
      qed
    qed
  qed
qed

section \<open>Where the packets are\<close>

lemma iso_chunk_nth: "p < length ds \<Longrightarrow> p mod 128 < length (iso_chunk (p div 128) ds) \<and> iso_chunk (p div 128) ds ! (p mod 128) = ds ! p"
proof -
  assume "p < length ds"
  moreover have p: "128 * (p div 128) + p mod 128 = p" by simp
  moreover have "p mod 128 < 128" by simp
  ultimately have "p mod 128 < length (iso_chunk (p div 128) ds)" unfolding iso_chunk_def by (simp, linarith)
  then show ?thesis using p \<open>p < length ds\<close> by (simp add: iso_chunk_def)
qed

lemma iso_chunk_before:
  "p < length ds \<Longrightarrow> iso_bytes (take (128 * (p div 128)) ds) + iso_bytes (take (p mod 128) (iso_chunk (p div 128) ds)) = iso_bytes (take p ds)"
proof -
  have t: "take (p mod 128) (iso_chunk (p div 128) ds) = take (p mod 128) (drop (128 * (p div 128)) ds)"
    by (simp add: iso_chunk_def min_def)
  have "take p ds = take (128 * (p div 128) + p mod 128) ds" by simp
  also have "\<dots> = take (128 * (p div 128)) ds @ take (p mod 128) (drop (128 * (p div 128)) ds)" by (rule take_add)
  finally show ?thesis unfolding t by simp
qed

lemma iso_packet_bytes: "p < length ds \<Longrightarrow> iso_bytes (take p ds) + unat (ip_length (ds ! p)) \<le> iso_bytes ds"
  using iso_bytes_le [of "Suc p" ds] by (simp add: take_Suc_conv_app_nth) (simp add: iso_bytes_def)

text \<open>Where the data of frame \<open>k\<close> of a URB is put.\<close>

definition frame_position :: "usbfs_urb \<Rightarrow> nat \<Rightarrow> int" where
  "frame_position u k = urb_buffer u + int (sum_list (map (unat \<circ> iso_length) (take k (iso_frame_desc u))))"

lemma frame_position_iso:
  fixes ep :: byte
  assumes "iso_bytes ds < 2 ^ 31" "p < length ds"
  defines "u \<equiv> iso_urb ep (iso_offset ds (p div 128)) (iso_chunk (p div 128) ds)"
  shows "p mod 128 < length (iso_frame_desc u)" "iso_length (iso_frame_desc u ! (p mod 128)) = ip_length (ds ! p)"
    and "frame_position u (p mod 128) = int (iso_bytes (take p ds))"
proof -
  note c = iso_chunk_nth [OF assms(2)]
  show l: "p mod 128 < length (iso_frame_desc u)" using c by (simp add: u_def iso_urb_fields)
  have m: "map iso_length (iso_frame_desc u) = map ip_length (iso_chunk (p div 128) ds)" by (simp add: u_def iso_urb_fields)
  then show "iso_length (iso_frame_desc u ! (p mod 128)) = ip_length (ds ! p)" using l c by (metis nth_map iso_urb_fields(5) u_def)
  have "sum_list (map (unat \<circ> iso_length) (take (p mod 128) (iso_frame_desc u))) = iso_bytes (take (p mod 128) (iso_chunk (p div 128) ds))"
    using m unfolding iso_bytes_def by (metis map_map take_map)
  then show "frame_position u (p mod 128) = int (iso_bytes (take p ds))"
    using iso_chunk_before [OF assms(2)] iso_offset_bytes [OF assms(1)] by (simp add: frame_position_def u_def iso_urb_fields)
qed

lemma iso_packets_length: "num_iso_packets s \<le> int (length (iso_packet_desc s)) \<Longrightarrow> length (iso_packets s) = nat (num_iso_packets s)"
  by (simp add: iso_packets_def)

lemma packet_buffer:
  assumes "num_iso_packets s \<le> int (length (iso_packet_desc s))" "num_iso_packets s < 2 ^ 31" "p < nat (num_iso_packets s)"
  shows "libusb_get_iso_packet_buffer s (word_of_nat p) = Some (iso_bytes (take p (iso_packets s)))"
proof -
  have p: "unat (word_of_nat p :: u32) = p" using assms(2,3) by (simp add: unat_of_nat take_bit_nat_eq_self)
  then have "\<not> (word_of_nat p :: u32) > 0x7fffffff" using assms(2,3) by (simp add: word_less_nat_alt)
  then show ?thesis using assms(3) p
    by (simp add: libusb_get_iso_packet_buffer_def iso_bytes_def iso_packets_def comp_def min_def)
qed

section \<open>Results\<close>

definition iso_result :: "libusb_iso_packet_descriptor \<Rightarrow> int \<times> u32" where
  "iso_result d = (ip_status d, ip_actual_length d)"

definition iso_reported :: "usbfs_iso_packet_desc \<Rightarrow> int \<times> u32" where
  "iso_reported f = (iso_packet_status (iso_status f), iso_actual_length f)"

lemma iso_copy_result:
  assumes "tp_iso_packet_offset s = int k" "k + length fs \<le> length (iso_packet_desc s)"
  shows "\<exists>ds. iso_copy fs s = Some (s\<lparr>tp_iso_packet_offset := int (k + length fs), iso_packet_desc := ds\<rparr>) \<and>
    length ds = length (iso_packet_desc s) \<and> map ip_length ds = map ip_length (iso_packet_desc s) \<and>
    map iso_result (take (k + length fs) ds) = map iso_result (take k (iso_packet_desc s)) @ map iso_reported fs"
  using assms
proof (induction fs arbitrary: s k)
  case Nil
  have "s = s\<lparr>tp_iso_packet_offset := int k, iso_packet_desc := iso_packet_desc s\<rparr>"
    by (rule linux_transfer.equality) (simp_all add: Nil(1))
  then show ?case by (intro exI [of _ "iso_packet_desc s"]) simp
next
  case (Cons f fs)
  let ?d = "(iso_packet_desc s ! k)\<lparr>ip_status := iso_packet_status (iso_status f), ip_actual_length := iso_actual_length f\<rparr>"
  let ?s = "s\<lparr>tp_iso_packet_offset := tp_iso_packet_offset s + 1, iso_packet_desc := (iso_packet_desc s)[k := ?d]\<rparr>"
  have k: "k < length (iso_packet_desc s)" using Cons.prems(2) by simp
  have c: "iso_copy (f # fs) s = iso_copy fs ?s" using Cons.prems(1) k by (simp add: Let_def)
  obtain ds where ds: "iso_copy fs ?s = Some (?s\<lparr>tp_iso_packet_offset := int (Suc k + length fs), iso_packet_desc := ds\<rparr>)"
    "length ds = length (iso_packet_desc ?s)" "map ip_length ds = map ip_length (iso_packet_desc ?s)"
    "map iso_result (take (Suc k + length fs) ds) = map iso_result (take (Suc k) (iso_packet_desc ?s)) @ map iso_reported fs"
    using Cons.IH [of ?s "Suc k"] Cons.prems by auto
  have l: "map ip_length ((iso_packet_desc s)[k := ?d]) = map ip_length (iso_packet_desc s)"
    using k by (simp add: map_update) (metis list_update_id nth_map length_map)
  have t: "map iso_result (take (Suc k) ((iso_packet_desc s)[k := ?d])) = map iso_result (take k (iso_packet_desc s)) @ [iso_reported f]"
    using k by (simp add: take_Suc_conv_app_nth iso_result_def iso_reported_def)
  show ?case
  proof (intro exI conjI)
    show "iso_copy (f # fs) s = Some (s\<lparr>tp_iso_packet_offset := int (k + length (f # fs)), iso_packet_desc := ds\<rparr>)"
      unfolding c ds(1) by simp
    show "length ds = length (iso_packet_desc s)" using ds(2) by simp
    show "map ip_length ds = map ip_length (iso_packet_desc s)" using ds(3) l by simp
    show "map iso_result (take (k + length (f # fs)) ds) = map iso_result (take k (iso_packet_desc s)) @ map iso_reported (f # fs)"
      using ds(4) t by simp
  qed
qed

section \<open>Runs of isochronous transfers\<close>

text \<open>The kernel gives a URB back with a status and a result for each of its packets.\<close>

definition usbfs_reap_iso :: "nat \<Rightarrow> int \<Rightarrow> (int \<times> u32) list \<Rightarrow> linux_transfer \<Rightarrow> linux_transfer option" where
  "usbfs_reap_iso i status results s =
    (case tp_urbs s of
       IsoUrbs b ps \<Rightarrow>
        (case (if i < length ps then ps ! i else None) of
           None \<Rightarrow> None
         | Some (c, u) \<Rightarrow>
            if length results = length (iso_frame_desc u) then
              Some (s\<lparr>tp_urbs := IsoUrbs b (ps[i := Some (c, u\<lparr>urb_status := status,
                iso_frame_desc := map2 (\<lambda>f p. f\<lparr>iso_status := fst p, iso_actual_length := snd p\<rparr>) (iso_frame_desc u) results\<rparr>)]),
                k_queue := tl (k_queue s)\<rparr>)
            else None)
     | _ \<Rightarrow> Some (s\<lparr>k_queue := tl (k_queue s)\<rparr>))"

text \<open>
  The life of an isochronous transfer, with at least as many packet descriptors as it says; a state has what the kernel
  returned, what was reported, and the transfer.
\<close>

inductive iso_run :: "heap \<Rightarrow> (int \<times> (int \<times> u32) list) list \<times> reaped list \<times> linux_transfer \<Rightarrow> bool" for h where
  submit: "k_queue s0 = [] \<Longrightarrow> tp_urbs s0 = NoUrbs \<Longrightarrow> x_heap s0 = h \<Longrightarrow> num_iso_packets s0 \<le> int (length (iso_packet_desc s0)) \<Longrightarrow>
    x_type s0 = LIBUSB_TRANSFER_TYPE_ISOCHRONOUS \<Longrightarrow> op_submit_transfer caps mx sub dis s0 = (0, s) \<Longrightarrow> iso_run h ([], [], s)"
| reap: "iso_run h (es, rs, s) \<Longrightarrow> k_queue s = i # q \<Longrightarrow> usbfs_reap_iso i status results s = Some s1 \<Longrightarrow>
    reap_urb dis i s1 = (r, s') \<Longrightarrow> iso_run h (es @ [(status, results)], rs @ (if r = Waiting then [] else [r]), s')"
| cancel: "iso_run h (es, rs, s) \<Longrightarrow> op_cancel_transfer dis s = (r, s') \<Longrightarrow> iso_run h (es, rs, s')"

definition iso_open :: "heap \<Rightarrow> nat \<Rightarrow> linux_transfer \<Rightarrow> bool" where
  "iso_open h k s \<longleftrightarrow> (\<exists>b us m. tp_urbs s = IsoUrbs b (map Some us) \<and> length us = iso_count s \<and> k < m \<and> m \<le> iso_count s \<and>
     k_queue s = [k..<m] \<and> tp_num_retired s = int k + (int (iso_count s) - int m) \<and>
     (tp_reap_action s = NORMAL \<longrightarrow> m = iso_count s) \<and> tp_iso_packet_offset s = int (min (128 * k) (nat (num_iso_packets s))) \<and>
     (\<forall>i < iso_count s. length (iso_frame_desc (snd (us ! i))) = min 128 (nat (num_iso_packets s) - 128 * i)) \<and>
     owned (b # map fst us) (x_heap s) (live h))"

definition iso_closed :: "heap \<Rightarrow> linux_transfer \<Rightarrow> bool" where
  "iso_closed h s \<longleftrightarrow> tp_urbs s = NoUrbs \<and> k_queue s = [] \<and> owned [] (x_heap s) (live h)"

definition iso_inv :: "heap \<Rightarrow> (int \<times> (int \<times> u32) list) list \<times> reaped list \<times> linux_transfer \<Rightarrow> bool" where
  "iso_inv h st \<longleftrightarrow> (case st of (es, rs, s) \<Rightarrow>
     x_type s = LIBUSB_TRANSFER_TYPE_ISOCHRONOUS \<and> 1 \<le> num_iso_packets s \<and>
     num_iso_packets s \<le> int (length (iso_packet_desc s)) \<and> tp_num_urbs s = int (iso_count s) \<and>
     length (concat (map snd es)) = min (128 * length es) (nat (num_iso_packets s)) \<and>
     map iso_result (take (length (concat (map snd es))) (iso_packet_desc s)) =
       map (\<lambda>(st, n). (iso_packet_status st, n)) (concat (map snd es)) \<and>
     (if rs = [] then iso_open h (length es) s
      else iso_closed h s \<and> (\<exists>r. rs = [r] \<and> (r = Cancellation \<or> (\<exists>st. r = Completion st)))))"

lemma iso_count_pos: "1 \<le> num_iso_packets s \<Longrightarrow> 1 \<le> iso_count s"
  by (simp add: iso_count_def)

lemma iso_count_cong: "iso_static s' = iso_static s \<Longrightarrow> iso_count s' = iso_count s"
  by (simp add: iso_static_def iso_count_def)

lemma iso_inv_submit:
  assumes h: "heap_ok h" and s0: "k_queue s0 = []" "tp_urbs s0 = NoUrbs" "x_heap s0 = h"
      "num_iso_packets s0 \<le> int (length (iso_packet_desc s0))" "x_type s0 = LIBUSB_TRANSFER_TYPE_ISOCHRONOUS"
    and op: "op_submit_transfer caps mx sub dis s0 = (0, s)"
  shows "iso_inv h ([], [], s)"
proof -
  have sub: "submit_iso_transfer mx sub dis s0 = (0, s)" using op s0(5) by (simp add: op_submit_transfer_def usb_consts)
  have o: "owned [] (x_heap s0) (live h)" using h s0(3) by (simp add: owned_Nil)
  from submit_iso_result [OF sub s0(4) o s0(1,2)] obtain b bs m where r: "length bs = iso_count s0" "0 < m" "m \<le> iso_count s0"
    "tp_urbs s = IsoUrbs b (map Some (iso_urbs_of (x_endpoint s0) (iso_packets s0) bs))" "k_queue s = [0..<m]"
    "tp_num_urbs s = int (iso_count s0)" "tp_num_retired s = int (iso_count s0 - m)" "tp_reap_action s = NORMAL \<longleftrightarrow> m = iso_count s0"
    "tp_iso_packet_offset s = 0" "iso_packet_desc s = iso_packet_desc s0" "x_type s = x_type s0" "num_iso_packets s = num_iso_packets s0"
    "owned (b # bs) (x_heap s) (live h)" "1 \<le> num_iso_packets s0" by auto
  have c: "iso_count s = iso_count s0" using r(12) by (simp add: iso_count_def)
  let ?us = "iso_urbs_of (x_endpoint s0) (iso_packets s0) bs"
  have fr: "length (iso_frame_desc (snd (?us ! i))) = min 128 (nat (num_iso_packets s) - 128 * i)" if "i < iso_count s" for i
    using that r(1,12) c iso_packets_length [OF s0(4)]
    by (simp add: iso_urbs_of_def iso_urb_fields iso_chunk_def min.commute)
  have "iso_open h 0 s" unfolding iso_open_def
  proof (intro exI conjI)
    show "tp_urbs s = IsoUrbs b (map Some ?us)" by (rule r(4))
    show "length ?us = iso_count s" using r(1) c by simp
    show "0 < m" "m \<le> iso_count s" "k_queue s = [0..<m]" "tp_reap_action s = NORMAL \<longrightarrow> m = iso_count s" using r c by simp_all
    show "tp_num_retired s = int 0 + (int (iso_count s) - int m)" using r(3,7) c by (simp add: of_nat_diff)
    show "tp_iso_packet_offset s = int (min (128 * 0) (nat (num_iso_packets s)))" using r(9) by simp
    show "\<forall>i < iso_count s. length (iso_frame_desc (snd (?us ! i))) = min 128 (nat (num_iso_packets s) - 128 * i)" using fr by blast
    show "owned (b # map fst ?us) (x_heap s) (live h)" using r(13) by simp
  qed
  then show ?thesis using r s0 c by (simp add: iso_inv_def)
qed

lemma usbfs_reap_iso_shape:
  assumes "usbfs_reap_iso i status results s = Some s1" "tp_urbs s = IsoUrbs b (map Some us)" "i < length us" "k_queue s = i # q"
  shows "\<exists>fs. s1 = s\<lparr>tp_urbs := IsoUrbs b (map Some (us[i := (fst (us ! i), (snd (us ! i))\<lparr>urb_status := status, iso_frame_desc := fs\<rparr>)])),
      k_queue := q\<rparr> \<and> length fs = length results \<and> length results = length (iso_frame_desc (snd (us ! i))) \<and>
    map iso_reported fs = map (\<lambda>(st, n). (iso_packet_status st, n)) results"
proof -
  let ?u = "snd (us ! i)" and ?c = "fst (us ! i)"
  let ?fs = "map2 (\<lambda>f p. f\<lparr>iso_status := fst p, iso_actual_length := snd p\<rparr>) (iso_frame_desc ?u) results"
  have n: "length results = length (iso_frame_desc ?u)"
    and s1: "s1 = s\<lparr>tp_urbs := IsoUrbs b ((map Some us)[i := Some (?c, ?u\<lparr>urb_status := status, iso_frame_desc := ?fs\<rparr>)]), k_queue := q\<rparr>"
    using assms by (auto simp: usbfs_reap_iso_def case_prod_beta split: if_splits)
  have "map iso_reported ?fs = map (\<lambda>(st, n). (iso_packet_status st, n)) results"
    using n by (intro nth_equalityI) (auto simp: iso_reported_def case_prod_beta)
  then show ?thesis using s1 n by (intro exI [of _ ?fs]) (simp add: map_update)
qed

lemma iso_static_kept: "iso_static s' = iso_static s \<Longrightarrow> length (iso_packet_desc s') = length (iso_packet_desc s) \<Longrightarrow>
    x_type s' = x_type s \<and> num_iso_packets s' = num_iso_packets s \<and> tp_num_urbs s' = tp_num_urbs s \<and> iso_count s' = iso_count s"
  using iso_staticD iso_count_cong by metis

lemma handle_iso_after:
  assumes U: "tp_urbs s = IsoUrbs b (map Some us)" "i < length us" "tp_num_urbs s = int (length us)"
    and h: "handle_iso_completion i s = (r, s')"
    and m: "tp_num_retired s = int i + (int (length us) - int m)" "i < m" "m \<le> length us" "tp_reap_action s = NORMAL \<Longrightarrow> m = length us"
    and o: "tp_iso_packet_offset s = int k" "k + length (iso_frame_desc (snd (us ! i))) \<le> length (iso_packet_desc s)"
  shows "if Suc i = m then r = Cancellation \<or> (\<exists>st. r = Completion st) else r = Waiting"
    and "iso_static s' = iso_static s" "k_queue s' = k_queue s" "length (iso_packet_desc s') = length (iso_packet_desc s)"
      "tp_urbs s' = (if Suc i = m then NoUrbs else tp_urbs s)"
      "x_heap s' = (if Suc i = m then x_heap (free_iso_urbs s) else x_heap s)"
      "tp_reap_action s' = tp_reap_action s"
      "map iso_result (take (k + length (iso_frame_desc (snd (us ! i)))) (iso_packet_desc s')) =
        map iso_result (take k (iso_packet_desc s)) @ map iso_reported (iso_frame_desc (snd (us ! i)))"
    and "Suc i \<noteq> m \<Longrightarrow> tp_num_retired s' = tp_num_retired s + 1 \<and>
      tp_iso_packet_offset s' = int (k + length (iso_frame_desc (snd (us ! i))))"
proof -
  let ?fs = "iso_frame_desc (snd (us ! i))"
  obtain ds where ds: "iso_copy ?fs s = Some (s\<lparr>tp_iso_packet_offset := int (k + length ?fs), iso_packet_desc := ds\<rparr>)"
    "length ds = length (iso_packet_desc s)"
    "map iso_result (take (k + length ?fs) ds) = map iso_result (take k (iso_packet_desc s)) @ map iso_reported ?fs"
    using iso_copy_result [OF o] by blast
  define s2 where "s2 = s\<lparr>tp_iso_packet_offset := int (k + length ?fs), iso_packet_desc := ds\<rparr>"
  define s1 where "s1 = s2\<lparr>tp_num_retired := tp_num_retired s2 + 1\<rparr>"
  have U': "(if i < nat (tp_num_urbs s) \<and> i < length (map Some us) then map Some us ! i else None) = Some (fst (us ! i), snd (us ! i))"
    using U by simp
  have h1: "(r, s') = (if tp_reap_action s1 \<noteq> NORMAL then
      (if tp_num_retired s1 = tp_num_urbs s1 then
         (if tp_reap_action s1 = CANCELLED then Cancellation else Completion LIBUSB_TRANSFER_ERROR, free_iso_urbs s1)
       else (Waiting, s1))
    else if int (Suc i) = tp_num_urbs s1 then (Completion (iso_urb_status (urb_status (snd (us ! i)))), free_iso_urbs s1)
    else (Waiting, s1))"
    unfolding h [symmetric] handle_iso_completion_def U(1) urb_array.case U' option.case prod.case ds(1) [folded s2_def] Let_def s1_def
    by (rule refl)
  have f: "tp_reap_action s1 = tp_reap_action s" "tp_num_urbs s1 = int (length us)" "tp_num_retired s1 = tp_num_retired s + 1"
    by (simp_all add: s1_def s2_def U(3))
  have fin: "(tp_num_retired s1 = tp_num_urbs s1) = (Suc i = m)" using m f by auto
  have fin': "tp_reap_action s = NORMAL \<Longrightarrow> (int (Suc i) = tp_num_urbs s1) = (Suc i = m)" using m(4) f by auto
  have "(if Suc i = m then (r = Cancellation \<or> (\<exists>st. r = Completion st)) \<and> s' = free_iso_urbs s1 else r = Waiting \<and> s' = s1)"
    using h1 fin fin' f(1) by (auto split: if_splits)
  then have R: "if Suc i = m then r = Cancellation \<or> (\<exists>st. r = Completion st) else r = Waiting"
    "s' = (if Suc i = m then free_iso_urbs s1 else s1)" by (auto split: if_splits)
  show "if Suc i = m then r = Cancellation \<or> (\<exists>st. r = Completion st) else r = Waiting" by (rule R(1))
  have t: "tp_urbs s1 = tp_urbs s" "x_heap s1 = x_heap s" "iso_packet_desc s1 = ds" "iso_static s1 = iso_static s" "k_queue s1 = k_queue s"
    by (simp_all add: s1_def s2_def)
  show "iso_static s' = iso_static s" "k_queue s' = k_queue s" "length (iso_packet_desc s') = length (iso_packet_desc s)"
    "tp_reap_action s' = tp_reap_action s" using R(2) t ds(2) f(1) by simp_all
  show "tp_urbs s' = (if Suc i = m then NoUrbs else tp_urbs s)" using R(2) t U(1) by (simp add: free_iso_urbs_def)
  show "x_heap s' = (if Suc i = m then x_heap (free_iso_urbs s) else x_heap s)" using R(2) t U(1) by (simp add: free_iso_urbs_def)
  show "map iso_result (take (k + length ?fs) (iso_packet_desc s')) = map iso_result (take k (iso_packet_desc s)) @ map iso_reported ?fs"
    using R(2) t ds(3) by simp
  show "Suc i \<noteq> m \<Longrightarrow> tp_num_retired s' = tp_num_retired s + 1 \<and> tp_iso_packet_offset s' = int (k + length ?fs)"
    using R(2) by (simp add: s1_def s2_def)
qed

lemma chunk_sum: "min (128 * k) n + min 128 (n - 128 * k) = min (128 * Suc k) n" for n k :: nat
  by arith

lemma iso_reap_step:
  assumes inv: "iso_inv h (es, rs, s)" and q: "k_queue s = i # q" and k: "usbfs_reap_iso i status results s = Some s1"
    and r: "reap_urb dis i s1 = (r, s')"
  shows "iso_inv h (es @ [(status, results)], rs @ (if r = Waiting then [] else [r]), s') \<and> k_queue s' = q"
proof -
  let ?k = "length es" and ?P = "nat (num_iso_packets s)" and ?o = "length (concat (map snd es))"
  have rs: "rs = []" using inv q by (auto simp: iso_inv_def iso_closed_def split: if_splits)
  have I: "x_type s = LIBUSB_TRANSFER_TYPE_ISOCHRONOUS" "1 \<le> num_iso_packets s" "num_iso_packets s \<le> int (length (iso_packet_desc s))"
    "tp_num_urbs s = int (iso_count s)" "?o = min (128 * ?k) ?P"
    "map iso_result (take ?o (iso_packet_desc s)) = map (\<lambda>(st, n). (iso_packet_status st, n)) (concat (map snd es))"
    "iso_open h ?k s" using inv unfolding iso_inv_def rs prod.case if_P [OF refl] by blast+
  from I(7) obtain b us m where O: "tp_urbs s = IsoUrbs b (map Some us)" "length us = iso_count s" "?k < m" "m \<le> iso_count s"
    "k_queue s = [?k..<m]" "tp_num_retired s = int ?k + (int (iso_count s) - int m)" "tp_reap_action s = NORMAL \<longrightarrow> m = iso_count s"
    "tp_iso_packet_offset s = int (min (128 * ?k) ?P)"
    "\<forall>i < iso_count s. length (iso_frame_desc (snd (us ! i))) = min 128 (?P - 128 * i)" "owned (b # map fst us) (x_heap s) (live h)"
    unfolding iso_open_def by blast
  have i: "i = ?k" "q = [Suc ?k..<m]" using upt_Cons_eq [of ?k m i q] O(5) q by simp_all
  have ik: "i < length us" using i O(2-4) by simp
  obtain fs where s1: "s1 = s\<lparr>tp_urbs := IsoUrbs b (map Some (us[i := (fst (us ! i), (snd (us ! i))\<lparr>urb_status := status, iso_frame_desc := fs\<rparr>)])),
      k_queue := q\<rparr>" and fs: "length fs = length results" "length results = length (iso_frame_desc (snd (us ! i)))"
    "map iso_reported fs = map (\<lambda>(st, n). (iso_packet_status st, n)) results"
    using usbfs_reap_iso_shape [OF k O(1) ik q] by blast
  let ?us = "us[i := (fst (us ! i), (snd (us ! i))\<lparr>urb_status := status, iso_frame_desc := fs\<rparr>)]"
  have fsi: "iso_frame_desc (snd (?us ! i)) = fs" using ik by simp
  have fl: "length fs = min 128 (?P - 128 * ?k)" using fs O(9) i O(2) ik by simp
  have o2: "?o + length fs = min (128 * Suc ?k) ?P" unfolding I(5) fl by (rule chunk_sum)
  have h': "handle_iso_completion i s1 = (r, s')" using r I(1) by (simp add: reap_urb_def s1)
  have A: "tp_urbs s1 = IsoUrbs b (map Some ?us)" "i < length ?us" "tp_num_urbs s1 = int (length ?us)"
    "tp_num_retired s1 = int i + (int (length ?us) - int m)" "i < m" "m \<le> length ?us" "tp_reap_action s1 = NORMAL \<Longrightarrow> m = length ?us"
    "tp_iso_packet_offset s1 = int ?o"
    using O i ik I(4,5) by (simp_all add: s1)
  have A9: "?o + length (iso_frame_desc (snd (?us ! i))) \<le> length (iso_packet_desc s1)"
    unfolding fsi o2 using I(3) by (simp add: s1)
  note H = handle_iso_after [OF A(1-3) h' A(4-8) A9, unfolded fsi]
  have st: "iso_static s' = iso_static s" using H(2) by (simp add: s1)
  have K: "x_type s' = x_type s" "num_iso_packets s' = num_iso_packets s" "tp_num_urbs s' = tp_num_urbs s" "iso_count s' = iso_count s"
    "length (iso_packet_desc s') = length (iso_packet_desc s)"
    using iso_static_kept [OF st] H(4) by (simp_all add: s1)
  have kq: "k_queue s' = q" using H(3) by (simp add: s1)
  have ln: "length (concat (map snd (es @ [(status, results)]))) = min (128 * length (es @ [(status, results)])) ?P"
    using o2 fs(1) by simp
  have res: "map iso_result (take (length (concat (map snd (es @ [(status, results)])))) (iso_packet_desc s')) =
      map (\<lambda>(st, n). (iso_packet_status st, n)) (concat (map snd (es @ [(status, results)])))"
    using H(8) I(6) fs by (simp add: s1)
  have blocks: "map fst ?us = map fst us" using ik by (simp add: map_update) (metis list_update_id nth_map length_map)
  have rep: "if r = Waiting then iso_open h (Suc ?k) s' else iso_closed h s' \<and> (r = Cancellation \<or> (\<exists>st. r = Completion st))"
  proof (cases "Suc i = m")
    case True
    then have nw: "r \<noteq> Waiting" "r = Cancellation \<or> (\<exists>st. r = Completion st)" using H(1) by auto
    have "owned [] (x_heap (free_iso_urbs s1)) (live h)"
      using free_iso_owned [OF A(1)] O(10) blocks by (simp add: s1)
    then have "iso_closed h s'" using H(5,6) True kq i by (simp add: iso_closed_def)
    then show ?thesis using nw by simp
  next
    case False
    then have w: "r = Waiting" "tp_urbs s' = IsoUrbs b (map Some ?us)" "x_heap s' = x_heap s" "tp_reap_action s' = tp_reap_action s"
      "tp_num_retired s' = tp_num_retired s + 1" "tp_iso_packet_offset s' = int (?o + length fs)"
      using H(1,5,6,7,9) A(1) by (simp_all add: s1)
    have "iso_open h (Suc ?k) s'" unfolding iso_open_def
    proof (intro exI conjI)
      show "tp_urbs s' = IsoUrbs b (map Some ?us)" by (rule w(2))
      show "length ?us = iso_count s'" using O(2) K by simp
      show "Suc ?k < m" using O(3) False i by simp
      show "m \<le> iso_count s'" using O(4) K by simp
      show "k_queue s' = [Suc ?k..<m]" using kq i by simp
      show "tp_num_retired s' = int (Suc ?k) + (int (iso_count s') - int m)" using w(5) O(6) K by simp
      show "tp_reap_action s' = NORMAL \<longrightarrow> m = iso_count s'" using w(4) O(7) K by simp
      show "tp_iso_packet_offset s' = int (min (128 * Suc ?k) (nat (num_iso_packets s')))" unfolding w(6) o2 K(2) ..
      show "\<forall>j < iso_count s'. length (iso_frame_desc (snd (?us ! j))) = min 128 (nat (num_iso_packets s') - 128 * j)"
        using O(9) K fs(1,2) ik by (auto simp: nth_list_update)
      show "owned (b # map fst ?us) (x_heap s') (live h)" using O(10) w(3) blocks by simp
    qed
    then show ?thesis using w(1) by simp
  qed
  then show ?thesis using I K ln res rs kq by (auto simp: iso_inv_def split: if_splits)
qed

lemma op_cancel_iso:
  assumes "op_cancel_transfer dis s = (r, s')"
  shows "iso_static s' = iso_static s \<and> iso_packet_desc s' = iso_packet_desc s \<and> tp_iso_packet_offset s' = tp_iso_packet_offset s"
proof -
  obtain r1 s1 where d: "discard_urbs dis 0 (nat (tp_num_urbs s)) s = (r1, s1)" by (rule prod.exhaust)
  note f = discard_iso [of dis 0 "nat (tp_num_urbs s)" s, unfolded d snd_conv]
  have "(tp_urbs s = NoUrbs \<and> s' = s) \<or> s' = s1 \<or> s' = s1\<lparr>tp_reap_action := CANCELLED\<rparr>"
    using assms d by (auto simp: op_cancel_transfer_def split: if_splits)
  then show ?thesis using f by auto
qed

lemma iso_cancel_step:
  assumes inv: "iso_inv h (es, rs, s)" and c: "op_cancel_transfer dis s = (r, s')"
  shows "iso_inv h (es, rs, s')"
proof -
  note f = op_cancel_frame [OF c] and g = op_cancel_iso [OF c]
  have K: "x_type s' = x_type s" "num_iso_packets s' = num_iso_packets s" "tp_num_urbs s' = tp_num_urbs s" "iso_count s' = iso_count s"
    using iso_static_kept [of s' s] g by simp_all
  have fe: "tp_urbs s' = tp_urbs s" "k_queue s' = k_queue s" "x_heap s' = x_heap s" "tp_num_retired s' = tp_num_retired s"
    "tp_iso_packet_offset s' = tp_iso_packet_offset s" using f g by simp_all
  have a: "tp_reap_action s' = NORMAL \<longrightarrow> tp_reap_action s = NORMAL" using f by auto
  have "iso_open h (length es) s'" if "iso_open h (length es) s"
    using that a unfolding iso_open_def K fe by blast
  moreover have "iso_closed h s'" if "iso_closed h s" using that f by (simp add: iso_closed_def)
  ultimately show ?thesis using inv g K by (auto simp: iso_inv_def split: if_splits)
qed

lemma iso_run_inv: "iso_run h st \<Longrightarrow> heap_ok h \<Longrightarrow> iso_inv h st"
proof (induction rule: iso_run.induct)
  case (submit s0 caps mx sub dis s)
  then show ?case using iso_inv_submit by blast
next
  case (reap es rs s i q status results s1 dis r s')
  then show ?case using iso_reap_step by blast
next
  case (cancel es rs s dis r s')
  then show ?case using iso_cancel_step by blast
qed

lemma iso_reap_returns:
  assumes "iso_inv h (es, rs, s)" "k_queue s = i # q"
  shows "rs = [] \<and> i = length es \<and> i < iso_count s \<and>
    (length results = min 128 (nat (num_iso_packets s) - 128 * i) \<longrightarrow> (\<exists>s1. usbfs_reap_iso i status results s = Some s1))"
proof -
  have rs: "rs = []" using assms by (auto simp: iso_inv_def iso_closed_def split: if_splits)
  then have "iso_open h (length es) s" using assms(1) by (simp add: iso_inv_def)
  then obtain b us m where O: "tp_urbs s = IsoUrbs b (map Some us)" "length us = iso_count s" "length es < m" "m \<le> iso_count s"
    "k_queue s = [length es..<m]" "\<forall>i < iso_count s. length (iso_frame_desc (snd (us ! i))) = min 128 (nat (num_iso_packets s) - 128 * i)"
    unfolding iso_open_def by blast
  have i: "i = length es" using upt_Cons_eq [of "length es" m i q] O(5) assms(2) by simp
  then show ?thesis using rs O by (auto simp: usbfs_reap_iso_def case_prod_beta)
qed

lemma iso_run_step:
  assumes "iso_run h (es, rs, s)" "heap_ok h" "k_queue s = i # q" "length results = min 128 (nat (num_iso_packets s) - 128 * i)"
  shows "\<exists>rs' s'. iso_run h (es @ [(status, results)], rs', s') \<and> k_queue s' = q"
proof -
  have inv: "iso_inv h (es, rs, s)" using iso_run_inv assms(1,2) by blast
  obtain s1 where s1: "usbfs_reap_iso i status results s = Some s1" using iso_reap_returns [OF inv assms(3)] assms(4) by blast
  obtain r s' where r: "reap_urb (\<lambda>_. 0) i s1 = (r, s')" by (rule prod.exhaust)
  show ?thesis using iso_run.reap [OF assms(1,3) s1 r] iso_reap_step [OF inv assms(3) s1 r] by blast
qed

lemma iso_run_finishes:
  assumes "iso_run h (es, rs, s)" "heap_ok h"
  shows "\<exists>es' r s'. iso_run h (es @ es', [r], s') \<and> length es' = length (k_queue s)"
  using assms
proof (induction "k_queue s" arbitrary: es rs s)
  case Nil
  have "\<not> iso_open h (length es) s" using Nil(1) unfolding iso_open_def by (metis upt_conv_Cons list.discI)
  then obtain r where "rs = [r]" using iso_run_inv [OF Nil(2,3)] by (auto simp: iso_inv_def split: if_splits)
  then show ?case using Nil by (intro exI [of _ "[]"]) auto
next
  case (Cons i q)
  define e where "e = (0 :: int, replicate (min 128 (nat (num_iso_packets s) - 128 * i)) (0 :: int, 0 :: u32))"
  obtain rs' s' where run: "iso_run h (es @ [e], rs', s')" and q: "k_queue s' = q"
    using iso_run_step [OF Cons.prems Cons.hyps(2) [symmetric], of "snd e" "fst e"] unfolding e_def by auto
  obtain es' r' s'' where "iso_run h ((es @ [e]) @ es', [r'], s'')" "length es' = length q"
    using Cons.hyps(1) [OF q [symmetric] run Cons.prems(2)] unfolding q by blast
  moreover have "length (k_queue s) = Suc (length q)" using Cons.hyps(2) [symmetric] by simp
  ultimately show ?case by (intro exI [of _ "e # es'"] exI) auto
qed

section \<open>Submission succeeds\<close>

text \<open>When no allocation fails and the kernel takes every URB.\<close>

lemma iso_alloc_loop_returns: "oom (x_heap s) = (\<lambda>_. False) \<Longrightarrow> fst (iso_alloc_loop is ds buf s) = 0"
proof (induction "is" arbitrary: ds buf s)
  case (Cons i "is")
  obtain h where m: "malloc (x_heap s) = (Some (next_block (x_heap s)), h)" "oom h = (\<lambda>_. False)"
    using Cons.prems by (simp add: malloc_def Let_def)
  have "oom (x_heap (set_iso_urb i u (s\<lparr>x_heap := h\<rparr>))) = (\<lambda>_. False)" for u
    using m(2) by (simp add: set_iso_urb_def split: urb_array.split)
  then show ?case using Cons.IH m(1) by (simp add: Let_def)
qed simp

lemma iso_submit_loop_returns: "fst (iso_submit_loop (\<lambda>_. 0) dis n is s) = 0"
  by (induction "is" arbitrary: s) simp_all

lemma iso_total_replicate: "ip_length d \<le> mx \<Longrightarrow> iso_total mx (replicate n d) t = Some (t + of_nat n * ip_length d)"
  by (induction n arbitrary: t) (simp_all add: algebra_simps)

lemma submit_iso_accepts:
  assumes "oom (x_heap s) = (\<lambda>_. False)" "1 \<le> num_iso_packets s" "iso_total mx (iso_packets s) 0 = Some t" "sint t \<le> x_length s"
  shows "fst (submit_iso_transfer mx (\<lambda>_. 0) dis s) = 0"
proof -
  obtain h where m: "malloc (x_heap s) = (Some (next_block (x_heap s)), h)" "oom h = (\<lambda>_. False)"
    using assms(1) by (simp add: malloc_def Let_def)
  show ?thesis using assms(2-4) m iso_alloc_loop_returns iso_submit_loop_returns
    by (auto simp: submit_iso_transfer_def iso_packets_def [symmetric] Let_def case_prod_beta)
qed

end
