(* ===== verification/Usbfs_Theorems.thy ===== *)
theory Usbfs_Theorems
  imports Usbfs_Iso
begin

text \<open>
  The properties of the Linux backend of libusb: bulk and interrupt transfers are reported once, with their data in order and
  cut into URBs that cover the buffer; isochronous packets are where the client looks for them and get their own results;
  and the cases in which the code goes wrong.  The first sections are example transfers.
\<close>

section \<open>Example transfers\<close>

text \<open>Two URBs, of 16384 and 3616 bytes.\<close>

definition demo_bulk :: linux_transfer where
  "demo_bulk = \<lparr>u_timeout = (0, 0), u_transferred = 0, u_state_flags = 0, u_timeout_flags = 0, x_dev_handle = Some 1, x_flags = 0,
     x_type = LIBUSB_TRANSFER_TYPE_BULK, x_timeout = 0, x_status = 0, x_length = 20000, x_actual_length = 0, x_buffer = None,
     x_endpoint = 0x81, x_stream_id = 0, num_iso_packets = 0, iso_packet_desc = [], tp_urbs = NoUrbs, tp_reap_action = NORMAL,
     tp_num_urbs = 0, tp_num_retired = 0, tp_reap_status = 0, tp_iso_packet_offset = 0, x_data = replicate 20000 0,
     x_heap = \<lparr>next_block = 1, live = {}, oom = \<lambda>_. False, corrupt = False\<rparr>, k_queue = [], k_discarded = []\<rparr>"

abbreviation demo_bulk_heap :: heap where
  "demo_bulk_heap \<equiv> \<lparr>next_block = 1, live = {}, oom = \<lambda>_. False, corrupt = False\<rparr>"

lemma demo_bulk_fields: "x_heap demo_bulk = demo_bulk_heap" "k_queue demo_bulk = []" "u_transferred demo_bulk = 0"
  "x_length demo_bulk = 20000" "length (x_data demo_bulk) = 20000" "x_type demo_bulk = 2" "x_endpoint demo_bulk = 0x81"
  "x_flags demo_bulk = 0" "x_stream_id demo_bulk = 0" "\<not> is_out demo_bulk"
  by (simp_all add: demo_bulk_def is_out_def usb_consts)

lemma demo_heap_ok: "heap_ok demo_bulk_heap"
  by (simp add: heap_ok_def)

lemma demo_pieces: "bulk_buffer 0 20000 = (16384, False)" "bulk_buffer 2 20000 = (16384, True)" "bulk_num_urbs 20000 16384 = (2, True)"
  by (simp_all add: bulk_num_urbs_def bulk_buffer_def sdiv_smod_nonneg usb_consts)

lemma demo_upt: "[0..<2] = [0, 1]"
  by (simp add: upt_rec)

text \<open>The state after the submission, when the kernel takes both URBs, and when it refuses the second.\<close>

lemma demo_submitted:
  "\<exists>s. op_submit_transfer 0 0 (\<lambda>_. 0) (\<lambda>_. 0) demo_bulk = (0, s) \<and> k_queue s = [0, 1] \<and> static s = (20000, 2, 0x81, 0, 0, 2) \<and>
     tp_reap_action s = NORMAL \<and> tp_num_retired s = 0 \<and> tp_reap_status s = 0"
  by (simp add: op_submit_transfer_def submit_bulk_transfer_def Let_def demo_bulk_fields demo_pieces demo_upt
      malloc_def update_urb_def static_def LIBUSB_TRANSFER_TYPE_BULK_def LIBUSB_TRANSFER_TYPE_CONTROL_def LIBUSB_TRANSFER_COMPLETED_def)

lemma demo_refused:
  "\<exists>s. op_submit_transfer 2 0 (\<lambda>i. if i = 0 then 0 else EREMOTEIO) (\<lambda>_. 0) demo_bulk = (0, s) \<and> k_queue s = [0] \<and>
     static s = (20000, 2, 0x81, 0, 0, 2) \<and> tp_reap_action s = COMPLETED_EARLY \<and> tp_num_retired s = 1 \<and> tp_reap_status s = 0"
  by (simp add: op_submit_transfer_def submit_bulk_transfer_def Let_def demo_bulk_fields demo_pieces demo_upt
      malloc_def update_urb_def static_def LIBUSB_TRANSFER_TYPE_BULK_def LIBUSB_TRANSFER_TYPE_CONTROL_def LIBUSB_TRANSFER_COMPLETED_def
      EREMOTEIO_def)

lemma demo_run: "\<exists>s. (\<forall>w. bulk_run 0 w demo_bulk_heap ([], [], s)) \<and> k_queue s = [0, 1] \<and> static s = (20000, 2, 0x81, 0, 0, 2) \<and>
    tp_reap_action s = NORMAL \<and> tp_num_retired s = 0 \<and> tp_reap_status s = 0"
proof -
  obtain s where s: "op_submit_transfer 0 0 (\<lambda>_. 0) (\<lambda>_. 0) demo_bulk = (0, s)" "k_queue s = [0, 1]"
    "static s = (20000, 2, 0x81, 0, 0, 2)" "tp_reap_action s = NORMAL" "tp_num_retired s = 0" "tp_reap_status s = 0"
    using demo_submitted by blast
  have "bulk_run 0 w demo_bulk_heap ([], [], s)" for w
    by (rule bulk_run.submit [OF _ _ _ _ _ _ s(1)]) (simp_all add: demo_bulk_fields bulk_type_def usb_consts)
  with s show ?thesis by blast
qed

lemma static_fields: "static s = (len, ty, ep, fl, sid, n) \<Longrightarrow> x_length s = len \<and> x_type s = ty \<and> x_endpoint s = ep \<and> tp_num_urbs s = n"
  by (simp add: static_def)

text \<open>The first URB is short; the second was sent to be discarded but brings a byte nevertheless.\<close>

lemma demo_returned: "\<exists>rs s. bulk_run 0 True demo_bulk_heap ([(0, [1, 2]), (0, [3])], rs, s) \<and> k_queue s = [] \<and>
    static s = (20000, 2, 0x81, 0, 0, 2)"
proof -
  obtain s where s: "bulk_run 0 True demo_bulk_heap ([], [], s)" "k_queue s = [0, 1]" "static s = (20000, 2, 0x81, 0, 0, 2)"
    using demo_run by blast
  obtain rs1 s1 where s1: "bulk_run 0 True demo_bulk_heap ([] @ [(0, [1, 2])], rs1, s1)" "k_queue s1 = [1]" "static s1 = static s"
    using bulk_run_step [OF s(1) demo_heap_ok s(2), of "[1, 2]" 0] static_fields [OF s(3)] by (auto simp: demo_pieces EOVERFLOW_def)
  obtain rs2 s2 where s2: "bulk_run 0 True demo_bulk_heap (([] @ [(0, [1, 2])]) @ [(0, [3])], rs2, s2)" "k_queue s2 = []" "static s2 = static s1"
    using bulk_run_step [OF s1(1) demo_heap_ok s1(2), of "[3]" 0] static_fields [OF s1(3) [unfolded s(3)]]
    by (auto simp: demo_pieces EOVERFLOW_def)
  then show ?thesis using s1 s by auto
qed

lemma demo_linked:
  "\<exists>s. submit_bulk_transfer 2 (\<lambda>_. 0) (\<lambda>_. 0) demo_bulk = (0, s) \<and> k_queue s = [0, 1]"
  by (simp add: submit_bulk_transfer_def Let_def demo_bulk_fields demo_pieces demo_upt malloc_def update_urb_def)

lemma demo_open:
  assumes "bulk_run caps True demo_bulk_heap ([], [], s)" "k_queue s = 0 # q" "static s = (20000, 2, 0x81, 0, 0, 2)"
  shows "\<exists>b u us. tp_urbs s = Urbs b (u # us)"
proof -
  have "bulk_inv caps demo_bulk_heap ([], [], s)" using bulk_run_inv [OF assms(1) demo_heap_ok] .
  then have "bulk_open caps demo_bulk_heap 0 s" by (simp add: bulk_inv_def)
  then obtain b us where "tp_urbs s = Urbs b us" "int (length us) = tp_num_urbs s" by (auto simp: bulk_open_def)
  moreover have "tp_num_urbs s = 2" using assms(3) by (simp add: static_def)
  ultimately show ?thesis by (cases us) auto
qed

text \<open>The state after the first URB has come back, without data.\<close>

lemma demo_reap:
  assumes "bulk_run caps True demo_bulk_heap ([], [], s)" "k_queue s = 0 # q" "static s = (20000, 2, 0x81, 0, 0, 2)"
  shows "\<exists>b u us s1. usbfs_reap 0 status [] s = Some s1 \<and> k_queue s1 = q \<and> static s1 = static s \<and> tp_reap_action s1 = tp_reap_action s \<and>
    tp_num_retired s1 = tp_num_retired s \<and> tp_reap_status s1 = tp_reap_status s \<and> tp_urbs s1 = Urbs b (u # us) \<and>
    urb_status u = status \<and> urb_actual_length u = 0"
proof -
  obtain b u us where u: "tp_urbs s = Urbs b (u # us)" using demo_open [OF assms] by blast
  have inv: "bulk_inv caps demo_bulk_heap ([], [], s)" using bulk_run_inv [OF assms(1) demo_heap_ok] .
  then have "\<exists>s1. usbfs_reap 0 status [] s = Some s1"
    using usbfs_reap_returns [OF inv assms(2), of "[]" status] by (simp add: bulk_buffer_def)
  then obtain s1 where s1: "usbfs_reap 0 status [] s = Some s1" by blast
  then show ?thesis using usbfs_reap_Urbs [OF s1 u _ assms(2)] by auto
qed

section \<open>Example isochronous transfers\<close>

definition demo_iso :: "nat \<Rightarrow> u32 \<Rightarrow> int \<Rightarrow> linux_transfer" where
  "demo_iso n len room = demo_bulk\<lparr>x_type := LIBUSB_TRANSFER_TYPE_ISOCHRONOUS, x_length := room, num_iso_packets := int n,
     iso_packet_desc := replicate n \<lparr>ip_length = len, ip_actual_length = 0, ip_status = 0\<rparr>\<rparr>"

lemma demo_iso_fields: "x_heap (demo_iso n len room) = demo_bulk_heap" "k_queue (demo_iso n len room) = []" "tp_urbs (demo_iso n len room) = NoUrbs"
  "num_iso_packets (demo_iso n len room) = int n" "length (iso_packet_desc (demo_iso n len room)) = n"
  "iso_packets (demo_iso n len room) = replicate n \<lparr>ip_length = len, ip_actual_length = 0, ip_status = 0\<rparr>"
  "x_length (demo_iso n len room) = room" "x_type (demo_iso n len room) = LIBUSB_TRANSFER_TYPE_ISOCHRONOUS"
  by (simp_all add: demo_iso_def demo_bulk_def iso_packets_def)

lemma iso_bytes_replicate: "iso_bytes (replicate n d) = n * unat (ip_length d)"
  by (simp add: iso_bytes_def sum_list_replicate)

lemma demo_iso_submitted:
  assumes "1 \<le> n" "len \<le> mx" "sint (of_nat n * len) \<le> room"
  shows "\<exists>s. submit_iso_transfer mx (\<lambda>_. 0) (\<lambda>_. 0) (demo_iso n len room) = (0, s)"
proof -
  have "fst (submit_iso_transfer mx (\<lambda>_. 0) (\<lambda>_. 0) (demo_iso n len room)) = 0"
    by (rule submit_iso_accepts) (use assms in \<open>simp_all add: demo_iso_fields iso_total_replicate\<close>)
  then show ?thesis by (metis prod.collapse)
qed

text \<open>Two packets of 8 bytes, of which the second has no data.\<close>

lemma demo_iso_run: "\<exists>rs s. iso_run demo_bulk_heap ([(0, [(0, 8), (- EXDEV, 0)])], rs, s) \<and> k_queue s = []"
proof -
  obtain s where s: "submit_iso_transfer 1024 (\<lambda>_. 0) (\<lambda>_. 0) (demo_iso 2 8 16) = (0, s)"
    using demo_iso_submitted [of 2 8 1024 16] by auto
  have o: "owned [] (x_heap (demo_iso 2 8 16)) {}" by (simp add: demo_iso_fields owned_Nil heap_ok_def)
  have c: "iso_count (demo_iso 2 8 16) = 1" by (simp add: iso_count_def demo_iso_fields)
  obtain m where m: "0 < m" "m \<le> 1" "k_queue s = [0..<m]" "num_iso_packets s = 2"
    using submit_iso_result [OF s _ o] c by (auto simp: demo_iso_fields)
  then have q: "k_queue s = [0]" by (cases m) auto
  have "op_submit_transfer 0 1024 (\<lambda>_. 0) (\<lambda>_. 0) (demo_iso 2 8 16) = (0, s)"
    using s by (simp add: op_submit_transfer_def demo_iso_fields usb_consts)
  then have "iso_run demo_bulk_heap ([], [], s)"
    by (rule iso_run.submit [rotated 5]) (simp_all add: demo_iso_fields)
  then show ?thesis
    using iso_run_step [OF _ demo_heap_ok q, of "[]" "[]" "[(0, 8), (- EXDEV, 0)]" 0] m(4) by auto
qed

section \<open>Bulk transfers\<close>





text \<open>
  C37: the URBs that a bulk or interrupt transfer is cut into follow one another in its buffer without a gap or an overlap,
  end inside it, are at most 16384 bytes long unless the kernel splits transfers itself or has no limit, and when the kernel
  takes all of them cover the buffer exactly.  With linked URBs, every URB but the first continues the transfer, and
  short data is an error of every URB but the last of a transfer from the device.
\<close>

theorem bulk_urbs_cover_buffer:
  assumes "submit_bulk_transfer caps sub dis s = (0, s')" and "0 \<le> x_length s" and "k_queue s = []"
  shows "\<exists>b us m. tp_urbs s' = Urbs b us \<and> k_queue s' = [0..<m] \<and> 0 < m \<and> m \<le> length us \<and>
    (\<forall>i < m. let u = us ! i in
       urb_buffer u = sum_list (map urb_buffer_length (take i us)) \<and> 0 \<le> urb_buffer_length u \<and>
       urb_buffer u + urb_buffer_length u \<le> x_length s \<and> (x_length s \<noteq> 0 \<longrightarrow> 0 < urb_buffer_length u) \<and>
       (caps AND (USBFS_CAP_BULK_SCATTER_GATHER OR USBFS_CAP_NO_PACKET_SIZE_LIM) = 0 \<longrightarrow> urb_buffer_length u \<le> 16384) \<and>
       (urb_flags u AND USBFS_URB_BULK_CONTINUATION \<noteq> 0 \<longleftrightarrow> snd (bulk_buffer caps (x_length s)) \<and> 0 < i) \<and>
       (urb_flags u AND USBFS_URB_SHORT_NOT_OK \<noteq> 0 \<longleftrightarrow>
         snd (bulk_buffer caps (x_length s)) \<and> \<not> is_out s \<and> Suc i < length us)) \<and>
    (m = length us \<longrightarrow> sum_list (map urb_buffer_length us) = x_length s)"
proof -
  let ?n = "bulk_count caps (x_length s)" and ?L = "fst (bulk_buffer caps (x_length s))"
  obtain b m us where r: "tp_urbs s' = Urbs b us" "length us = nat ?n" "0 < m" "m \<le> nat ?n" "k_queue s' = [0..<m]"
    "\<forall>i < m. us ! i = bulk_urb caps s i (calloc_urb [])"
    using submit_bulk_result [OF assms] by blast
  have L: "0 < ?L" using bulk_buffer_pos assms(2) .
  note bd = bulk_count_bounds [OF assms(2), of caps]
  have n: "int (length us) = ?n" "m \<le> length us" using r(2,4) bd(1) by simp_all
  note tile = bulk_urbs_tile [OF assms(2) n r(6)]
  have piece: "urb_buffer (us ! i) = int i * ?L" "urb_buffer_length (us ! i) = min ?L (x_length s - int i * ?L)" if "i < m" for i
    using bulk_urb_layout [OF assms(2), of i] r(6) n that by simp_all
  have lim: "caps AND (USBFS_CAP_BULK_SCATTER_GATHER OR USBFS_CAP_NO_PACKET_SIZE_LIM) = 0 \<Longrightarrow> ?L = 16384"
    by (simp add: bulk_buffer_def MAX_BULK_BUFFER_LENGTH_def bit.conj_disj_distrib or_eq_0_iff)
  show ?thesis
  proof (intro exI conjI)
    show "\<forall>i < m. let u = us ! i in
       urb_buffer u = sum_list (map urb_buffer_length (take i us)) \<and> 0 \<le> urb_buffer_length u \<and>
       urb_buffer u + urb_buffer_length u \<le> x_length s \<and> (x_length s \<noteq> 0 \<longrightarrow> 0 < urb_buffer_length u) \<and>
       (caps AND (USBFS_CAP_BULK_SCATTER_GATHER OR USBFS_CAP_NO_PACKET_SIZE_LIM) = 0 \<longrightarrow> urb_buffer_length u \<le> 16384) \<and>
       (urb_flags u AND USBFS_URB_BULK_CONTINUATION \<noteq> 0 \<longleftrightarrow> snd (bulk_buffer caps (x_length s)) \<and> 0 < i) \<and>
       (urb_flags u AND USBFS_URB_SHORT_NOT_OK \<noteq> 0 \<longleftrightarrow>
         snd (bulk_buffer caps (x_length s)) \<and> \<not> is_out s \<and> Suc i < length us)"
    proof (intro allI impI)
      fix i assume i: "i < m"
      have "int i < ?n" using i n by linarith
      note fl = bulk_urb_flags [OF assms(2) this]
      have "int i < ?n - 1 \<longleftrightarrow> Suc i < length us" using n by linarith
      then show "let u = us ! i in
       urb_buffer u = sum_list (map urb_buffer_length (take i us)) \<and> 0 \<le> urb_buffer_length u \<and>
       urb_buffer u + urb_buffer_length u \<le> x_length s \<and> (x_length s \<noteq> 0 \<longrightarrow> 0 < urb_buffer_length u) \<and>
       (caps AND (USBFS_CAP_BULK_SCATTER_GATHER OR USBFS_CAP_NO_PACKET_SIZE_LIM) = 0 \<longrightarrow> urb_buffer_length u \<le> 16384) \<and>
       (urb_flags u AND USBFS_URB_BULK_CONTINUATION \<noteq> 0 \<longleftrightarrow> snd (bulk_buffer caps (x_length s)) \<and> 0 < i) \<and>
       (urb_flags u AND USBFS_URB_SHORT_NOT_OK \<noteq> 0 \<longleftrightarrow>
         snd (bulk_buffer caps (x_length s)) \<and> \<not> is_out s \<and> Suc i < length us)"
        using piece [OF i] tile [of i] i fl r(6) L lim assms(2) by (simp add: Let_def min_def)
    qed
    show "m = length us \<longrightarrow> sum_list (map urb_buffer_length us) = x_length s"
      using tile(1) [of m] bd(2) n by (auto simp: min_def)
  qed (use r n in simp_all)
qed

theorem bulk_urbs_cover_buffer_witness:
  "\<exists>s b us. submit_bulk_transfer 2 (\<lambda>_. 0) (\<lambda>_. 0) demo_bulk = (0, s) \<and> tp_urbs s = Urbs b us \<and>
     urb_buffer (us ! 1) = urb_buffer_length (us ! 0) \<and> urb_flags (us ! 1) AND USBFS_URB_BULK_CONTINUATION \<noteq> 0"
proof -
  obtain s where s: "submit_bulk_transfer 2 (\<lambda>_. 0) (\<lambda>_. 0) demo_bulk = (0, s)" "k_queue s = [0, 1]" using demo_linked by blast
  from bulk_urbs_cover_buffer [OF s(1)] obtain b us m where r: "tp_urbs s = Urbs b us" "k_queue s = [0..<m]" "m \<le> length us"
    "\<forall>i < m. let u = us ! i in urb_buffer u = sum_list (map urb_buffer_length (take i us)) \<and>
       (urb_flags u AND USBFS_URB_BULK_CONTINUATION \<noteq> 0 \<longleftrightarrow> snd (bulk_buffer 2 (x_length demo_bulk)) \<and> 0 < i)"
    by (auto simp: demo_bulk_fields Let_def)
  have "length [0..<m] = length [0 :: nat, 1]" using s(2) r(2) by simp
  then have m: "m = 2" by simp
  then obtain u v ws where us: "us = u # v # ws" using r(3) by (cases us) (auto simp: neq_Nil_conv Suc_le_length_iff numeral_2_eq_2)
  have "urb_buffer (us ! 1) = urb_buffer_length (us ! 0) \<and> urb_flags (us ! 1) AND USBFS_URB_BULK_CONTINUATION \<noteq> 0"
    using r(4) [rule_format, of 1] m us by (simp add: Let_def demo_bulk_fields demo_pieces)
  then show ?thesis using s(1) r(1) by blast
qed

section \<open>Isochronous transfers\<close>





section \<open>Where the code goes wrong\<close>

text \<open>
  C40: an overflow in a URB that is not the last frees the URBs while the kernel has another of them, which then comes back
  to nothing.  When the kernel refuses a linked URB because one before it failed, the transfer is taken for a short one, and a
  stalled endpoint is reported as completed.  The lengths of isochronous packets are summed in 32 bits, and
  packets of 2 GiB pass the check against a buffer of no bytes.
\<close>

theorem usbfs_errors_mishandled:
  "(\<exists>s. bulk_run 0 False demo_bulk_heap ([(- EOVERFLOW, []), (0, [])], [Completion LIBUSB_TRANSFER_OVERFLOW, Fault], s)) \<and>
   (\<exists>s. bulk_run 2 True demo_bulk_heap ([(- EPIPE, [])], [Completion LIBUSB_TRANSFER_COMPLETED], s)) \<and>
   (\<exists>s s'. submit_iso_transfer 49152 (\<lambda>_. 0) (\<lambda>_. 0) s = (0, s') \<and> x_length s = 0 \<and> iso_bytes (iso_packets s) = 2147500032)"
proof (intro conjI)
  show "\<exists>s. bulk_run 0 False demo_bulk_heap ([(- EOVERFLOW, []), (0, [])], [Completion LIBUSB_TRANSFER_OVERFLOW, Fault], s)"
  proof -
    obtain s where s: "\<forall>w. bulk_run 0 w demo_bulk_heap ([], [], s)" "k_queue s = [0, 1]" "static s = (20000, 2, 0x81, 0, 0, 2)"
      "tp_reap_action s = NORMAL" "tp_reap_status s = 0" using demo_run by blast
    obtain b u us s1 where s1: "usbfs_reap 0 (- EOVERFLOW) [] s = Some s1" "k_queue s1 = [1]" "static s1 = static s"
      "tp_reap_action s1 = NORMAL" "tp_reap_status s1 = 0" "tp_urbs s1 = Urbs b (u # us)" "urb_status u = - EOVERFLOW"
      using demo_reap [OF s(1) [rule_format] s(2,3), of "- EOVERFLOW"] s(4,5) by auto
    have ty: "x_type s1 = 2" using s1(3) s(3) by (simp add: static_def)
    obtain s2 where s2: "reap_urb (\<lambda>_. 0) 0 s1 = (Completion LIBUSB_TRANSFER_OVERFLOW, s2)" "k_queue s2 = [1]" "tp_urbs s2 = NoUrbs"
      "x_type s2 = 2"
      using ty s1 by (simp add: reap_urb_def handle_bulk_completion_def bulk_normal_def bulk_status_def bulk_completed_def
          free_urbs_def usb_consts Let_def)
    have r1: "bulk_run 0 False demo_bulk_heap ([] @ [(- EOVERFLOW, [])],
        [] @ (if Completion LIBUSB_TRANSFER_OVERFLOW = Waiting then [] else [Completion LIBUSB_TRANSFER_OVERFLOW]), s2)"
      by (rule bulk_run.reap [OF s(1) [rule_format] s(2) s1(1) _ s2(1)]) simp
    obtain s3 where s3: "usbfs_reap 1 0 [] s2 = Some s3" "tp_urbs s3 = NoUrbs" "x_type s3 = 2"
      using s2 by (simp add: usbfs_reap_def)
    have f: "reap_urb (\<lambda>_. 0) 1 s3 = (Fault, s3)" using s3 by (simp add: reap_urb_def handle_bulk_completion_def usb_consts)
    show ?thesis using bulk_run.reap [OF r1 s2(2) s3(1) _ f] by auto
  qed
next
  show "\<exists>s. bulk_run 2 True demo_bulk_heap ([(- EPIPE, [])], [Completion LIBUSB_TRANSFER_COMPLETED], s)"
  proof -
    obtain s where s: "op_submit_transfer 2 0 (\<lambda>i. if i = 0 then 0 else EREMOTEIO) (\<lambda>_. 0) demo_bulk = (0, s)" "k_queue s = [0]"
      "static s = (20000, 2, 0x81, 0, 0, 2)" "tp_reap_action s = COMPLETED_EARLY" "tp_num_retired s = 1" "tp_reap_status s = 0"
      using demo_refused by blast
    have r: "bulk_run 2 True demo_bulk_heap ([], [], s)"
      by (rule bulk_run.submit [OF _ _ _ _ _ _ s(1)]) (simp_all add: demo_bulk_fields bulk_type_def usb_consts)
    obtain b u us s1 where s1: "usbfs_reap 0 (- EPIPE) [] s = Some s1" "static s1 = static s"
      "tp_reap_action s1 = COMPLETED_EARLY" "tp_num_retired s1 = 1" "tp_reap_status s1 = 0" "tp_urbs s1 = Urbs b (u # us)" "urb_actual_length u = 0"
      using demo_reap [OF r s(2,3), of "- EPIPE"] s(4-6) by auto
    have ty: "x_type s1 = 2" "tp_num_urbs s1 = 2" using s1(2) s(3) by (simp_all add: static_def)
    obtain s2 where s2: "reap_urb (\<lambda>_. 0) 0 s1 = (Completion LIBUSB_TRANSFER_COMPLETED, s2)"
      using ty s1 by (simp add: reap_urb_def handle_bulk_completion_def bulk_abnormal_def bulk_surplus_def bulk_completed_def
          usb_consts Let_def)
    show ?thesis using bulk_run.reap [OF r s(2) s1(1) _ s2] by (auto simp: EPIPE_def EOVERFLOW_def)
  qed
next
  show "\<exists>s s'. submit_iso_transfer 49152 (\<lambda>_. 0) (\<lambda>_. 0) s = (0, s') \<and> x_length s = 0 \<and> iso_bytes (iso_packets s) = 2147500032"
  proof -
    have "\<exists>s. submit_iso_transfer 49152 (\<lambda>_. 0) (\<lambda>_. 0) (demo_iso 43691 49152 0) = (0, s)"
      by (rule demo_iso_submitted) simp_all
    moreover have "iso_bytes (iso_packets (demo_iso 43691 49152 0)) = 2147500032"
      by (simp add: demo_iso_fields iso_bytes_replicate)
    ultimately show ?thesis using demo_iso_fields(7) by blast
  qed
qed

end
