(* ===== verification/Spec2Isabelle.thy ===== *)
theory Spec2Isabelle
  imports Ubpf_Theorems Loader_Theorems Jit_Theorems Etherbone_Theorems Ubpf_Session Usb_Theorems Usb_Core_Theorems Usb_Transfer_Theorems Usbfs_Theorems
begin

text \<open>
  This library models the C programs of the VeBPF tool chain that run on the host: the uBPF virtual machine with its
  ELF loader and its x86-64 compiler (\<^verbatim>\<open>src/tools/ubpf/vm\<close>), the Etherbone client that reaches the FPGA's bus over the
  network (\<^verbatim>\<open>src/tools/wishbone-utils/libeb-c\<close>), and, of the libusb that \<^verbatim>\<open>wishbone-tool\<close> links for
  the same bus over USB (\<^verbatim>\<open>.../libusb-sys/libusb/libusb\<close>), the portable part and the transfers of the Linux backend.

  \<^bold>\<open>Conventions.\<close>  Machine integers are words of their width; a C \<^verbatim>\<open>int\<close> is an \<^typ>\<open>int\<close> where the code compares it, and the
  places where it could overflow are written out.  Errors are values: a sum with the error, or the negative code and a
  null pointer.  Undefined behaviour of C is a value of its own, \<^term>\<open>None\<close> or a constructor (\<^verbatim>\<open>Undef\<close>, \<^verbatim>\<open>PortFault\<close>),
  so that a theorem that such a value does not occur says something.  Memory is modelled as far as ownership goes (\<^verbatim>\<open>C_Heap\<close>):
  \<^verbatim>\<open>malloc\<close> can fail at any call, which an oracle decides, and \<^verbatim>\<open>free\<close>, or an access to a block that is not live, sets
  the flag \<^verbatim>\<open>corrupt\<close>.  Code outside the repository (external functions of a program, the network, the operating
  system backend of libusb, the client's callbacks) is an argument.

  \<^bold>\<open>uBPF.\<close>
  \<^item> \<^verbatim>\<open>Ebpf\<close>: \<^verbatim>\<open>ebpf.h\<close>, the instruction format and every opcode.  \<^verbatim>\<open>Ubpf_VM\<close>: \<^verbatim>\<open>ubpf_vm.c\<close> without the interpreter: creation,
    registration of functions, \<^verbatim>\<open>validate\<close>, loading, destruction.  \<^verbatim>\<open>Ubpf_Exec\<close>: \<^verbatim>\<open>ubpf_exec\<close>, one definition for each group
    of cases, and \<^verbatim>\<open>bounds_check\<close>; a run is a relation and a function with fuel.  A program without backward jumps
    needs one step more than it has instructions, which is proved.
  \<^item> \<^verbatim>\<open>Ubpf_Verifier\<close>, \<^verbatim>\<open>Ubpf_Steps\<close>, \<^verbatim>\<open>Ubpf_Alu\<close>, \<^verbatim>\<open>Ubpf_Safety\<close>, \<^verbatim>\<open>Ubpf_Defined\<close>, \<^verbatim>\<open>Ubpf_Theorems\<close>: what the verifier
    accepts, that a loaded program stays on instruction boundaries, which undefined behaviour is left to it, that it
    changes no memory but the context and the stack, and that the arithmetic meets one specification.
    \<^verbatim>\<open>Ubpf_Examples\<close> has the programs of the witnesses.
  \<^item> \<^verbatim>\<open>Ubpf_Loader\<close>, \<^verbatim>\<open>Loader_Theorems\<close>: \<^verbatim>\<open>ubpf_loader.c\<close>, sections, relocations, on any bytes.
  \<^item> \<^verbatim>\<open>Jit_Emit\<close> and \<^verbatim>\<open>Jit\<close>: \<^verbatim>\<open>ubpf_jit_x86_64.h\<close> and \<^verbatim>\<open>.c\<close>.  \<^verbatim>\<open>Jit_Encoding\<close>, \<^verbatim>\<open>Jit_Correct\<close>, \<^verbatim>\<open>Jit_Theorems\<close>: the emitted
    bytes decode to the instruction meant; every jump arrives where it should.  The bound of 1189 instructions comes from
    the 65536 bytes of the buffer and the longest code of one instruction.
  \<^item> \<^verbatim>\<open>Ubpf_Lifecycle\<close>, \<^verbatim>\<open>Ubpf_Session\<close> and this theory: any sequence of calls of \<^verbatim>\<open>ubpf.h\<close> on one machine,
    after which \<^verbatim>\<open>ubpf_destroy\<close> restores the heap.

  \<^bold>\<open>Etherbone.\<close>  \<^verbatim>\<open>Etherbone\<close> is \<^verbatim>\<open>etherbone.c\<close>: packets, transfers, connections with the descriptors and blocks they hold.
  \<^verbatim>\<open>Etherbone_Theorems\<close> shows the packet format, that reads and writes over a slave that keeps the protocol behave as a
  memory, and that connecting leaks nothing.

  \<^bold>\<open>libusb, descriptors.\<close>  \<^verbatim>\<open>Usb_Defs\<close> and \<^verbatim>\<open>Usb_Descriptor\<close> are the structures and the parsers of \<^verbatim>\<open>descriptor.c\<close>, \<^verbatim>\<open>Usb_Api\<close> its
  exported functions.  \<^verbatim>\<open>Usb_Config\<close> proves that the parser owns what it allocates, through the contract
  \<^verbatim>\<open>heap_object\<close> of \<^verbatim>\<open>C_Heap\<close>; \<^verbatim>\<open>Usb_Theorems\<close> has the properties and the leaks and faults that there are.

  \<^bold>\<open>libusb, core.\<close>
  \<^item> \<^verbatim>\<open>Usb_Events\<close>: the event pipe of a context.  Every critical section of \<^verbatim>\<open>event_data_lock\<close> in \<^verbatim>\<open>io.c\<close>, \<^verbatim>\<open>core.c\<close> and
    \<^verbatim>\<open>hotplug.c\<close> is one operation, and threads are a step relation over them.
  \<^item> \<^verbatim>\<open>Usb_Devices\<close>: \<^verbatim>\<open>core.c\<close>, devices named by their blocks, lists, handles, interfaces.  \<^verbatim>\<open>libusb_context\<close> extends the
    record of the events.  \<^verbatim>\<open>Usb_Hotplug\<close>: \<^verbatim>\<open>hotplug.c\<close>, a round of \<^verbatim>\<open>handle_events\<close> and \<^verbatim>\<open>libusb_exit\<close>.
  \<^item> \<^verbatim>\<open>Usb_Refcount\<close>: the contract \<^verbatim>\<open>refcounted\<close> and its interpretation on \<^verbatim>\<open>libusb_ref_device\<close> and
    \<^verbatim>\<open>libusb_unref_device\<close>, for an invariant that says that a count is the number of references.  \<^verbatim>\<open>Usb_Handles\<close>,
    \<^verbatim>\<open>Usb_Contexts\<close>, \<^verbatim>\<open>Usb_Callbacks\<close> carry it through every operation, with messages and callbacks.
  \<^item> \<^verbatim>\<open>Usb_Session\<close>: \<^verbatim>\<open>libusb_init\<close>, and any sequence of calls of a client and of a backend with hotplug support, the step
    relation \<^verbatim>\<open>usb_step\<close>; \<^verbatim>\<open>usb_session\<close> adds the start and \<^verbatim>\<open>libusb_close\<close>.
    \<^verbatim>\<open>Usb_Ports\<close> and \<^verbatim>\<open>Usb_Core_Theorems\<close>: the properties and an example session.

  A call is one step of a session; only the sections of the event pipe are interleaved.  A client callback may
  deregister callbacks but not call back into libusb otherwise.  The recursion of \<^verbatim>\<open>libusb_unref_device\<close> up the parents ends
  because each call takes a positive count to zero.

  \<^bold>\<open>libusb, transfers.\<close>
  \<^item> \<^verbatim>\<open>Usb_Transfers\<close>: the asynchronous interface of \<^verbatim>\<open>io.c\<close>.  A transfer is named by its block; the list of the transfers in
    flight, the timer and the transfers themselves extend the record of the context.  Submission, cancellation, completion,
    the handling of timeouts, and what \<^verbatim>\<open>core.c\<close> does with transfers when a handle is closed.  A callback of a transfer is
    an argument that maps states to states.  \<^verbatim>\<open>usbi_handle_disconnect\<close> searches the list from its start after each completion,
    and a callback may submit again, so it is a partial function; that it returns, for callbacks that do not submit, is proved.
  \<^item> \<^verbatim>\<open>Usb_Timeouts\<close>: the list is sorted by timeout and the timer is armed for the first that is not handled, kept by
    every operation; the loops against specifications that name the earliest and the expired timeouts.
  \<^item> \<^verbatim>\<open>Usb_Opened\<close>: every open handle of a session is in the list of its context and no step of \<^verbatim>\<open>usb_step\<close> changes another.
  \<^item> \<^verbatim>\<open>Usb_Transfer_Session\<close> and \<^verbatim>\<open>Usb_Transfer_Theorems\<close>: sessions with transfers, \<^verbatim>\<open>usb_transfers\<close>.  A session with
    transfers is a session of \<^verbatim>\<open>Usb_Session\<close> on its devices, in which a submitted transfer is a client's reference, so the
    results on reference counts carry over.

  \<^bold>\<open>The Linux backend of libusb\<close>, the transfers of \<^verbatim>\<open>os/linux_usbfs.c\<close>.
  \<^item> \<^verbatim>\<open>Usbfs_Urbs\<close>: a transfer with its private part (\<^verbatim>\<open>struct linux_transfer_priv\<close>), its buffer, its heap and the URBs
    the kernel holds, in the order of submission.  Submission (\<^verbatim>\<open>submit_bulk_transfer\<close>, \<^verbatim>\<open>submit_iso_transfer\<close>,
    \<^verbatim>\<open>submit_control_transfer\<close>), cancelling, and the handlers of URBs that come back, one definition per block of the code and
    per label of \<^verbatim>\<open>handle_bulk_completion\<close>.  The error numbers of \<^verbatim>\<open>ioctl\<close>, the capabilities and the limit on packets are arguments.
    The packet functions of \<^verbatim>\<open>libusb.h\<close> are here too.
  \<^item> \<^verbatim>\<open>Usbfs_Bulk\<close>: how a buffer is cut into URBs, what a submission leaves, and what one URB that comes back changes.
  \<^item> \<^verbatim>\<open>Usbfs_Runs\<close>: the life of a bulk or interrupt transfer as a step relation \<^verbatim>\<open>bulk_run\<close>: the kernel gives the URBs back in
    the order in which it took them, each with any status and at most the data that was asked for, and the client may
    cancel at any moment.  Its parameter \<^verbatim>\<open>w\<close> restricts overflow to the last URB, which the code supposes and the kernel
    does not promise; \<^verbatim>\<open>halt_ok\<close> says that an endpoint that stalled or went away brings no more data.  The invariants are on the
    URBs and the heap, on the data, and on the status; a run in which the kernel still has URBs can always go on to its report.
  \<^item> \<^verbatim>\<open>Usbfs_Iso\<close>: the same for isochronous transfers, \<^verbatim>\<open>iso_run\<close>: URBs of at most 128 packets, each in a block of its own, and
    the results of the packets.
  \<^item> \<^verbatim>\<open>Usbfs_Theorems\<close>: the properties, and runs in which the code goes wrong.

  \<^bold>\<open>Not modelled.\<close>  The execution of the x86-64 code the compiler emits; \<^verbatim>\<open>test.c\<close>, a command line driver.  Of libusb: the locks
  of event handling beyond the sections of \<^verbatim>\<open>Usb_Events\<close>, the poll descriptors, the synchronous calls of \<^verbatim>\<open>sync.c\<close>, options and
  logging, and the operations of \<^verbatim>\<open>core.c\<close> that only pass their arguments to the backend; of the Linux backend the discovery of
  devices and its file and \<^verbatim>\<open>ioctl\<close> I/O; the other platform backends (\<^verbatim>\<open>os/\<close>), which are system calls, and the FreeBSD
  library, a second implementation of the same interface.  The hardware description, firmware and Rust sources of
  the repository are not C programs.
\<close>

section \<open>Sessions\<close>

definition fresh_heap :: heap where
  "fresh_heap = \<lparr>next_block = 1, live = {}, oom = (\<lambda>_. False), corrupt = False\<rparr>"

lemma fresh_heap_ok: "heap_ok fresh_heap"
  by (simp add: fresh_heap_def heap_ok_def)

lemma demo_session: "session fresh_heap (demo_loaded prog_sum) (demo_heap\<lparr>next_block := 5, live := {1, 2, 3, 4}\<rparr>)"
proof -
  define vm where "vm = (calloc_vm 1)\<lparr>ext_funcs := Some (2, replicate MAX_EXT_FUNCS 0),
     ext_func_names := Some (3, replicate MAX_EXT_FUNCS None), bounds_check_enabled := True\<rparr>"
  have "ubpf_create fresh_heap = (Some vm, demo_heap)"
    by (auto simp: ubpf_create_def malloc_def fresh_heap_def vm_def demo_heap_def Let_def)
  then have "session fresh_heap vm demo_heap" by (rule session.created)
  moreover have "snd (ubpf_register vm 3 ''f'' 0x5000) = demo_vm"
    by (simp add: ubpf_register_def vm_def demo_vm_def MAX_EXT_FUNCS_def)
  ultimately have "session fresh_heap demo_vm demo_heap" using session.registered by metis
  from session.loaded [OF this _ demo_loads(4)] show ?thesis
    by (simp add: demo_decode(2) demo_code_def prog_sum_def)
qed

text \<open>
  C15: whatever a client does with a machine, in whatever order and whatever fails: when it then calls
  \<^verbatim>\<open>ubpf_destroy\<close>, exactly the blocks are live that were live before \<^verbatim>\<open>ubpf_create\<close>, and no
  block was freed twice.
\<close>

theorem session_destroy_restores_heap:
  assumes "session h0 vm h" and "heap_ok h0"
  shows "live (ubpf_destroy vm h) = live h0 \<and> \<not> corrupt (ubpf_destroy vm h)"
  using destroy_owned session_invariant [OF assms] by (auto simp: session_ok_def heap_ok_def)

theorem session_destroy_restores_heap_witness:
  "live (ubpf_destroy (demo_loaded prog_sum) (demo_heap\<lparr>next_block := 5, live := {1, 2, 3, 4}\<rparr>)) = {}"
  using session_destroy_restores_heap [OF demo_session fresh_heap_ok] by (simp add: fresh_heap_def)

end
